(* ===== verification/Js_Runtime.thy ===== *)
theory Js_Runtime
  imports Prelude
begin

unbundle bit_operations_syntax

text \<open>
  The part of JavaScript the client code uses. A Number is \<^term>\<open>NaN\<close> or an integer double: the
  code only adds and subtracts integers, so fractions and infinities do not occur, and the
  rounding of a sum to 53 significant bits is written out (\<open>round53\<close>). \<open>undefined\<close> in an
  arithmetic position is \<^term>\<open>NaN\<close>, as ToNumber makes it. \<open>Array.prototype.sort\<close> takes a
  comparator; for a comparator that orders by a key it is the stable sort by that key
  (locale \<open>key_comparator\<close>), which is all that the standard promises. The virtual DOM is a
  small tree of elements.
\<close>

subsection \<open>Numbers\<close>

datatype jsnum = NaN | Num int

datatype js_error = TypeError | SyntaxError

fun bit_len :: "nat \<Rightarrow> nat" where
  "bit_len n = (if n = 0 then 0 else Suc (bit_len (n div 2)))"

declare bit_len.simps [simp del]

lemma bit_len_le: "n < 2 ^ k \<Longrightarrow> bit_len n \<le> k"
proof (induction k arbitrary: n)
  case 0
  then show ?case by (simp add: bit_len.simps)
next
  case (Suc k)
  then have "n div 2 < 2 ^ k" by auto
  with Suc.IH have "bit_len (n div 2) \<le> k" .
  then show ?case by (simp add: bit_len.simps [of n])
qed

text \<open>Round to nearest, ties to even, at 53 significant bits.\<close>

definition round_nat53 :: "nat \<Rightarrow> nat" where
  "round_nat53 a =
     (let k = bit_len a - 53; q = a div 2 ^ k; r = a mod 2 ^ k;
          up = k > 0 \<and> (2 * r > 2 ^ k \<or> (2 * r = 2 ^ k \<and> odd q))
      in (if up then q + 1 else q) * 2 ^ k)"

definition round53 :: "int \<Rightarrow> int" where
  "round53 n = (if n < 0 then - int (round_nat53 (nat (- n))) else int (round_nat53 (nat n)))"

lemma round_nat53_exact: "a < 2 ^ 53 \<Longrightarrow> round_nat53 a = a"
  using bit_len_le [of a 53] by (simp add: round_nat53_def Let_def)

lemma round53_exact [simp]: "\<bar>n\<bar> < 2 ^ 53 \<Longrightarrow> round53 n = n"
  by (simp add: round53_def round_nat53_exact)

lemma bit_len_lower: "n \<noteq> 0 \<Longrightarrow> 2 ^ (bit_len n - 1) \<le> n"
proof (induction n rule: bit_len.induct)
  case (1 n)
  show ?case
  proof (cases "n div 2 = 0")
    case True
    then have "bit_len n = 1" using 1 by (simp add: bit_len.simps)
    with 1 show ?thesis by simp
  next
    case False
    with 1 have IH: "2 ^ (bit_len (n div 2) - 1) \<le> n div 2" by simp
    from False have "bit_len (n div 2) \<noteq> 0" by (simp add: bit_len.simps [of "n div 2"])
    then have "bit_len n - 1 = Suc (bit_len (n div 2) - 1)"
      using 1 by (simp add: bit_len.simps [of n])
    then have "(2::nat) ^ (bit_len n - 1) = 2 * 2 ^ (bit_len (n div 2) - 1)" by simp
    also have "\<dots> \<le> n" using IH by simp
    finally show ?thesis .
  qed
qed

lemma round_nat53_zero [simp]: "round_nat53 a = 0 \<longleftrightarrow> a = 0"
proof
  assume z: "round_nat53 a = 0"
  show "a = 0"
  proof (rule ccontr)
    assume "a \<noteq> 0"
    then have "2 ^ (bit_len a - 1) \<le> a" by (rule bit_len_lower)
    moreover have "2 ^ (bit_len a - 53) \<le> (2::nat) ^ (bit_len a - 1)"
      by (rule power_increasing) auto
    ultimately have "2 ^ (bit_len a - 53) \<le> a" by (rule le_trans [rotated])
    then have "a div 2 ^ (bit_len a - 53) \<noteq> 0" by (simp add: div_eq_0_iff)
    with z show False by (auto simp: round_nat53_def Let_def split: if_splits)
  qed
qed (simp add: round_nat53_def bit_len.simps)

lemma round_nat53_pos [simp]: "0 < round_nat53 a \<longleftrightarrow> 0 < a"
  by (metis neq0_conv round_nat53_zero)

lemma round53_pos [simp]: "0 < round53 n \<longleftrightarrow> 0 < n"
  by (auto simp: round53_def)

lemma round53_zero [simp]: "round53 n = 0 \<longleftrightarrow> n = 0"
  by (auto simp: round53_def)

lemma round53_neg [simp]: "round53 n < 0 \<longleftrightarrow> n < 0"
  using round53_pos [of n] round53_zero [of n] by linarith

fun js_add :: "jsnum \<Rightarrow> jsnum \<Rightarrow> jsnum" where
  "js_add (Num a) (Num b) = Num (round53 (a + b))"
| "js_add _ _ = NaN"

fun js_sub :: "jsnum \<Rightarrow> jsnum \<Rightarrow> jsnum" where
  "js_sub (Num a) (Num b) = Num (round53 (a - b))"
| "js_sub _ _ = NaN"

fun js_falsy :: "jsnum \<Rightarrow> bool" where
  "js_falsy NaN = True"
| "js_falsy (Num n) = (n = 0)"

definition is_num :: "jsnum \<Rightarrow> bool" where
  "is_num x \<longleftrightarrow> x \<noteq> NaN"

fun num_val :: "jsnum \<Rightarrow> int" where
  "num_val (Num n) = n"
| "num_val NaN = 0"

lemma is_num_simps [simp]: "is_num (Num n)" "\<not> is_num NaN"
  by (simp_all add: is_num_def)

lemma is_numE: "is_num x \<Longrightarrow> (\<And>n. x = Num n \<Longrightarrow> P) \<Longrightarrow> P"
  by (cases x) auto

text \<open>ToInt32 and the shift and mask operators on it.\<close>

definition int32_word :: "int \<Rightarrow> 32 word" where
  "int32_word n = word_of_int n"

definition js_shl :: "int \<Rightarrow> nat \<Rightarrow> int" where
  "js_shl n k = sint (push_bit k (int32_word n))"

definition js_sar :: "int \<Rightarrow> nat \<Rightarrow> int" where
  "js_sar n k = sint (signed_drop_bit k (int32_word n))"

definition js_and :: "int \<Rightarrow> int \<Rightarrow> int" where
  "js_and n m = sint (int32_word n AND int32_word m)"

text \<open>\<^verbatim>\<open>s.substr(-n)\<close>: the last n characters.\<close>

definition js_substr_last :: "nat \<Rightarrow> string \<Rightarrow> string" where
  "js_substr_last n s = drop (length s - n) s"

subsection \<open>Array indexing\<close>

text \<open>A read out of range is \<open>undefined\<close>; for arrays of Numbers that is \<^term>\<open>NaN\<close> in arithmetic.\<close>

definition js_nth :: "jsnum list \<Rightarrow> int \<Rightarrow> jsnum" where
  "js_nth xs i = (if 0 \<le> i \<and> i < int (length xs) then xs ! nat i else NaN)"

lemma js_nth_last [simp]: "xs \<noteq> [] \<Longrightarrow> js_nth xs (int (length xs) - 1) = last xs"
  by (cases xs) (auto simp: js_nth_def last_conv_nth nat_diff_distrib)

lemma js_nth_last_empty [simp]: "js_nth [] i = NaN"
  by (auto simp: js_nth_def)

subsection \<open>Sorting with a comparator\<close>

definition cmp_gt :: "('a \<Rightarrow> 'a \<Rightarrow> jsnum) \<Rightarrow> 'a \<Rightarrow> 'a \<Rightarrow> bool" where
  "cmp_gt cmp a b = (case cmp a b of NaN \<Rightarrow> False | Num n \<Rightarrow> 0 < n)"

definition cmp_lt :: "('a \<Rightarrow> 'a \<Rightarrow> jsnum) \<Rightarrow> 'a \<Rightarrow> 'a \<Rightarrow> bool" where
  "cmp_lt cmp a b = (case cmp a b of NaN \<Rightarrow> False | Num n \<Rightarrow> n < 0)"

definition cmp_eq :: "('a \<Rightarrow> 'a \<Rightarrow> jsnum) \<Rightarrow> 'a \<Rightarrow> 'a \<Rightarrow> bool" where
  "cmp_eq cmp a b \<longleftrightarrow> \<not> cmp_lt cmp a b \<and> \<not> cmp_gt cmp a b"

fun js_insert :: "('a \<Rightarrow> 'a \<Rightarrow> jsnum) \<Rightarrow> 'a \<Rightarrow> 'a list \<Rightarrow> 'a list" where
  "js_insert cmp x [] = [x]"
| "js_insert cmp x (y # ys) = (if cmp_gt cmp x y then y # js_insert cmp x ys else x # y # ys)"

definition js_sort :: "('a \<Rightarrow> 'a \<Rightarrow> jsnum) \<Rightarrow> 'a list \<Rightarrow> 'a list" where
  "js_sort cmp xs = foldr (js_insert cmp) xs []"

lemma js_sort_simps [simp]:
  "js_sort cmp [] = []"
  "js_sort cmp (x # xs) = js_insert cmp x (js_sort cmp xs)"
  by (simp_all add: js_sort_def)

lemma mset_js_insert [simp]: "mset (js_insert cmp x xs) = add_mset x (mset xs)"
  by (induction xs) auto

lemma mset_js_sort [simp]: "mset (js_sort cmp xs) = mset xs"
  by (induction xs) auto

lemma set_js_sort [simp]: "set (js_sort cmp xs) = set xs"
  by (metis mset_js_sort set_mset_mset)

lemma length_js_sort [simp]: "length (js_sort cmp xs) = length xs"
  by (metis mset_js_sort size_mset)

lemma js_sort_Nil_iff [simp]: "js_sort cmp xs = [] \<longleftrightarrow> xs = []"
  by (metis length_0_conv length_js_sort)

text \<open>
  The contract of a comparator that the standard's sort needs: it orders the elements the
  program compares (those of \<open>dom\<close>) by a key in a linear order. Its consequences: the result
  is the stable sort by the key, and any list that is a sorted, stable rearrangement is that
  result, so every conforming engine agrees with \<open>js_sort\<close>.
\<close>

locale key_comparator =
  fixes cmp :: "'a \<Rightarrow> 'a \<Rightarrow> jsnum" and key :: "'a \<Rightarrow> 'k::linorder" and valid :: "'a \<Rightarrow> bool"
  assumes gt_key: "valid a \<Longrightarrow> valid b \<Longrightarrow> cmp_gt cmp a b \<longleftrightarrow> key b < key a"
    and lt_key: "valid a \<Longrightarrow> valid b \<Longrightarrow> cmp_lt cmp a b \<longleftrightarrow> key a < key b"
begin

lemma eq_key: "valid a \<Longrightarrow> valid b \<Longrightarrow> cmp_eq cmp a b \<longleftrightarrow> key a = key b"
  by (auto simp: cmp_eq_def gt_key lt_key)

lemma antisym: "valid a \<Longrightarrow> valid b \<Longrightarrow> cmp_gt cmp a b \<longleftrightarrow> cmp_lt cmp b a"
  by (simp add: gt_key lt_key)

lemma insert_is_insort_key:
  "valid x \<Longrightarrow> \<forall>y \<in> set ys. valid y \<Longrightarrow> js_insert cmp x ys = insort_key key x ys"
  by (induction ys) (auto simp: gt_key not_less)

lemma sort_is_sort_key: "\<forall>x \<in> set xs. valid x \<Longrightarrow> js_sort cmp xs = sort_key key xs"
  by (induction xs) (auto simp: insert_is_insort_key)

lemma sorted_sort: "\<forall>x \<in> set xs. valid x \<Longrightarrow> sorted (map key (js_sort cmp xs))"
  by (simp add: sort_is_sort_key)

lemma stable_sort:
  "\<forall>x \<in> set xs. valid x \<Longrightarrow>
   filter (\<lambda>x. key x = k) (js_sort cmp xs) = filter (\<lambda>x. key x = k) xs"
  by (simp add: sort_is_sort_key sort_key_stable)

lemma engine_agrees:
  assumes "\<forall>x \<in> set xs. valid x" and "mset ys = mset xs" and "sorted (map key ys)"
    and stable: "\<And>k. filter (\<lambda>x. key x = k) ys = filter (\<lambda>x. key x = k) xs"
  shows "ys = js_sort cmp xs"
proof -
  have "sort_key key xs = ys"
  proof (rule properties_for_sort_key)
    show "mset ys = mset xs" by fact
    show "sorted (map key ys)" by fact
    show "filter (\<lambda>x. key k = key x) ys = filter (\<lambda>x. key k = key x) xs" for k
      using stable [of "key k"] by (simp add: eq_commute)
  qed
  with assms(1) show ?thesis by (simp add: sort_is_sort_key)
qed

lemma sort_idem: "\<forall>x \<in> set xs. valid x \<Longrightarrow> js_sort cmp (js_sort cmp xs) = js_sort cmp xs"
  by (simp add: sort_is_sort_key sort_key_id_if_sorted)

end

subsection \<open>A virtual DOM\<close>

text \<open>
  What a template renders to: text, or an element with its tag, its classes, the attributes
  the program binds or reads, and its children.
\<close>

datatype vnode =
    Text string
  | Elem string "string list" "(string \<times> string) list" "vnode list"

fun children :: "vnode \<Rightarrow> vnode list" where
  "children (Text _) = []"
| "children (Elem _ _ _ cs) = cs"

fun tag_name :: "vnode \<Rightarrow> string" where
  "tag_name (Text _) = []"
| "tag_name (Elem t _ _ _) = t"

fun class_list :: "vnode \<Rightarrow> string list" where
  "class_list (Text _) = []"
| "class_list (Elem _ c _ _) = c"

text \<open>\<^verbatim>\<open>v-bind:class\<close> with an object: the keys whose value is truthy.\<close>

definition class_if :: "(string \<times> bool) list \<Rightarrow> string list" where
  "class_if cs = map fst (filter snd cs)"

fun show_num :: "jsnum \<Rightarrow> string" where
  "show_num (Num n) = show_int n"
| "show_num NaN = ''NaN''"

subsection \<open>Page location and socket addresses\<close>

text \<open>\<^verbatim>\<open>s.replace(p, r)\<close> with a string pattern replaces the first occurrence.\<close>

fun starts_with :: "string \<Rightarrow> string \<Rightarrow> bool" where
  "starts_with [] s = True"
| "starts_with (p # ps) [] = False"
| "starts_with (p # ps) (c # cs) = (p = c \<and> starts_with ps cs)"

fun js_replace :: "string \<Rightarrow> string \<Rightarrow> string \<Rightarrow> string" where
  "js_replace p r [] = (if p = [] then r else [])"
| "js_replace p r (c # cs) =
     (if starts_with p (c # cs) then r @ drop (length p) (c # cs) else c # js_replace p r cs)"

record url =
  protocol :: string
  host :: string
  pathname :: string

text \<open>\<^verbatim>\<open>new URL(path, window.location.href)\<close> for an absolute path.\<close>

definition new_url :: "string \<Rightarrow> url \<Rightarrow> url" where
  "new_url path loc = loc\<lparr>pathname := path\<rparr>"

text \<open>The protocol setter keeps a special scheme special; all schemes here are special.\<close>

definition ws_url :: "string \<Rightarrow> url \<Rightarrow> url" where
  "ws_url path loc =
     (let u = new_url path loc in u\<lparr>protocol := js_replace ''http'' ''ws'' (protocol u)\<rparr>)"

end
