(* ===== verification/Json_Codec.thy ===== *)
theory Json_Codec
  imports Js_Runtime
begin

text \<open>
  The text the server and the client exchange. \<open>json_marshal\<close> is Go's
  \<^verbatim>\<open>json.Marshal\<close> on the values the server sends (null, booleans, integers, strings, arrays and
  objects), with its escapes; \<open>json_parse\<close> is \<^verbatim>\<open>JSON.parse\<close> on texts whose numbers are
  integers and whose \<open>\<^bold>u\<close> escapes are ASCII. Strings are byte strings; bytes from 128 on pass
  through both, as the bytes of UTF-8 text do. A websocket frame holds one or more messages
  separated by newlines (\<^verbatim>\<open>writePump\<close> in util.go); the locale \<open>message_codec\<close> says what the
  framing relies on.
\<close>

datatype json =
    JNull
  | JBool bool
  | JNum int
  | JStr string
  | JArr "json list"
  | JObj "(string \<times> json) list"

subsection \<open>Printing\<close>

definition quote_char :: char where "quote_char = CHR 0x22"
definition backslash :: char where "backslash = CHR 0x5C"
definition newline :: char where "newline = CHR 0x0A"

definition hex2 :: "nat \<Rightarrow> string" where
  "hex2 n = [digit_char (n div 16), digit_char (n mod 16)]"

definition escape_char :: "char \<Rightarrow> string" where
  "escape_char c =
     (if c = quote_char then [backslash, quote_char]
      else if c = backslash then [backslash, backslash]
      else if c = newline then [backslash, CHR ''n'']
      else if c = CHR 0x0D then [backslash, CHR ''r'']
      else if c = CHR 0x09 then [backslash, CHR ''t'']
      else if (of_char c :: nat) < 32 \<or> c \<in> {CHR ''<'', CHR ''>'', CHR ''&''}
           then backslash # ''u00'' @ hex2 (of_char c)
      else [c])"

definition print_string :: "string \<Rightarrow> string" where
  "print_string s = quote_char # concat (map escape_char s) @ [quote_char]"

fun json_marshal :: "json \<Rightarrow> string" where
  "json_marshal JNull = ''null''"
| "json_marshal (JBool b) = (if b then ''true'' else ''false'')"
| "json_marshal (JNum i) = show_int i"
| "json_marshal (JStr s) = print_string s"
| "json_marshal (JArr xs) = ''['' @ join_with CHR '','' (map json_marshal xs) @ '']''"
| "json_marshal (JObj fs) =
     ''{'' @ join_with CHR '','' (map (\<lambda>(k, v). print_string k @ '':'' @ json_marshal v) fs) @ ''}''"

text \<open>
  The same layout with any escape of characters. \<open>json_stringify\<close> is the browser's \<^verbatim>\<open>JSON.stringify\<close>, which has the short
  escapes for backspace and form feed and leaves the characters that Go escapes for HTML.
\<close>

definition quoted :: "(char \<Rightarrow> string) \<Rightarrow> string \<Rightarrow> string" where
  "quoted esc s = quote_char # concat (map esc s) @ [quote_char]"

fun json_print :: "(char \<Rightarrow> string) \<Rightarrow> json \<Rightarrow> string" where
  "json_print esc JNull = ''null''"
| "json_print esc (JBool b) = (if b then ''true'' else ''false'')"
| "json_print esc (JNum i) = show_int i"
| "json_print esc (JStr s) = quoted esc s"
| "json_print esc (JArr xs) = ''['' @ join_with CHR '','' (map (json_print esc) xs) @ '']''"
| "json_print esc (JObj fs) =
     ''{'' @ join_with CHR '','' (map (\<lambda>(k, v). quoted esc k @ '':'' @ json_print esc v) fs) @ ''}''"

definition js_escape :: "char \<Rightarrow> string" where
  "js_escape c =
     (if c = quote_char then [backslash, quote_char]
      else if c = backslash then [backslash, backslash]
      else if c = newline then [backslash, CHR ''n'']
      else if c = CHR 0x0D then [backslash, CHR ''r'']
      else if c = CHR 0x09 then [backslash, CHR ''t'']
      else if c = CHR 0x08 then [backslash, CHR ''b'']
      else if c = CHR 0x0C then [backslash, CHR ''f'']
      else if (of_char c :: nat) < 32 then backslash # ''u00'' @ hex2 (of_char c)
      else [c])"

definition json_stringify :: "json \<Rightarrow> string" where
  "json_stringify = json_print js_escape"

lemma json_marshal_print: "json_marshal v = json_print escape_char v"
proof (induction v)
  case (JArr xs)
  then show ?case by (simp cong: map_cong)
next
  case (JObj fs)
  then have "map (\<lambda>(k, v). print_string k @ '':'' @ json_marshal v) fs =
      map (\<lambda>(k, v). quoted escape_char k @ '':'' @ json_print escape_char v) fs"
    by (fastforce simp: print_string_def quoted_def)
  then show ?case by (simp only: json_marshal.simps json_print.simps)
qed (simp_all add: print_string_def quoted_def)

subsection \<open>Parsing\<close>

fun skip_ws :: "string \<Rightarrow> string" where
  "skip_ws [] = []"
| "skip_ws (c # r) =
     (if c \<in> {CHR '' '', CHR 0x09, CHR 0x0A, CHR 0x0D} then skip_ws r else c # r)"

definition expect :: "char \<Rightarrow> string \<Rightarrow> string option" where
  "expect c s = (case skip_ws s of [] \<Rightarrow> None | d # r \<Rightarrow> if d = c then Some r else None)"

definition hex_digit :: "char \<Rightarrow> nat option" where
  "hex_digit c = (let n = of_char c :: nat in
     if 48 \<le> n \<and> n \<le> 57 then Some (n - 48)
     else if 97 \<le> n \<and> n \<le> 102 then Some (n - 87)
     else if 65 \<le> n \<and> n \<le> 70 then Some (n - 55) else None)"

definition unicode_escape :: "char \<Rightarrow> char \<Rightarrow> char \<Rightarrow> char \<Rightarrow> char option" where
  "unicode_escape a b c d =
     (case (hex_digit a, hex_digit b, hex_digit c, hex_digit d) of
        (Some w, Some x, Some y, Some z) \<Rightarrow>
          (let n = 4096 * w + 256 * x + 16 * y + z in if n < 128 then Some (char_of n) else None)
      | _ \<Rightarrow> None)"

definition simple_escape :: "char \<Rightarrow> char option" where
  "simple_escape e =
     (if e \<in> {quote_char, backslash, CHR ''/''} then Some e
      else if e = CHR ''n'' then Some newline
      else if e = CHR ''r'' then Some (CHR 0x0D)
      else if e = CHR ''t'' then Some (CHR 0x09)
      else if e = CHR ''b'' then Some (CHR 0x08)
      else if e = CHR ''f'' then Some (CHR 0x0C)
      else None)"

definition push_char :: "char option \<Rightarrow> (string \<times> string) option \<Rightarrow> (string \<times> string) option" where
  "push_char c p = (case (c, p) of (Some x, Some (s, r)) \<Rightarrow> Some (x # s, r) | _ \<Rightarrow> None)"

text \<open>The rest of a string literal after its opening quote.\<close>

fun parse_string :: "string \<Rightarrow> (string \<times> string) option" where
  "parse_string [] = None"
| "parse_string (x # r) =
     (if x = quote_char then Some ([], r)
      else if x = backslash then
        (case r of
           [] \<Rightarrow> None
         | e # r' \<Rightarrow>
             if e = CHR ''u'' then
               (case r' of
                  a # b # c # d # r'' \<Rightarrow> push_char (unicode_escape a b c d) (parse_string r'')
                | _ \<Rightarrow> None)
             else push_char (simple_escape e) (parse_string r'))
      else if (of_char x :: nat) < 32 then None
      else push_char (Some x) (parse_string r))"

definition parse_number :: "string \<Rightarrow> (json \<times> string) option" where
  "parse_number s =
     (let neg = (s \<noteq> [] \<and> hd s = CHR ''-''); t = (if neg then tl s else s);
          ds = takeWhile is_digit t; r = dropWhile is_digit t
      in if ds = [] \<or> (hd ds = CHR ''0'' \<and> length ds > 1)
            \<or> (r \<noteq> [] \<and> hd r \<in> {CHR ''.'', CHR ''e'', CHR ''E''}) then None
         else Some (JNum (if neg then - int (read_digits ds) else int (read_digits ds)), r))"

fun parse_value :: "nat \<Rightarrow> string \<Rightarrow> (json \<times> string) option"
  and parse_elems :: "nat \<Rightarrow> string \<Rightarrow> (json list \<times> string) option"
  and parse_fields :: "nat \<Rightarrow> string \<Rightarrow> ((string \<times> json) list \<times> string) option" where
  "parse_value 0 s = None"
| "parse_value (Suc n) s =
     (case skip_ws s of
        [] \<Rightarrow> None
      | c # r \<Rightarrow>
          if c = quote_char then map_option (apfst JStr) (parse_string r)
          else if c = CHR ''['' then
            (case expect CHR '']'' r of
               Some r' \<Rightarrow> Some (JArr [], r')
             | None \<Rightarrow> map_option (apfst JArr) (parse_elems n r))
          else if c = CHR ''{'' then
            (case expect CHR ''}'' r of
               Some r' \<Rightarrow> Some (JObj [], r')
             | None \<Rightarrow> map_option (apfst JObj) (parse_fields n r))
          else if starts_with ''null'' (c # r) then Some (JNull, drop 4 (c # r))
          else if starts_with ''true'' (c # r) then Some (JBool True, drop 4 (c # r))
          else if starts_with ''false'' (c # r) then Some (JBool False, drop 5 (c # r))
          else parse_number (c # r))"
| "parse_elems 0 s = None"
| "parse_elems (Suc n) s =
     (case parse_value n s of
        None \<Rightarrow> None
      | Some (v, r) \<Rightarrow>
          (case expect CHR '','' r of
             Some r' \<Rightarrow> map_option (apfst ((#) v)) (parse_elems n r')
           | None \<Rightarrow> (case expect CHR '']'' r of Some r' \<Rightarrow> Some ([v], r') | None \<Rightarrow> None)))"
| "parse_fields 0 s = None"
| "parse_fields (Suc n) s =
     (case expect quote_char s of
        None \<Rightarrow> None
      | Some r \<Rightarrow>
          (case parse_string r of
             None \<Rightarrow> None
           | Some (k, r1) \<Rightarrow>
               (case expect CHR '':'' r1 of
                  None \<Rightarrow> None
                | Some r2 \<Rightarrow>
                    (case parse_value n r2 of
                       None \<Rightarrow> None
                     | Some (v, r3) \<Rightarrow>
                         (case expect CHR '','' r3 of
                            Some r' \<Rightarrow> map_option (apfst ((#) (k, v))) (parse_fields n r')
                          | None \<Rightarrow>
                              (case expect CHR ''}'' r3 of
                                 Some r' \<Rightarrow> Some ([(k, v)], r')
                               | None \<Rightarrow> None))))))"

definition json_parse :: "string \<Rightarrow> json option" where
  "json_parse s =
     (case parse_value (2 * length s + 2) s of
        Some (v, r) \<Rightarrow> if skip_ws r = [] then Some v else None
      | None \<Rightarrow> None)"

subsection \<open>Reading back what was printed\<close>

lemma hex_digit_digit_char [simp]: "d < 16 \<Longrightarrow> hex_digit (digit_char d) = Some d"
  by (simp add: hex_digit_def Let_def)

lemma unicode_escape_hex2:
  "n < 128 \<Longrightarrow> unicode_escape CHR ''0'' CHR ''0'' (digit_char (n div 16)) (digit_char (n mod 16))
     = Some (char_of n)"
proof -
  assume n: "n < 128"
  have z: "hex_digit CHR ''0'' = Some 0" by (simp add: hex_digit_def)
  from n have "16 * (n div 16) + n mod 16 = n" and "n div 16 < 16" by auto
  with n z show ?thesis by (simp add: unicode_escape_def Let_def)
qed

lemma parse_escape_char:
  "parse_string (escape_char c @ t) = push_char (Some c) (parse_string t)"
proof -
  consider (quote) "c = quote_char" | (slash) "c = backslash" | (nl) "c = newline"
    | (cr) "c = CHR 0x0D" | (tab) "c = CHR 0x09"
    | (hex) "c \<notin> {quote_char, backslash, newline, CHR 0x0D, CHR 0x09}"
        "(of_char c :: nat) < 32 \<or> c \<in> {CHR ''<'', CHR ''>'', CHR ''&''}"
    | (plain) "c \<notin> {quote_char, backslash, newline, CHR 0x0D, CHR 0x09}"
        "\<not> ((of_char c :: nat) < 32 \<or> c \<in> {CHR ''<'', CHR ''>'', CHR ''&''})"
    by blast
  then show ?thesis
  proof cases
    case hex
    then have n: "(of_char c :: nat) < 128" by auto
    from hex have e: "escape_char c = backslash # ''u00'' @ hex2 (of_char c)"
      by (auto simp: escape_char_def)
    show ?thesis
      using unicode_escape_hex2 [OF n]
      by (simp add: e hex2_def) (simp add: backslash_def quote_char_def)
  next
    case plain
    then show ?thesis by (auto simp: escape_char_def)
  qed (simp_all add: escape_char_def quote_char_def backslash_def newline_def simple_escape_def)
qed

lemma parse_js_escape: "parse_string (js_escape c @ t) = push_char (Some c) (parse_string t)"
proof -
  consider (hex) "c \<notin> {quote_char, backslash, newline, CHR 0x0D, CHR 0x09, CHR 0x08, CHR 0x0C}" "(of_char c :: nat) < 32"
    | (plain) "c \<notin> {quote_char, backslash, newline, CHR 0x0D, CHR 0x09, CHR 0x08, CHR 0x0C}" "\<not> (of_char c :: nat) < 32"
    | (short) "c \<in> {quote_char, backslash, newline, CHR 0x0D, CHR 0x09, CHR 0x08, CHR 0x0C}"
    by blast
  then show ?thesis
  proof cases
    case hex
    then have n: "(of_char c :: nat) < 128" by simp
    from hex have e: "js_escape c = backslash # ''u00'' @ hex2 (of_char c)" by (auto simp: js_escape_def)
    show ?thesis using unicode_escape_hex2 [OF n] by (simp add: e hex2_def) (simp add: backslash_def quote_char_def)
  next
    case plain
    then show ?thesis by (auto simp: js_escape_def)
  next
    case short
    then show ?thesis
      by (auto simp: js_escape_def quote_char_def backslash_def newline_def simple_escape_def)
  qed
qed

definition value_end :: "string \<Rightarrow> bool" where
  "value_end r \<longleftrightarrow> r = [] \<or> (\<not> is_digit (hd r) \<and> hd r \<notin> {CHR ''.'', CHR ''e'', CHR ''E''})"

lemma is_digit_literals [simp]:
  "\<not> is_digit CHR ''-''" "\<not> is_digit CHR '',''" "\<not> is_digit CHR '']''" "\<not> is_digit CHR ''}''"
  "\<not> is_digit quote_char" "\<not> is_digit newline" "\<not> is_digit CHR ''[''" "\<not> is_digit CHR ''{''"
  "\<not> is_digit CHR ''n''" "\<not> is_digit CHR ''t''" "\<not> is_digit CHR ''f''" "\<not> is_digit CHR '' ''"
  "\<not> is_digit CHR 0x22" "\<not> is_digit CHR 0x09" "\<not> is_digit CHR 0x0A" "\<not> is_digit CHR 0x0D"
  by (simp_all add: is_digit_def char_digit_def quote_char_def newline_def)

lemma value_end_simps [simp]:
  "value_end []" "value_end (CHR '','' # r)" "value_end (CHR '']'' # r)" "value_end (CHR ''}'' # r)"
  by (simp_all add: value_end_def)

lemma takeWhile_show_nat:
  "value_end r \<Longrightarrow> takeWhile is_digit (show_nat n @ r) = show_nat n"
  "value_end r \<Longrightarrow> dropWhile is_digit (show_nat n @ r) = r"
proof -
  assume "value_end r"
  then have r: "r = [] \<or> \<not> is_digit (hd r)" by (auto simp: value_end_def)
  have all: "\<And>c. c \<in> set (show_nat n) \<Longrightarrow> is_digit c" by (rule show_nat_digits)
  show "takeWhile is_digit (show_nat n @ r) = show_nat n"
    using all r by (cases r) (simp_all add: takeWhile_append2)
  show "dropWhile is_digit (show_nat n @ r) = r"
    using all r by (cases r) (simp_all add: dropWhile_append2)
qed

lemma show_nat_canonical: "\<not> (hd (show_nat n) = CHR ''0'' \<and> Suc 0 < length (show_nat n))"
proof (cases "n = 0")
  case True
  then show ?thesis by (simp add: show_base.simps)
next
  case False
  then show ?thesis using show_nat_no_leading_zero by blast
qed

lemma parse_number_show_int:
  assumes "value_end r"
  shows "parse_number (show_int i @ r) = Some (JNum i, r)"
proof -
  have fin: "\<not> (r \<noteq> [] \<and> hd r \<in> {CHR ''.'', CHR ''e'', CHR ''E''})"
    using assms by (auto simp: value_end_def)
  have dash: "hd (show_nat n @ r) \<noteq> CHR ''-''" for n
    using show_nat_digits [of "hd (show_nat n)" n] by (auto simp: hd_append)
  have tw: "takeWhile is_digit (show_nat n @ r) = show_nat n"
    "dropWhile is_digit (show_nat n @ r) = r" for n
    using assms by (rule takeWhile_show_nat)+
  show ?thesis
  proof (cases "i < 0")
    case True
    then show ?thesis
      using fin show_nat_canonical [of "nat (- i)"]
      by (simp add: parse_number_def show_int_def Let_def tw del: dropWhile_eq_Nil_conv)
  next
    case False
    then show ?thesis
      using fin dash [of "nat i"] show_nat_canonical [of "nat i"]
      by (simp add: parse_number_def show_int_def Let_def tw del: dropWhile_eq_Nil_conv)
  qed
qed

fun json_need :: "json \<Rightarrow> nat" where
  "json_need (JArr xs) = Suc (sum_list (map (\<lambda>x. Suc (json_need x)) xs))"
| "json_need (JObj fs) = Suc (sum_list (map (\<lambda>(k, v). Suc (json_need v)) fs))"
| "json_need _ = 1"

text \<open>A printed value starts with a character that is not white space and closes nothing.\<close>

definition value_start :: "string \<Rightarrow> bool" where
  "value_start s \<longleftrightarrow> s \<noteq> [] \<and>
     hd s \<notin> {CHR '' '', CHR 0x09, CHR 0x0A, CHR 0x0D, CHR '']'', CHR ''}'', CHR '',''}"

lemma hd_show_nat: "\<exists>d < 10. hd (show_nat n) = digit_char d"
proof -
  have "hd (show_nat n) \<in> digit_char ` {..<10}"
    by (rule subsetD [OF show_base_digits hd_in_set]) simp_all
  then show ?thesis by auto
qed

lemma value_start_show_int [simp]: "value_start (show_int i)"
proof (cases "i < 0")
  case True
  then show ?thesis by (simp add: show_int_def value_start_def)
next
  case False
  obtain d where "d < 10" and "hd (show_nat (nat i)) = digit_char d"
    using hd_show_nat by blast
  then have "is_digit (hd (show_nat (nat i)))" by simp
  with False show ?thesis by (auto simp: show_int_def value_start_def)
qed

lemma value_start_append [simp]: "value_start s \<Longrightarrow> value_start (s @ r)"
  by (simp add: value_start_def)

lemma skip_ws_start [simp]: "value_start s \<Longrightarrow> skip_ws s = s"
  by (cases s) (auto simp: value_start_def)

lemma expect_start:
  "value_start s \<Longrightarrow> c \<in> {CHR '']'', CHR ''}'', CHR '',''} \<Longrightarrow> expect c s = None"
  by (cases s) (auto simp: expect_def value_start_def)

lemma expect_Cons [simp]:
  "c \<notin> {CHR '' '', CHR 0x09, CHR 0x0A, CHR 0x0D} \<Longrightarrow> expect d (c # r) = (if c = d then Some r else None)"
  by (auto simp: expect_def)

lemma length_join_with:
  "xs \<noteq> [] \<Longrightarrow> length (join_with c xs) + 1 = sum_list (map (\<lambda>s. Suc (length s)) xs)"
  by (induction c xs rule: join_with.induct) auto

lemma sum_list_mono_set:
  "(\<And>x. x \<in> set xs \<Longrightarrow> f x \<le> g x) \<Longrightarrow> sum_list (map f xs) \<le> sum_list (map (g :: _ \<Rightarrow> nat) xs)"
  by (induction xs) (auto intro: add_mono)

locale json_printer =
  fixes esc :: "char \<Rightarrow> string"
  assumes parse_esc: "parse_string (esc c @ t) = push_char (Some c) (parse_string t)"
begin

lemma value_start_print [simp]: "value_start (json_print esc v)"
proof (cases v)
  case (JNum i)
  then show ?thesis by (simp only: json_print.simps value_start_show_int)
qed (simp_all add: value_start_def quoted_def quote_char_def)

lemma value_start_quoted [simp]: "value_start (quoted esc s)"
  by (simp add: value_start_def quoted_def quote_char_def)

lemma parse_printed_chars:
  "parse_string (concat (map esc s) @ quote_char # r) = Some (s, r)"
  by (induction s) (simp_all add: parse_esc push_char_def)

lemma parse_quoted [wire_simps]:
  "quoted esc s @ r = quote_char # (concat (map esc s) @ quote_char # r)"
  by (simp add: quoted_def)

lemma value_start_join:
  "xs \<noteq> [] \<Longrightarrow> value_start (join_with c (map (json_print esc) xs) @ r)"
  by (cases xs rule: remdups_adj.cases) simp_all

lemma parse_elems_print:
  assumes "xs \<noteq> []"
    and "\<And>x n r. x \<in> set xs \<Longrightarrow> json_need x \<le> n \<Longrightarrow> value_end r \<Longrightarrow>
           parse_value n (json_print esc x @ r) = Some (x, r)"
    and "sum_list (map (\<lambda>x. Suc (json_need x)) xs) \<le> n"
  shows "parse_elems n (join_with CHR '','' (map (json_print esc) xs) @ CHR '']'' # r) = Some (xs, r)"
  using assms
proof (induction xs arbitrary: n)
  case Nil
  then show ?case by simp
next
  case (Cons x xs)
  from Cons.prems(3) obtain m where n: "n = Suc m" by (cases n) auto
  show ?case
  proof (cases xs)
    case Nil
    with Cons.prems n show ?thesis by simp
  next
    case (Cons y ys)
    let ?rest = "join_with CHR '','' (map (json_print esc) xs) @ CHR '']'' # r"
    have "parse_value m (json_print esc x @ CHR '','' # ?rest) = Some (x, CHR '','' # ?rest)"
      using Cons.prems n by simp
    moreover have "parse_elems m ?rest = Some (xs, r)"
      using Cons.prems n Cons by (intro Cons.IH) auto
    ultimately show ?thesis using n Cons by simp
  qed
qed

lemma parse_fields_print:
  assumes "fs \<noteq> []"
    and "\<And>k v n r. (k, v) \<in> set fs \<Longrightarrow> json_need v \<le> n \<Longrightarrow> value_end r \<Longrightarrow>
           parse_value n (json_print esc v @ r) = Some (v, r)"
    and "sum_list (map (\<lambda>(k, v). Suc (json_need v)) fs) \<le> n"
  shows "parse_fields n (join_with CHR '',''
            (map (\<lambda>(k, v). quoted esc k @ '':'' @ json_print esc v) fs) @ CHR ''}'' # r) = Some (fs, r)"
  using assms
proof (induction fs arbitrary: n)
  case Nil
  then show ?case by simp
next
  case (Cons f fs)
  obtain k v where f: "f = (k, v)" by (cases f)
  with Cons.prems(3) obtain m where n: "n = Suc m" by (cases n) auto
  have key: "expect quote_char (quoted esc k @ t)
      = Some (concat (map esc k) @ quote_char # t)" for t
    by (simp add: parse_quoted) (simp add: quote_char_def)
  have val: "parse_value m (json_print esc v @ t) = Some (v, t)" if "value_end t" for t
    using that Cons.prems(2) [of k v m t] Cons.prems(3) f n by simp
  show ?case
  proof (cases fs)
    case Nil
    with f n key val show ?thesis by (simp add: parse_printed_chars)
  next
    case (Cons g gs)
    let ?rest = "join_with CHR '',''
       (map (\<lambda>(k, v). quoted esc k @ '':'' @ json_print esc v) fs) @ CHR ''}'' # r"
    have "parse_fields m ?rest = Some (fs, r)"
      using Cons.prems n Cons f by (intro Cons.IH) auto
    with f n key val Cons show ?thesis by (simp add: parse_printed_chars)
  qed
qed

lemma parse_print:
  "json_need v \<le> n \<Longrightarrow> value_end r \<Longrightarrow> parse_value n (json_print esc v @ r) = Some (v, r)"
proof (induction v arbitrary: n r)
  case (JStr s)
  then obtain m where "n = Suc m" by (cases n) auto
  then show ?case
    by (simp add: parse_quoted quote_char_def) (simp add: parse_printed_chars flip: quote_char_def)
next
  case (JNum i)
  then obtain m where n: "n = Suc m" by (cases n) auto
  obtain c t where ct: "show_int i = c # t"
    using value_start_show_int [of i] by (cases "show_int i") (auto simp: value_start_def)
  have c: "c = CHR ''-'' \<or> is_digit c"
    using ct show_nat_digits [of c "nat i"] by (auto simp: show_int_def split: if_splits)
  have "skip_ws (c # t @ r) = c # t @ r"
    using skip_ws_start [OF value_start_append [OF value_start_show_int], of i r] ct by simp
  moreover have "\<not> starts_with ''null'' (c # t @ r)" "\<not> starts_with ''true'' (c # t @ r)"
    "\<not> starts_with ''false'' (c # t @ r)" "c \<noteq> quote_char" "c \<noteq> CHR ''[''" "c \<noteq> CHR ''{''"
    using c by (auto simp: quote_char_def)
  ultimately show ?case
    using parse_number_show_int [OF JNum.prems(2), of i] ct n by simp
next
  case (JArr xs)
  then obtain m where n: "n = Suc m" by (cases n) auto
  show ?case
  proof (cases "xs = []")
    case True
    with n show ?thesis by (simp add: quote_char_def)
  next
    case False
    have "parse_elems m (join_with CHR '','' (map (json_print esc) xs) @ CHR '']'' # r) = Some (xs, r)"
      using JArr n False by (intro parse_elems_print) auto
    with n value_start_join [OF False] show ?thesis
      by (simp add: expect_start) (simp add: quote_char_def)
  qed
next
  case (JObj fs)
  then obtain m where n: "n = Suc m" by (cases n) auto
  let ?print = "\<lambda>(k, v). quoted esc k @ '':'' @ json_print esc v"
  show ?case
  proof (cases fs)
    case Nil
    with n show ?thesis by (simp add: quote_char_def)
  next
    case (Cons f gs)
    have "parse_value n' (json_print esc v @ r') = Some (v, r')"
      if "(k, v) \<in> set fs" "json_need v \<le> n'" "value_end r'" for k v n' r'
      using JObj.IH [OF that(1) _ that(2,3)] by simp
    moreover have "sum_list (map (\<lambda>(k, v). Suc (json_need v)) fs) \<le> m"
      using JObj.prems n by simp
    ultimately have "parse_fields m (join_with CHR '','' (map ?print fs) @ CHR ''}'' # r) = Some (fs, r)"
      using Cons by (intro parse_fields_print) blast+
    moreover have "expect CHR ''}'' (join_with CHR '','' (map ?print fs) @ CHR ''}'' # r) = None"
      using Cons by (cases f; cases gs) (simp_all add: expect_start)
    ultimately show ?thesis using n by (simp add: quote_char_def)
  qed
next
  case JNull
  then obtain m where "n = Suc m" by (cases n) auto
  then show ?case by (simp add: quote_char_def)
next
  case (JBool b)
  then obtain m where "n = Suc m" by (cases n) auto
  then show ?case by (simp add: quote_char_def)
qed

lemma need_le_length: "json_need v \<le> length (json_print esc v)"
proof (induction v)
  case (JArr xs)
  show ?case
  proof (cases "xs = []")
    case False
    have "sum_list (map (\<lambda>x. Suc (json_need x)) xs)
        \<le> sum_list (map (\<lambda>s. Suc (length s)) (map (json_print esc) xs))"
      using JArr by (simp add: o_def sum_list_mono_set)
    with False show ?thesis
      using length_join_with [of "map (json_print esc) xs" "CHR '',''"] by simp
  qed simp
next
  case (JObj fs)
  let ?print = "\<lambda>(k, v). quoted esc k @ '':'' @ json_print esc v"
  show ?case
  proof (cases "fs = []")
    case False
    have "sum_list (map (\<lambda>(k, v). Suc (json_need v)) fs)
        \<le> sum_list (map (\<lambda>s. Suc (length s)) (map ?print fs))"
      using JObj by (auto simp: o_def snds.simps intro!: sum_list_mono_set) (fastforce)
    with False show ?thesis
      using length_join_with [of "map ?print fs" "CHR '',''"] by simp
  qed simp
next
  case (JNum i)
  show ?case
    using value_start_show_int [of i] by (cases "show_int i") (simp_all add: value_start_def)
qed (simp_all add: quoted_def)

lemma roundtrip: "json_parse (json_print esc v) = Some v"
  using parse_print [of v "2 * length (json_print esc v) + 2" "[]"] need_le_length [of v]
  by (simp add: json_parse_def)

end

interpretation go_printer: json_printer escape_char
  by unfold_locales (rule parse_escape_char)

interpretation js_printer: json_printer js_escape
  by unfold_locales (rule parse_js_escape)

lemma parse_marshal: "json_need v \<le> n \<Longrightarrow> value_end r \<Longrightarrow> parse_value n (json_marshal v @ r) = Some (v, r)"
  by (simp only: json_marshal_print go_printer.parse_print)

lemma json_need_le_length: "json_need v \<le> length (json_marshal v)"
  by (simp only: json_marshal_print go_printer.need_le_length)

lemma json_roundtrip: "json_parse (json_marshal v) = Some v"
  by (simp only: json_marshal_print go_printer.roundtrip)

subsection \<open>The fuel is enough\<close>

lemma skip_ws_length: "length (skip_ws s) \<le> length s"
  by (induction s) auto

lemma expect_length: "expect c s = Some r \<Longrightarrow> length r < length s"
  using skip_ws_length [of s] by (auto simp: expect_def split: list.splits if_splits)

lemma push_char_SomeE:
  assumes "push_char c p = Some (s, r)"
  obtains x t where "c = Some x" "p = Some (t, r)" "s = x # t"
  using assms by (auto simp: push_char_def split: option.splits)

lemma parse_string_length: "parse_string s = Some (t, r) \<Longrightarrow> length r < length s"
  by (induction s arbitrary: t r rule: parse_string.induct)
    (fastforce split: if_splits list.splits elim!: push_char_SomeE)+

lemma parse_number_length:
  assumes "parse_number s = Some (v, r)"
  shows "length r < length s"
proof -
  define t where "t = (if s \<noteq> [] \<and> hd s = CHR ''-'' then tl s else s)"
  have ds: "takeWhile is_digit t \<noteq> []" and r: "r = dropWhile is_digit t"
    using assms by (auto simp: parse_number_def Let_def t_def split: if_splits)
  have "length (takeWhile is_digit t) + length r = length t"
    unfolding r by (metis length_append takeWhile_dropWhile_id)
  moreover have "0 < length (takeWhile is_digit t)" using ds by blast
  moreover have "length t \<le> length s" by (simp add: t_def)
  ultimately show ?thesis by linarith
qed

lemma parse_length:
  "parse_value n s = Some (v, r) \<Longrightarrow> length r < length s"
  "parse_elems n s = Some (vs, r) \<Longrightarrow> length r < length s"
  "parse_fields n s = Some (fs, r) \<Longrightarrow> length r < length s"
proof (induction n s and n s and n s arbitrary: v r and vs r and fs r rule: parse_value_parse_elems_parse_fields.induct)
  case (2 n s)
  have ws: "length (skip_ws s) \<le> length s" by (rule skip_ws_length)
  show ?case
  proof (cases "skip_ws s")
    case Nil
    with "2.prems" show ?thesis by simp
  next
    case (Cons c t)
    with "2.prems" "2.IH" [OF Cons] ws show ?thesis
      by (fastforce split: if_splits option.splits
          dest: parse_string_length parse_number_length expect_length)
  qed
next
  case (4 n s)
  then show ?case
    by (fastforce split: option.splits prod.splits dest: expect_length)
next
  case (6 n s)
  then show ?case
    by (fastforce split: option.splits prod.splits dest: expect_length parse_string_length)
qed simp_all

lemma parse_fuel:
  "2 * length s < n \<Longrightarrow> parse_value (Suc n) s = parse_value n s"
  "2 * length s + 1 < n \<Longrightarrow> parse_elems (Suc n) s = parse_elems n s"
  "2 * length s < n \<Longrightarrow> parse_fields (Suc n) s = parse_fields n s"
proof (induction n arbitrary: s)
  case 0
  { case 1 then show ?case by simp }
  { case 2 then show ?case by simp }
  { case 3 then show ?case by simp }
next
  case (Suc n)
  { case 1
    show ?case
    proof (cases "skip_ws s")
      case (Cons c t)
      then have "2 * length t + 1 < n" using 1 skip_ws_length [of s] by simp
      with Suc.IH(2,3) [of t] Cons show ?thesis
        by (simp only: parse_value.simps list.case)
    qed simp }
  { case 2
    have v: "parse_value (Suc n) s = parse_value n s" using Suc.IH(1) 2 by simp
    have "parse_elems (Suc n) r' = parse_elems n r'"
      if "parse_value n s = Some (x, r)" "expect CHR '','' r = Some r'" for x r r'
      using parse_length(1) [OF that(1)] expect_length [OF that(2)] 2 by (intro Suc.IH(2)) linarith
    with v show ?case
      by (simp only: parse_elems.simps) (simp split: option.split) }
  { case 3
    have v: "parse_value (Suc n) r2 = parse_value n r2"
      if "expect quote_char s = Some r" "parse_string r = Some (k, r1)" "expect CHR '':'' r1 = Some r2"
      for r k r1 r2
      using expect_length [OF that(1)] parse_string_length [OF that(2)] expect_length [OF that(3)] 3
      by (intro Suc.IH(1)) linarith
    have "parse_fields (Suc n) r' = parse_fields n r'"
      if "expect quote_char s = Some r" "parse_string r = Some (k, r1)" "expect CHR '':'' r1 = Some r2"
        "parse_value n r2 = Some (x, r3)" "expect CHR '','' r3 = Some r'"
      for r k r1 r2 r3 r' x
      using expect_length [OF that(1)] parse_string_length [OF that(2)] expect_length [OF that(3)]
        parse_length(1) [OF that(4)] expect_length [OF that(5)] 3
      by (intro Suc.IH(3)) linarith
    with v show ?case
      by (simp only: parse_fields.simps) (simp split: option.split) }
qed

lemma json_parse_fuel:
  assumes "2 * length s + 2 \<le> n"
  shows "parse_value n s = parse_value (2 * length s + 2) s"
  using assms
proof (induction n rule: dec_induct)
  case base
  show ?case by (rule refl)
next
  case (step k)
  then have "parse_value (Suc k) s = parse_value k s" by (intro parse_fuel(1)) simp
  with step.IH show ?case by (simp only:)
qed

subsection \<open>Messages and frames\<close>

lemma newline_not_digit_char: "d < 16 \<Longrightarrow> digit_char d \<noteq> newline"
proof
  assume "d < 16" and "digit_char d = newline"
  then have "(of_char (digit_char d) :: nat) = of_char newline" by simp
  with \<open>d < 16\<close> show False by (simp add: newline_def split: if_splits)
qed

lemma escape_char_no_newline: "newline \<notin> set (escape_char c)"
proof -
  have "newline \<notin> set (hex2 (of_char c))"
    if "(of_char c :: nat) < 32 \<or> c \<in> {CHR ''<'', CHR ''>'', CHR ''&''}"
  proof -
    from that have "(of_char c :: nat) < 128" by auto
    then have "of_char c div 16 < (16::nat)" and "of_char c mod 16 < (16::nat)" by simp_all
    then show ?thesis
      using newline_not_digit_char [of "of_char c div 16"] newline_not_digit_char [of "of_char c mod 16"]
      by (auto simp: hex2_def)
  qed
  then show ?thesis
    by (auto simp: escape_char_def newline_def quote_char_def backslash_def)
qed

lemma show_int_no_newline: "newline \<notin> set (show_int i)"
proof -
  have "newline \<notin> set (show_nat n)" for n
    using show_nat_digits [of newline n] by auto
  then show ?thesis by (auto simp: show_int_def newline_def)
qed

lemma print_string_no_newline: "newline \<notin> set (print_string s)"
  using escape_char_no_newline by (auto simp: print_string_def newline_def quote_char_def)

lemma join_with_set: "c \<in> set (join_with d xs) \<Longrightarrow> c = d \<or> (\<exists>s \<in> set xs. c \<in> set s)"
  by (induction d xs rule: join_with.induct) auto

lemma marshal_no_newline: "newline \<notin> set (json_marshal v)"
proof (induction v)
  case (JObj fs)
  then show ?case
    using print_string_no_newline
    by (fastforce simp: newline_def dest!: join_with_set)
next
  case (JArr xs)
  then show ?case by (fastforce simp: newline_def dest!: join_with_set)
qed (simp_all add: show_int_no_newline print_string_no_newline, simp_all add: newline_def)

locale message_codec =
  fixes enc :: "'m \<Rightarrow> string" and dec :: "string \<Rightarrow> 'm option"
  assumes dec_enc: "dec (enc m) = Some m"
    and enc_line: "newline \<notin> set (enc m)"
begin

lemma frame_messages:
  assumes "ms \<noteq> []"
  shows "map dec (split_on newline (join_with newline (map enc ms))) = map Some ms"
proof -
  have "split_on newline (join_with newline (map enc ms)) = map enc ms"
    using assms by (intro split_on_join) (auto simp: enc_line)
  then show ?thesis by (simp add: dec_enc)
qed

lemma enc_inject: "enc m = enc n \<longleftrightarrow> m = n"
  by (metis dec_enc option.inject)

end

interpretation json_wire: message_codec json_marshal json_parse
  by unfold_locales (rule json_roundtrip marshal_no_newline)+

end
