(* ===== verification/Page_Messages.thy ===== *)
theory Page_Messages
  imports Json_Codec
begin

text \<open>
  What the Vue pages read from a websocket frame: the loop over the lines of \<^verbatim>\<open>evt.data\<close> that
  Scoreboard.vue, TeamsPage.vue and ChallegesPage.vue share, property access on parsed
  values, and the views of a team row. A handler returns the error it throws, if any, with the state at that
  point, so assignments made before a throw persist. Timestamps stay in their wire form (the
  string Go prints); the functions that need their instant take \<open>date_ms\<close>, the host's date
  parser, as a parameter, because Go's nanosecond fractions lie outside the date format that
  ECMAScript fixes.
\<close>

fun js_prop :: "string \<Rightarrow> json \<Rightarrow> json option" where
  "js_prop k (JObj fs) = map_of (rev fs) k"
| "js_prop k _ = None"

definition prop_num :: "string \<Rightarrow> json \<Rightarrow> jsnum" where
  "prop_num k j = (case js_prop k j of Some (JNum n) \<Rightarrow> Num (round53 n) | _ \<Rightarrow> NaN)"

definition prop_str :: "string \<Rightarrow> json \<Rightarrow> string" where
  "prop_str k j = (case js_prop k j of Some (JStr s) \<Rightarrow> s | _ \<Rightarrow> ''undefined'')"

definition prop_bool :: "string \<Rightarrow> json \<Rightarrow> bool" where
  "prop_bool k j = (js_prop k j = Some (JBool True))"

definition prop_list :: "string \<Rightarrow> json \<Rightarrow> json list option" where
  "prop_list k j = (case js_prop k j of Some (JArr xs) \<Rightarrow> Some xs | _ \<Rightarrow> None)"

definition is_msg :: "string \<Rightarrow> json \<Rightarrow> bool" where
  "is_msg m j \<longleftrightarrow> js_prop ''msg'' j = Some (JStr m)"

fun for_each_message ::
  "(json \<Rightarrow> 's \<Rightarrow> js_error option \<times> 's) \<Rightarrow> string list \<Rightarrow> 's \<Rightarrow> js_error option \<times> 's" where
  "for_each_message h [] s = (None, s)"
| "for_each_message h (m # ms) s =
     (case json_parse m of
        None \<Rightarrow> (Some SyntaxError, s)
      | Some JNull \<Rightarrow> (Some TypeError, s)
      | Some j \<Rightarrow>
          (case h j s of
             (Some e, s') \<Rightarrow> (Some e, s')
           | (None, s') \<Rightarrow> for_each_message h ms s'))"

fun handle_values ::
  "(json \<Rightarrow> 's \<Rightarrow> js_error option \<times> 's) \<Rightarrow> json list \<Rightarrow> 's \<Rightarrow> js_error option \<times> 's" where
  "handle_values h [] s = (None, s)"
| "handle_values h (j # js) s =
     (case h j s of
        (Some e, s') \<Rightarrow> (Some e, s')
      | (None, s') \<Rightarrow> handle_values h js s')"

text \<open>A frame made of printed messages is handled as the list of its messages.\<close>

lemma for_each_printed:
  "JNull \<notin> set js \<Longrightarrow>
   for_each_message h (map json_marshal js) s = handle_values h js s"
proof (induction js arbitrary: s)
  case Nil
  show ?case by simp
next
  case (Cons j js)
  from Cons.prems have "j \<noteq> JNull" by auto
  moreover from Cons have "\<And>s. for_each_message h (map json_marshal js) s = handle_values h js s"
    by simp
  ultimately show ?case
    by (cases j) (simp_all add: json_roundtrip split: prod.splits option.splits del: json_marshal.simps)
qed

definition on_frame ::
  "(json \<Rightarrow> 's \<Rightarrow> js_error option \<times> 's) \<Rightarrow> string \<Rightarrow> 's \<Rightarrow> js_error option \<times> 's" where
  "on_frame h data s = for_each_message h (split_on newline data) s"

lemma on_frame_printed:
  assumes "js \<noteq> []" and "JNull \<notin> set js"
  shows "on_frame h (join_with newline (map json_marshal js)) s = handle_values h js s"
proof -
  have "split_on newline (join_with newline (map json_marshal js)) = map json_marshal js"
    using assms(1) by (intro split_on_join) (auto simp: json_wire.enc_line)
  with assms(2) show ?thesis by (simp add: on_frame_def for_each_printed)
qed

subsection \<open>Team rows\<close>

record team_view =
  tv_id :: string
  tv_name :: string
  tpoints :: jsnum
  completions :: "string option list option"
  points :: "jsnum list option"
  tv_is_user :: bool

definition to_stamp :: "json \<Rightarrow> string option" where
  "to_stamp j = (case j of JStr s \<Rightarrow> Some s | _ \<Rightarrow> None)"

definition to_num :: "json \<Rightarrow> jsnum" where
  "to_num j = (case j of JNum n \<Rightarrow> Num (round53 n) | _ \<Rightarrow> NaN)"

definition to_team :: "json \<Rightarrow> team_view" where
  "to_team j =
     \<lparr>tv_id = prop_str ''id'' j, tv_name = prop_str ''name'' j, tpoints = prop_num ''tpoints'' j,
      completions = map_option (map to_stamp) (prop_list ''completions'' j),
      points = map_option (map to_num) (prop_list ''points'' j),
      tv_is_user = prop_bool ''is_user'' j\<rparr>"

text \<open>\<^verbatim>\<open>json.values.teams\<close>; \<^term>\<open>None\<close> where calling \<^verbatim>\<open>sort\<close> on it throws.\<close>

definition message_teams :: "json \<Rightarrow> team_view list option" where
  "message_teams j =
     (case js_prop ''values'' j of
        Some v \<Rightarrow> map_option (map to_team) (prop_list ''teams'' v)
      | None \<Rightarrow> None)"

text \<open>The comparator \<^verbatim>\<open>(a, b) => b.tpoints - a.tpoints\<close> of both score pages.\<close>

definition tpoints_cmp :: "team_view \<Rightarrow> team_view \<Rightarrow> jsnum" where
  "tpoints_cmp a b = js_sub (tpoints b) (tpoints a)"

interpretation by_tpoints: key_comparator tpoints_cmp "\<lambda>t. - num_val (tpoints t)"
  "\<lambda>t. is_num (tpoints t)"
  by unfold_locales (auto simp: tpoints_cmp_def cmp_gt_def cmp_lt_def elim!: is_numE)

end
