(* ===== verification/Vue_Teams.thy ===== *)
theory Vue_Teams
  imports Page_Messages "HOL-Library.Product_Lexorder"
begin

unbundle bit_operations_syntax

text \<open>
  The teams page (components/TeamsPage.vue): the score graph and the ranking. \<open>colorHash\<close> and
  \<open>cumulativeSum\<close> are its two pure methods; \<open>sortSolvedData\<close> and \<open>scoreGraph\<close> rewrite the page
  state; \<open>teams_receive\<close> is the message handler.
\<close>

subsection \<open>colorHash\<close>

type_synonym code_unit = "16 word"

text \<open>\<^verbatim>\<open>hash = str.charCodeAt(i) + ((hash << 5) - hash)\<close>, on doubles.\<close>

definition hash_step :: "int \<Rightarrow> code_unit \<Rightarrow> int" where
  "hash_step hash c = round53 (uint c + round53 (js_shl hash 5 - hash))"

definition hash_of :: "code_unit list \<Rightarrow> int" where
  "hash_of str = foldl hash_step 0 str"

definition colour_byte :: "int \<Rightarrow> nat \<Rightarrow> string" where
  "colour_byte hash j =
     (let value = js_and (js_sar hash (j * 8)) 255
      in js_substr_last 2 (''00'' @ show_hex (nat value)))"

definition colorHash :: "code_unit list \<Rightarrow> string" where
  "colorHash str =
     (let hash = hash_of str in
      foldl (\<lambda>colour j. colour @ colour_byte hash j) ''#'' [0..<3])"

text \<open>The 32-bit polynomial hash with base 31 (Java's \<^verbatim>\<open>String.hashCode\<close>).\<close>

definition hash32 :: "code_unit list \<Rightarrow> 32 word" where
  "hash32 str = foldl (\<lambda>h c. 31 * h + ucast c) 0 str"

definition two_digits :: "nat \<Rightarrow> string" where
  "two_digits n = [digit_char (n div 16), digit_char (n mod 16)]"

lemma sint32_bounds: "- (2 ^ 31) \<le> sint (w :: 32 word)" "sint (w :: 32 word) < 2 ^ 31"
  using sint_ge [of w] sint_lt [of w] by simp_all

lemma hash_step_exact:
  assumes "\<bar>h\<bar> \<le> int n * (2 ^ 31 + 2 ^ 16)" and "n < 2 ^ 21"
  shows "hash_step h c = uint c + (js_shl h 5 - h)"
    and "\<bar>hash_step h c\<bar> \<le> int (Suc n) * (2 ^ 31 + 2 ^ 16)"
proof -
  have c: "0 \<le> uint c" "uint c < 2 ^ 16" using uint_bounded [of c] by simp_all
  have s: "- (2 ^ 31) \<le> js_shl h 5" "js_shl h 5 < 2 ^ 31"
    unfolding js_shl_def by (rule sint32_bounds)+
  have n: "int n * (2 ^ 31 + 2 ^ 16) \<le> (2 ^ 21 - 1) * (2 ^ 31 + 2 ^ 16)"
    using assms(2) by (intro mult_right_mono) auto
  have b: "\<bar>h\<bar> \<le> (2 ^ 21 - 1) * (2 ^ 31 + 2 ^ 16)"
    using assms(1) n by linarith
  have b': "h \<le> 4503734918774784" "- h \<le> 4503734918774784" using b by simp_all
  have s': "- 2147483648 \<le> js_shl h 5" "js_shl h 5 < 2147483648" using s by simp_all
  have c': "uint c < 65536" using c(2) by simp
  have "\<bar>js_shl h 5 - h\<bar> < 9007199254740992"
    using b' s' by linarith
  moreover have "\<bar>uint c + (js_shl h 5 - h)\<bar> < 9007199254740992"
    using b' s' c(1) c' by linarith
  ultimately have "\<bar>js_shl h 5 - h\<bar> < 2 ^ 53" and "\<bar>uint c + (js_shl h 5 - h)\<bar> < 2 ^ 53"
    by simp_all
  then show eq: "hash_step h c = uint c + (js_shl h 5 - h)"
    by (simp add: hash_step_def)
  show "\<bar>hash_step h c\<bar> \<le> int (Suc n) * (2 ^ 31 + 2 ^ 16)"
  proof -
    have "\<bar>h\<bar> \<le> int n * 2147549184" using assms(1) by simp
    with s' c(1) c' have "\<bar>uint c + (js_shl h 5 - h)\<bar> \<le> int n * 2147549184 + 2147549184"
      by linarith
    then show ?thesis unfolding eq by (simp add: algebra_simps)
  qed
qed

lemma hash_of_bound:
  "length str \<le> 2 ^ 21 \<Longrightarrow> \<bar>hash_of str\<bar> \<le> int (length str) * (2 ^ 31 + 2 ^ 16)"
proof (induction str rule: rev_induct)
  case Nil
  then show ?case by (simp add: hash_of_def)
next
  case (snoc c str)
  then have "\<bar>hash_step (hash_of str) c\<bar> \<le> int (Suc (length str)) * (2 ^ 31 + 2 ^ 16)"
    by (intro hash_step_exact(2)) auto
  then show ?case by (simp add: hash_of_def)
qed

lemma int32_hash_step:
  "int32_word (uint c + (js_shl h 5 - h)) = 31 * int32_word h + ucast (c :: code_unit)"
proof -
  have "push_bit 5 (int32_word h) = 32 * int32_word h"
    by (simp add: push_bit_eq_mult)
  moreover have "word_of_int (uint c) = (ucast c :: 32 word)" by simp
  ultimately show ?thesis
    by (simp add: int32_word_def js_shl_def algebra_simps)
qed

lemma int32_hash_of: "length str \<le> 2 ^ 21 \<Longrightarrow> int32_word (hash_of str) = hash32 str"
proof (induction str rule: rev_induct)
  case Nil
  show ?case by (simp add: hash_of_def hash32_def int32_word_def)
next
  case (snoc c str)
  have "hash_step (hash_of str) c = uint c + (js_shl (hash_of str) 5 - hash_of str)"
    using snoc.prems hash_of_bound [of str] by (intro hash_step_exact(1)) auto
  moreover have "int32_word (hash_of str) = hash32 str" using snoc by simp
  ultimately show ?case
    using int32_hash_step [of c "hash_of str"] by (simp add: hash_of_def hash32_def)
qed

lemma show_hex_byte:
  "n < 256 \<Longrightarrow> js_substr_last 2 (''00'' @ show_hex n) = two_digits n"
proof -
  assume n: "n < 256"
  show ?thesis
  proof (cases "n < 16")
    case True
    have "CHR ''0'' = digit_char 0" by code_simp
    with True show ?thesis
      by (simp add: show_base.simps [of 16 n] js_substr_last_def two_digits_def)
  next
    case False
    with n have "n div 16 < 16" by simp
    with False show ?thesis
      by (simp add: show_base.simps [of 16 n] show_base.simps [of 16 "n div 16"]
          js_substr_last_def two_digits_def)
  qed
qed

lemma two_digits_inject:
  "m < 256 \<Longrightarrow> n < 256 \<Longrightarrow> two_digits m = two_digits n \<longleftrightarrow> m = n"
  by (auto simp: two_digits_def digit_char_inject) (metis div_mult_mod_eq)

definition hash_byte :: "32 word \<Rightarrow> nat \<Rightarrow> nat" where
  "hash_byte w j = unat (drop_bit (8 * j) w AND 255)"

lemma hash_byte_bound: "hash_byte w j < 256"
proof -
  have "drop_bit (8 * j) w AND 255 \<le> (255 :: 32 word)" by (rule word_and_le1)
  then have "unat (drop_bit (8 * j) w AND 255) \<le> unat (255 :: 32 word)"
    by (rule word_le_nat_alt [THEN iffD1])
  then show ?thesis by (simp add: hash_byte_def)
qed

lemma sint_small: "uint (w :: 32 word) < 2 ^ 31 \<Longrightarrow> sint w = uint w"
  unfolding sint_uint
  by (rule signed_take_bit_int_eq_self, rule order_trans [of _ 0]) simp_all

lemma uint_less_of_unat: "unat w < numeral n \<Longrightarrow> uint w < numeral n"
  by (metis int_nat_eq of_nat_less_numeral_iff uint_nat)

lemma js_and_sar:
  assumes "j < 3"
  shows "js_and (js_sar h (j * 8)) 255 = int (hash_byte (int32_word h) j)"
proof -
  let ?w = "int32_word h"
  have "signed_drop_bit (j * 8) ?w AND 255 = drop_bit (8 * j) ?w AND (255 :: 32 word)"
  proof (rule bit_word_eqI)
    fix n assume "n < LENGTH(32)"
    have m: "(255 :: 32 word) = mask 8" by (simp add: mask_eq_exp_minus_1)
    from assms have "j = 0 \<or> j = 1 \<or> j = 2" by auto
    then show "bit (signed_drop_bit (j * 8) ?w AND 255) n = bit (drop_bit (8 * j) ?w AND 255) n"
      unfolding m by (auto simp: bit_and_iff bit_signed_drop_bit_iff bit_drop_bit_eq bit_mask_iff)
  qed
  moreover have "uint (drop_bit (8 * j) ?w AND 255) < 256"
    using hash_byte_bound [of ?w j] by (intro uint_less_of_unat) (simp add: hash_byte_def)
  moreover from this have "sint (drop_bit (8 * j) ?w AND 255) = uint (drop_bit (8 * j) ?w AND 255)"
    by (intro sint_small) simp
  ultimately show ?thesis
    by (simp add: js_and_def js_sar_def int32_word_def hash_byte_def)
qed

lemma colour_byte_eq: "j < 3 \<Longrightarrow> colour_byte h j = two_digits (hash_byte (int32_word h) j)"
  using show_hex_byte [OF hash_byte_bound, of "int32_word h" j]
  by (simp add: colour_byte_def js_and_sar)

lemma colorHash_eq:
  assumes "length str \<le> 2 ^ 21"
  shows "colorHash str = ''#'' @ two_digits (hash_byte (hash32 str) 0)
     @ two_digits (hash_byte (hash32 str) 1) @ two_digits (hash_byte (hash32 str) 2)"
proof -
  have "[0..<3] = [0, 1, 2 :: nat]" by code_simp
  then show ?thesis
    by (simp add: colorHash_def Let_def colour_byte_eq int32_hash_of [OF assms])
qed

subsection \<open>cumulativeSum\<close>

fun js_reduce :: "('a \<Rightarrow> 'a \<Rightarrow> 'a) \<Rightarrow> 'a list \<Rightarrow> 'a option" where
  "js_reduce f [] = None"
| "js_reduce f (x # xs) = Some (foldl f x xs)"

text \<open>\<^verbatim>\<open>reduce\<close> on an empty array throws; the slices here hold at least one element.\<close>

definition cumulativeSum :: "jsnum list \<Rightarrow> jsnum list" where
  "cumulativeSum arr =
     map (\<lambda>i. the (js_reduce js_add (take (i + 1) arr))) [0..<length arr]"

lemma foldl_js_add:
  "0 \<le> a \<Longrightarrow> \<forall>n \<in> set ns. 0 \<le> n \<Longrightarrow> a + sum_list ns < 2 ^ 53 \<Longrightarrow>
   foldl js_add (Num a) (map Num ns) = Num (a + sum_list ns)"
proof (induction ns arbitrary: a)
  case Nil
  then show ?case by simp
next
  case (Cons n ns)
  have "0 \<le> sum_list ns" using Cons.prems(2) by (auto intro: sum_list_nonneg)
  with Cons.prems have "a + n < 2 ^ 53" and "0 \<le> a + n" by auto
  then have "js_add (Num a) (Num n) = Num (a + n)" by simp
  with Cons.IH [of "a + n"] Cons.prems \<open>0 \<le> a + n\<close> show ?case by (simp add: algebra_simps)
qed

lemma js_reduce_sum:
  "ns \<noteq> [] \<Longrightarrow> \<forall>n \<in> set ns. 0 \<le> n \<Longrightarrow> sum_list ns < 2 ^ 53 \<Longrightarrow>
   js_reduce js_add (map Num ns) = Some (Num (sum_list ns))"
  by (cases ns) (auto simp: foldl_js_add)

lemma sum_list_take_le:
  "\<forall>n \<in> set ns. (0::int) \<le> n \<Longrightarrow> sum_list (take k ns) \<le> sum_list ns"
proof -
  assume pos: "\<forall>n \<in> set ns. (0::int) \<le> n"
  have "sum_list ns = sum_list (take k ns) + sum_list (drop k ns)"
    by (metis append_take_drop_id sum_list_append)
  moreover have "0 \<le> sum_list (drop k ns)"
    using pos by (intro sum_list_nonneg) (auto dest: in_set_dropD)
  ultimately show ?thesis by linarith
qed

lemma cumulativeSum_Num:
  assumes "\<forall>n \<in> set ns. 0 \<le> n" and "sum_list ns < 2 ^ 53"
  shows "cumulativeSum (map Num ns) =
    map (\<lambda>i. Num (sum_list (take (Suc i) ns))) [0..<length ns]"
proof -
  have "js_reduce js_add (take (Suc i) (map Num ns)) = Some (Num (sum_list (take (Suc i) ns)))"
    if "i < length ns" for i
    using that assms sum_list_take_le [OF assms(1), of "Suc i"]
    by (auto simp: take_map intro!: js_reduce_sum dest: in_set_takeD)
  then show ?thesis by (simp add: cumulativeSum_def)
qed

lemma last_cumulativeSum:
  assumes "ns \<noteq> []" "\<forall>n \<in> set ns. 0 \<le> n" "sum_list ns < 2 ^ 53"
  shows "last (cumulativeSum (map Num ns)) = Num (sum_list ns)"
  using assms by (simp add: cumulativeSum_Num last_map)

subsection \<open>The page state\<close>

record trace =
  tr_x :: "jsnum list"
  tr_y :: "jsnum list"
  tr_mode :: string
  tr_name :: string
  marker_color :: string
  line_color :: string

record teams_page =
  tp_teams :: "team_view list"
  tp_traces :: "trace list"

definition teams_page_init :: teams_page where
  "teams_page_init = \<lparr>tp_teams = [], tp_traces = []\<rparr>"

text \<open>\<^verbatim>\<open>new Date(x)\<close> as a number; \<^verbatim>\<open>new Date(null)\<close> is the epoch.\<close>

fun date_num :: "(string \<Rightarrow> jsnum) \<Rightarrow> string option \<Rightarrow> jsnum" where
  "date_num date_ms None = Num 0"
| "date_num date_ms (Some s) = date_ms s"

definition date_cmp ::
  "(string \<Rightarrow> jsnum) \<Rightarrow> string option \<times> jsnum \<Rightarrow> string option \<times> jsnum \<Rightarrow> jsnum" where
  "date_cmp date_ms a b = js_sub (date_num date_ms (fst a)) (date_num date_ms (fst b))"

interpretation by_date: key_comparator "date_cmp date_ms"
  "\<lambda>p. num_val (date_num date_ms (fst p))" "\<lambda>p. is_num (date_num date_ms (fst p))" for date_ms
  by unfold_locales (auto simp: date_cmp_def cmp_gt_def cmp_lt_def elim!: is_numE)

text \<open>
  One team of \<^verbatim>\<open>sortSolvedData\<close>: \<^term>\<open>None\<close> where reading \<^verbatim>\<open>completions.length\<close> or \<^verbatim>\<open>points[j]\<close>
  of null throws.
\<close>

definition solved_list :: "string option list \<Rightarrow> jsnum list \<Rightarrow> (string option \<times> jsnum) list" where
  "solved_list cs ps = map (\<lambda>j. (cs ! j, js_nth ps (int j))) [0..<length cs]"

definition sort_team :: "(string \<Rightarrow> jsnum) \<Rightarrow> team_view \<Rightarrow> team_view option" where
  "sort_team date_ms t =
     (case completions t of
        None \<Rightarrow> None
      | Some [] \<Rightarrow> Some t
      | Some cs \<Rightarrow>
          (case points t of
             None \<Rightarrow> None
           | Some ps \<Rightarrow>
               let l = js_sort (date_cmp date_ms) (solved_list cs ps)
               in Some (t\<lparr>completions := Some (map fst l),
                          points := Some (map snd l @ drop (length l) ps)\<rparr>)))"

fun sort_teams :: "(string \<Rightarrow> jsnum) \<Rightarrow> team_view list \<Rightarrow> js_error option \<times> team_view list" where
  "sort_teams date_ms [] = (None, [])"
| "sort_teams date_ms (t # ts) =
     (case sort_team date_ms t of
        None \<Rightarrow> (Some TypeError, t # ts)
      | Some t' \<Rightarrow> (case sort_teams date_ms ts of (e, ts') \<Rightarrow> (e, t' # ts')))"

definition js_units :: "string \<Rightarrow> code_unit list" where
  "js_units s = map (\<lambda>c. word_of_nat (of_char c)) s"

text \<open>
  \<^verbatim>\<open>scoreGraph\<close> runs after \<^verbatim>\<open>sortSolvedData\<close> returned, so \<open>completions\<close> is an array, and
  \<open>points\<close> is one unless there is nothing to read from it.
\<close>

definition solved_entries :: "team_view \<Rightarrow> (string \<times> jsnum) list" where
  "solved_entries t =
     (case completions t of
        None \<Rightarrow> []
      | Some cs \<Rightarrow>
          concat (map (\<lambda>j. case cs ! j of
                             None \<Rightarrow> []
                           | Some d \<Rightarrow> [(d, js_nth (case points t of None \<Rightarrow> [] | Some ps \<Rightarrow> ps) (int j))])
                      [0..<length cs]))"

definition team_trace :: "(string \<Rightarrow> jsnum) \<Rightarrow> team_view \<Rightarrow> trace" where
  "team_trace date_ms t =
     \<lparr>tr_x = map (\<lambda>e. date_ms (fst e)) (solved_entries t),
      tr_y = cumulativeSum (map snd (solved_entries t)),
      tr_mode = ''lines+markers'',
      tr_name = tv_name t,
      marker_color = colorHash (js_units (tv_name t @ tv_id t)),
      line_color = colorHash (js_units (tv_name t @ tv_id t))\<rparr>"

definition trace_cmp :: "trace \<Rightarrow> trace \<Rightarrow> jsnum" where
  "trace_cmp a b =
     (let scorediff = js_sub (js_nth (tr_y b) (int (length (tr_y b)) - 1))
                             (js_nth (tr_y a) (int (length (tr_y a)) - 1))
      in if js_falsy scorediff
         then js_sub (js_nth (tr_x a) (int (length (tr_x a)) - 1))
                     (js_nth (tr_x b) (int (length (tr_x b)) - 1))
         else scorediff)"

definition scoreGraph :: "(string \<Rightarrow> jsnum) \<Rightarrow> teams_page \<Rightarrow> teams_page" where
  "scoreGraph date_ms st =
     st\<lparr>tp_traces := js_sort trace_cmp (tp_traces st @ map (team_trace date_ms) (tp_teams st))\<rparr>"

definition sortSolvedData ::
  "(string \<Rightarrow> jsnum) \<Rightarrow> teams_page \<Rightarrow> js_error option \<times> teams_page" where
  "sortSolvedData date_ms st =
     (case sort_teams date_ms (tp_teams st) of
        (Some e, ts) \<Rightarrow> (Some e, st\<lparr>tp_teams := ts\<rparr>)
      | (None, ts) \<Rightarrow> (None, scoreGraph date_ms (st\<lparr>tp_teams := ts\<rparr>)))"

definition teams_handle ::
  "(string \<Rightarrow> jsnum) \<Rightarrow> json \<Rightarrow> teams_page \<Rightarrow> js_error option \<times> teams_page" where
  "teams_handle date_ms j st =
     (if is_msg ''scoreboard'' j then
        (case message_teams j of
           None \<Rightarrow> (Some TypeError, st)
         | Some ts \<Rightarrow> sortSolvedData date_ms (st\<lparr>tp_teams := js_sort tpoints_cmp ts\<rparr>))
      else (None, st))"

definition teams_receive ::
  "(string \<Rightarrow> jsnum) \<Rightarrow> string \<Rightarrow> teams_page \<Rightarrow> js_error option \<times> teams_page" where
  "teams_receive date_ms data st = on_frame (teams_handle date_ms) data st"

text \<open>The address \<^verbatim>\<open>created\<close> connects to.\<close>

definition teams_ws_url :: "url \<Rightarrow> url" where
  "teams_ws_url loc = ws_url ''/challengesFrontend'' loc"

subsection \<open>The template\<close>

definition ranking_row :: "nat \<Rightarrow> team_view \<Rightarrow> vnode" where
  "ranking_row index team =
     Elem ''tr'' [] [(''key'', tv_id team)]
       [Elem ''td'' [''text-center''] [] [Text (show_nat (index + 1))],
        Elem ''td'' [] [] [Text (tv_name team)],
        Elem ''td'' [] [] [Text (show_num (tpoints team))]]"

definition teams_template :: "teams_page \<Rightarrow> vnode" where
  "teams_template st =
     Elem ''div'' [] [(''id'', ''teams'')]
       [Elem ''Plotly'' [] [] [],
        Elem ''table'' [''table'', ''table-striped'', ''mt-5''] []
          [Elem ''thead'' [''thead-dark-custom''] []
             [Elem ''tr'' [] []
                [Elem ''th'' [''text-center''] [] [Text ''#''],
                 Elem ''th'' [] [] [Text ''Team''],
                 Elem ''th'' [] [] [Text ''Score'']]],
           if length (tp_teams st) > 0
           then Elem ''tbody'' [] [] (map (\<lambda>(i, t). ranking_row i t) (enumerate 0 (tp_teams st)))
           else Elem ''tbody'' [] []
                  [Elem ''tr'' [''text-center''] []
                     [Elem ''td'' [] [(''colspan'', ''3'')] [Text ''No team registered to this event!'']]]]]"

subsection \<open>What the graph shows\<close>

definition entry_sum :: "string option list \<Rightarrow> int list \<Rightarrow> int" where
  "entry_sum cs ns = sum_list (map snd (filter (\<lambda>p. fst p \<noteq> None) (zip cs ns)))"

lemma solved_list_zip:
  "length cs = length ns \<Longrightarrow> solved_list cs (map Num ns) = zip cs (map Num ns)"
  by (intro nth_equalityI) (auto simp: solved_list_def js_nth_def)

lemma solved_entries_filter:
  assumes "completions t = Some (map fst l)" and "points t = Some (map snd l @ r)"
  shows "solved_entries t = map (\<lambda>p. (the (fst p), snd p)) (filter (\<lambda>p. fst p \<noteq> None) l)"
proof -
  have "concat (map (\<lambda>j. case map fst l ! j of None \<Rightarrow> []
          | Some d \<Rightarrow> [(d, js_nth (map snd l @ r) (int j))]) [0..<length l])
      = concat (map (\<lambda>p. case fst p of None \<Rightarrow> [] | Some d \<Rightarrow> [(d, snd p)]) l)"
  proof -
    have "map (\<lambda>j. case map fst l ! j of None \<Rightarrow> []
          | Some d \<Rightarrow> [(d, js_nth (map snd l @ r) (int j))]) [0..<length l]
        = map (\<lambda>p. case fst p of None \<Rightarrow> [] | Some d \<Rightarrow> [(d, snd p)]) l"
      by (intro nth_equalityI) (auto simp: js_nth_def nth_append split: option.split)
    then show ?thesis by simp
  qed
  also have "\<dots> = map (\<lambda>p. (the (fst p), snd p)) (filter (\<lambda>p. fst p \<noteq> None) l)"
    by (induction l) (auto split: option.split)
  finally show ?thesis unfolding solved_entries_def assms option.case by simp
qed

lemma sort_team_result:
  assumes "completions t = Some cs" and "points t = Some (map Num ns)"
    and "length cs = length ns" and "cs \<noteq> []"
    and "l = js_sort (date_cmp date_ms) (zip cs (map Num ns))"
  shows "sort_team date_ms t =
    Some (t\<lparr>completions := Some (map fst l), points := Some (map snd l)\<rparr>)"
  using assms by (cases cs) (simp_all add: sort_team_def solved_list_zip Let_def)

lemma sort_team_entries:
  assumes "completions t = Some cs" and "points t = Some (map Num ns)"
    and "length cs = length ns" and "sort_team date_ms t = Some t'"
  obtains l where "l = js_sort (date_cmp date_ms) (zip cs (map Num ns))"
    and "completions t' = Some (map fst l)" and "points t' = Some (map snd l)"
proof (cases "cs = []")
  case True
  with assms that [of "[]"] show ?thesis by (simp add: sort_team_def)
next
  case False
  let ?l = "js_sort (date_cmp date_ms) (zip cs (map Num ns))"
  have "t' = t\<lparr>completions := Some (map fst ?l), points := Some (map snd ?l)\<rparr>"
    using assms(4) sort_team_result [OF assms(1-3) False refl, of date_ms] by simp
  then show ?thesis by (intro that [of ?l]) simp_all
qed

lemma js_sort_Num_image:
  "\<exists>ms. js_sort (date_cmp date_ms) (zip cs (map Num ns)) = map (\<lambda>(c, n). (c, Num n)) ms
     \<and> mset ms = mset (zip cs ns)"
proof -
  let ?f = "\<lambda>(c :: string option, n). (c, Num n)"
  let ?xs = "zip cs (map Num ns)"
  have xs: "?xs = map ?f (zip cs ns)"
    by (simp add: zip_map2)
  have ins: "\<exists>ms'. js_insert cmp (?f x) (map ?f ms) = map ?f ms' \<and> mset ms' = add_mset x (mset ms)"
    for cmp x and ms :: "(string option \<times> int) list"
  proof (induction ms)
    case Nil
    show ?case by (intro exI [of _ "[x]"]) simp
  next
    case (Cons y ms)
    show ?case
    proof (cases "cmp_gt cmp (?f x) (?f y)")
      case True
      from Cons.IH obtain ms' where "js_insert cmp (?f x) (map ?f ms) = map ?f ms'"
        and "mset ms' = add_mset x (mset ms)" by blast
      with True show ?thesis by (intro exI [of _ "y # ms'"]) simp
    next
      case False
      then show ?thesis by (intro exI [of _ "x # y # ms"]) simp
    qed
  qed
  have "\<exists>ms. js_sort cmp (map ?f zs) = map ?f ms \<and> mset ms = mset zs"
    for cmp and zs :: "(string option \<times> int) list"
  proof (induction zs)
    case Nil
    show ?case by simp
  next
    case (Cons z zs)
    then obtain ms where "js_sort cmp (map ?f zs) = map ?f ms" and "mset ms = mset zs" by blast
    with ins [of cmp z ms] show ?case by auto
  qed
  then show ?thesis by (simp add: xs)
qed

lemma sum_list_map_mset:
  assumes "mset xs = mset ys"
  shows "sum_list (map f xs) = sum_list (map (f :: _ \<Rightarrow> int) ys)"
proof -
  have "sum_mset (image_mset f (mset xs)) = sum_mset (image_mset f (mset ys))"
    by (simp only: assms)
  then show ?thesis by (simp only: mset_map [symmetric] sum_mset_sum_list)
qed

lemma sum_list_filter_le_int:
  "(\<And>x. x \<in> set xs \<Longrightarrow> (0::int) \<le> f x) \<Longrightarrow> sum_list (map f (filter P xs)) \<le> sum_list (map f xs)"
  by (induction xs) (auto simp: add_increasing)

text \<open>The last point of a team's curve is the total of its solved challenges.\<close>

lemma team_trace_last:
  assumes c: "completions t = Some cs" and p: "points t = Some (map Num ns)"
    and len: "length cs = length ns" and st: "sort_team date_ms t = Some t'"
    and pos: "\<forall>n \<in> set ns. 0 \<le> n" and bound: "sum_list ns < 2 ^ 53"
    and some: "\<exists>c \<in> set cs. c \<noteq> None"
  shows "tr_y (team_trace date_ms t') \<noteq> []"
    and "last (tr_y (team_trace date_ms t')) = Num (entry_sum cs ns)"
proof -
  obtain ms where ms: "js_sort (date_cmp date_ms) (zip cs (map Num ns)) = map (\<lambda>(c, n). (c, Num n)) ms"
    and mset: "mset ms = mset (zip cs ns)"
    using js_sort_Num_image by blast
  let ?es = "filter (\<lambda>p. fst p \<noteq> None) ms"
  let ?ss = "map snd ?es"
  obtain l where l: "l = map (\<lambda>(c, n). (c, Num n)) ms" "completions t' = Some (map fst l)"
    "points t' = Some (map snd l @ [])"
    using sort_team_entries [OF c p len st] ms by auto
  have "map snd (solved_entries t') = map Num ?ss"
    unfolding solved_entries_filter [OF l(2,3)] l(1)
    by (simp add: filter_map o_def case_prod_beta')
  then have y: "tr_y (team_trace date_ms t') = cumulativeSum (map Num ?ss)"
    by (simp add: team_trace_def)
  have es: "mset ?es = mset (filter (\<lambda>p. fst p \<noteq> None) (zip cs ns))"
    using mset by simp
  then have sum: "sum_list ?ss = entry_sum cs ns"
    unfolding entry_sum_def by (rule sum_list_map_mset)
  have sub: "set ?ss \<subseteq> set ns"
    using mset [THEN mset_eq_setD] by (auto dest: set_zip_rightD)
  from some obtain c where "c \<in> set cs" and "c \<noteq> None" by blast
  with len obtain i where "i < length cs" and "cs ! i \<noteq> None"
    by (auto simp: in_set_conv_nth)
  then have "(cs ! i, ns ! i) \<in> set (zip cs ns)" using len by (auto simp: set_zip)
  then have "(cs ! i, ns ! i) \<in> set ?es"
    using \<open>cs ! i \<noteq> None\<close> mset [THEN mset_eq_setD] by simp
  then have ne: "?ss \<noteq> []" by (auto simp: filter_empty_conv intro: bexI [of _ "(cs ! i, ns ! i)"])
  have "sum_list (map snd (zip cs ns)) = sum_list ns" using len by simp
  moreover have "entry_sum cs ns \<le> sum_list (map snd (zip cs ns))"
    unfolding entry_sum_def using pos
    by (intro sum_list_filter_le_int) (auto dest: set_zip_rightD)
  ultimately have le: "entry_sum cs ns < 2 ^ 53" using bound by linarith
  show "tr_y (team_trace date_ms t') \<noteq> []" unfolding y using ne by (simp add: cumulativeSum_def)
  show "last (tr_y (team_trace date_ms t')) = Num (entry_sum cs ns)"
  proof -
    have "\<forall>n \<in> set ?ss. 0 \<le> n" using sub pos by blast
    moreover have "sum_list ?ss < 2 ^ 53" unfolding sum by (rule le)
    ultimately show ?thesis unfolding y sum [symmetric] by (rule last_cumulativeSum [OF ne])
  qed
qed

subsection \<open>Properties\<close>

definition valid_trace :: "trace \<Rightarrow> bool" where
  "valid_trace t \<longleftrightarrow> tr_x t \<noteq> [] \<and> tr_y t \<noteq> [] \<and> is_num (last (tr_x t)) \<and> is_num (last (tr_y t))"

definition trace_key :: "trace \<Rightarrow> int \<times> int" where
  "trace_key t = (- num_val (last (tr_y t)), num_val (last (tr_x t)))"

interpretation by_last: key_comparator trace_cmp trace_key valid_trace
proof
  fix a b assume "valid_trace a" and "valid_trace b"
  then obtain xa ya xb yb where "last (tr_x a) = Num xa" "last (tr_y a) = Num ya"
    "last (tr_x b) = Num xb" "last (tr_y b) = Num yb"
    "tr_x a \<noteq> []" "tr_y a \<noteq> []" "tr_x b \<noteq> []" "tr_y b \<noteq> []"
    by (auto simp: valid_trace_def elim!: is_numE)
  then show "cmp_gt trace_cmp a b \<longleftrightarrow> trace_key b < trace_key a"
    and "cmp_lt trace_cmp a b \<longleftrightarrow> trace_key a < trace_key b"
    by (auto simp: cmp_gt_def cmp_lt_def trace_cmp_def trace_key_def Let_def)
qed

text \<open>
  C32. For a string of at most 2^21 UTF-16 code units the colour is \<^verbatim>\<open>#\<close> and the three low bytes,
  lowest first and two hexadecimal digits each, of the 32-bit hash \<^verbatim>\<open>h = 31*h + c\<close>: the
  double arithmetic of the loop, which keeps \<open>hash\<close> outside the 32-bit range, loses nothing.
\<close>
theorem colorHash_is_hash32:
  assumes "length str \<le> 2 ^ 21"
  shows "colorHash str = ''#'' @ two_digits (hash_byte (hash32 str) 0)
     @ two_digits (hash_byte (hash32 str) 1) @ two_digits (hash_byte (hash32 str) 2)"
  using assms by (rule colorHash_eq)

theorem colorHash_is_hash32_witness:
  "length (js_units ''ab'') \<le> 2 ^ 21 \<and> hash32 (js_units ''ab'') = 3105 \<and>
   colorHash (js_units ''ab'') = ''#'' @ two_digits (hash_byte 3105 0)
     @ two_digits (hash_byte 3105 1) @ two_digits (hash_byte 3105 2)"
proof -
  have h: "hash32 (js_units ''ab'') = 3105"
    by (simp add: hash32_def js_units_def)
  have len: "length (js_units ''ab'') \<le> 2 ^ 21" by (simp add: js_units_def)
  from colorHash_is_hash32 [OF len] show ?thesis using h len by simp
qed

lemma bits_below:
  "m \<le> k \<Longrightarrow> (\<forall>n < k. (n < m \<and> P n) = (n < m \<and> Q n)) \<longleftrightarrow> (\<forall>n < (m::nat). P n = Q n)"
  using less_le_trans by blast

lemma hash_byte_eq_iff:
  "hash_byte v j = hash_byte w j \<longleftrightarrow> (\<forall>n < 8. bit v (8 * j + n) = bit w (8 * j + n))"
proof -
  have m: "(255 :: 32 word) = mask 8" by (simp add: mask_eq_exp_minus_1)
  have "hash_byte v j = hash_byte w j \<longleftrightarrow> drop_bit (8 * j) v AND mask 8 = drop_bit (8 * j) w AND mask 8"
    by (simp only: hash_byte_def m word_unat_eq_iff)
  also have "\<dots> \<longleftrightarrow> (\<forall>n < 8. bit v (8 * j + n) = bit w (8 * j + n))"
    by (simp add: bit_eq_iff bit_and_iff bit_drop_bit_eq bit_mask_iff conj_commute bits_below)
  finally show ?thesis .
qed

lemma three_bytes: "(n :: nat) < 24 \<Longrightarrow> (\<And>j m. j < 3 \<Longrightarrow> m < 8 \<Longrightarrow> P (8 * j + m)) \<Longrightarrow> P n"
proof -
  assume n: "n < 24" and P: "\<And>j m. j < 3 \<Longrightarrow> m < 8 \<Longrightarrow> P (8 * j + m)"
  from n have "P (8 * (n div 8) + n mod 8)" by (intro P) auto
  then show "P n" by simp
qed

lemma take_bit_24_eq_iff:
  "take_bit 24 v = take_bit 24 (w :: 32 word) \<longleftrightarrow> (\<forall>j < 3. hash_byte v j = hash_byte w j)"
proof -
  have "take_bit 24 v = take_bit 24 w \<longleftrightarrow> (\<forall>n < 24. bit v n = bit w n)"
    by (simp add: bit_eq_iff bit_take_bit_iff bits_below)
  also have "\<dots> \<longleftrightarrow> (\<forall>j < 3. \<forall>m < 8. bit v (8 * j + m) = bit w (8 * j + m))"
  proof
    assume "\<forall>j < 3. \<forall>m < 8. bit v (8 * j + m) = bit w (8 * j + m)"
    then show "\<forall>n < 24. bit v n = bit w n"
      using three_bytes [of _ "\<lambda>n. bit v n = bit w n"] by blast
  qed auto
  finally show ?thesis by (simp add: hash_byte_eq_iff)
qed

text \<open>
  Two strings get the same colour exactly when their 32-bit hashes agree in the low 24
  bits: the two-digit padding keeps the three bytes apart.
\<close>
theorem colorHash_collision:
  assumes "length s \<le> 2 ^ 21" and "length t \<le> 2 ^ 21"
  shows "colorHash s = colorHash t \<longleftrightarrow> take_bit 24 (hash32 s) = take_bit 24 (hash32 t)"
proof -
  have three: "(\<forall>j < 3. P j) \<longleftrightarrow> P 0 \<and> P 1 \<and> P 2" for P :: "nat \<Rightarrow> bool"
    by (auto simp: less_Suc_eq numeral_3_eq_3 numeral_2_eq_2)
  have split: "two_digits a @ r = two_digits b @ q \<longleftrightarrow> two_digits a = two_digits b \<and> r = q" for a b r q
    by (auto simp: two_digits_def)
  show ?thesis
    unfolding colorHash_eq [OF assms(1)] colorHash_eq [OF assms(2)] take_bit_24_eq_iff three
    using hash_byte_bound by (simp add: split two_digits_inject)
qed

theorem colorHash_collision_witness:
  "length (js_units ''Aa'') \<le> 2 ^ 21 \<and> length (js_units ''BB'') \<le> 2 ^ 21 \<and>
   colorHash (js_units ''Aa'') = colorHash (js_units ''BB'')"
proof -
  have a: "length (js_units ''Aa'') \<le> 2 ^ 21" and b: "length (js_units ''BB'') \<le> 2 ^ 21"
    by (simp_all add: js_units_def)
  have "hash32 (js_units ''Aa'') = hash32 (js_units ''BB'')"
    by (simp add: hash32_def js_units_def)
  with colorHash_collision [OF a b] a b show ?thesis by simp
qed

text \<open>
  Sorting a team's completions by date moves each pair of a completion and its points as
  a unit, puts the pairs in order of their instants, and keeps pairs with equal instants in
  order.
\<close>
theorem sort_team_pairs:
  assumes "completions t = Some cs" and "points t = Some (map Num ns)" and "length cs = length ns"
    and "\<forall>c \<in> set cs. is_num (date_num date_ms c)" and "sort_team date_ms t = Some t'"
  shows "\<exists>cs' ps'. completions t' = Some cs' \<and> points t' = Some ps' \<and>
    mset (zip cs' ps') = mset (zip cs (map Num ns)) \<and>
    sorted (map (\<lambda>c. num_val (date_num date_ms c)) cs') \<and>
    (\<forall>k. filter (\<lambda>p. num_val (date_num date_ms (fst p)) = k) (zip cs' ps') =
         filter (\<lambda>p. num_val (date_num date_ms (fst p)) = k) (zip cs (map Num ns)))"
proof -
  let ?xs = "zip cs (map Num ns)"
  obtain l where l: "l = js_sort (date_cmp date_ms) ?xs"
    and t': "completions t' = Some (map fst l)" "points t' = Some (map snd l)"
    using sort_team_entries [OF assms(1-3,5)] by blast
  have valid: "\<forall>p \<in> set ?xs. is_num (date_num date_ms (fst p))"
    using assms(4) by (auto dest: set_zip_leftD)
  have z: "zip (map fst l) (map snd l) = l" by (rule zip_map_fst_snd)
  have "sorted (map (\<lambda>c. num_val (date_num date_ms c)) (map fst l))"
    using by_date.sorted_sort [OF valid] by (simp add: l o_def)
  moreover have "filter (\<lambda>p. num_val (date_num date_ms (fst p)) = k) l =
      filter (\<lambda>p. num_val (date_num date_ms (fst p)) = k) ?xs" for k
    unfolding l by (rule by_date.stable_sort [OF valid])
  ultimately show ?thesis using t' z by (auto simp: l)
qed

definition sample_date :: "string \<Rightarrow> jsnum" where
  "sample_date s = Num (int (read_digits s))"

definition sample_team :: team_view where
  "sample_team = \<lparr>tv_id = ''a1'', tv_name = ''red'', tpoints = Num 30,
     completions = Some [Some ''9'', None, Some ''4''],
     points = Some (map Num [10, 5, 20]), tv_is_user = False\<rparr>"

lemma sample_date_simps [simp]:
  "sample_date ''9'' = Num 9" "sample_date ''4'' = Num 4"
  by (simp_all add: sample_date_def read_digits_def char_digit_def)

theorem sort_team_pairs_witness:
  "\<exists>t'. sort_team sample_date sample_team = Some t' \<and>
     completions t' = Some [None, Some ''4'', Some ''9''] \<and>
     (\<exists>cs' ps'. completions t' = Some cs' \<and> points t' = Some ps' \<and>
       mset (zip cs' ps') = mset (zip [Some ''9'', None, Some ''4''] (map Num [10, 5, 20])))"
proof -
  let ?t' = "sample_team\<lparr>completions := Some [None, Some ''4'', Some ''9''],
               points := Some [Num 5, Num 20, Num 10]\<rparr>"
  have s: "sort_team sample_date sample_team = Some ?t'"
    by (simp add: sort_team_result [OF _ _ _ _ refl, of _ "[Some ''9'', None, Some ''4'']" "[10, 5, 20]"]
        sample_team_def date_cmp_def cmp_gt_def)
  have "\<exists>cs' ps'. completions ?t' = Some cs' \<and> points ?t' = Some ps' \<and>
       mset (zip cs' ps') = mset (zip [Some ''9'', None, Some ''4''] (map Num [10, 5, 20]))"
    using sort_team_pairs [OF _ _ _ _ s, of "[Some ''9'', None, Some ''4'']" "[10, 5, 20]"]
    by (auto simp: sample_team_def)
  with s show ?thesis by auto
qed

definition message_team_count :: "json \<Rightarrow> nat" where
  "message_team_count j =
     (if is_msg ''scoreboard'' j
      then (case message_teams j of None \<Rightarrow> 0 | Some ts \<Rightarrow> length ts) else 0)"

lemma sort_teams_length: "length (snd (sort_teams d ts)) = length ts"
  by (induction ts) (auto split: option.split prod.split)

lemma teams_handle_traces:
  "teams_handle d j st = (None, st') \<Longrightarrow>
   length (tp_traces st') = length (tp_traces st) + message_team_count j"
  using sort_teams_length [of d "js_sort tpoints_cmp (the (message_teams j))"]
  by (auto simp: teams_handle_def sortSolvedData_def scoreGraph_def message_team_count_def
      split: if_splits option.splits prod.splits)

lemma handle_values_traces:
  "handle_values (teams_handle d) js st = (None, st') \<Longrightarrow>
   length (tp_traces st') = length (tp_traces st) + sum_list (map message_team_count js)"
  by (induction js arbitrary: st) (auto split: prod.splits option.splits dest!: teams_handle_traces)

text \<open>
  The graph never drops a curve: a frame that is handled without an error adds one trace
  per team of each of its scoreboard messages to the traces already there, so a page that has
  received the scoreboard of n teams k times shows k * n curves.
\<close>
theorem teams_receive_adds_traces:
  assumes "js \<noteq> []" and "JNull \<notin> set js"
    and "teams_receive d (join_with newline (map json_marshal js)) st = (None, st')"
  shows "length (tp_traces st') = length (tp_traces st) + sum_list (map message_team_count js)"
  using assms by (simp add: teams_receive_def on_frame_printed handle_values_traces)

definition sample_scoreboard :: json where
  "sample_scoreboard = JObj [(''msg'', JStr ''scoreboard''),
     (''values'', JObj [(''challenges'', JArr []),
        (''teams'', JArr [JObj [(''id'', JStr ''a1''), (''name'', JStr ''red''), (''tpoints'', JNum 0),
           (''completions'', JArr []), (''points'', JArr []), (''is_user'', JBool False)]])]),
     (''isLabAssigned'', JBool False)]"

lemma sample_scoreboard_teams:
  "is_msg ''scoreboard'' sample_scoreboard"
  "message_teams sample_scoreboard = Some [\<lparr>tv_id = ''a1'', tv_name = ''red'', tpoints = Num 0,
     completions = Some [], points = Some [], tv_is_user = False\<rparr>]"
  by (simp_all add: sample_scoreboard_def is_msg_def message_teams_def prop_list_def to_team_def
      prop_str_def prop_num_def prop_bool_def)

theorem teams_receive_adds_traces_witness:
  "\<exists>st'. teams_receive sample_date
      (join_with newline (map json_marshal [sample_scoreboard, sample_scoreboard])) teams_page_init
      = (None, st') \<and> length (tp_teams st') = 1 \<and> length (tp_traces st') = 2"
proof -
  let ?js = "[sample_scoreboard, sample_scoreboard]"
  have ne: "?js \<noteq> []" and nn: "JNull \<notin> set ?js" by (simp_all add: sample_scoreboard_def)
  obtain st' where st': "teams_receive sample_date (join_with newline (map json_marshal ?js))
      teams_page_init = (None, st')" and one: "length (tp_teams st') = 1"
    unfolding teams_receive_def on_frame_printed [OF ne nn]
    by (simp add: teams_handle_def sample_scoreboard_teams sortSolvedData_def sort_team_def scoreGraph_def)
  from teams_receive_adds_traces [OF ne nn st'] one st' show ?thesis
    by (simp add: message_team_count_def sample_scoreboard_teams teams_page_init_def)
qed

text \<open>
  Among traces with at least one dated point the graph's order is by last score, highest
  first, then by the instant it was reached, earliest first; equal traces keep their order.
\<close>
theorem scoreGraph_sorted:
  assumes "\<forall>t \<in> set (tp_traces st) \<union> team_trace d ` set (tp_teams st). valid_trace t"
  shows "sorted (map trace_key (tp_traces (scoreGraph d st)))
    \<and> mset (tp_traces (scoreGraph d st)) =
        mset (tp_traces st) + mset (map (team_trace d) (tp_teams st))"
proof -
  have "\<forall>t \<in> set (tp_traces st @ map (team_trace d) (tp_teams st)). valid_trace t"
    using assms by auto
  from by_last.sorted_sort [OF this] show ?thesis
    by (simp add: scoreGraph_def)
qed

definition solver :: "string \<Rightarrow> string option \<Rightarrow> int \<Rightarrow> team_view" where
  "solver n c p = \<lparr>tv_id = ''a1'', tv_name = n, tpoints = Num p, completions = Some [c],
     points = Some [Num p], tv_is_user = False\<rparr>"

lemma solver_entries:
  "solved_entries (solver n (Some d) p) = [(d, Num p)]" "solved_entries (solver n None p) = []"
  by (simp_all add: solver_def solved_entries_def js_nth_def)

lemma team_trace_solver:
  "tr_x (team_trace f (solver n (Some d) p)) = [f d]"
  "tr_y (team_trace f (solver n (Some d) p)) = [Num p]"
  "tr_x (team_trace f (solver n None p)) = []" "tr_y (team_trace f (solver n None p)) = []"
  by (simp_all add: team_trace_def solver_entries cumulativeSum_def)

theorem scoreGraph_sorted_witness:
  "let st = \<lparr>tp_teams = [solver ''red'' (Some ''9'') 5, solver ''blue'' (Some ''4'') 5], tp_traces = []\<rparr>
   in (\<forall>t \<in> set (tp_traces st) \<union> team_trace sample_date ` set (tp_teams st). valid_trace t) \<and>
      sorted (map trace_key (tp_traces (scoreGraph sample_date st)))"
proof -
  let ?st = "\<lparr>tp_teams = [solver ''red'' (Some ''9'') 5, solver ''blue'' (Some ''4'') 5], tp_traces = []\<rparr>"
  have v: "\<forall>t \<in> set (tp_traces ?st) \<union> team_trace sample_date ` set (tp_teams ?st). valid_trace t"
    by (simp add: valid_trace_def team_trace_solver)
  from scoreGraph_sorted [OF v] v show ?thesis unfolding Let_def by blast
qed

text \<open>
  With a team that has solved nothing on the page the comparator of the traces orders
  nothing consistently: it calls that team's trace equal to two others that it ranks apart,
  so the order of the graph is left to the engine.
\<close>
theorem trace_cmp_inconsistent:
  "\<exists>a b c. let ta = team_trace sample_date a; tb = team_trace sample_date b;
             tc = team_trace sample_date c
           in cmp_eq trace_cmp ta tb \<and> cmp_eq trace_cmp tb tc \<and> cmp_lt trace_cmp ta tc"
proof -
  let ?a = "solver ''red'' (Some ''9'') 10" and ?b = "solver ''green'' None 10"
    and ?c = "solver ''blue'' (Some ''4'') 5"
  show ?thesis
    by (intro exI [of _ ?a] exI [of _ ?b] exI [of _ ?c])
      (simp add: Let_def cmp_eq_def cmp_lt_def cmp_gt_def trace_cmp_def team_trace_solver js_nth_def)
qed

end
