(* ===== verification/Vue_Scoreboard.thy ===== *)
theory Vue_Scoreboard
  imports Page_Messages
begin

text \<open>
  The scoreboard page: components/Scoreboard.vue with its rows (TeamRow.vue) and cells
  (ChallengeCell.vue). The state is the category list and the team list of the last
  scoreboard message; \<open>scoreboard_handle\<close> is the body of \<^verbatim>\<open>receiveMsg\<close>'s loop, and the
  templates are functions to the virtual DOM.
\<close>

record chal_head =
  ch_name :: string
  ch_points :: jsnum

record category_view =
  cat_name :: string
  cat_chals :: "chal_head list"

record scoreboard =
  sb_teams :: "team_view list"
  sb_challenges :: "category_view list"

definition scoreboard_init :: scoreboard where
  "scoreboard_init = \<lparr>sb_teams = [], sb_challenges = []\<rparr>"

definition to_chal_head :: "json \<Rightarrow> chal_head" where
  "to_chal_head j = \<lparr>ch_name = prop_str ''name'' j, ch_points = prop_num ''points'' j\<rparr>"

definition to_category :: "json \<Rightarrow> category_view" where
  "to_category j =
     \<lparr>cat_name = prop_str ''category'' j,
      cat_chals = (case prop_list ''chals'' j of None \<Rightarrow> [] | Some xs \<Rightarrow> map to_chal_head xs)\<rparr>"

text \<open>
  \<^verbatim>\<open>json.values.challenges\<close>: null or missing renders like the empty list, in \<^verbatim>\<open>v-for\<close> and
  in \<^verbatim>\<open>for ... in\<close> alike. \<^term>\<open>None\<close> where reading a property of \<^verbatim>\<open>values\<close> throws.
\<close>

definition message_categories :: "json \<Rightarrow> category_view list option" where
  "message_categories j =
     (case js_prop ''values'' j of
        None \<Rightarrow> None
      | Some JNull \<Rightarrow> None
      | Some v \<Rightarrow> Some (case prop_list ''challenges'' v of None \<Rightarrow> [] | Some xs \<Rightarrow> map to_category xs))"

definition get_challenges :: "category_view list \<Rightarrow> chal_head list" where
  "get_challenges full_challenges =
     foldl (\<lambda>challenges c. foldl (\<lambda>acc ch. acc @ [ch]) challenges (cat_chals c)) [] full_challenges"

text \<open>\<^term>\<open>None\<close> is \<^verbatim>\<open>undefined\<close>: the switch has no default.\<close>

definition category_name :: "string \<Rightarrow> nat \<Rightarrow> string option" where
  "category_name name challenges_num =
     (if challenges_num > 3 then Some name
      else if name = ''Web exploitation'' then Some ''Web E.''
      else if name = ''Forensics'' then Some ''For..''
      else if name = ''Cryptography'' then Some ''Cry..''
      else if name = ''Binary'' then Some ''Bin..''
      else if name = ''Reverse Engineering'' then Some ''R. Eng.''
      else None)"

definition scoreboard_handle :: "json \<Rightarrow> scoreboard \<Rightarrow> js_error option \<times> scoreboard" where
  "scoreboard_handle j st =
     (if is_msg ''scoreboard'' j then
        (case message_categories j of
           None \<Rightarrow> (Some TypeError, st)
         | Some cs \<Rightarrow>
             let st = st\<lparr>sb_challenges := cs\<rparr> in
             (case message_teams j of
                None \<Rightarrow> (Some TypeError, st)
              | Some ts \<Rightarrow> (None, st\<lparr>sb_teams := js_sort tpoints_cmp ts\<rparr>)))
      else (None, st))"

definition scoreboard_receive :: "string \<Rightarrow> scoreboard \<Rightarrow> js_error option \<times> scoreboard" where
  "scoreboard_receive data st = on_frame scoreboard_handle data st"

text \<open>The address \<^verbatim>\<open>created\<close> connects to.\<close>

definition scoreboard_ws_url :: "url \<Rightarrow> url" where
  "scoreboard_ws_url loc = ws_url ''/scores'' loc"

subsection \<open>Rows and cells\<close>

definition get_background :: "nat \<Rightarrow> bool \<Rightarrow> string" where
  "get_background index user =
     (if user then ''bg-isUser'' else if index mod 2 = 0 then ''even'' else ''odd'')"

definition challenge_cell :: "bool \<Rightarrow> string list \<Rightarrow> vnode" where
  "challenge_cell completed outer =
     Elem ''td'' ([''text-center'', ''scoreboard-border''] @ outer) []
       [Elem ''span'' (''icon'' # class_if [(''text-success'', completed)]) []
          [Elem ''i'' (''fas'' # class_if [(''fa-check-circle'', completed), (''fa-circle'', \<not> completed)]) [] []]]"

definition team_row :: "nat \<Rightarrow> team_view \<Rightarrow> vnode" where
  "team_row pos team =
     (let bg = get_background pos (tv_is_user team) in
      Elem ''tr'' (class_if [(''bg-isUser'', tv_is_user team)]) [(''key'', tv_id team)]
        ([if pos < 4
          then Elem ''td'' [''text-center'', ''rank-col'', bg] []
                 [Elem ''span'' (''icon'' # class_if [(''has-text-warning'', pos = 1),
                                   (''is-silver'', pos = 2), (''is-bronze'', pos = 3)]) []
                    [Elem ''i'' [''fas'', ''fa-trophy''] [] []]]
          else Elem ''td'' [''text-center'', ''rank-col'', bg] [] [Text (show_nat pos)],
          Elem ''td'' [''team-col'', bg] [] [Elem ''strong'' [] [] [Text (tv_name team)]],
          Elem ''td'' [''text-center'', ''score-col'', bg] [] [Text (show_num (tpoints team))]]
         @ map (\<lambda>comp. challenge_cell (comp \<noteq> None) [bg])
             (case completions team of None \<Rightarrow> [] | Some cs \<Rightarrow> cs)))"

subsection \<open>The table\<close>

definition category_cell :: "category_view \<Rightarrow> vnode" where
  "category_cell c =
     Elem ''th'' [''scoreboard-border'']
       [(''colspan'', show_nat (length (cat_chals c))), (''key'', cat_name c), (''id'', cat_name c)]
       [Text (case category_name (cat_name c) (length (cat_chals c)) of None \<Rightarrow> [] | Some s \<Rightarrow> s),
        Elem ''b-tooltip'' [] [(''target'', cat_name c)] [Text (cat_name c)]]"

definition chal_cell :: "chal_head \<Rightarrow> vnode" where
  "chal_cell chal =
     Elem ''th'' [''scoreboard-border''] [(''key'', ch_name chal), (''id'', ch_name chal)]
       [Elem ''span'' [''chal-points-font''] [] [Text (show_num (ch_points chal))],
        Elem ''b-tooltip'' [] [(''target'', ch_name chal)] [Text (ch_name chal)]]"

definition category_header :: "scoreboard \<Rightarrow> vnode" where
  "category_header st =
     Elem ''tr'' [] []
       ([Elem ''th'' [''text-center'', ''rank-col''] [] [Text ''#''],
         Elem ''th'' [''team-col''] [] [Text ''Team''],
         Elem ''th'' [''score-col''] [] [Text ''Score'']]
        @ map category_cell (sb_challenges st))"

definition chal_header :: "scoreboard \<Rightarrow> vnode" where
  "chal_header st =
     Elem ''tr'' [] []
       ([Elem ''th'' [''rank-col''] [] [], Elem ''th'' [''team-col''] [] [],
         Elem ''th'' [''score-col''] [] []]
        @ map chal_cell (get_challenges (sb_challenges st)))"

definition scoreboard_body :: "scoreboard \<Rightarrow> vnode" where
  "scoreboard_body st =
     (if length (sb_teams st) > 0
      then Elem ''tbody'' [] []
             (map (\<lambda>(index, team). team_row (index + 1) team) (enumerate 0 (sb_teams st)))
      else Elem ''tbody'' [] []
             [Elem ''tr'' [''text-center''] []
                [Elem ''td'' []
                   [(''colspan'', show_nat (length (get_challenges (sb_challenges st)) + 3))]
                   [Text ''No team registered to this event!'']]])"

definition scoreboard_template :: "scoreboard \<Rightarrow> vnode" where
  "scoreboard_template st =
     Elem ''div'' [''table-responsive''] []
       [Elem ''table'' [''table'', ''table-striped''] [(''id'', ''scoreboardtable'')]
          [Elem ''thead'' [''thead-dark-custom'', ''text-center''] []
             [category_header st, chal_header st],
           scoreboard_body st]]"

subsection \<open>Lemmas\<close>

lemma get_challenges_concat: "get_challenges cs = concat (map cat_chals cs)"
proof -
  have inner: "foldl (\<lambda>acc ch. acc @ [ch]) xs ys = xs @ ys" for xs ys :: "chal_head list"
    by (induction ys arbitrary: xs) auto
  have "foldl (\<lambda>a c. foldl (\<lambda>acc ch. acc @ [ch]) a (cat_chals c)) xs cs
      = xs @ concat (map cat_chals cs)" for xs
    by (induction cs arbitrary: xs) (auto simp: inner)
  then show ?thesis by (simp add: get_challenges_def)
qed

text \<open>How many columns a table row spans: its cells, each counted with its \<^verbatim>\<open>colspan\<close>.\<close>

fun cell_span :: "vnode \<Rightarrow> nat" where
  "cell_span (Text _) = 0"
| "cell_span (Elem _ _ as _) = (case map_of as ''colspan'' of None \<Rightarrow> 1 | Some s \<Rightarrow> read_digits s)"

definition row_span :: "vnode \<Rightarrow> nat" where
  "row_span r = sum_list (map cell_span (children r))"

lemma row_span_headers:
  "row_span (category_header st) = 3 + length (get_challenges (sb_challenges st))"
  "row_span (chal_header st) = 3 + length (get_challenges (sb_challenges st))"
proof -
  have "sum_list (map (cell_span \<circ> category_cell) cs) = length (concat (map cat_chals cs))" for cs
    by (induction cs) (simp_all add: category_cell_def)
  then show "row_span (category_header st) = 3 + length (get_challenges (sb_challenges st))"
    by (simp add: row_span_def category_header_def get_challenges_concat)
  have "sum_list (map (cell_span \<circ> chal_cell) cs) = length cs" for cs
    by (induction cs) (simp_all add: chal_cell_def)
  then show "row_span (chal_header st) = 3 + length (get_challenges (sb_challenges st))"
    by (simp add: row_span_def chal_header_def)
qed

lemma row_span_team_row:
  "row_span (team_row pos t) = 3 + length (case completions t of None \<Rightarrow> [] | Some cs \<Rightarrow> cs)"
proof -
  have "sum_list (map (cell_span \<circ> (\<lambda>comp. challenge_cell (comp \<noteq> None) bg)) cs) = length cs"
    for bg and cs :: "string option list"
    by (induction cs) (simp_all add: challenge_cell_def)
  then show ?thesis by (simp add: row_span_def team_row_def Let_def)
qed

lemma children_scoreboard_body:
  "sb_teams st \<noteq> [] \<Longrightarrow> children (scoreboard_body st)
     = map (\<lambda>i. team_row (i + 1) (sb_teams st ! i)) [0..<length (sb_teams st)]"
  by (auto simp: scoreboard_body_def intro!: nth_equalityI simp: nth_enumerate_eq)

end
