(* ===== verification/Go_Runtime.thy ===== *)
theory Go_Runtime
  imports Prelude "HOL-Library.AList"
begin

text \<open>
  How a Go call ends: with a value, with a panic (which the HTTP server recovers from), or
  with a fatal error of the runtime, which ends the process. Go's
  built-in map is an association list with distinct keys: \<open>map_put\<close> is \<^verbatim>\<open>m[k] = v\<close>, \<open>map_del\<close> is \<^verbatim>\<open>delete(m, k)\<close>, and the list order stands for one order in which a \<^verbatim>\<open>range\<close>
  loop may visit the entries. The locale \<open>finite_map\<close> is the contract the stores rely on;
  \<open>two_index\<close> extends it with the invariant of a store that keeps its records under their
  identifier and a second map from names to identifiers.
\<close>

datatype 'a go = Ret 'a | Panic | Fatal

fun go_bind :: "'a go \<Rightarrow> ('a \<Rightarrow> 'b go) \<Rightarrow> 'b go" where
  "go_bind (Ret x) f = f x"
| "go_bind Panic f = Panic"
| "go_bind Fatal f = Fatal"

lemma go_bind_Ret: "go_bind m f = Ret y \<longleftrightarrow> (\<exists>x. m = Ret x \<and> f x = Ret y)"
  by (cases m) auto

type_synonym ('k, 'v) gomap = "('k \<times> 'v) list"

definition map_ok :: "('k, 'v) gomap \<Rightarrow> bool" where
  "map_ok m \<longleftrightarrow> distinct (map fst m)"

definition map_put :: "'k \<Rightarrow> 'v \<Rightarrow> ('k, 'v) gomap \<Rightarrow> ('k, 'v) gomap" where
  "map_put k v m = AList.update k v m"

definition map_del :: "'k \<Rightarrow> ('k, 'v) gomap \<Rightarrow> ('k, 'v) gomap" where
  "map_del k m = AList.delete k m"

definition map_get :: "('k, 'v) gomap \<Rightarrow> 'k \<Rightarrow> 'v option" where
  "map_get m k = map_of m k"

locale finite_map =
  fixes get :: "'m \<Rightarrow> 'k \<Rightarrow> 'v option" and put :: "'k \<Rightarrow> 'v \<Rightarrow> 'm \<Rightarrow> 'm"
    and del :: "'k \<Rightarrow> 'm \<Rightarrow> 'm" and empty :: 'm and ok :: "'m \<Rightarrow> bool"
  assumes get_empty: "get empty k = None"
    and get_put: "get (put k v m) k' = (if k' = k then Some v else get m k')"
    and get_del: "ok m \<Longrightarrow> get (del k m) k' = (if k' = k then None else get m k')"
    and ok_empty: "ok empty"
    and ok_put: "ok m \<Longrightarrow> ok (put k v m)"
    and ok_del: "ok m \<Longrightarrow> ok (del k m)"
begin

lemmas laws = get_empty get_put get_del ok_empty ok_put ok_del

lemma get_put_put: "get (put k w (put k v m)) = get (put k w m)"
  by (rule ext) (simp add: get_put)

lemma get_del_put: "ok m \<Longrightarrow> get (del k (put k v m)) = get (del k m)"
  by (rule ext) (simp add: get_put get_del ok_put)

end

lemma map_get_put [simp]: "map_get (map_put k v m) k' = (if k' = k then Some v else map_get m k')"
  by (simp add: map_get_def map_put_def update_conv)

lemma map_get_del [simp]: "map_get (map_del k m) k' = (if k' = k then None else map_get m k')"
  by (simp add: map_get_def map_del_def delete_conv)

lemma map_get_Nil [simp]: "map_get [] k = None"
  by (simp add: map_get_def)

lemma map_get_Cons: "map_get ((a, b) # m) k = (if a = k then Some b else map_get m k)"
  by (simp add: map_get_def)

lemma map_ok_Nil [simp]: "map_ok []"
  by (simp add: map_ok_def)

lemma map_ok_put [simp]: "map_ok m \<Longrightarrow> map_ok (map_put k v m)"
  by (simp add: map_ok_def map_put_def distinct_update)

lemma map_ok_del [simp]: "map_ok m \<Longrightarrow> map_ok (map_del k m)"
  by (simp add: map_ok_def map_del_def distinct_delete)

interpretation gomap: finite_map map_get map_put map_del "[]" map_ok
  by unfold_locales simp_all

lemma map_get_in: "map_get m k = Some v \<Longrightarrow> (k, v) \<in> set m"
  by (simp add: map_get_def map_of_SomeD)

lemma in_map_get: "map_ok m \<Longrightarrow> (k, v) \<in> set m \<longleftrightarrow> map_get m k = Some v"
  by (simp add: map_ok_def map_get_def map_of_eq_Some_iff)

lemma map_put_fresh: "map_get m k = None \<Longrightarrow> map_put k v m = m @ [(k, v)]"
  unfolding map_get_def map_put_def by (induction m) (auto split: if_splits)

lemma map_get_fst: "k \<notin> set (map fst m) \<Longrightarrow> map_get m k = None"
  by (simp add: map_get_def map_of_eq_None_iff)

lemma length_map_put:
  "length (map_put k v m) = (if map_get m k = None then Suc (length m) else length m)"
  unfolding map_put_def map_get_def by (induction m) auto

lemma length_map_del: "length (map_del k m) \<le> length m"
  unfolding map_del_def by (rule length_delete_le)

text \<open>
  A store that finds a record by its identifier and, through a second map, by its name:
  what lookups by name return after a record is added under a fresh name and identifier, and
  after one is removed, follows from the two maps agreeing.
\<close>

locale two_index = byid: finite_map getr putr delr emptyr okr + byname: finite_map getn putn deln emptyn okn
  for getr :: "'r \<Rightarrow> 'i \<Rightarrow> 'v option" and putr delr emptyr okr
    and getn :: "'n \<Rightarrow> 'k \<Rightarrow> 'i option" and putn deln emptyn okn +
  fixes name_of :: "'v \<Rightarrow> 'k"
begin

definition agree :: "'r \<Rightarrow> 'n \<Rightarrow> bool" where
  "agree r n \<longleftrightarrow> okr r \<and> okn n \<and>
     (\<forall>k i. getn n k = Some i \<longrightarrow> (\<exists>v. getr r i = Some v \<and> name_of v = k)) \<and>
     (\<forall>i v. getr r i = Some v \<longrightarrow> getn n (name_of v) = Some i)"

definition by_name :: "'r \<Rightarrow> 'n \<Rightarrow> 'k \<Rightarrow> 'v option" where
  "by_name r n k = (case getn n k of None \<Rightarrow> None | Some i \<Rightarrow> getr r i)"

lemma agree_empty: "agree emptyr emptyn"
  by (simp add: agree_def byid.laws byname.laws)

lemma name_entry: "agree r n \<Longrightarrow> getn n k = Some i \<Longrightarrow> \<exists>v. getr r i = Some v \<and> name_of v = k"
  by (simp add: agree_def)

lemma record_entry: "agree r n \<Longrightarrow> getr r i = Some v \<Longrightarrow> getn n (name_of v) = Some i"
  by (simp add: agree_def)

lemma agree_ok: "agree r n \<Longrightarrow> okr r" "agree r n \<Longrightarrow> okn n"
  by (simp_all add: agree_def)

lemma agreeI:
  assumes "okr r" "okn n" "\<And>k i. getn n k = Some i \<Longrightarrow> \<exists>v. getr r i = Some v \<and> name_of v = k"
    "\<And>i v. getr r i = Some v \<Longrightarrow> getn n (name_of v) = Some i"
  shows "agree r n"
  using assms by (simp add: agree_def)

lemma agree_add:
  assumes "agree r n" and "getr r i = None" and "getn n (name_of v) = None"
  shows "agree (putr i v r) (putn (name_of v) i n)"
proof (rule agreeI)
  show "okr (putr i v r)" "okn (putn (name_of v) i n)"
    using agree_ok [OF assms(1)] by (simp_all add: byid.laws byname.laws)
next
  fix k j assume "getn (putn (name_of v) i n) k = Some j"
  then show "\<exists>w. getr (putr i v r) j = Some w \<and> name_of w = k"
    using name_entry [OF assms(1), of k j] assms(2) by (auto simp: byid.laws byname.laws split: if_splits)
next
  fix j w assume "getr (putr i v r) j = Some w"
  then show "getn (putn (name_of v) i n) (name_of w) = Some j"
    using record_entry [OF assms(1), of j w] assms(3) by (auto simp: byid.laws byname.laws split: if_splits)
qed

lemma by_name_add:
  assumes "agree r n" and "getr r i = None"
  shows "by_name (putr i v r) (putn (name_of v) i n) = (by_name r n)(name_of v := Some v)"
proof
  fix k
  show "by_name (putr i v r) (putn (name_of v) i n) k = ((by_name r n)(name_of v := Some v)) k"
    using name_entry [OF assms(1), of k i] assms(2)
    by (auto simp: by_name_def byid.laws byname.laws split: option.splits)
qed

lemma agree_remove:
  assumes "agree r n" and "getr r i = Some v"
  shows "agree (delr i r) (deln (name_of v) n)"
proof (rule agreeI)
  show "okr (delr i r)" "okn (deln (name_of v) n)"
    using agree_ok [OF assms(1)] by (simp_all add: byid.laws byname.laws)
next
  fix k j assume "getn (deln (name_of v) n) k = Some j"
  then show "\<exists>w. getr (delr i r) j = Some w \<and> name_of w = k"
    using name_entry [OF assms(1), of k j] assms(2) agree_ok [OF assms(1)]
    by (auto simp: byid.laws byname.laws split: if_splits)
next
  fix j w assume a: "getr (delr i r) j = Some w"
  then have "j \<noteq> i" and "getr r j = Some w"
    using agree_ok [OF assms(1)] by (auto simp: byid.laws split: if_splits)
  moreover from this have "name_of w \<noteq> name_of v"
    using record_entry [OF assms(1)] assms(2) by (metis option.inject)
  ultimately show "getn (deln (name_of v) n) (name_of w) = Some j"
    using record_entry [OF assms(1), of j w] agree_ok [OF assms(1)] by (simp add: byname.laws)
qed

lemma by_name_remove:
  assumes "agree r n" and "getr r i = Some v"
  shows "by_name (delr i r) (deln (name_of v) n) = (by_name r n)(name_of v := None)"
proof
  fix k
  show "by_name (delr i r) (deln (name_of v) n) k = ((by_name r n)(name_of v := None)) k"
    using name_entry [OF assms(1), of k i] assms(2) agree_ok [OF assms(1)]
    by (auto simp: by_name_def byid.laws byname.laws split: option.splits)
qed

lemma agree_update:
  assumes "agree r n" and "getr r i = Some v" and "name_of w = name_of v"
  shows "agree (putr i w r) n"
proof (rule agreeI)
  show "okr (putr i w r)" "okn n"
    using agree_ok [OF assms(1)] by (simp_all add: byid.laws)
next
  fix k j assume "getn n k = Some j"
  then show "\<exists>u. getr (putr i w r) j = Some u \<and> name_of u = k"
    using name_entry [OF assms(1), of k j] assms(2,3) by (auto simp: byid.laws)
next
  fix j u assume "getr (putr i w r) j = Some u"
  then show "getn n (name_of u) = Some j"
    using record_entry [OF assms(1)] assms(2,3) by (auto simp: byid.laws split: if_splits)
qed

end

end
