(* ===== verification/Store_Team.thy ===== *)
theory Store_Team
  imports Go_Runtime Json_Codec
begin

text \<open>
  The team store of an event (store/team.go). A \<open>team\<close> is the Go struct: its mutex is a flag
  (held or not) so that the manual lock and unlock calls of \<^verbatim>\<open>AddChallenge\<close> and \<^verbatim>\<open>VerifyFlag\<close>
  are part of the model, and \<open>has_dbc\<close> says whether the database client is set. A \<open>teamstore\<close>
  holds the teams by identifier, the identifiers by name and by token. A call to the database
  service is the Boolean that says whether it succeeded; times are the strings the code
  formats; the password hash, the identifier generator and the token signer are parameters.
\<close>

subsection \<open>Data\<close>

datatype store_error =
    ErrUnknownFlag
  | ErrFlagCompleted string
  | ErrChallengeDuplicate
  | ErrTeamAlreadyExist
  | UnknownTeamErr
  | UnknownTokenErr
  | EmptyVarErr string
  | ErrPasswordMismatch
  | DbErr

record team_challenge =
  tc_tag :: string
  completed_at :: "string option"

record team =
  t_locked :: bool
  has_dbc :: bool
  t_id :: string
  t_email :: string
  t_name :: string
  hashedPassword :: string
  lastAccess :: string
  challenges :: "(string, team_challenge) gomap"
  solvedChalsDB :: "team_challenge list"
  vpnKeys :: "(int, string) gomap"
  vpnConf :: "string list"
  labSubnet :: string
  isLabAssigned :: bool
  hostsInfo :: "string list"
  disabledChallenges :: "(string, string list) gomap"
  allChallenges :: "(string, string list) gomap"

record teamstore =
  teams :: "(string, team) gomap"
  tokens :: "(string, string) gomap"
  names :: "(string, string) gomap"

definition NewTeamStore :: teamstore where
  "NewTeamStore = \<lparr>teams = [], tokens = [], names = []\<rparr>"

subsection \<open>The mutex\<close>

definition lock :: "team \<Rightarrow> team" where
  "lock t = t\<lparr>t_locked := True\<rparr>"

text \<open>\<^verbatim>\<open>sync.RWMutex.Unlock\<close> of a mutex that is not held is a fatal error.\<close>

definition unlock :: "team \<Rightarrow> team go" where
  "unlock t = (if t_locked t then Ret (t\<lparr>t_locked := False\<rparr>) else Fatal)"

definition return_unlocked :: "'a \<Rightarrow> team \<Rightarrow> ('a \<times> team) go" where
  "return_unlocked x t = go_bind (unlock t) (\<lambda>t. Ret (x, t))"

subsection \<open>Building a team\<close>

text \<open>\<^verbatim>\<open>strings.TrimSpace\<close> on ASCII text.\<close>

definition is_space :: "char \<Rightarrow> bool" where
  "is_space c \<longleftrightarrow> c \<in> {CHR '' '', CHR 0x09, CHR 0x0A, CHR 0x0B, CHR 0x0C, CHR 0x0D}"

definition TrimSpace :: "string \<Rightarrow> string" where
  "TrimSpace s = rev (dropWhile is_space (rev (dropWhile is_space s)))"

definition CopyMap :: "(string, string list) gomap \<Rightarrow> (string, string list) gomap" where
  "CopyMap m =
     foldl (\<lambda>nm (k, v). if map_get nm k = None then map_put k v nm else nm) [] m"

text \<open>
  One entry of the solved-challenges column as \<^verbatim>\<open>json.Unmarshal\<close> fills the struct: a missing or
  null field stays empty, any other type is an error.
\<close>

fun js_field :: "string \<Rightarrow> json \<Rightarrow> string option" where
  "js_field k (JObj fs) =
     (case map_of (rev fs) k of
        None \<Rightarrow> Some [] | Some JNull \<Rightarrow> Some [] | Some (JStr s) \<Rightarrow> Some s | Some _ \<Rightarrow> None)"
| "js_field k JNull = Some []"
| "js_field k _ = None"

fun unmarshal_solved :: "(string \<Rightarrow> string) \<Rightarrow> json list \<Rightarrow> team_challenge list option" where
  "unmarshal_solved time_parse [] = Some []"
| "unmarshal_solved time_parse (j # js) =
     (case (js_field ''tag'' j, js_field ''completed-at'' j, unmarshal_solved time_parse js) of
        (Some t, Some c, Some r) \<Rightarrow> Some (\<lparr>tc_tag = t, completed_at = Some (time_parse c)\<rparr> # r)
      | _ \<Rightarrow> None)"

definition ParseSolvedChallenges :: "(string \<Rightarrow> string) \<Rightarrow> string \<Rightarrow> team_challenge list option" where
  "ParseSolvedChallenges time_parse db =
     (if db = [] then Some []
      else (case json_parse db of
              Some JNull \<Rightarrow> Some []
            | Some (JArr js) \<Rightarrow> unmarshal_solved time_parse js
            | _ \<Rightarrow> None))"

record team_host =
  bcrypt_gen :: "string \<Rightarrow> string"
  bcrypt_ok :: "string \<Rightarrow> string \<Rightarrow> bool"
  time_parse :: "string \<Rightarrow> string"

definition NewTeam ::
  "team_host \<Rightarrow> string \<Rightarrow> string \<Rightarrow> string \<Rightarrow> string \<Rightarrow> string \<Rightarrow> string \<Rightarrow> string \<Rightarrow> string \<Rightarrow>
   (string, string list) gomap \<Rightarrow> (string, string list) gomap \<Rightarrow> bool \<Rightarrow> team" where
  "NewTeam h uuid email name password tid hashedPass solved lastAccessedT disabledExs allChals dbc =
     \<lparr>t_locked = False, has_dbc = dbc,
      t_id = (if tid = [] then take 8 uuid else tid),
      t_email = TrimSpace email, t_name = TrimSpace name,
      hashedPassword = (if hashedPass = [] then bcrypt_gen h password else hashedPass),
      lastAccess = lastAccessedT, challenges = [],
      solvedChalsDB = (case ParseSolvedChallenges (time_parse h) solved of None \<Rightarrow> [] | Some cs \<Rightarrow> cs),
      vpnKeys = [], vpnConf = [], labSubnet = [], isLabAssigned = False, hostsInfo = [],
      disabledChallenges = CopyMap disabledExs, allChallenges = CopyMap allChals\<rparr>"

subsection \<open>Operations on a team\<close>

fun solved_in :: "team_challenge list \<Rightarrow> string \<Rightarrow> string option" where
  "solved_in [] tag = None"
| "solved_in (chal # chals) tag =
     (if tc_tag chal = tag
      then (case completed_at chal of Some c \<Rightarrow> Some c | None \<Rightarrow> solved_in chals tag)
      else solved_in chals tag)"

definition IsTeamSolvedChallenge :: "team \<Rightarrow> string \<Rightarrow> string option" where
  "IsTeamSolvedChallenge t tag = solved_in (map snd (challenges t)) tag"

definition GetDisabledChals :: "team \<Rightarrow> string list" where
  "GetDisabledChals t = foldl (\<lambda>chals (k, v). chals @ v) [] (disabledChallenges t)"

definition GetChildChallenges :: "team \<Rightarrow> string \<Rightarrow> string list" where
  "GetChildChallenges t parentTag =
     (case map_get (allChallenges t) parentTag of None \<Rightarrow> [] | Some ch \<Rightarrow> ch)"

definition UpdateAllChallenges :: "(string, string list) gomap \<Rightarrow> team \<Rightarrow> team" where
  "UpdateAllChallenges chs t =
     t\<lparr>allChallenges := foldl (\<lambda>m (parent, child). map_put parent child m) (allChallenges t) chs\<rparr>"

definition ManageDisabledChals :: "string \<Rightarrow> team \<Rightarrow> bool \<times> team" where
  "ManageDisabledChals parentTag t =
     (case map_get (disabledChallenges t) parentTag of
        Some _ \<Rightarrow> (True, t\<lparr>disabledChallenges := map_del parentTag (disabledChallenges t)\<rparr>)
      | None \<Rightarrow>
          (case map_get (allChallenges t) parentTag of
             Some ch \<Rightarrow> (False, t\<lparr>disabledChallenges := map_put parentTag ch (disabledChallenges t)\<rparr>)
           | None \<Rightarrow> (False, t)))"

definition AddDisabledChal :: "string \<Rightarrow> team \<Rightarrow> team" where
  "AddDisabledChal parentTag t =
     (case map_get (allChallenges t) parentTag of
        Some ch \<Rightarrow> t\<lparr>disabledChallenges := map_put parentTag ch (disabledChallenges t)\<rparr>
      | None \<Rightarrow> t)"

definition IsPasswordEqual :: "team_host \<Rightarrow> team \<Rightarrow> string \<Rightarrow> bool" where
  "IsPasswordEqual h t pass = bcrypt_ok h (hashedPassword t) pass"

text \<open>The last entry of the database list with the tag, or the zero struct.\<close>

definition solved_one :: "team_challenge list \<Rightarrow> string \<Rightarrow> team_challenge" where
  "solved_one db tag =
     foldl (\<lambda>s c. if tc_tag c = tag then c else s) \<lparr>tc_tag = [], completed_at = None\<rparr> db"

definition AddChallenge :: "string \<Rightarrow> string \<Rightarrow> team \<Rightarrow> ((store_error + string) \<times> team) go" where
  "AddChallenge tag f t0 =
     (let t = lock t0 in
      if list_ex (\<lambda>(k, chal). tc_tag chal = tag) (challenges t)
      then return_unlocked (Inl ErrChallengeDuplicate) t
      else
        let s = solved_one (solvedChalsDB t) tag;
            c = (if s \<noteq> \<lparr>tc_tag = [], completed_at = None\<rparr>
                 then \<lparr>tc_tag = tag, completed_at = completed_at s\<rparr>
                 else \<lparr>tc_tag = tag, completed_at = None\<rparr>)
        in return_unlocked (Inr f) (t\<lparr>challenges := map_put f c (challenges t)\<rparr>))"

text \<open>
  \<^verbatim>\<open>UpdateTeamSolvedChallenges\<close> goes to the database client; on its error the handler unlocks,
  logs, and runs into the second unlock.
\<close>

definition VerifyFlag ::
  "string \<Rightarrow> string \<Rightarrow> string \<Rightarrow> bool \<Rightarrow> team \<Rightarrow> (store_error option \<times> team) go" where
  "VerifyFlag tag f now db_ok t0 =
     (let t = lock t0 in
      case map_get (challenges t) f of
        None \<Rightarrow> return_unlocked (Some ErrUnknownFlag) t
      | Some chal \<Rightarrow>
          if tc_tag chal \<noteq> tag then return_unlocked (Some ErrUnknownFlag) t
          else if completed_at chal \<noteq> None
          then return_unlocked (Some (ErrFlagCompleted (tc_tag chal))) t
          else
            let t = t\<lparr>challenges := map_put f (chal\<lparr>completed_at := Some now\<rparr>) (challenges t)\<rparr> in
            if \<not> has_dbc t then Panic
            else go_bind (if db_ok then Ret t else unlock t) (return_unlocked None))"

definition UpdateTeamAccessed :: "string \<Rightarrow> bool \<Rightarrow> team \<Rightarrow> (store_error option \<times> team) go" where
  "UpdateTeamAccessed tm db_ok t =
     (if \<not> has_dbc t then Panic
      else Ret (if db_ok then None else Some DbErr, t\<lparr>lastAccess := tm\<rparr>))"

definition UpdatePass ::
  "team_host \<Rightarrow> string \<Rightarrow> string \<Rightarrow> bool \<Rightarrow> bool \<Rightarrow> team \<Rightarrow> (store_error option \<times> team) go" where
  "UpdatePass h pass passRepeat event_ok db_ok t =
     (if pass \<noteq> passRepeat then Ret (Some ErrPasswordMismatch, t)
      else if \<not> has_dbc t then Panic
      else if \<not> event_ok then Ret (Some DbErr, t)
      else Ret (if db_ok then None else Some DbErr, t\<lparr>hashedPassword := bcrypt_gen h pass\<rparr>))"

subsection \<open>Operations on the store\<close>

definition GetTeamByToken :: "string \<Rightarrow> teamstore \<Rightarrow> store_error + team" where
  "GetTeamByToken token es =
     (case map_get (tokens es) token of
        None \<Rightarrow> Inl UnknownTokenErr
      | Some i \<Rightarrow> (case map_get (teams es) i of None \<Rightarrow> Inl UnknownTeamErr | Some t \<Rightarrow> Inr t))"

definition SaveTeam :: "bool \<Rightarrow> team \<Rightarrow> teamstore \<Rightarrow> store_error option \<times> teamstore" where
  "SaveTeam db_ok t es =
     (if map_get (names es) (t_name t) \<noteq> None then (Some ErrTeamAlreadyExist, es)
      else
        let es = es\<lparr>names := map_put (t_name t) (t_id t) (names es),
                    teams := map_put (t_id t) t (teams es)\<rparr>
        in if \<not> db_ok then (Some DbErr, es)
           else (None, es\<lparr>teams := map_put (t_id t) (t\<lparr>has_dbc := True\<rparr>) (teams es)\<rparr>))"

definition SaveTokenForTeam :: "string \<Rightarrow> team \<Rightarrow> teamstore \<Rightarrow> store_error option \<times> teamstore" where
  "SaveTokenForTeam token t es =
     (if token = [] then (Some (EmptyVarErr ''Token''), es)
      else if t_id t = [] then (Some UnknownTeamErr, es)
      else (None, es\<lparr>tokens := map_put token (t_id t) (tokens es)\<rparr>))"

text \<open>For an unknown identifier \<^verbatim>\<open>team\<close> is nil, and \<^verbatim>\<open>team.Name()\<close> dereferences it.\<close>

definition DeleteTeam :: "string \<Rightarrow> bool \<Rightarrow> teamstore \<Rightarrow> (store_error option \<times> teamstore) go" where
  "DeleteTeam tId db_ok es =
     (case map_get (teams es) tId of
        None \<Rightarrow> Panic
      | Some t \<Rightarrow>
          Ret (if db_ok then None else Some DbErr,
               es\<lparr>names := map_del (t_name t) (names es), teams := map_del tId (teams es)\<rparr>))"

definition GetTeamByID :: "string \<Rightarrow> teamstore \<Rightarrow> store_error + team" where
  "GetTeamByID i es = (case map_get (teams es) i of None \<Rightarrow> Inl UnknownTeamErr | Some t \<Rightarrow> Inr t)"

definition GetTeamByUsername :: "string \<Rightarrow> teamstore \<Rightarrow> store_error + team" where
  "GetTeamByUsername username es =
     (case map_get (names es) username of
        None \<Rightarrow> Inl UnknownTeamErr
      | Some tid \<Rightarrow>
          (case map_get (teams es) tid of None \<Rightarrow> Inl UnknownTeamErr | Some t \<Rightarrow> Inr t))"

definition GetTeams :: "teamstore \<Rightarrow> team list" where
  "GetTeams es = map snd (teams es)"

text \<open>Writing through the \<^verbatim>\<open>*Team\<close> pointer the store handed out.\<close>

definition write_team :: "team \<Rightarrow> teamstore \<Rightarrow> teamstore" where
  "write_team t es = es\<lparr>teams := map_put (t_id t) t (teams es)\<rparr>"

text \<open>The setters of a team, and the getters that are more than a field.\<close>

definition SetVPNConn :: "string list \<Rightarrow> team \<Rightarrow> team" where
  "SetVPNConn clientConfig t = t\<lparr>vpnConf := clientConfig\<rparr>"

definition SetVPNKeys :: "int \<Rightarrow> string \<Rightarrow> team \<Rightarrow> team" where
  "SetVPNKeys i key t = t\<lparr>vpnKeys := map_put i key (vpnKeys t)\<rparr>"

definition SetLabInfo :: "string \<Rightarrow> team \<Rightarrow> team" where
  "SetLabInfo subnet t = t\<lparr>labSubnet := subnet\<rparr>"

definition SetHostsInfo :: "string list \<Rightarrow> team \<Rightarrow> team" where
  "SetHostsInfo hostInfo t = t\<lparr>hostsInfo := hostInfo\<rparr>"

definition CorrectedAssignedLab :: "team \<Rightarrow> team" where
  "CorrectedAssignedLab t = t\<lparr>isLabAssigned := True\<rparr>"

text \<open>
  \<^verbatim>\<open>teamstore.GetVPNConn\<close> with the number of read locks the store holds: found, the call
  returns without releasing its own.
\<close>

definition store_GetVPNConn :: "string \<Rightarrow> nat \<Rightarrow> teamstore \<Rightarrow> string list \<times> nat" where
  "store_GetVPNConn teamid readers es =
     (case map_get (teams es) teamid of None \<Rightarrow> ([], readers) | Some t \<Rightarrow> (vpnConf t, readers + 1))"

subsection \<open>Invariants\<close>

text \<open>A team outside any operation: mutex free, maps well formed, one challenge per tag.\<close>

definition team_ok :: "team \<Rightarrow> bool" where
  "team_ok t \<longleftrightarrow> \<not> t_locked t \<and> map_ok (challenges t) \<and> map_ok (disabledChallenges t) \<and>
     map_ok (allChallenges t) \<and> distinct (map (tc_tag \<circ> snd) (challenges t))"

lemma unlock_simps [simp]: "unlock (t\<lparr>t_locked := True\<rparr>) = Ret (t\<lparr>t_locked := False\<rparr>)"
  "unlock (t\<lparr>t_locked := False\<rparr>) = Fatal"
  by (simp_all add: unlock_def)

lemma unlock_lock: "\<not> t_locked t \<Longrightarrow> unlock (lock t) = Ret t"
  by (simp add: unlock_def lock_def)

lemma solved_in_Some:
  "solved_in cs tag = Some c \<Longrightarrow> \<exists>chal \<in> set cs. tc_tag chal = tag \<and> completed_at chal = Some c"
  by (induction cs) (auto split: if_splits option.splits)

lemma solved_in_iff:
  "distinct (map tc_tag cs) \<Longrightarrow>
   solved_in cs tag = Some c \<longleftrightarrow> (\<exists>chal \<in> set cs. tc_tag chal = tag \<and> completed_at chal = Some c)"
proof
  show "\<exists>chal \<in> set cs. tc_tag chal = tag \<and> completed_at chal = Some c \<Longrightarrow>
      distinct (map tc_tag cs) \<Longrightarrow> solved_in cs tag = Some c"
    by (induction cs) (fastforce split: option.splits)+
qed (rule solved_in_Some)

lemma distinct_tags_values: "team_ok t \<Longrightarrow> distinct (map tc_tag (map snd (challenges t)))"
  by (simp add: team_ok_def o_def)

lemma solved_iff:
  assumes "team_ok t"
  shows "IsTeamSolvedChallenge t tag = Some c \<longleftrightarrow>
    (\<exists>f. map_get (challenges t) f = Some \<lparr>tc_tag = tag, completed_at = Some c\<rparr>)"
proof -
  have ok: "map_ok (challenges t)" using assms by (simp add: team_ok_def)
  have "IsTeamSolvedChallenge t tag = Some c \<longleftrightarrow>
      (\<exists>chal \<in> set (map snd (challenges t)). tc_tag chal = tag \<and> completed_at chal = Some c)"
    unfolding IsTeamSolvedChallenge_def by (rule solved_in_iff [OF distinct_tags_values [OF assms]])
  also have "\<dots> \<longleftrightarrow> (\<exists>f chal. (f, chal) \<in> set (challenges t) \<and> tc_tag chal = tag \<and> completed_at chal = Some c)"
    by force
  also have "\<dots> \<longleftrightarrow> (\<exists>f. map_get (challenges t) f = Some \<lparr>tc_tag = tag, completed_at = Some c\<rparr>)"
    using in_map_get [OF ok] by (metis team_challenge.surjective team_challenge.select_convs unit.exhaust)
  finally show ?thesis .
qed

lemma map_put_same_tag:
  "map_get m f = Some chal \<Longrightarrow> tc_tag chal' = tc_tag chal \<Longrightarrow>
   map (tc_tag \<circ> snd) (map_put f chal' m) = map (tc_tag \<circ> snd) m"
  unfolding map_get_def map_put_def by (induction m) (auto split: if_splits)

lemma set_tags_map_put:
  "set (map (tc_tag \<circ> snd) (map_put f c m)) \<subseteq> insert (tc_tag c) (set (map (tc_tag \<circ> snd) m))"
  unfolding map_put_def by (induction m) auto

lemma distinct_tags_map_put:
  "distinct (map (tc_tag \<circ> snd) m) \<Longrightarrow> tc_tag c \<notin> set (map (tc_tag \<circ> snd) m) \<Longrightarrow>
   distinct (map (tc_tag \<circ> snd) (map_put f c m))"
proof (induction m)
  case Nil
  then show ?case by (simp add: map_put_def)
next
  case (Cons p m)
  then show ?case
    using set_tags_map_put [of f c m] by (cases p) (auto simp: map_put_def)
qed

lemma AddChallenge_cases:
  assumes "\<not> t_locked t"
  shows "AddChallenge tag f t =
    Ret (if list_ex (\<lambda>(k, chal). tc_tag chal = tag) (challenges t) then (Inl ErrChallengeDuplicate, t)
         else (Inr f, t\<lparr>challenges := map_put f \<lparr>tc_tag = tag,
                 completed_at = completed_at (solved_one (solvedChalsDB t) tag)\<rparr> (challenges t)\<rparr>))"
  using assms
  by (cases t) (auto simp: AddChallenge_def lock_def return_unlocked_def Let_def unlock_def)

lemma AddChallenge_ok:
  assumes "team_ok t" and "AddChallenge tag f t = Ret (r, t')"
  shows "team_ok t'"
proof -
  have "\<not> t_locked t" using assms(1) by (simp add: team_ok_def)
  moreover have "tag \<notin> set (map (tc_tag \<circ> snd) (challenges t))"
    if "\<not> list_ex (\<lambda>(k, chal). tc_tag chal = tag) (challenges t)"
    using that by (auto simp: list_ex_iff)
  ultimately show ?thesis
    using assms by (auto simp: AddChallenge_cases team_ok_def split: if_splits intro!: distinct_tags_map_put)
qed

lemma VerifyFlag_cases:
  assumes "\<not> t_locked t" and "has_dbc t"
  shows "VerifyFlag tag f now db_ok t =
    (case map_get (challenges t) f of
       None \<Rightarrow> Ret (Some ErrUnknownFlag, t)
     | Some chal \<Rightarrow>
         if tc_tag chal \<noteq> tag then Ret (Some ErrUnknownFlag, t)
         else if completed_at chal \<noteq> None then Ret (Some (ErrFlagCompleted tag), t)
         else if db_ok
         then Ret (None, t\<lparr>challenges := map_put f \<lparr>tc_tag = tag, completed_at = Some now\<rparr> (challenges t)\<rparr>)
         else Fatal)"
proof -
  have c: "chal\<lparr>completed_at := Some now\<rparr> = \<lparr>tc_tag = tc_tag chal, completed_at = Some now\<rparr>"
    for chal :: team_challenge by simp
  show ?thesis
    using assms
    by (cases t) (auto simp: c VerifyFlag_def lock_def return_unlocked_def Let_def unlock_def split: option.split)
qed

lemma VerifyFlag_ok:
  assumes "team_ok t" and "has_dbc t" and "VerifyFlag tag f now db_ok t = Ret (e, t')"
  shows "team_ok t'"
proof -
  have "\<not> t_locked t" using assms(1) by (simp add: team_ok_def)
  with assms show ?thesis
    by (auto simp: VerifyFlag_cases team_ok_def map_put_same_tag split: option.splits if_splits)
qed

lemma ManageDisabledChals_ok: "team_ok t \<Longrightarrow> team_ok (snd (ManageDisabledChals p t))"
  by (auto simp: ManageDisabledChals_def team_ok_def split: option.split)

lemma AddDisabledChal_ok: "team_ok t \<Longrightarrow> team_ok (AddDisabledChal p t)"
  by (auto simp: AddDisabledChal_def team_ok_def split: option.split)

lemma CopyMap_ok: "map_ok (CopyMap m)"
proof -
  have "map_ok nm \<Longrightarrow> map_ok (foldl (\<lambda>nm (k, v). if map_get nm k = None then map_put k v nm else nm) nm m)"
    for nm by (induction m arbitrary: nm) auto
  then show ?thesis by (simp add: CopyMap_def)
qed

lemma map_get_CopyMap: "map_get (CopyMap m) = map_get m"
proof -
  have "map_get (foldl (\<lambda>nm (k, v). if map_get nm k = None then map_put k v nm else nm) nm m) k
      = (case map_get nm k of Some v \<Rightarrow> Some v | None \<Rightarrow> map_get m k)" for nm k
    by (induction m arbitrary: nm) (auto simp: map_get_Cons split: option.splits if_splits)
  then show ?thesis by (auto simp: CopyMap_def)
qed

lemma NewTeam_ok: "team_ok (NewTeam h u e n p i hp s l d a dbc)"
  by (simp add: team_ok_def NewTeam_def CopyMap_ok)

subsection \<open>Properties of the flags\<close>

lemma solved_None_iff:
  "team_ok t \<Longrightarrow> IsTeamSolvedChallenge t tag = None \<longleftrightarrow>
    (\<forall>f c. map_get (challenges t) f \<noteq> Some \<lparr>tc_tag = tag, completed_at = Some c\<rparr>)"
  using solved_iff [of t tag] by (metis not_None_eq)

lemma one_flag_per_tag:
  assumes "team_ok t" and "map_get (challenges t) f = Some c" and "map_get (challenges t) g = Some d"
    and "tc_tag c = tc_tag d"
  shows "f = g \<and> c = d"
proof -
  have d: "distinct (map (tc_tag \<circ> snd) (challenges t))" using assms(1) by (simp add: team_ok_def)
  have "(f, c) \<in> set (challenges t)" and "(g, d) \<in> set (challenges t)"
    using assms(2,3) by (simp_all add: map_get_in)
  with assms(4) have "(f, c) = (g, d)"
    using d by (intro inj_onD [OF distinct_map [THEN iffD1, THEN conjunct2, OF d]]) simp_all
  then show ?thesis by simp
qed

lemma VerifyFlag_result:
  assumes "team_ok t" and "has_dbc t" and "VerifyFlag tag f now True t = Ret (e, t')"
  shows "(e = None \<longleftrightarrow> map_get (challenges t) f = Some \<lparr>tc_tag = tag, completed_at = None\<rparr>) \<and>
    (e \<noteq> None \<longrightarrow> t' = t) \<and>
    (\<forall>tg. IsTeamSolvedChallenge t' tg =
       (if e = None \<and> tg = tag then Some now else IsTeamSolvedChallenge t tg))"
proof -
  have free: "\<not> t_locked t" using assms(1) by (simp add: team_ok_def)
  note run = assms(3) [unfolded VerifyFlag_cases [OF free assms(2)]]
  show ?thesis
  proof (cases "map_get (challenges t) f = Some \<lparr>tc_tag = tag, completed_at = None\<rparr>")
    case True
    let ?c = "\<lparr>tc_tag = tag, completed_at = Some now\<rparr>"
    from True run have e: "e = None" and t': "t' = t\<lparr>challenges := map_put f ?c (challenges t)\<rparr>"
      by auto
    have ok': "team_ok t'" using VerifyFlag_ok [OF assms] .
    have "IsTeamSolvedChallenge t' tg = (if tg = tag then Some now else IsTeamSolvedChallenge t tg)" for tg
    proof (cases "tg = tag")
      case True
      have "map_get (challenges t') f = Some ?c" by (simp add: t')
      then have "IsTeamSolvedChallenge t' tg = Some now"
        using solved_iff [OF ok', of tg now] True by blast
      with True show ?thesis by simp
    next
      case False
      have "map_get (challenges t') g = Some \<lparr>tc_tag = tg, completed_at = Some c\<rparr> \<longleftrightarrow>
          map_get (challenges t) g = Some \<lparr>tc_tag = tg, completed_at = Some c\<rparr>" for g c
        using False \<open>map_get (challenges t) f = _\<close> by (simp add: t')
      then have "IsTeamSolvedChallenge t' tg = Some c \<longleftrightarrow> IsTeamSolvedChallenge t tg = Some c" for c
        by (simp only: solved_iff [OF ok'] solved_iff [OF assms(1)])
      with False show ?thesis by (metis not_None_eq)
    qed
    with e True show ?thesis by simp
  next
    case False
    with run show ?thesis
      by (auto split: option.splits if_splits)
  qed
qed

text \<open>
  C3. A flag is accepted exactly when it is the team's flag for the given challenge and that
  challenge is still open; then the challenge is solved at the time of the call and no other
  challenge changes, and a rejected flag changes nothing (with the database answering).
\<close>
theorem VerifyFlag_spec:
  assumes "team_ok t" and "has_dbc t" and "VerifyFlag tag f now True t = Ret (e, t')"
  shows "(e = None \<longleftrightarrow> map_get (challenges t) f = Some \<lparr>tc_tag = tag, completed_at = None\<rparr>) \<and>
    (e \<noteq> None \<longrightarrow> t' = t) \<and>
    (\<forall>tg. IsTeamSolvedChallenge t' tg =
       (if e = None \<and> tg = tag then Some now else IsTeamSolvedChallenge t tg))"
  using assms by (rule VerifyFlag_result)

definition sample_team_state :: team where
  "sample_team_state =
     \<lparr>t_locked = False, has_dbc = True, t_id = ''a1'', t_email = [], t_name = ''red'',
      hashedPassword = ''hash'', lastAccess = ''t0'',
      challenges = [(''HKN{x}'', \<lparr>tc_tag = ''sql-1'', completed_at = None\<rparr>),
                    (''HKN{y}'', \<lparr>tc_tag = ''sql-2'', completed_at = Some ''t1''\<rparr>)],
      solvedChalsDB = [], vpnKeys = [], vpnConf = [], labSubnet = [], isLabAssigned = True,
      hostsInfo = [], disabledChallenges = [],
      allChallenges = [(''sql'', [''sql-1'', ''sql-2''])]\<rparr>"

lemma sample_team_ok: "team_ok sample_team_state" "has_dbc sample_team_state"
  by (simp_all add: sample_team_state_def team_ok_def map_ok_def)

theorem VerifyFlag_spec_witness:
  "\<exists>t'. VerifyFlag ''sql-1'' ''HKN{x}'' ''t9'' True sample_team_state = Ret (None, t') \<and>
     IsTeamSolvedChallenge t' ''sql-1'' = Some ''t9'' \<and>
     IsTeamSolvedChallenge t' ''sql-2'' = Some ''t1''"
proof -
  let ?t' = "sample_team_state\<lparr>challenges := map_put ''HKN{x}''
      \<lparr>tc_tag = ''sql-1'', completed_at = Some ''t9''\<rparr> (challenges sample_team_state)\<rparr>"
  have "\<not> t_locked sample_team_state" by (simp add: sample_team_state_def)
  then have r: "VerifyFlag ''sql-1'' ''HKN{x}'' ''t9'' True sample_team_state = Ret (None, ?t')"
    by (simp add: VerifyFlag_cases sample_team_ok) (simp add: sample_team_state_def map_get_Cons)
  have "IsTeamSolvedChallenge sample_team_state ''sql-2'' = Some ''t1''"
    by (simp add: sample_team_state_def IsTeamSolvedChallenge_def)
  with r VerifyFlag_spec [OF sample_team_ok r] show ?thesis by simp
qed

text \<open>
  When the database does not record the solve, accepting the right flag ends the process:
  the mutex is unlocked twice. Every other call returns whatever the database does.
\<close>
theorem VerifyFlag_db_failure:
  assumes "team_ok t" and "has_dbc t"
  shows "VerifyFlag tag f now False t = Fatal \<longleftrightarrow>
    map_get (challenges t) f = Some \<lparr>tc_tag = tag, completed_at = None\<rparr>"
proof -
  have "\<not> t_locked t" using assms(1) by (simp add: team_ok_def)
  note run = VerifyFlag_cases [OF this assms(2)]
  show ?thesis
  proof (cases "map_get (challenges t) f")
    case (Some chal)
    then show ?thesis by (cases chal) (auto simp: run)
  qed (simp add: run)
qed

theorem VerifyFlag_db_failure_witness:
  "VerifyFlag ''sql-1'' ''HKN{x}'' ''t9'' False sample_team_state = Fatal"
  using VerifyFlag_db_failure [OF sample_team_ok, of "''sql-1''" "''HKN{x}''" "''t9''"]
  by (simp add: sample_team_state_def map_get_Cons)

text \<open>A run of flag submissions on one team, each with its time; it stops when a call does not return.\<close>

fun verify_run :: "(string \<times> string \<times> string \<times> bool) list \<Rightarrow> team \<Rightarrow> team go" where
  "verify_run [] t = Ret t"
| "verify_run ((tag, f, now, db_ok) # rs) t =
     go_bind (VerifyFlag tag f now db_ok t) (\<lambda>(e, t'). verify_run rs t')"

lemma VerifyFlag_keeps_solved:
  assumes "team_ok t" and "has_dbc t" and "VerifyFlag tag f now db_ok t = Ret (e, t')"
    and "IsTeamSolvedChallenge t tg = Some c"
  shows "IsTeamSolvedChallenge t' tg = Some c"
proof -
  have free: "\<not> t_locked t" using assms(1) by (simp add: team_ok_def)
  show ?thesis
  proof (cases "VerifyFlag tag f now True t = Ret (e, t')")
    case True
    show ?thesis
    proof (cases "e = None \<and> tg = tag")
      case solved: True
      have f: "map_get (challenges t) f = Some \<lparr>tc_tag = tag, completed_at = None\<rparr>"
        using VerifyFlag_result [OF assms(1,2) True] solved by blast
      obtain g where "map_get (challenges t) g = Some \<lparr>tc_tag = tag, completed_at = Some c\<rparr>"
        using assms(4) solved by (auto simp: solved_iff [OF assms(1)])
      with one_flag_per_tag [OF assms(1) f] show ?thesis by fastforce
    next
      case False
      then show ?thesis using VerifyFlag_result [OF assms(1,2) True] assms(4) by auto
    qed
  next
    case False
    with assms(3,4) show ?thesis
      by (auto simp: VerifyFlag_cases [OF free assms(2)] split: option.splits if_splits)
  qed
qed

lemma VerifyFlag_has_dbc:
  "\<not> t_locked t \<Longrightarrow> has_dbc t \<Longrightarrow> VerifyFlag tag f now db_ok t = Ret (e, t') \<Longrightarrow> has_dbc t'"
  by (auto simp: VerifyFlag_cases split: option.splits if_splits)

text \<open>
  A challenge is solved once: whatever flags are submitted afterwards, it stays solved and
  keeps its first completion time.
\<close>
theorem solved_time_is_stable:
  assumes "team_ok t" and "has_dbc t" and "IsTeamSolvedChallenge t tg = Some c"
    and "verify_run rs t = Ret t'"
  shows "IsTeamSolvedChallenge t' tg = Some c"
  using assms
proof (induction rs arbitrary: t)
  case Nil
  then show ?case by simp
next
  case (Cons r rs)
  obtain tag f now db where r: "r = (tag, f, now, db)" by (cases r)
  with Cons.prems(4) obtain e u where u: "VerifyFlag tag f now db t = Ret (e, u)"
    and rest: "verify_run rs u = Ret t'"
    by (auto simp: go_bind_Ret)
  have "\<not> t_locked t" using Cons.prems(1) by (simp add: team_ok_def)
  with u Cons.prems(2) have "has_dbc u" by (blast intro: VerifyFlag_has_dbc)
  with Cons.IH [OF VerifyFlag_ok [OF Cons.prems(1,2) u] _
      VerifyFlag_keeps_solved [OF Cons.prems(1,2) u Cons.prems(3)] rest]
  show ?case by simp
qed

theorem solved_time_is_stable_witness:
  "\<exists>t'. verify_run [(''sql-2'', ''HKN{y}'', ''t9'', True), (''sql-1'', ''HKN{z}'', ''t9'', True)]
        sample_team_state = Ret t' \<and> IsTeamSolvedChallenge t' ''sql-2'' = Some ''t1''"
proof -
  let ?rs = "[(''sql-2'', ''HKN{y}'', ''t9'', True), (''sql-1'', ''HKN{z}'', ''t9'', True)]"
  have free: "\<not> t_locked sample_team_state" by (simp add: sample_team_state_def)
  have "VerifyFlag ''sql-2'' ''HKN{y}'' ''t9'' True sample_team_state
      = Ret (Some (ErrFlagCompleted ''sql-2''), sample_team_state)"
    and "VerifyFlag ''sql-1'' ''HKN{z}'' ''t9'' True sample_team_state
      = Ret (Some ErrUnknownFlag, sample_team_state)"
    by (simp_all add: VerifyFlag_cases [OF free sample_team_ok(2)])
      (simp_all add: sample_team_state_def map_get_Cons)
  then have r: "verify_run ?rs sample_team_state = Ret sample_team_state" by simp
  have s: "IsTeamSolvedChallenge sample_team_state ''sql-2'' = Some ''t1''"
    by (simp add: sample_team_state_def IsTeamSolvedChallenge_def)
  from solved_time_is_stable [OF sample_team_ok s r] r show ?thesis by blast
qed

subsection \<open>Properties of the disabled challenges\<close>

text \<open>
  Start and stop alternate: for a parent tag the event knows, two calls of
  \<^verbatim>\<open>ManageDisabledChals\<close> answer stopped and running in turn, and leave every other
  parent's entry alone; when the entry held the parent's children they restore the map.
\<close>
theorem ManageDisabledChals_toggles:
  assumes "map_get (allChallenges t) p = Some ch"
    and "map_get (disabledChallenges t) p \<in> {None, Some ch}"
    and "ManageDisabledChals p t = (r1, t1)" and "ManageDisabledChals p t1 = (r2, t2)"
  shows "r1 = (map_get (disabledChallenges t) p \<noteq> None) \<and> r2 = (\<not> r1) \<and>
    map_get (disabledChallenges t2) = map_get (disabledChallenges t) \<and>
    map_get (disabledChallenges t1) p = (if r1 then None else Some ch) \<and>
    (\<forall>q. q \<noteq> p \<longrightarrow> map_get (disabledChallenges t1) q = map_get (disabledChallenges t) q)"
  using assms
  by (auto simp: ManageDisabledChals_def fun_eq_iff split: option.splits)

theorem ManageDisabledChals_toggles_witness:
  "let (r1, t1) = ManageDisabledChals ''sql'' sample_team_state; (r2, t2) = ManageDisabledChals ''sql'' t1
   in r1 = False \<and> r2 = True \<and> GetDisabledChals t1 = [''sql-1'', ''sql-2''] \<and> GetDisabledChals t2 = []"
proof -
  obtain r1 t1 r2 t2 where m: "ManageDisabledChals ''sql'' sample_team_state = (r1, t1)"
    "ManageDisabledChals ''sql'' t1 = (r2, t2)" by (metis surj_pair)
  have "map_get (allChallenges sample_team_state) ''sql'' = Some [''sql-1'', ''sql-2'']"
    and "map_get (disabledChallenges sample_team_state) ''sql'' \<in> {None, Some [''sql-1'', ''sql-2'']}"
    by (simp_all add: sample_team_state_def map_get_Cons)
  from ManageDisabledChals_toggles [OF this m] have "r1 = False \<and> r2 = True"
    by (simp add: sample_team_state_def)
  moreover have "GetDisabledChals t1 = [''sql-1'', ''sql-2'']" and "GetDisabledChals t2 = []"
    using m by (auto simp: ManageDisabledChals_def sample_team_state_def map_get_Cons GetDisabledChals_def
        map_put_def map_del_def)
  ultimately show ?thesis using m by simp
qed

text \<open>
  Whether a challenge counts as solved, and since when, does not depend on the order in
  which Go's \<^verbatim>\<open>range\<close> visits the map of flags.
\<close>
theorem solved_order_independent:
  assumes "team_ok t" and "mset cs = mset (challenges t)"
  shows "IsTeamSolvedChallenge (t\<lparr>challenges := cs\<rparr>) tag = IsTeamSolvedChallenge t tag"
proof -
  have "mset (map fst cs) = mset (map fst (challenges t))"
    and "mset (map (tc_tag \<circ> snd) cs) = mset (map (tc_tag \<circ> snd) (challenges t))"
    using assms(2) by simp_all
  then have "distinct (map fst cs)" and "distinct (map (tc_tag \<circ> snd) cs)"
    using assms(1) mset_eq_imp_distinct_iff unfolding team_ok_def map_ok_def by blast+
  then have ok: "team_ok (t\<lparr>challenges := cs\<rparr>)" and okc: "map_ok cs"
    using assms(1) by (simp_all add: team_ok_def map_ok_def)
  have "map_get cs f = Some c \<longleftrightarrow> map_get (challenges t) f = Some c" for f c
    using in_map_get [OF okc, of f c] in_map_get [of "challenges t" f c] assms
    by (simp add: team_ok_def mset_eq_setD [OF assms(2)])
  then have "IsTeamSolvedChallenge (t\<lparr>challenges := cs\<rparr>) tag = Some c \<longleftrightarrow>
      IsTeamSolvedChallenge t tag = Some c" for c
    by (simp add: solved_iff [OF ok] solved_iff [OF assms(1)])
  then show ?thesis by (metis not_None_eq)
qed

theorem solved_order_independent_witness:
  "IsTeamSolvedChallenge (sample_team_state\<lparr>challenges := rev (challenges sample_team_state)\<rparr>) ''sql-2''
     = Some ''t1''"
proof -
  have "IsTeamSolvedChallenge sample_team_state ''sql-2'' = Some ''t1''"
    by (simp add: sample_team_state_def IsTeamSolvedChallenge_def)
  with solved_order_independent [OF sample_team_ok(1), of "rev (challenges sample_team_state)" "''sql-2''"]
  show ?thesis by simp
qed

subsection \<open>Properties of the store\<close>

interpretation store_index: two_index map_get map_put map_del "[]" map_ok
  map_get map_put map_del "[]" map_ok t_name
  by unfold_locales

definition store_ok :: "teamstore \<Rightarrow> bool" where
  "store_ok es \<longleftrightarrow> store_index.agree (teams es) (names es) \<and>
     (\<forall>i t. map_get (teams es) i = Some t \<longrightarrow> t_id t = i)"

text \<open>The abstract store: a partial map from names to teams.\<close>

definition store_abs :: "teamstore \<Rightarrow> string \<Rightarrow> team option" where
  "store_abs es n = (case GetTeamByUsername n es of Inl _ \<Rightarrow> None | Inr t \<Rightarrow> Some t)"

lemma store_abs_by_name: "store_abs es = store_index.by_name (teams es) (names es)"
  by (rule ext) (simp add: store_abs_def GetTeamByUsername_def store_index.by_name_def split: option.split)

lemma store_ok_new: "store_ok NewTeamStore"
  using store_index.agree_empty by (simp add: store_ok_def NewTeamStore_def)

lemma store_name_taken: "store_ok es \<Longrightarrow> map_get (names es) n = None \<longleftrightarrow> store_abs es n = None"
  using store_index.name_entry [of "teams es" "names es" n]
  by (auto simp: store_ok_def store_abs_def GetTeamByUsername_def split: option.splits)

lemma SaveTeam_ok:
  assumes "store_ok es" and "map_get (teams es) (t_id t) = None" and "SaveTeam db_ok t es = (e, es')"
  shows "store_ok es'"
proof (cases "map_get (names es) (t_name t) = None")
  case False
  with assms show ?thesis by (auto simp: SaveTeam_def)
next
  case True
  have a: "store_index.agree (map_put (t_id t) t (teams es)) (map_put (t_name t) (t_id t) (names es))"
    using assms(1,2) True by (intro store_index.agree_add) (simp_all add: store_ok_def)
  have "store_index.agree (map_put (t_id t) (t\<lparr>has_dbc := True\<rparr>) (map_put (t_id t) t (teams es)))
      (map_put (t_name t) (t_id t) (names es))"
    by (rule store_index.agree_update [OF a, of _ t]) simp_all
  with a assms True show ?thesis
    by (auto simp: SaveTeam_def store_ok_def Let_def split: if_splits)
qed

text \<open>
  C8. Saving a team whose identifier is new refines adding it to the map from names to teams:
  a taken name is refused and nothing changes; otherwise the name now finds the team, also when
  the database refuses it (the team then stays registered without a database client).
\<close>
theorem SaveTeam_refines:
  assumes "store_ok es" and "map_get (teams es) (t_id t) = None" and "SaveTeam db_ok t es = (e, es')"
  shows "store_ok es' \<and>
    (if store_abs es (t_name t) \<noteq> None then e = Some ErrTeamAlreadyExist \<and> es' = es
     else e = (if db_ok then None else Some DbErr) \<and>
          store_abs es' = (store_abs es)(t_name t \<mapsto> t\<lparr>has_dbc := (if db_ok then True else has_dbc t)\<rparr>))"
proof (cases "map_get (names es) (t_name t) = None")
  case False
  then have "store_abs es (t_name t) \<noteq> None" using store_name_taken [OF assms(1), of "t_name t"] by simp
  with False assms show ?thesis by (auto simp: SaveTeam_def)
next
  case True
  let ?t' = "t\<lparr>has_dbc := (if db_ok then True else has_dbc t)\<rparr>"
  have agree: "store_index.agree (teams es) (names es)" using assms(1) by (simp add: store_ok_def)
  have "store_index.by_name (map_put (t_id t) ?t' (teams es)) (map_put (t_name t) (t_id t) (names es))
      = (store_index.by_name (teams es) (names es))(t_name t := Some ?t')"
    using store_index.by_name_add [OF agree assms(2), of ?t'] by simp
  moreover have "store_abs es' = store_index.by_name (map_put (t_id t) ?t' (teams es))
      (map_put (t_name t) (t_id t) (names es))"
    using assms(3) True
    by (rule_tac ext) (cases t, auto simp: SaveTeam_def store_abs_by_name store_index.by_name_def Let_def
        split: if_splits option.splits)
  moreover have "store_abs es (t_name t) = None" using True assms(1) by (simp add: store_name_taken)
  moreover have "e = (if db_ok then None else Some DbErr)"
    using assms(3) True by (auto simp: SaveTeam_def Let_def split: if_splits)
  ultimately show ?thesis using SaveTeam_ok [OF assms] by (simp add: store_abs_by_name)
qed

theorem SaveTeam_refines_witness:
  "\<exists>es'. SaveTeam False sample_team_state NewTeamStore = (Some DbErr, es') \<and>
     store_ok es' \<and> store_abs es' ''red'' = Some sample_team_state"
proof -
  obtain e es' where s: "SaveTeam False sample_team_state NewTeamStore = (e, es')"
    by (metis surj_pair)
  have f: "map_get (teams NewTeamStore) (t_id sample_team_state) = None"
    by (simp add: NewTeamStore_def)
  have n: "store_abs NewTeamStore n = None" for n
    by (simp add: store_abs_def GetTeamByUsername_def NewTeamStore_def)
  have t: "t_name sample_team_state = ''red''" "sample_team_state\<lparr>has_dbc := True\<rparr> = sample_team_state"
    by (simp_all add: sample_team_state_def)
  from SaveTeam_refines [OF store_ok_new f s] s show ?thesis
    by (simp add: n t sample_team_ok)
qed

lemma DeleteTeam_ok:
  assumes "store_ok es" and "map_get (teams es) i = Some t"
  shows "\<exists>es'. DeleteTeam i db_ok es = Ret (if db_ok then None else Some DbErr, es') \<and>
     store_ok es' \<and> store_abs es' = (store_abs es)(t_name t := None) \<and>
     GetTeamByID i es' = Inl UnknownTeamErr"
proof -
  have agree: "store_index.agree (teams es) (names es)" using assms by (simp add: store_ok_def)
  show ?thesis
    using assms store_index.agree_remove [OF agree assms(2)] store_index.by_name_remove [OF agree assms(2)]
    by (auto simp: DeleteTeam_def store_ok_def store_abs_by_name GetTeamByID_def)
qed

text \<open>
  Deleting a known team removes its name and its identifier and keeps the store
  consistent, whatever the database answers; deleting an unknown one panics.
\<close>
theorem DeleteTeam_refines:
  assumes "store_ok es"
  shows "case map_get (teams es) i of
      None \<Rightarrow> DeleteTeam i db_ok es = Panic
    | Some t \<Rightarrow> (\<exists>es'. DeleteTeam i db_ok es = Ret (if db_ok then None else Some DbErr, es') \<and>
        store_ok es' \<and> store_abs es' = (store_abs es)(t_name t := None) \<and>
        GetTeamByID i es' = Inl UnknownTeamErr)"
proof (cases "map_get (teams es) i")
  case None
  then show ?thesis by (simp add: DeleteTeam_def)
next
  case (Some t)
  with DeleteTeam_ok [OF assms Some] show ?thesis by simp
qed

theorem DeleteTeam_refines_witness:
  "DeleteTeam ''a1'' True NewTeamStore = Panic"
  using DeleteTeam_refines [OF store_ok_new, of "''a1''" True] by (simp add: NewTeamStore_def)

text \<open>The calls that change a store; a new team has a fresh identifier.\<close>

inductive store_step :: "teamstore \<Rightarrow> teamstore \<Rightarrow> bool" where
  save: "map_get (teams es) (t_id t) = None \<Longrightarrow> store_step es (snd (SaveTeam db_ok t es))"
| token: "store_step es (snd (SaveTokenForTeam k t es))"
| delete: "DeleteTeam i db_ok es = Ret (e, es') \<Longrightarrow> store_step es es'"
| update: "GetTeamByID i es = Inr t \<Longrightarrow> t_id u = t_id t \<Longrightarrow> t_name u = t_name t \<Longrightarrow>
     store_step es (write_team u es)"

inductive store_reachable :: "teamstore \<Rightarrow> bool" where
  new: "store_reachable NewTeamStore"
| step: "store_reachable es \<Longrightarrow> store_step es es' \<Longrightarrow> store_reachable es'"

lemma store_step_ok: "store_step es es' \<Longrightarrow> store_ok es \<Longrightarrow> store_ok es'"
proof (induction rule: store_step.induct)
  case (save es t db_ok)
  then show ?case by (metis SaveTeam_ok surjective_pairing)
next
  case (token es k t)
  then show ?case by (simp add: SaveTokenForTeam_def store_ok_def)
next
  case (delete i db_ok es e es')
  then obtain t where "map_get (teams es) i = Some t" by (auto simp: DeleteTeam_def split: option.splits)
  with delete DeleteTeam_ok [of es i t db_ok] show ?case by auto
next
  case (update i es t u)
  then have g: "map_get (teams es) i = Some t" by (simp add: GetTeamByID_def split: option.splits)
  with update have "t_id t = i" by (simp add: store_ok_def)
  then show ?case
    using update g store_index.agree_update [of "teams es" "names es" i t u]
    by (auto simp: store_ok_def write_team_def)
qed

lemma store_reachable_ok: "store_reachable es \<Longrightarrow> store_ok es"
  by (induction rule: store_reachable.induct) (auto intro: store_ok_new store_step_ok)

lemma store_teams:
  assumes "store_ok es"
  shows "distinct (map t_name (GetTeams es)) \<and>
    (\<forall>t \<in> set (GetTeams es). GetTeamByUsername (t_name t) es = Inr t \<and> GetTeamByID (t_id t) es = Inr t)"
proof -
  have agree: "store_index.agree (teams es) (names es)" using assms by (simp add: store_ok_def)
  have mok: "map_ok (teams es)" by (rule store_index.agree_ok [OF agree])
  have found: "map_get (teams es) i = Some t \<and> map_get (names es) (t_name t) = Some i \<and> t_id t = i"
    if "(i, t) \<in> set (teams es)" for i t
    using that assms in_map_get [OF mok] store_index.record_entry [OF agree] by (simp add: store_ok_def)
  have "inj_on (t_name \<circ> snd) (set (teams es))"
  proof (rule inj_onI)
    fix p q assume "p \<in> set (teams es)" "q \<in> set (teams es)" and "(t_name \<circ> snd) p = (t_name \<circ> snd) q"
    moreover obtain i t j u where "p = (i, t)" and "q = (j, u)" by (cases p; cases q)
    ultimately show "p = q"
      using found [of i t] found [of j u] by simp
  qed
  moreover have "distinct (teams es)" using mok by (auto simp: map_ok_def distinct_map)
  ultimately have "distinct (map t_name (GetTeams es))"
    by (simp add: GetTeams_def distinct_map)
  moreover have "GetTeamByUsername (t_name t) es = Inr t \<and> GetTeamByID (t_id t) es = Inr t"
    if "t \<in> set (GetTeams es)" for t
    using that found by (auto simp: GetTeams_def GetTeamByUsername_def GetTeamByID_def)
  ultimately show ?thesis by blast
qed

lemma store_ids_distinct:
  assumes "store_ok es"
  shows "distinct (map t_id (GetTeams es))"
proof -
  have "store_index.agree (teams es) (names es)" using assms by (simp add: store_ok_def)
  then have mok: "map_ok (teams es)" by (rule store_index.agree_ok)
  have "map t_id (GetTeams es) = map fst (teams es)"
    using assms in_map_get [OF mok] by (auto simp: GetTeams_def store_ok_def)
  with mok show ?thesis by (simp add: map_ok_def)
qed

lemma store_abs_iff:
  assumes "store_ok es"
  shows "store_abs es n = Some t \<longleftrightarrow> t \<in> set (GetTeams es) \<and> t_name t = n"
proof
  assume "store_abs es n = Some t"
  then obtain i where i: "map_get (names es) n = Some i" "map_get (teams es) i = Some t"
    by (auto simp: store_abs_def GetTeamByUsername_def split: option.splits)
  then have "t_name t = n"
    using store_index.name_entry [of "teams es" "names es" n i] assms by (auto simp: store_ok_def)
  moreover have "t \<in> set (GetTeams es)" using map_get_in [OF i(2)] by (force simp: GetTeams_def)
  ultimately show "t \<in> set (GetTeams es) \<and> t_name t = n" by simp
next
  assume "t \<in> set (GetTeams es) \<and> t_name t = n"
  then show "store_abs es n = Some t" using store_teams [OF assms] by (auto simp: store_abs_def)
qed

text \<open>
  C9. In every reachable store no two teams share a name, and each team is found under its
  own name and its own identifier.
\<close>
theorem reachable_names_unique:
  assumes "store_reachable es"
  shows "distinct (map t_name (GetTeams es)) \<and>
    (\<forall>t \<in> set (GetTeams es). GetTeamByUsername (t_name t) es = Inr t \<and> GetTeamByID (t_id t) es = Inr t)"
  by (rule store_teams [OF store_reachable_ok [OF assms]])

theorem reachable_names_unique_witness:
  "\<exists>es. store_reachable es \<and> map t_name (GetTeams es) = [''red'', ''blue''] \<and>
     distinct (map t_name (GetTeams es))"
proof -
  let ?a = "sample_team_state" and ?b = "sample_team_state\<lparr>t_id := ''b2'', t_name := ''blue''\<rparr>"
  let ?e1 = "\<lparr>teams = [(''a1'', ?a)], tokens = [], names = [(''red'', ''a1'')]\<rparr>"
  let ?e2 = "\<lparr>teams = [(''a1'', ?a), (''b2'', ?b)], tokens = [],
               names = [(''red'', ''a1''), (''blue'', ''b2'')]\<rparr>"
  have a: "t_id ?a = ''a1''" "t_name ?a = ''red''" "?a\<lparr>has_dbc := True\<rparr> = ?a" "?b\<lparr>has_dbc := True\<rparr> = ?b"
    by (simp_all add: sample_team_state_def)
  have "SaveTeam True ?a NewTeamStore = (None, ?e1)"
    using a by (simp add: SaveTeam_def NewTeamStore_def map_put_def)
  with store_step.save [of NewTeamStore ?a True] have "store_step NewTeamStore ?e1"
    by (simp add: NewTeamStore_def)
  then have r1: "store_reachable ?e1" by (rule store_reachable.step [OF store_reachable.new])
  have "SaveTeam True ?b ?e1 = (None, ?e2)"
    using a by (simp add: SaveTeam_def map_put_def map_get_Cons)
  with store_step.save [of ?e1 ?b True] have "store_step ?e1 ?e2" by (simp add: map_get_Cons)
  then have r: "store_reachable ?e2" by (rule store_reachable.step [OF r1])
  have "map t_name (GetTeams ?e2) = [''red'', ''blue'']" by (simp add: GetTeams_def a)
  moreover have "distinct (map t_name (GetTeams ?e2))"
    using reachable_names_unique [OF r] by (rule conjunct1)
  ultimately show ?thesis using r by (intro exI [of _ ?e2] conjI)
qed

end
