(* ===== verification/Amigo_Table.thy ===== *)
theory Amigo_Table
  imports Store_Team "HOL-Library.Word"
begin

text \<open>
  What the server puts in its two websocket messages (svcs/amigo/table.go, with the struct tags
  of store/model.go): \<open>initTeams\<close> builds the scoreboard, \<open>initChallenges\<close> the challenge list of
  a team. Points are Go's \<^verbatim>\<open>uint\<close>, 64 bits wide. A slice that only \<^verbatim>\<open>append\<close> fills is null in
  JSON when nothing was appended (\<open>json_slice\<close>); a field tagged \<^verbatim>\<open>omitempty\<close> is absent when
  empty. The renderer of the descriptions (markdown and the sanitizer) is a parameter.
\<close>

subsection \<open>Data\<close>

type_synonym points = "64 word"

record child_chal =
  cc_tag :: string
  cc_name :: string
  cc_env :: string
  cc_static_flag :: string
  cc_points :: points
  cc_category :: string
  cc_description :: string
  cc_prereqs :: "string list"
  cc_outcomes :: "string list"
  cc_static :: bool

record chal_entry =
  ce_name :: string
  ce_tag :: string
  ce_points :: points

record category_entry =
  CategoryName :: string
  Challenges :: "chal_entry list"

record row_entry =
  Id :: string
  RowName :: string
  TotalPoints :: points
  ChalCompletions :: "string option list"
  ChalPoints :: "points list"
  IsUser :: bool

subsection \<open>The scoreboard\<close>

definition getChallengeCategories :: "child_chal list \<Rightarrow> string list" where
  "getChallengeCategories chals =
     snd (foldl (\<lambda>(keys, cats) c.
            if map_get keys (cc_category c) = None
            then (map_put (cc_category c) True keys, cats @ [cc_category c])
            else (keys, cats)) ([], []) chals)"

definition to_entry :: "child_chal \<Rightarrow> chal_entry" where
  "to_entry c = \<lparr>ce_name = cc_name c, ce_tag = cc_tag c, ce_points = cc_points c\<rparr>"

definition add_to_category :: "category_entry list \<Rightarrow> child_chal \<Rightarrow> category_entry list" where
  "add_to_category cats c =
     map (\<lambda>rc. if CategoryName rc = cc_category c
               then rc\<lparr>Challenges := Challenges rc @ [to_entry c]\<rparr> else rc) cats"

text \<open>\<^verbatim>\<open>sort.SliceStable\<close> by points.\<close>

definition initCategories :: "child_chal list \<Rightarrow> category_entry list" where
  "initCategories chals =
     (let cats = map (\<lambda>c. \<lparr>CategoryName = c, Challenges = []\<rparr>) (getChallengeCategories chals);
          cats = foldl add_to_category cats chals
      in map (\<lambda>c. if length (Challenges c) > 0
                  then c\<lparr>Challenges := sort_key ce_points (Challenges c)\<rparr> else c) cats)"

definition count_challenge ::
  "team \<Rightarrow> string option list \<times> points list \<times> points \<Rightarrow> chal_entry
     \<Rightarrow> string option list \<times> points list \<times> points" where
  "count_challenge t acc c =
     (case acc of (completions, pts, totalPoints) \<Rightarrow>
        let solved = IsTeamSolvedChallenge t (ce_tag c) in
        (completions @ [solved], pts @ [ce_points c],
         if solved \<noteq> None then totalPoints + ce_points c else totalPoints))"

definition TeamInfo :: "team \<Rightarrow> category_entry list \<Rightarrow> row_entry" where
  "TeamInfo t chalCategories =
     (case foldl (\<lambda>acc cc. foldl (count_challenge t) acc (Challenges cc)) ([], [], 0) chalCategories
      of (completions, pts, totalPoints) \<Rightarrow>
        \<lparr>Id = t_id t, RowName = t_name t, TotalPoints = totalPoints, ChalCompletions = completions,
         ChalPoints = pts, IsUser = False\<rparr>)"

definition teamRows :: "teamstore \<Rightarrow> category_entry list \<Rightarrow> string \<Rightarrow> row_entry list" where
  "teamRows ts cats teamId =
     map (\<lambda>t. let r = TeamInfo t cats in if t_id t = teamId then r\<lparr>IsUser := True\<rparr> else r) (GetTeams ts)"

subsection \<open>Its JSON\<close>

definition json_slice :: "json list \<Rightarrow> json" where
  "json_slice xs = (if xs = [] then JNull else JArr xs)"

definition json_stamp :: "string option \<Rightarrow> json" where
  "json_stamp t = (case t of None \<Rightarrow> JNull | Some s \<Rightarrow> JStr s)"

definition json_entry :: "chal_entry \<Rightarrow> json" where
  "json_entry c =
     JObj [(''name'', JStr (ce_name c)), (''tag'', JStr (ce_tag c)), (''points'', JNum (uint (ce_points c)))]"

definition json_category :: "category_entry \<Rightarrow> json" where
  "json_category c =
     JObj [(''category'', JStr (CategoryName c)), (''chals'', JArr (map json_entry (Challenges c)))]"

definition json_row :: "row_entry \<Rightarrow> json" where
  "json_row r =
     JObj [(''id'', JStr (Id r)), (''name'', JStr (RowName r)), (''tpoints'', JNum (uint (TotalPoints r))),
           (''completions'', json_slice (map json_stamp (ChalCompletions r))),
           (''points'', json_slice (map (JNum \<circ> uint) (ChalPoints r))),
           (''is_user'', JBool (IsUser r))]"

definition message_json :: "string \<Rightarrow> json \<Rightarrow> bool \<Rightarrow> json" where
  "message_json m v assigned = JObj [(''msg'', JStr m), (''values'', v), (''isLabAssigned'', JBool assigned)]"

definition scoreboard_json :: "teamstore \<Rightarrow> child_chal list \<Rightarrow> string \<Rightarrow> json" where
  "scoreboard_json ts chals teamId =
     (let cats = initCategories chals in
      message_json ''scoreboard''
        (JObj [(''challenges'', json_slice (map json_category cats)),
               (''teams'', JArr (map json_row (teamRows ts cats teamId)))]) False)"

definition initTeams :: "teamstore \<Rightarrow> child_chal list \<Rightarrow> string \<Rightarrow> string" where
  "initTeams ts chals teamId = json_marshal (scoreboard_json ts chals teamId)"

subsection \<open>The challenge list\<close>

record chal_row =
  ChalInfo :: child_chal
  IsUserCompleted :: bool
  TeamsCompleted :: "(string \<times> string) list"
  IsDisabledChal :: bool

definition zero_chal :: child_chal where
  "zero_chal = \<lparr>cc_tag = [], cc_name = [], cc_env = [], cc_static_flag = [], cc_points = 0,
     cc_category = [], cc_description = [], cc_prereqs = [], cc_outcomes = [], cc_static = False\<rparr>"

definition zero_row :: chal_row where
  "zero_row = \<lparr>ChalInfo = zero_chal, IsUserCompleted = False, TeamsCompleted = [], IsDisabledChal = False\<rparr>"

definition visit_team :: "child_chal \<Rightarrow> chal_row \<Rightarrow> team \<Rightarrow> chal_row" where
  "visit_team c r t =
     (let solved = IsTeamSolvedChallenge t (cc_tag c);
          r = (case solved of
                 None \<Rightarrow> r
               | Some at \<Rightarrow> r\<lparr>TeamsCompleted := TeamsCompleted r @ [(t_name t, at)]\<rparr>)
      in foldl (\<lambda>r d. if d = cc_tag c \<and> solved = None then r\<lparr>IsDisabledChal := True\<rparr> else r)
           r (GetDisabledChals t))"

definition challengeRow :: "(string \<Rightarrow> string) \<Rightarrow> teamstore \<Rightarrow> team \<Rightarrow> child_chal \<Rightarrow> chal_row" where
  "challengeRow render ts team c =
     (let info = zero_chal\<lparr>cc_tag := cc_tag c, cc_name := cc_name c, cc_points := cc_points c,
            cc_category := cc_category c, cc_description := render (cc_description c),
            cc_prereqs := cc_prereqs c, cc_outcomes := cc_outcomes c, cc_static := cc_static c\<rparr>;
          r = foldl (visit_team c) (zero_row\<lparr>ChalInfo := info\<rparr>) (GetTeams ts)
      in if IsTeamSolvedChallenge team (cc_tag c) \<noteq> None
         then r\<lparr>IsUserCompleted := True, IsDisabledChal := False\<rparr> else r)"

text \<open>The rows and \<^verbatim>\<open>isLabAssigned\<close>; a viewer who is no team gets zero rows.\<close>

definition challengeRows ::
  "(string \<Rightarrow> string) \<Rightarrow> teamstore \<Rightarrow> child_chal list \<Rightarrow> string \<Rightarrow> chal_row list \<times> bool" where
  "challengeRows render ts chals teamId =
     (case GetTeamByID teamId ts of
        Inl _ \<Rightarrow> (replicate (length chals) zero_row, False)
      | Inr team \<Rightarrow> (map (challengeRow render ts team) chals, isLabAssigned team))"

subsection \<open>Its JSON\<close>

definition omit_str :: "string \<Rightarrow> string \<Rightarrow> (string \<times> json) list" where
  "omit_str k s = (if s = [] then [] else [(k, JStr s)])"

definition omit_strs :: "string \<Rightarrow> string list \<Rightarrow> (string \<times> json) list" where
  "omit_strs k xs = (if xs = [] then [] else [(k, JArr (map JStr xs))])"

definition json_chal :: "child_chal \<Rightarrow> json" where
  "json_chal c =
     JObj (omit_str ''tag'' (cc_tag c) @ omit_str ''name'' (cc_name c) @ omit_str ''envFlag'' (cc_env c)
       @ omit_str ''static'' (cc_static_flag c)
       @ (if cc_points c = 0 then [] else [(''points'', JNum (uint (cc_points c)))])
       @ omit_str ''category'' (cc_category c) @ omit_str ''teamDescription'' (cc_description c)
       @ omit_strs ''prerequisite'' (cc_prereqs c) @ omit_strs ''outcome'' (cc_outcomes c)
       @ (if cc_static c then [(''staticChallenge'', JBool True)] else []))"

definition json_chal_row :: "chal_row \<Rightarrow> json" where
  "json_chal_row r =
     JObj [(''challenge'', json_chal (ChalInfo r)), (''isUserCompleted'', JBool (IsUserCompleted r)),
           (''teamsCompleted'', json_slice (map (\<lambda>(n, at).
              JObj [(''teamName'', JStr n), (''completedAt'', JStr at)]) (TeamsCompleted r))),
           (''isChalDisabled'', JBool (IsDisabledChal r))]"

definition challenges_json ::
  "(string \<Rightarrow> string) \<Rightarrow> teamstore \<Rightarrow> child_chal list \<Rightarrow> string \<Rightarrow> json" where
  "challenges_json render ts chals teamId =
     (case challengeRows render ts chals teamId of
        (rows, assigned) \<Rightarrow> message_json ''challenges'' (JArr (map json_chal_row rows)) assigned)"

definition initChallenges ::
  "(string \<Rightarrow> string) \<Rightarrow> teamstore \<Rightarrow> child_chal list \<Rightarrow> string \<Rightarrow> string" where
  "initChallenges render ts chals teamId = json_marshal (challenges_json render ts chals teamId)"

subsection \<open>Lemmas\<close>

lemma categories_loop:
  assumes "\<forall>k. map_get keys k = None \<longleftrightarrow> k \<notin> set cats" and "distinct cats"
  shows "case foldl (\<lambda>(keys, cats) c.
            if map_get keys (cc_category c) = None
            then (map_put (cc_category c) True keys, cats @ [cc_category c])
            else (keys, cats)) (keys, cats) chals of
       (keys', cats') \<Rightarrow> distinct cats' \<and> set cats' = set cats \<union> cc_category ` set chals"
  using assms
proof (induction chals arbitrary: keys cats)
  case Nil
  then show ?case by simp
next
  case (Cons c chals)
  show ?case
  proof (cases "map_get keys (cc_category c) = None")
    case True
    then have "\<forall>k. map_get (map_put (cc_category c) True keys) k = None \<longleftrightarrow> k \<notin> set (cats @ [cc_category c])"
      and "distinct (cats @ [cc_category c])"
      using Cons.prems by auto
    from Cons.IH [OF this] True show ?thesis by (auto split: prod.splits)
  next
    case False
    with Cons.prems have "cc_category c \<in> set cats" by auto
    with False Cons.IH [OF Cons.prems] show ?thesis by (auto split: prod.splits)
  qed
qed

lemma distinct_categories: "distinct (getChallengeCategories chals)"
  and set_categories: "set (getChallengeCategories chals) = cc_category ` set chals"
  using categories_loop [of "[]" "[]" chals]
  by (auto simp: getChallengeCategories_def split: prod.splits)

lemma add_loop:
  "foldl add_to_category (map (\<lambda>n. \<lparr>CategoryName = n, Challenges = f n\<rparr>) ns) chals =
     map (\<lambda>n. \<lparr>CategoryName = n, Challenges = f n @ map to_entry (filter (\<lambda>c. cc_category c = n) chals)\<rparr>) ns"
proof (induction chals arbitrary: f)
  case Nil
  show ?case by simp
next
  case (Cons c chals)
  have "add_to_category (map (\<lambda>n. \<lparr>CategoryName = n, Challenges = f n\<rparr>) ns) c =
      map (\<lambda>n. \<lparr>CategoryName = n, Challenges = (if cc_category c = n then f n @ [to_entry c] else f n)\<rparr>) ns"
    by (auto simp: add_to_category_def)
  then show ?case by (simp add: Cons.IH)
qed

lemma initCategories_eq:
  "initCategories chals =
     map (\<lambda>n. \<lparr>CategoryName = n,
                Challenges = sort_key ce_points (map to_entry (filter (\<lambda>c. cc_category c = n) chals))\<rparr>)
       (getChallengeCategories chals)"
  using add_loop [of "\<lambda>_. []" "getChallengeCategories chals" chals]
  by (auto simp: initCategories_def Let_def)

text \<open>The scoreboard's columns: the challenges, category by category.\<close>

definition columns :: "child_chal list \<Rightarrow> chal_entry list" where
  "columns chals = concat (map Challenges (initCategories chals))"

lemma mset_columns: "mset (columns chals) = mset (map to_entry chals)"
proof -
  have "mset (columns chals) =
      mset (concat (map (\<lambda>n. map to_entry (filter (\<lambda>c. cc_category c = n) chals)) (getChallengeCategories chals)))"
    unfolding columns_def initCategories_eq
    by (simp add: mset_concat comp_def)
  also have "\<dots> = mset (map to_entry (concat (map (\<lambda>n. filter (\<lambda>c. cc_category c = n) chals) (getChallengeCategories chals))))"
    by (simp add: map_concat comp_def)
  also have "\<dots> = image_mset to_entry (mset chals)"
    by (subst mset_map, subst mset_filter_partition) (simp_all add: distinct_categories set_categories)
  finally show ?thesis by simp
qed

lemma length_columns: "length (columns chals) = length chals"
  using mset_columns [of chals] by (metis length_map mset_eq_length)

lemma count_loop:
  "foldl (count_challenge t) (cs, ps, n) es =
     (cs @ map (IsTeamSolvedChallenge t \<circ> ce_tag) es, ps @ map ce_points es,
      n + sum_list (map ce_points (filter (\<lambda>c. IsTeamSolvedChallenge t (ce_tag c) \<noteq> None) es)))"
  by (induction es arbitrary: cs ps n) (auto simp: count_challenge_def Let_def add.assoc)

lemma foldl_concat: "foldl (\<lambda>acc c. foldl f acc (g c)) a cs = foldl f a (concat (map g cs))"
  by (induction cs arbitrary: a) simp_all

lemma TeamInfo_eq:
  "TeamInfo t cats = (let es = concat (map Challenges cats) in
     \<lparr>Id = t_id t, RowName = t_name t,
      TotalPoints = sum_list (map ce_points (filter (\<lambda>c. IsTeamSolvedChallenge t (ce_tag c) \<noteq> None) es)),
      ChalCompletions = map (IsTeamSolvedChallenge t \<circ> ce_tag) es, ChalPoints = map ce_points es,
      IsUser = False\<rparr>)"
  by (simp add: TeamInfo_def foldl_concat count_loop Let_def)

lemma unat_sum_list: "unat (sum_list (ws :: 'a::len word list)) = sum_list (map unat ws) mod 2 ^ LENGTH('a)"
  by (induction ws) (simp_all add: unat_word_ariths mod_simps)

lemma visit_team_eq:
  "visit_team c r t =
     r\<lparr>TeamsCompleted := TeamsCompleted r @
         (case IsTeamSolvedChallenge t (cc_tag c) of None \<Rightarrow> [] | Some at \<Rightarrow> [(t_name t, at)]),
       IsDisabledChal := IsDisabledChal r \<or>
         (cc_tag c \<in> set (GetDisabledChals t) \<and> IsTeamSolvedChallenge t (cc_tag c) = None)\<rparr>"
proof -
  have mark: "foldl (\<lambda>r d. if d = g \<and> s then r\<lparr>IsDisabledChal := True\<rparr> else r) r ds =
      r\<lparr>IsDisabledChal := IsDisabledChal r \<or> (g \<in> set ds \<and> s)\<rparr>" for g :: string and s and r :: chal_row and ds
    by (induction ds arbitrary: r) auto
  show ?thesis by (cases r) (auto simp: visit_team_def Let_def mark split: option.split)
qed

lemma visit_teams:
  "foldl (visit_team c) r ts =
     r\<lparr>TeamsCompleted := TeamsCompleted r @
         concat (map (\<lambda>t. case IsTeamSolvedChallenge t (cc_tag c) of None \<Rightarrow> [] | Some at \<Rightarrow> [(t_name t, at)]) ts),
       IsDisabledChal := IsDisabledChal r \<or>
         (\<exists>t \<in> set ts. cc_tag c \<in> set (GetDisabledChals t) \<and> IsTeamSolvedChallenge t (cc_tag c) = None)\<rparr>"
proof (induction ts arbitrary: r)
  case Nil
  show ?case by simp
next
  case (Cons t ts)
  show ?case by (subst foldl_Cons, subst Cons.IH) (auto simp: visit_team_eq)
qed

subsection \<open>Properties\<close>

text \<open>
  C11. The scoreboard's categories are the distinct categories of the event's challenges, each
  with exactly its own challenges, sorted by points with ties in the order of the event: every
  challenge gets exactly one column.
\<close>
theorem initCategories_partition:
  "distinct (map CategoryName (initCategories chals)) \<and>
   set (map CategoryName (initCategories chals)) = cc_category ` set chals \<and>
   mset (columns chals) = mset (map to_entry chals) \<and>
   list_all (\<lambda>c. sorted (map ce_points (Challenges c)) \<and>
       Challenges c = sort_key ce_points (map to_entry (filter (\<lambda>x. cc_category x = CategoryName c) chals)))
     (initCategories chals)"
  by (simp add: mset_columns) (simp add: initCategories_eq comp_def distinct_categories set_categories list_all_iff
      image_image)

text \<open>
  A team's total is the sum of the points of the event's challenges it has solved, modulo
  2^64, whatever categories they are shown in; its completions and points line up with the
  columns.
\<close>
theorem TeamInfo_total:
  "unat (TotalPoints (TeamInfo t (initCategories chals))) =
     (\<Sum>c \<leftarrow> chals. if IsTeamSolvedChallenge t (cc_tag c) = None then 0 else unat (cc_points c)) mod 2 ^ 64 \<and>
   ChalCompletions (TeamInfo t (initCategories chals)) = map (IsTeamSolvedChallenge t \<circ> ce_tag) (columns chals) \<and>
   ChalPoints (TeamInfo t (initCategories chals)) = map ce_points (columns chals)"
proof -
  define sol where "sol e \<longleftrightarrow> IsTeamSolvedChallenge t (ce_tag e) \<noteq> None" for e :: chal_entry
  let ?n = "\<lambda>es. \<Sum>e \<leftarrow> filter sol es. unat (ce_points e)"
  have "mset (filter sol (columns chals)) = mset (filter sol (map to_entry chals))"
    by (simp only: mset_filter mset_columns)
  moreover have "?n es = (\<Sum>e \<in># mset (filter sol es). unat (ce_points e))" for es
    by (subst sum_mset_sum_list [symmetric]) simp
  ultimately have "?n (columns chals) = ?n (map to_entry chals)" by (simp only:)
  also have "\<dots> = (\<Sum>c \<leftarrow> chals. if IsTeamSolvedChallenge t (cc_tag c) = None then 0 else unat (cc_points c))"
    by (induction chals) (auto simp: to_entry_def sol_def)
  finally have n: "?n (columns chals) = \<dots>" .
  have "TotalPoints (TeamInfo t (initCategories chals)) = sum_list (map ce_points (filter sol (columns chals)))"
    by (simp add: TeamInfo_eq Let_def columns_def sol_def [abs_def])
  then have "unat (TotalPoints (TeamInfo t (initCategories chals))) = ?n (columns chals) mod 2 ^ 64"
    by (simp add: unat_sum_list comp_def)
  then show ?thesis unfolding n by (simp add: TeamInfo_eq Let_def columns_def)
qed

text \<open>
  A row of the challenge page lists every team that solved the challenge with the time, and
  is disabled for a viewer who has not solved it as soon as any team, not only the
  viewer's, has it disabled and unsolved.
\<close>
theorem challengeRow_spec:
  "ChalInfo (challengeRow render ts team c) =
     c\<lparr>cc_env := [], cc_static_flag := [], cc_description := render (cc_description c)\<rparr> \<and>
   set (TeamsCompleted (challengeRow render ts team c)) =
     {(t_name t, at) | t at. t \<in> set (GetTeams ts) \<and> IsTeamSolvedChallenge t (cc_tag c) = Some at} \<and>
   IsUserCompleted (challengeRow render ts team c) = (IsTeamSolvedChallenge team (cc_tag c) \<noteq> None) \<and>
   IsDisabledChal (challengeRow render ts team c) =
     (IsTeamSolvedChallenge team (cc_tag c) = None \<and>
      (\<exists>t \<in> set (GetTeams ts). cc_tag c \<in> set (GetDisabledChals t) \<and> IsTeamSolvedChallenge t (cc_tag c) = None))"
  by (cases c) (auto simp: challengeRow_def Let_def visit_teams zero_row_def zero_chal_def
      split: option.splits)

end
