(* ===== verification/Amigo_Hub.thy ===== *)
theory Amigo_Hub
  imports Amigo_Table Page_Messages
begin

text \<open>
  The websocket hub (svcs/amigo/util.go): the loop of \<^verbatim>\<open>RunFrontendData\<close>, one event at a time,
  and the pump that writes a client's queued messages to its socket. \<open>fd_clients\<close> is the hub's
  client map, \<open>fd_queues\<close> the send channel of every connection ever registered, \<open>fd_pending\<close>
  the updates whose goroutine is still waiting to hand them over, oldest first. The socket
  itself is a parameter: writing to it appends a frame.
\<close>

subsection \<open>The hub\<close>

record frontend =
  fd_challenges :: "child_chal list"
  fd_clients :: "nat list"
  fd_queues :: "(nat, string list) gomap"
  fd_closed :: "nat list"
  fd_pending :: "child_chal list list"

definition NewFrontendData :: "child_chal list \<Rightarrow> frontend" where
  "NewFrontendData chals =
     \<lparr>fd_challenges = chals, fd_clients = [], fd_queues = [], fd_closed = [], fd_pending = []\<rparr>"

definition UpdateChallenges :: "child_chal list \<Rightarrow> frontend \<Rightarrow> frontend" where
  "UpdateChallenges chals fd = fd\<lparr>fd_pending := fd_pending fd @ [chals]\<rparr>"

definition send_capacity :: nat where
  "send_capacity = 256"

text \<open>A send in a \<^verbatim>\<open>select\<close> with a default: refused when the channel's buffer is full.\<close>

definition try_send :: "string \<Rightarrow> string list \<Rightarrow> string list option" where
  "try_send m q = (if length q < send_capacity then Some (q @ [m]) else None)"

definition queue_of :: "frontend \<Rightarrow> nat \<Rightarrow> string list" where
  "queue_of fd cid = (case map_get (fd_queues fd) cid of None \<Rightarrow> [] | Some q \<Rightarrow> q)"

definition put_queue :: "nat \<Rightarrow> string list \<Rightarrow> frontend \<Rightarrow> frontend" where
  "put_queue cid q fd = fd\<lparr>fd_queues := map_put cid q (fd_queues fd)\<rparr>"

definition register_client ::
  "(string \<Rightarrow> string) \<Rightarrow> teamstore \<Rightarrow> nat \<Rightarrow> string \<Rightarrow> frontend \<Rightarrow> frontend" where
  "register_client render ts cid teamId fd =
     (case try_send (initChallenges render ts (fd_challenges fd) teamId) (queue_of fd cid) of
        None \<Rightarrow> fd
      | Some q \<Rightarrow>
          (let fd = put_queue cid q fd in
           case try_send (initTeams ts (fd_challenges fd) teamId) q of
             None \<Rightarrow> fd
           | Some q \<Rightarrow>
               (let fd = put_queue cid q fd in
                case fd_pending fd of
                  [] \<Rightarrow> fd
                | newChs # rest \<Rightarrow>
                    fd\<lparr>fd_challenges := fd_challenges fd @ newChs, fd_pending := rest,
                       fd_clients := List.insert cid (fd_clients fd)\<rparr>)))"

definition unregister_client :: "nat \<Rightarrow> frontend \<Rightarrow> frontend" where
  "unregister_client cid fd =
     (if cid \<in> set (fd_clients fd)
      then fd\<lparr>fd_clients := removeAll cid (fd_clients fd), fd_closed := cid # fd_closed fd\<rparr>
      else fd)"

datatype hub_event =
    Register nat string teamstore
  | Unregister nat
  | Update "child_chal list"

fun hub_step :: "(string \<Rightarrow> string) \<Rightarrow> hub_event \<Rightarrow> frontend \<Rightarrow> frontend" where
  "hub_step render (Register cid teamId ts) fd = register_client render ts cid teamId fd"
| "hub_step render (Unregister cid) fd = unregister_client cid fd"
| "hub_step render (Update chals) fd = UpdateChallenges chals fd"

definition hub_run :: "(string \<Rightarrow> string) \<Rightarrow> hub_event list \<Rightarrow> frontend \<Rightarrow> frontend" where
  "hub_run render evs fd = fold (hub_step render) evs fd"

fun updates :: "hub_event list \<Rightarrow> child_chal list list" where
  "updates [] = []"
| "updates (Update chals # evs) = chals # updates evs"
| "updates (_ # evs) = updates evs"

subsection \<open>The pump\<close>

text \<open>
  One round of \<^verbatim>\<open>writePump\<close>: the message it took, then a newline and a message for each of the
  \<open>n\<close> that are queued at that moment.
\<close>

fun pump_rest :: "nat \<Rightarrow> string list \<Rightarrow> string \<times> string list" where
  "pump_rest 0 q = ([], q)"
| "pump_rest (Suc n) [] = ([], [])"
| "pump_rest (Suc n) (m # q) = (case pump_rest n q of (w, q') \<Rightarrow> (newline # m @ w, q'))"

fun pump :: "string list \<Rightarrow> (string \<times> string list) option" where
  "pump [] = None"
| "pump (m # q) = (case pump_rest (length q) q of (w, q') \<Rightarrow> Some (m @ w, q'))"

text \<open>The socket of one client: the hub queues messages, the pump writes frames.\<close>

datatype socket_event = Queue string | Pump

record socket =
  so_queue :: "string list"
  so_frames :: "string list"

fun socket_step :: "socket_event \<Rightarrow> socket \<Rightarrow> socket" where
  "socket_step (Queue m) s = s\<lparr>so_queue := so_queue s @ [m]\<rparr>"
| "socket_step Pump s =
     (case pump (so_queue s) of
        None \<Rightarrow> s
      | Some (w, q) \<Rightarrow> s\<lparr>so_queue := q, so_frames := so_frames s @ [w]\<rparr>)"

definition socket_run :: "socket_event list \<Rightarrow> socket" where
  "socket_run evs = fold socket_step evs \<lparr>so_queue = [], so_frames = []\<rparr>"

fun queued :: "socket_event list \<Rightarrow> string list" where
  "queued [] = []"
| "queued (Queue m # evs) = m # queued evs"
| "queued (Pump # evs) = queued evs"

subsection \<open>Lemmas\<close>

lemma pump_eq: "pump q = (if q = [] then None else Some (join_with newline q, []))"
proof -
  have rest: "pump_rest (length q) q = (concat (map (\<lambda>m. newline # m) q), [])" for q
    by (induction q) simp_all
  have join: "join_with newline (m # q) = m @ concat (map (\<lambda>m. newline # m) q)" for m q
    by (induction q arbitrary: m) simp_all
  show ?thesis by (cases q) (simp_all add: rest join del: join_with.simps)
qed

lemma queued_append: "queued (evs @ evs') = queued evs @ queued evs'"
  by (induction evs rule: queued.induct) simp_all

lemma socket_run_snoc: "socket_run (evs @ [e]) = socket_step e (socket_run evs)"
  by (simp add: socket_run_def)

lemma socket_messages:
  "\<forall>m \<in> set (queued evs). newline \<notin> set m \<Longrightarrow>
   concat (map (split_on newline) (so_frames (socket_run evs))) @ so_queue (socket_run evs) = queued evs
   \<and> set (so_queue (socket_run evs)) \<subseteq> set (queued evs)"
proof (induction evs rule: rev_induct)
  case Nil
  show ?case by (simp add: socket_run_def)
next
  case (snoc e evs)
  then have IH: "concat (map (split_on newline) (so_frames (socket_run evs))) @ so_queue (socket_run evs)
      = queued evs" "set (so_queue (socket_run evs)) \<subseteq> set (queued evs)"
    and nl: "\<forall>m \<in> set (so_queue (socket_run evs)). newline \<notin> set m"
    by (auto simp: queued_append)
  show ?case
  proof (cases e)
    case (Queue m)
    with IH show ?thesis by (auto simp: socket_run_snoc queued_append)
  next
    case Pump
    have "split_on newline (join_with newline (so_queue (socket_run evs))) = so_queue (socket_run evs)"
      if "so_queue (socket_run evs) \<noteq> []"
      using that nl by (intro split_on_join) auto
    with IH Pump show ?thesis by (auto simp: socket_run_snoc queued_append pump_eq)
  qed
qed

lemma hub_run_snoc: "hub_run render (evs @ [e]) fd = hub_step render e (hub_run render evs fd)"
  by (simp add: hub_run_def)

lemma updates_append: "updates (evs @ evs') = updates evs @ updates evs'"
  by (induction evs rule: updates.induct) simp_all

lemma put_queue_fields [simp]:
  "fd_challenges (put_queue cid q fd) = fd_challenges fd" "fd_pending (put_queue cid q fd) = fd_pending fd"
  "fd_clients (put_queue cid q fd) = fd_clients fd"
  "queue_of (put_queue cid q fd) cid' = (if cid' = cid then q else queue_of fd cid')"
  by (simp_all add: put_queue_def queue_of_def)

lemma register_fields:
  "let fd' = register_client render ts cid teamId fd in
   (fd_challenges fd', fd_pending fd', fd_clients fd') = (fd_challenges fd, fd_pending fd, fd_clients fd) \<or>
   fd_pending fd \<noteq> [] \<and> (fd_challenges fd', fd_pending fd', fd_clients fd') =
     (fd_challenges fd @ hd (fd_pending fd), tl (fd_pending fd), List.insert cid (fd_clients fd))"
  by (simp add: register_client_def try_send_def Let_def split: list.split)

lemma unregister_fields:
  "fd_challenges (unregister_client cid fd) = fd_challenges fd"
  "fd_pending (unregister_client cid fd) = fd_pending fd"
  "length (fd_clients (unregister_client cid fd)) \<le> length (fd_clients fd)"
  by (simp_all add: unregister_client_def)

lemma hub_invariant:
  "let fd = hub_run render evs (NewFrontendData chals); n = length (updates evs) - length (fd_pending fd) in
   length (fd_pending fd) \<le> length (updates evs) \<and> fd_pending fd = drop n (updates evs) \<and>
   fd_challenges fd = chals @ concat (take n (updates evs)) \<and> length (fd_clients fd) \<le> n"
proof (induction evs rule: rev_induct)
  case Nil
  show ?case by (simp add: hub_run_def NewFrontendData_def)
next
  case (snoc e evs)
  let ?fd = "hub_run render evs (NewFrontendData chals)"
  let ?us = "updates evs"
  define n where "n = length ?us - length (fd_pending ?fd)"
  from snoc have IH: "length (fd_pending ?fd) \<le> length ?us" "fd_pending ?fd = drop n ?us"
    "fd_challenges ?fd = chals @ concat (take n ?us)" "length (fd_clients ?fd) \<le> n" and n: "n \<le> length ?us"
    by (simp_all add: Let_def n_def)
  show ?case
  proof (cases e)
    case (Register cid teamId ts)
    define fd' where "fd' = register_client render ts cid teamId ?fd"
    have run: "hub_run render (evs @ [e]) (NewFrontendData chals) = fd'" and us: "updates (evs @ [e]) = ?us"
      using Register by (simp_all add: hub_run_snoc fd'_def updates_append)
    from register_fields [of render ts cid teamId ?fd]
    consider "fd_challenges fd' = fd_challenges ?fd \<and> fd_pending fd' = fd_pending ?fd \<and> fd_clients fd' = fd_clients ?fd"
      | "fd_pending ?fd \<noteq> []" "fd_challenges fd' = fd_challenges ?fd @ hd (fd_pending ?fd)"
        "fd_pending fd' = tl (fd_pending ?fd)" "fd_clients fd' = List.insert cid (fd_clients ?fd)"
      by (auto simp: Let_def fd'_def)
    then show ?thesis
    proof cases
      case 1
      then have m: "length ?us - length (fd_pending fd') = n" by (simp add: n_def)
      show ?thesis unfolding run us Let_def m using 1 IH by simp
    next
      case 2
      then have lt: "n < length ?us" and hd: "hd (fd_pending ?fd) = ?us ! n"
        and tl: "tl (fd_pending ?fd) = drop (Suc n) ?us"
        using IH(2) by (auto simp: hd_drop_conv_nth drop_Suc tl_drop)
      have a1: "fd_pending fd' = drop (Suc n) ?us" using 2(3) tl by simp
      then have m: "length ?us - length (fd_pending fd') = Suc n" using lt by simp
      have a2: "fd_challenges fd' = chals @ concat (take (Suc n) ?us)"
        using 2(2) IH(3) hd lt by (simp add: take_Suc_conv_app_nth)
      have a3: "length (fd_clients fd') \<le> Suc n"
        using 2(4) IH(4) by (simp add: List.insert_def)
      show ?thesis unfolding run us Let_def m by (simp only: a1 a2 a3) simp
    qed
  next
    case (Unregister cid)
    define fd' where "fd' = unregister_client cid ?fd"
    have run: "hub_run render (evs @ [e]) (NewFrontendData chals) = fd'" and us: "updates (evs @ [e]) = ?us"
      using Unregister by (simp_all add: hub_run_snoc fd'_def updates_append)
    note f = unregister_fields [of cid ?fd, folded fd'_def]
    then have m: "length ?us - length (fd_pending fd') = n" by (simp add: n_def)
    show ?thesis unfolding run us Let_def m using f IH by simp
  next
    case (Update us)
    define fd' where "fd' = UpdateChallenges us ?fd"
    have run: "hub_run render (evs @ [e]) (NewFrontendData chals) = fd'"
      and us: "updates (evs @ [e]) = ?us @ [us]"
      using Update by (simp_all add: hub_run_snoc fd'_def updates_append)
    have f: "fd_challenges fd' = fd_challenges ?fd" "fd_pending fd' = fd_pending ?fd @ [us]"
      "fd_clients fd' = fd_clients ?fd"
      by (simp_all add: fd'_def UpdateChallenges_def)
    then have m: "length (?us @ [us]) - length (fd_pending fd') = n" by (simp add: n_def)
    show ?thesis unfolding run us Let_def m using f IH n by simp
  qed
qed

subsection \<open>Properties\<close>

text \<open>
  Registering a new connection queues exactly two messages for it, the challenge list and
  then the scoreboard, both of the challenges known before an update is taken over.
\<close>
theorem register_sends_two:
  assumes "map_get (fd_queues fd) cid = None"
  shows "queue_of (register_client render ts cid teamId fd) cid =
     [initChallenges render ts (fd_challenges fd) teamId, initTeams ts (fd_challenges fd) teamId] \<and>
     (\<forall>other. other \<noteq> cid \<longrightarrow> queue_of (register_client render ts cid teamId fd) other = queue_of fd other)"
proof -
  have "queue_of fd cid = []" using assms by (simp add: queue_of_def)
  moreover have "queue_of (f\<lparr>fd_challenges := a, fd_pending := b, fd_clients := c\<rparr>) = queue_of f" for f a b c
    by (rule ext) (simp add: queue_of_def)
  ultimately show ?thesis
    by (simp add: register_client_def try_send_def send_capacity_def Let_def split: list.split)
qed

theorem register_sends_two_witness:
  "queue_of (register_client id NewTeamStore 7 [] (NewFrontendData [])) 7 =
     [initChallenges id NewTeamStore [] [], initTeams NewTeamStore [] []]"
  using register_sends_two [of "NewFrontendData []" 7 id NewTeamStore "[]"]
  by (simp add: NewFrontendData_def)

text \<open>
  The hub takes over updates in order, one for each client that registers while one is
  waiting, and only such a client enters its client map: the map never holds more clients than
  updates were taken over, so it stays empty while the challenges do not change.
\<close>
theorem hub_clients_bounded:
  "\<exists>n \<le> length (updates evs).
     fd_challenges (hub_run render evs (NewFrontendData chals)) = chals @ concat (take n (updates evs)) \<and>
     fd_pending (hub_run render evs (NewFrontendData chals)) = drop n (updates evs) \<and>
     length (fd_clients (hub_run render evs (NewFrontendData chals))) \<le> n"
  using hub_invariant [of render evs chals]
  by (intro exI [of _ "length (updates evs) - length (fd_pending (hub_run render evs (NewFrontendData chals)))"])
     (simp add: Let_def)

text \<open>
  C13. However queueing and writing interleave, splitting the frames at newlines gives back the
  queued messages in order, and what is not yet written is still in the queue.
\<close>
theorem frames_deliver:
  assumes "\<forall>m \<in> set (queued evs). newline \<notin> set m"
  shows "concat (map (split_on newline) (so_frames (socket_run evs))) @ so_queue (socket_run evs) = queued evs \<and>
     so_queue (socket_run (evs @ [Pump])) = []"
  using socket_messages [OF assms] by (simp add: socket_run_snoc pump_eq)

theorem frames_deliver_witness:
  "so_frames (socket_run [Queue ''a'', Pump, Queue ''b'', Queue ''c'', Pump]) = [''a'', ''b'' @ newline # ''c''] \<and>
   concat (map (split_on newline) (so_frames (socket_run [Queue ''a'', Pump, Queue ''b'', Queue ''c'', Pump]))) @
     so_queue (socket_run [Queue ''a'', Pump, Queue ''b'', Queue ''c'', Pump]) = [''a'', ''b'', ''c'']"
proof -
  have "\<forall>m \<in> set (queued [Queue ''a'', Pump, Queue ''b'', Queue ''c'', Pump]). newline \<notin> set m"
    by (simp add: newline_def)
  from frames_deliver [OF this] show ?thesis by (simp add: socket_run_def)
qed

end
