(* ===== verification/Amigo_Session.thy ===== *)
theory Amigo_Session
  imports Amigo_Table
begin

text \<open>
  Requests and sessions of the event site (svcs/amigo/amigo.go): the middlewares, the session
  cookie, login, signup and logout. A handler takes the site's state and a request and returns
  the list of writes to the \<^verbatim>\<open>ResponseWriter\<close>, in order, with the new state; it is a
  \<^verbatim>\<open>go\<close> value, since a handler may panic. The libraries the code calls are the fields of \<open>env\<close>: the
  signing and parsing of tokens, the recaptcha service, bcrypt, the clock, the identifier
  generator, and one Boolean per database call. A hook of the daemon is a function that
  returns its error, if any, and the team as it leaves it. Strings are ASCII. The texts of errors
  of the database and of the token library are not modelled; a fixed word stands for each.
\<close>

subsection \<open>Requests and replies\<close>

datatype reply =
    ReplyJson nat json
  | SetSession string
  | ClearSession
  | Redirect string
  | Page string
  | NotFound
  | Status nat
  | Waiting
  | File string string
  | Next

record request =
  rq_method :: string
  rq_content_type :: string
  rq_session :: "string option"
  rq_form :: "(string \<times> string) list"
  rq_body :: string

definition PostFormValue :: "request \<Rightarrow> string \<Rightarrow> string" where
  "PostFormValue r k = (case map_of (rq_form r) k of None \<Rightarrow> [] | Some v \<Rightarrow> v)"

record amigo =
  am_store :: teamstore
  am_capacity :: int
  am_secret :: string
  am_only_vpn :: int
  am_recaptcha :: string
  am_disabled :: "(string, string list) gomap"
  am_all :: "(string, string list) gomap"
  am_max_read :: nat

record env =
  jwt_sign :: "string \<Rightarrow> string \<Rightarrow> string option"
  jwt_parse :: "string \<Rightarrow> string + (bool \<times> json)"
  recaptcha_verify :: "string \<Rightarrow> bool"
  crypt :: team_host
  now :: string
  uuid :: string
  decode_error :: "string \<Rightarrow> string"
  db_add_ok :: bool
  db_access_ok :: bool
  db_flag_ok :: bool

type_synonym hook = "team \<Rightarrow> string option \<times> team"

type_synonym handler = "amigo \<Rightarrow> request \<Rightarrow> (reply list \<times> amigo) go"

fun error_text :: "store_error \<Rightarrow> string" where
  "error_text ErrUnknownFlag = ''Unknown flag''"
| "error_text (ErrFlagCompleted tag) = ''Flag for challenge [ '' @ tag @ '' ] is already completed!''"
| "error_text ErrChallengeDuplicate = ''Challenge duplication''"
| "error_text ErrTeamAlreadyExist = ''Team is already exists''"
| "error_text UnknownTeamErr = ''Unknown team''"
| "error_text UnknownTokenErr = ''Unknown token''"
| "error_text (EmptyVarErr v) = v @ '' cannot be empty''"
| "error_text ErrPasswordMismatch = ''Passwords DOES NOT match !''"
| "error_text DbErr = ''database''"

definition errReply :: "string \<Rightarrow> json" where
  "errReply e = JObj [(''error'', JStr e)]"

definition replyJsonRequestErr :: "string \<Rightarrow> reply" where
  "replyJsonRequestErr e = ReplyJson 400 (errReply e)"

definition replyOk :: reply where
  "replyOk = ReplyJson 200 (JObj [(''status'', JStr ''ok'')])"

subsection \<open>Middlewares\<close>

definition GETEndpoint :: "handler \<Rightarrow> handler" where
  "GETEndpoint nxt am r = (if rq_method r \<noteq> ''GET'' then Ret ([NotFound], am) else nxt am r)"

definition POSTEndpoint :: "handler \<Rightarrow> handler" where
  "POSTEndpoint nxt am r = (if rq_method r \<noteq> ''POST'' then Ret ([NotFound], am) else nxt am r)"

definition JSONEndpoint :: "handler \<Rightarrow> handler" where
  "JSONEndpoint nxt am r =
     (if rq_content_type r \<noteq> ''application/json'' then Ret ([NotFound], am) else nxt am r)"

definition json_post :: "handler \<Rightarrow> handler" where
  "json_post endpoint = foldl (\<lambda>endpoint mw. mw endpoint) endpoint [JSONEndpoint, POSTEndpoint]"

subsection \<open>The session cookie\<close>

fun claim :: "string \<Rightarrow> json \<Rightarrow> string option" where
  "claim k (JObj fs) = (case map_of (rev fs) k of Some (JStr s) \<Rightarrow> Some s | _ \<Rightarrow> None)"
| "claim k _ = None"

fun is_object :: "json \<Rightarrow> bool" where
  "is_object (JObj _) = True"
| "is_object _ = False"

definition getTeamInfoFromToken :: "env \<Rightarrow> string \<Rightarrow> string + (string \<times> string)" where
  "getTeamInfoFromToken ev token =
     (case jwt_parse ev token of
        Inl e \<Rightarrow> Inl e
      | Inr (valid, claims) \<Rightarrow>
          if \<not> is_object claims \<or> \<not> valid then Inl ''invalid token format''
          else (case claim ''I'' claims of
                  None \<Rightarrow> Inl ''invalid token format''
                | Some i \<Rightarrow> (case claim ''TN'' claims of
                      None \<Rightarrow> Inl ''invalid token format''
                    | Some name \<Rightarrow> Inr (i, name))))"

definition getTeamFromRequest :: "env \<Rightarrow> amigo \<Rightarrow> request \<Rightarrow> (string + team) \<times> reply list" where
  "getTeamFromRequest ev am r =
     (case rq_session r of
        None \<Rightarrow> (Inl ''requires authentication'', [])
      | Some c \<Rightarrow>
          (case getTeamInfoFromToken ev c of
             Inl e \<Rightarrow> (Inl e, [ClearSession])
           | Inr (i, name) \<Rightarrow>
               (case GetTeamByID i (am_store am) of
                  Inl e \<Rightarrow> (Inl (''GetTeamByID function error '' @ error_text e), [ClearSession])
                | Inr t \<Rightarrow> (Inr t, []))))"

text \<open>What \<^verbatim>\<open>getSiteInfo\<close> writes, and whether the page is shown to a team.\<close>

definition getSiteInfo :: "env \<Rightarrow> request \<Rightarrow> (string \<times> string) option \<times> reply list" where
  "getSiteInfo ev r =
     (case rq_session r of
        None \<Rightarrow> (None, [])
      | Some c \<Rightarrow> (case getTeamInfoFromToken ev c of
            Inl e \<Rightarrow> (None, [ClearSession])
          | Inr tn \<Rightarrow> (Some tn, [])))"

subsection \<open>Login\<close>

definition save_team :: "team \<Rightarrow> amigo \<Rightarrow> amigo" where
  "save_team t am = am\<lparr>am_store := write_team t (am_store am)\<rparr>"

text \<open>\<^verbatim>\<open>loginTeam\<close>: its error or its writes; a database error is only logged.\<close>

definition loginTeam :: "env \<Rightarrow> team \<Rightarrow> amigo \<Rightarrow> (string + reply list \<times> team \<times> amigo) go" where
  "loginTeam ev t am =
     (case jwt_sign ev (t_id t) (t_name t) of
        None \<Rightarrow> Ret (Inl ''token'')
      | Some token \<Rightarrow>
          go_bind (UpdateTeamAccessed (now ev) (db_access_ok ev) t)
            (\<lambda>(e, t'). Ret (Inr ([SetSession token, Redirect ''/''], t', save_team t' am))))"

definition readLogin :: "request \<Rightarrow> string + (string \<times> string)" where
  "readLogin r =
     (let username = TrimSpace (PostFormValue r ''username''); password = PostFormValue r ''password''
      in if username = [] then Inl ''Username cannot be empty''
         else if password = [] then Inl ''Password cannot be empty''
         else Inr (username, password))"

definition handleLoginPOST :: "env \<Rightarrow> hook \<Rightarrow> handler" where
  "handleLoginPOST ev resumeLabHook am r =
     (case readLogin r of
        Inl e \<Rightarrow> Ret ([Page e], am)
      | Inr (username, password) \<Rightarrow>
          (case GetTeamByUsername username (am_store am) of
             Inl e \<Rightarrow> Ret ([Page ''Credentials does not match''], am)
           | Inr t \<Rightarrow>
               if \<not> IsPasswordEqual (crypt ev) t password
               then Ret ([Page ''Credentials does not match''], am)
               else go_bind (loginTeam ev t am)
                 (\<lambda>x. case x of
                        Inl e \<Rightarrow> Ret ([Page e], am)
                      | Inr (w, t, am) \<Rightarrow> Ret (w, save_team (snd (resumeLabHook t)) am))))"

definition handleLogout :: handler where
  "handleLogout am r = Ret ([ClearSession, Redirect ''/''], am)"

subsection \<open>Signup\<close>

definition teamNameMaxLength :: nat where "teamNameMaxLength = 20"
definition passMinLength :: nat where "passMinLength = 6"
definition passMaxLength :: nat where "passMaxLength = 20"

definition is_alnum :: "char \<Rightarrow> bool" where
  "is_alnum c = (let n = of_char c :: nat in
     (65 \<le> n \<and> n \<le> 90) \<or> (97 \<le> n \<and> n \<le> 122) \<or> (48 \<le> n \<and> n \<le> 57))"

definition checkVarLength :: "string \<Rightarrow> nat \<Rightarrow> bool" where
  "checkVarLength input max_len = (length input < max_len)"

definition checkTeamName :: "string \<Rightarrow> string option" where
  "checkTeamName input =
     (if input = [] then Some ''Team name can NOT be empty''
      else if \<not> checkVarLength input teamNameMaxLength then Some ''Team name is too long''
      else if \<not> (input \<noteq> [] \<and> list_all is_alnum input)
      then Some ''Team name should NOT contain non-alphanumeric characters''
      else None)"

record signup_data =
  TeamName :: string
  Password :: string
  SecretEventKey :: string

definition readSignup :: "request \<Rightarrow> string + signup_data" where
  "readSignup r =
     (let data = \<lparr>TeamName = TrimSpace (PostFormValue r ''team-name''),
                  Password = PostFormValue r ''password'',
                  SecretEventKey = PostFormValue r ''secret-event-key''\<rparr>
      in case checkTeamName (TeamName data) of
           Some e \<Rightarrow> Inl e
         | None \<Rightarrow>
             if length (Password data) < passMinLength
             then Inl ''Password needs to be at least 6 characters''
             else if length (Password data) > passMaxLength
             then Inl ''The maximum password length is 20 characters''
             else if Password data \<noteq> PostFormValue r ''password-repeat''
             then Inl ''Password needs to match''
             else Inr data)"

definition new_team :: "env \<Rightarrow> amigo \<Rightarrow> signup_data \<Rightarrow> team" where
  "new_team ev am params =
     NewTeam (crypt ev) (uuid ev) [] (TrimSpace (TeamName params)) (Password params) [] [] [] (now ev)
       (CopyMap (am_disabled am)) (CopyMap (am_all am)) False"

text \<open>
  After \<^verbatim>\<open>SaveTeam\<close> succeeded the pointer in the store is the new team with its database client;
  the token is stored, and the hook assigns the lab, its error being logged only.
\<close>

definition finish_signup :: "env \<Rightarrow> hook \<Rightarrow> team \<Rightarrow> reply list \<Rightarrow> amigo \<Rightarrow> reply list \<times> amigo" where
  "finish_signup ev hook t w am =
     (case jwt_sign ev (t_id t) (t_name t) of
        None \<Rightarrow> (w, am)
      | Some token \<Rightarrow>
          (case SaveTokenForTeam token t (am_store am) of
             (Some e, s) \<Rightarrow> (w, am\<lparr>am_store := s\<rparr>)
           | (None, s) \<Rightarrow> (w, save_team (snd (hook t)) (am\<lparr>am_store := s\<rparr>))))"

definition ErrProtectedEvent :: string where
  "ErrProtectedEvent = ''UNABLE TO SIGNUP: WRONG SECRET KEY FOR PROTECTED EVENT ! '' @ newline #
     '' ASK EVENT ADMINISTRATOR FOR SECRET KEY FOR THIS EVENT ! ''"

definition handleSignupPOST :: "env \<Rightarrow> hook \<Rightarrow> handler" where
  "handleSignupPOST ev hook am r =
     (case readSignup r of
        Inl e \<Rightarrow> Ret ([Page e], am)
      | Inr params \<Rightarrow>
          (let w0 = snd (getSiteInfo ev r) in
           if am_secret am \<noteq> [] \<and> TrimSpace (SecretEventKey params) \<noteq> TrimSpace (am_secret am)
           then Ret (w0 @ [Page ErrProtectedEvent], am)
           else if int (length (GetTeams (am_store am))) = am_capacity am
           then Ret (w0 @ [Page ''capacity reached for this event''], am)
           else if am_recaptcha am \<noteq> [] \<and>
                   \<not> recaptcha_verify ev (PostFormValue r ''g-recaptcha-response'')
           then Ret (w0 @ [Page ''seems you are a robot''], am)
           else
             (case SaveTeam (db_add_ok ev) (new_team ev am params) (am_store am) of
                (Some e, s) \<Rightarrow> Ret (w0 @ [Page (error_text e)], am\<lparr>am_store := s\<rparr>)
              | (None, s) \<Rightarrow>
                  (let t = (new_team ev am params)\<lparr>has_dbc := True\<rparr>; am = am\<lparr>am_store := s\<rparr>
                   in go_bind (loginTeam ev t am)
                        (\<lambda>x. case x of
                               Inl e \<Rightarrow> Ret (w0 @ [Page e], am)
                             | Inr (w, t, am) \<Rightarrow> Ret (finish_signup ev hook t (w0 @ w) am))))))"

subsection \<open>Lemmas\<close>

lemma write_team_same:
  assumes "store_ok es" and "GetTeamByID (t_id u) es = Inr t" and "t_name u = t_name t"
  shows "store_ok (write_team u es)" and "GetTeamByID (t_id u) (write_team u es) = Inr u"
    and "GetTeamByUsername (t_name u) (write_team u es) = Inr u"
    and "length (GetTeams (write_team u es)) = length (GetTeams es)"
proof -
  have got: "map_get (teams es) (t_id u) = Some t" and agree: "store_index.agree (teams es) (names es)"
    using assms by (simp_all add: GetTeamByID_def store_ok_def split: option.splits)
  from assms(1,2) have "t_id t = t_id u" using got by (simp add: store_ok_def)
  with assms(2) have "store_step es (write_team u es)"
    using assms(3) by (intro store_step.update [of "t_id u" es t]) simp_all
  then show "store_ok (write_team u es)" using assms(1) by (rule store_step_ok)
  show "GetTeamByID (t_id u) (write_team u es) = Inr u" by (simp add: GetTeamByID_def write_team_def)
  have "map_get (names es) (t_name u) = Some (t_id u)"
    using store_index.record_entry [OF agree got] assms(3) by simp
  then show "GetTeamByUsername (t_name u) (write_team u es) = Inr u"
    by (simp add: GetTeamByUsername_def write_team_def)
  show "length (GetTeams (write_team u es)) = length (GetTeams es)"
    using got by (simp add: GetTeams_def write_team_def length_map_put)
qed

lemma by_username:
  assumes "store_ok es" and "GetTeamByUsername n es = Inr t"
  shows "GetTeamByID (t_id t) es = Inr t" and "t_name t = n"
proof -
  from assms(2) obtain i where i: "map_get (names es) n = Some i" and t: "map_get (teams es) i = Some t"
    by (auto simp: GetTeamByUsername_def split: option.splits)
  from assms(1) t have "t_id t = i" by (simp add: store_ok_def)
  with t show "GetTeamByID (t_id t) es = Inr t" by (simp add: GetTeamByID_def)
  from assms(1) have "store_index.agree (teams es) (names es)" by (simp add: store_ok_def)
  from store_index.name_entry [OF this i] t show "t_name t = n" by auto
qed

lemma loginTeam_cases:
  assumes "loginTeam ev t am = Ret x"
  obtains "jwt_sign ev (t_id t) (t_name t) = None" "x = Inl ''token''"
  | token where "jwt_sign ev (t_id t) (t_name t) = Some token" "has_dbc t"
      "x = Inr ([SetSession token, Redirect ''/''], t\<lparr>lastAccess := now ev\<rparr>, save_team (t\<lparr>lastAccess := now ev\<rparr>) am)"
  using assms
  by (auto simp: loginTeam_def UpdateTeamAccessed_def split: option.splits if_splits)

text \<open>What the sites and stores need of a hook: it works on the team it is given.\<close>

definition hook_ok :: "hook \<Rightarrow> bool" where
  "hook_ok hook \<longleftrightarrow> (\<forall>t. t_id (snd (hook t)) = t_id t \<and> t_name (snd (hook t)) = t_name t)"

lemma hook_okD: "hook_ok hook \<Longrightarrow> t_id (snd (hook t)) = t_id t" "hook_ok hook \<Longrightarrow> t_name (snd (hook t)) = t_name t"
  by (simp_all add: hook_ok_def)

lemma am_store_save_team [simp]: "am_store (save_team t am) = write_team t (am_store am)"
  by (simp add: save_team_def)

lemma am_fields_save_team [simp]:
  "am_capacity (save_team t am) = am_capacity am" "am_secret (save_team t am) = am_secret am"
  "am_only_vpn (save_team t am) = am_only_vpn am" "am_recaptcha (save_team t am) = am_recaptcha am"
  by (simp_all add: save_team_def)

text \<open>The two ways a login ends: the page again, or a session for the team with that name.\<close>

lemma handleLoginPOST_cases:
  assumes "handleLoginPOST ev hook am r = Ret (w, am')"
  obtains e where "w = [Page e]" "am' = am"
  | name password t token where "readLogin r = Inr (name, password)"
      "GetTeamByUsername name (am_store am) = Inr t" "IsPasswordEqual (crypt ev) t password"
      "jwt_sign ev (t_id t) (t_name t) = Some token" "w = [SetSession token, Redirect ''/'']"
      "am' = save_team (snd (hook (t\<lparr>lastAccess := now ev\<rparr>))) (save_team (t\<lparr>lastAccess := now ev\<rparr>) am)"
proof (cases "readLogin r")
  case (Inl e)
  with assms that(1) [of e] show ?thesis by (simp add: handleLoginPOST_def)
next
  case (Inr p)
  obtain name password where p: "p = (name, password)" by (cases p)
  note read = Inr [unfolded p]
  show ?thesis
  proof (cases "GetTeamByUsername name (am_store am)")
    case (Inl e)
    with assms that(1) [of "''Credentials does not match''"] read show ?thesis by (simp add: handleLoginPOST_def)
  next
    case (Inr t)
    show ?thesis
    proof (cases "IsPasswordEqual (crypt ev) t password")
      case False
      with assms that(1) [of "''Credentials does not match''"] read Inr show ?thesis by (simp add: handleLoginPOST_def)
    next
      case True
      with assms read Inr obtain x where x: "loginTeam ev t am = Ret x"
        and r: "(case x of Inl e \<Rightarrow> Ret ([Page e], am)
                 | Inr (w, t, am) \<Rightarrow> Ret (w, save_team (snd (hook t)) am)) = Ret (w, am')"
        by (auto simp: handleLoginPOST_def go_bind_Ret)
      from x show ?thesis
      proof (cases rule: loginTeam_cases)
        case 1
        with r that(1) [of "''token''"] show ?thesis by simp
      next
        case (2 token)
        with r that(2) [OF read Inr True] show ?thesis by simp
      qed
    qed
  qed
qed

lemma readSignup_ok:
  assumes "readSignup r = Inr p"
  shows "TeamName p = TrimSpace (PostFormValue r ''team-name'')" and "Password p = PostFormValue r ''password''"
    and "Password p = PostFormValue r ''password-repeat''"
    and "SecretEventKey p = PostFormValue r ''secret-event-key''"
    and "0 < length (TeamName p)" and "length (TeamName p) < 20" and "list_all is_alnum (TeamName p)"
    and "6 \<le> length (Password p)" and "length (Password p) \<le> 20"
  using assms
  by (auto simp: readSignup_def Let_def checkTeamName_def checkVarLength_def teamNameMaxLength_def
      passMinLength_def passMaxLength_def split: option.splits if_splits)

lemma SaveToken_fields:
  "SaveTokenForTeam tok t es = (e, es') \<Longrightarrow> teams es' = teams es \<and> names es' = names es"
  by (auto simp: SaveTokenForTeam_def split: if_splits)

lemma same_maps:
  assumes "teams es' = teams es" and "names es' = names es"
  shows "store_ok es' = store_ok es" and "GetTeamByID i es' = GetTeamByID i es"
    and "GetTeamByUsername n es' = GetTeamByUsername n es" and "GetTeams es' = GetTeams es"
  using assms by (simp_all add: store_ok_def GetTeamByID_def GetTeamByUsername_def GetTeams_def
      cong: option.case_cong)

lemma by_id_name:
  assumes "store_ok es" and "GetTeamByID i es = Inr t"
  shows "GetTeamByUsername (t_name t) es = Inr t" and "t_id t = i"
proof -
  have got: "map_get (teams es) i = Some t" and agree: "store_index.agree (teams es) (names es)"
    using assms by (simp_all add: GetTeamByID_def store_ok_def split: option.splits)
  from store_index.record_entry [OF agree got] got show "GetTeamByUsername (t_name t) es = Inr t"
    by (simp add: GetTeamByUsername_def)
  from assms(1) got show "t_id t = i" by (simp add: store_ok_def)
qed

text \<open>A store in which a given team, by identifier and name, is found, whatever else its fields hold.\<close>

definition registered :: "string \<Rightarrow> string \<Rightarrow> teamstore \<Rightarrow> bool" where
  "registered i n es \<longleftrightarrow> store_ok es \<and> (\<exists>t. GetTeamByID i es = Inr t \<and> t_name t = n)"

lemma registered_write:
  assumes "registered (t_id u) (t_name u) es"
  shows "registered (t_id u) (t_name u) (write_team u es) \<and>
     length (GetTeams (write_team u es)) = length (GetTeams es) \<and> GetTeamByID (t_id u) (write_team u es) = Inr u"
  using assms write_team_same [of es u] by (auto simp: registered_def)

lemma finish_signup_result:
  assumes "finish_signup ev hook t w am = (w', am')" and "hook_ok hook"
    and "registered (t_id t) (t_name t) (am_store am)"
  shows "w' = w \<and> registered (t_id t) (t_name t) (am_store am') \<and>
     length (GetTeams (am_store am')) = length (GetTeams (am_store am)) \<and> am_capacity am' = am_capacity am"
proof (cases "jwt_sign ev (t_id t) (t_name t)")
  case None
  with assms show ?thesis by (simp add: finish_signup_def)
next
  case (Some token)
  obtain e s where s: "SaveTokenForTeam token t (am_store am) = (e, s)" by (cases "SaveTokenForTeam token t (am_store am)")
  note same = same_maps [OF SaveToken_fields [OF s, THEN conjunct1] SaveToken_fields [OF s, THEN conjunct2]]
  have reg: "registered (t_id t) (t_name t) s" using assms(3) by (simp add: registered_def same)
  show ?thesis
  proof (cases e)
    case (Some x)
    with assms \<open>jwt_sign _ _ _ = _\<close> s reg show ?thesis by (auto simp: finish_signup_def same)
  next
    case None
    let ?u = "snd (hook t)"
    have "registered (t_id ?u) (t_name ?u) s" using reg by (simp add: hook_okD [OF assms(2)])
    from registered_write [OF this] None assms \<open>jwt_sign _ _ _ = _\<close> s show ?thesis
      by (auto simp: finish_signup_def same hook_okD [OF assms(2)])
  qed
qed

lemma new_team_fields:
  "t_id (new_team ev am p) = take 8 (uuid ev)" "t_name (new_team ev am p) = TrimSpace (TrimSpace (TeamName p))"
  "hashedPassword (new_team ev am p) = bcrypt_gen (crypt ev) (Password p)"
  by (simp_all add: new_team_def NewTeam_def)

lemma getSiteInfo_no_session: "SetSession tok \<notin> set (snd (getSiteInfo ev r))"
  by (auto simp: getSiteInfo_def split: option.splits sum.splits)

lemma handleSignupPOST_cases:
  assumes "handleSignupPOST ev hook am r = Ret (w, am')"
  obtains (rejected) "am' = am" "\<forall>tok. SetSession tok \<notin> set w"
  | (stopped) p e s where "readSignup r = Inr p" "int (length (GetTeams (am_store am))) \<noteq> am_capacity am"
      "SaveTeam (db_add_ok ev) (new_team ev am p) (am_store am) = (e, s)"
      "am' = am\<lparr>am_store := s\<rparr>" "\<forall>tok. SetSession tok \<notin> set w"
  | (accepted) p s token t where "readSignup r = Inr p"
      "am_secret am = [] \<or> TrimSpace (SecretEventKey p) = TrimSpace (am_secret am)"
      "int (length (GetTeams (am_store am))) \<noteq> am_capacity am"
      "am_recaptcha am = [] \<or> recaptcha_verify ev (PostFormValue r ''g-recaptcha-response'')"
      "SaveTeam (db_add_ok ev) (new_team ev am p) (am_store am) = (None, s)"
      "t = (new_team ev am p)\<lparr>has_dbc := True, lastAccess := now ev\<rparr>"
      "jwt_sign ev (t_id t) (t_name t) = Some token"
      "(w, am') = finish_signup ev hook t (snd (getSiteInfo ev r) @ [SetSession token, Redirect ''/''])
         (save_team t (am\<lparr>am_store := s\<rparr>))"
proof (cases "readSignup r")
  case (Inl e)
  with assms rejected show ?thesis by (auto simp: handleSignupPOST_def)
next
  case (Inr p)
  obtain e s where save: "SaveTeam (db_add_ok ev) (new_team ev am p) (am_store am) = (e, s)"
    by (cases "SaveTeam (db_add_ok ev) (new_team ev am p) (am_store am)")
  let ?secret = "am_secret am = [] \<or> TrimSpace (SecretEventKey p) = TrimSpace (am_secret am)"
  let ?room = "int (length (GetTeams (am_store am))) \<noteq> am_capacity am"
  let ?human = "am_recaptcha am = [] \<or> recaptcha_verify ev (PostFormValue r ''g-recaptcha-response'')"
  note def = handleSignupPOST_def [of ev hook am r, unfolded Inr Let_def sum.case save prod.case]
  note nosess = getSiteInfo_no_session [of _ ev r]
  show ?thesis
  proof (cases "?secret \<and> ?room \<and> ?human")
    case False
    with assms nosess rejected show ?thesis by (auto simp: def split: if_splits)
  next
    case True
    show ?thesis
    proof (cases e)
      case (Some x)
      with True assms nosess stopped [OF Inr _ save] show ?thesis by (auto simp: def split: if_splits)
    next
      case None
      let ?t = "(new_team ev am p)\<lparr>has_dbc := True\<rparr>"
      from None True assms obtain x where x: "loginTeam ev ?t (am\<lparr>am_store := s\<rparr>) = Ret x"
        and w: "(case x of Inl e \<Rightarrow> Ret (snd (getSiteInfo ev r) @ [Page e], am\<lparr>am_store := s\<rparr>)
            | Inr (w, t, am) \<Rightarrow> Ret (finish_signup ev hook t (snd (getSiteInfo ev r) @ w) am)) = Ret (w, am')"
        by (auto simp: def go_bind_Ret split: if_splits)
      from x show ?thesis
      proof (cases rule: loginTeam_cases)
        case 1
        with w nosess stopped [OF Inr _ save] True show ?thesis by auto
      next
        case (2 token)
        with w accepted [OF Inr _ _ _ save [unfolded None], of "?t\<lparr>lastAccess := now ev\<rparr>" token] True
        show ?thesis by simp
      qed
    qed
  qed
qed

lemma SaveTeam_size: "SaveTeam b t es = (e, s) \<Longrightarrow> length (GetTeams s) \<le> Suc (length (GetTeams es))"
  by (auto simp: SaveTeam_def Let_def GetTeams_def length_map_put split: if_splits)

lemma SaveTeam_registered:
  assumes "store_ok es" and "map_get (teams es) (t_id t) = None" and "SaveTeam b t es = (None, s)"
  shows "registered (t_id t) (t_name t) s" and "length (GetTeams s) = Suc (length (GetTeams es))"
    and "store_abs es (t_name t) = None"
proof -
  have ok: "store_ok s" by (rule SaveTeam_ok [OF assms])
  have free: "map_get (names es) (t_name t) = None" and b: "b"
    and s: "s = es\<lparr>names := map_put (t_name t) (t_id t) (names es),
      teams := map_put (t_id t) (t\<lparr>has_dbc := True\<rparr>) (map_put (t_id t) t (teams es))\<rparr>"
    using assms(3) by (auto simp: SaveTeam_def Let_def split: if_splits)
  from ok show "registered (t_id t) (t_name t) s" by (simp add: registered_def GetTeamByID_def s)
  show "length (GetTeams s) = Suc (length (GetTeams es))"
    using assms(2) by (simp add: s GetTeams_def length_map_put)
  show "store_abs es (t_name t) = None" using free assms(1) by (simp add: store_name_taken)
qed

lemma alnum_not_space: "is_alnum c \<Longrightarrow> \<not> is_space c"
  by (auto simp: is_alnum_def is_space_def Let_def)

lemma TrimSpace_alnum: "list_all is_alnum s \<Longrightarrow> TrimSpace s = s"
proof -
  assume a: "list_all is_alnum s"
  have drop: "dropWhile is_space xs = xs" if "list_all is_alnum xs" for xs
    using that by (cases xs) (auto dest: alnum_not_space)
  from a have "list_all is_alnum (rev s)" by (simp add: list_all_iff)
  with a show ?thesis by (simp add: TrimSpace_def drop)
qed

subsection \<open>Properties\<close>

text \<open>
  C5. A signup that opens a session had an alphanumeric name of 1 to 19 characters, a password
  of 6 to 20 characters typed twice, the event's secret where it has one, and a name no team
  had; afterwards exactly one team more is registered, under that name, and the session's
  token is the one signed for it.
\<close>
theorem signup_accepts:
  assumes "store_ok (am_store am)" and "hook_ok hook" and "map_get (teams (am_store am)) (take 8 (uuid ev)) = None"
    and "handleSignupPOST ev hook am r = Ret (w, am')" and "SetSession tok \<in> set w"
  shows "let name = TrimSpace (PostFormValue r ''team-name''); pw = PostFormValue r ''password'' in
     0 < length name \<and> length name < 20 \<and> list_all is_alnum name \<and>
     6 \<le> length pw \<and> length pw \<le> 20 \<and> pw = PostFormValue r ''password-repeat'' \<and>
     (am_secret am = [] \<or> TrimSpace (PostFormValue r ''secret-event-key'') = TrimSpace (am_secret am)) \<and>
     store_abs (am_store am) name = None \<and>
     registered (take 8 (uuid ev)) name (am_store am') \<and>
     length (GetTeams (am_store am')) = Suc (length (GetTeams (am_store am))) \<and>
     jwt_sign ev (take 8 (uuid ev)) name = Some tok"
  using assms(4)
proof (cases rule: handleSignupPOST_cases)
  case rejected
  with assms(5) show ?thesis by blast
next
  case (stopped p e s)
  with assms(5) show ?thesis by blast
next
  case (accepted p s token t)
  note p = readSignup_ok [OF accepted(1)]
  let ?name = "TrimSpace (PostFormValue r ''team-name'')"
  have name: "t_name (new_team ev am p) = ?name"
    using p(7) by (simp add: new_team_fields p(1) [symmetric] TrimSpace_alnum)
  have fresh: "map_get (teams (am_store am)) (t_id (new_team ev am p)) = None"
    using assms(3) by (simp add: new_team_fields)
  note save = SaveTeam_registered [OF assms(1) fresh accepted(5), unfolded name]
  have t: "t_id t = take 8 (uuid ev)" "t_name t = ?name"
    using name by (simp_all add: accepted(6) new_team_fields)
  have "registered (t_id t) (t_name t) s" using save(1) by (simp add: t new_team_fields)
  note reg = registered_write [OF this]
  from accepted(8) [symmetric] have fin: "w = snd (getSiteInfo ev r) @ [SetSession token, Redirect ''/''] \<and>
      registered (t_id t) (t_name t) (am_store am') \<and>
      length (GetTeams (am_store am')) = length (GetTeams s)"
    using finish_signup_result [OF accepted(8) [symmetric] assms(2)] reg by simp
  then have "tok = token" using assms(5) getSiteInfo_no_session [of tok ev r] by auto
  with fin accepted(2,7) save p show ?thesis by (simp add: t Let_def)
qed

definition sample_env :: env where
  "sample_env = \<lparr>jwt_sign = \<lambda>i n. (if CHR ''|'' \<in> set i \<union> set n then None else Some (i @ ''|'' @ n)),
     jwt_parse = \<lambda>tok. (case split_on CHR ''|'' tok of [i, n] \<Rightarrow>
        Inr (True, JObj [(''I'', JStr i), (''TN'', JStr n)]) | _ \<Rightarrow> Inl ''malformed''),
     recaptcha_verify = \<lambda>_. True,
     crypt = \<lparr>bcrypt_gen = \<lambda>p. CHR ''$'' # p, bcrypt_ok = \<lambda>h p. h = CHR ''$'' # p, time_parse = id\<rparr>,
     now = ''t9'', uuid = ''0a1b2c3d-4e5f'',
     decode_error = \<lambda>_. ''invalid'', db_add_ok = True, db_access_ok = True, db_flag_ok = True\<rparr>"

definition sample_site :: amigo where
  "sample_site = \<lparr>am_store = NewTeamStore, am_capacity = 2, am_secret = ''k'', am_only_vpn = 0,
     am_recaptcha = [], am_disabled = [], am_all = [], am_max_read = 1048576\<rparr>"

definition sample_signup :: request where
  "sample_signup = \<lparr>rq_method = ''POST'', rq_content_type = [], rq_session = None,
     rq_form = [(''team-name'', '' red ''), (''password'', ''secret1''), (''password-repeat'', ''secret1''),
                (''secret-event-key'', ''k'')], rq_body = []\<rparr>"

definition sample_login :: request where
  "sample_login = sample_signup\<lparr>rq_form := [(''username'', ''red''), (''password'', ''secret1'')]\<rparr>"

definition no_hook :: hook where
  "no_hook t = (None, t)"

lemma no_hook_ok: "hook_ok no_hook"
  by (simp add: hook_ok_def no_hook_def)

lemma sample_signup_read:
  "readSignup sample_signup = Inr \<lparr>TeamName = ''red'', Password = ''secret1'', SecretEventKey = ''k''\<rparr>"
  by (simp add: readSignup_def sample_signup_def PostFormValue_def TrimSpace_def is_space_def
      checkTeamName_def checkVarLength_def teamNameMaxLength_def passMinLength_def passMaxLength_def
      is_alnum_def)

lemma sample_signup_result:
  "\<exists>w am'. handleSignupPOST sample_env no_hook sample_site sample_signup = Ret (w, am') \<and>
     SetSession ''0a1b2c3d|red'' \<in> set w"
  by (simp add: handleSignupPOST_def sample_signup_read)
    (simp add: sample_signup_def sample_site_def sample_env_def NewTeamStore_def GetTeams_def SaveTeam_def
      new_team_def NewTeam_def loginTeam_def UpdateTeamAccessed_def finish_signup_def
      SaveTokenForTeam_def getSiteInfo_def TrimSpace_def is_space_def Let_def save_team_def write_team_def)

theorem signup_accepts_witness:
  "\<exists>w am'. handleSignupPOST sample_env no_hook sample_site sample_signup = Ret (w, am') \<and>
     registered ''0a1b2c3d'' ''red'' (am_store am') \<and> length (GetTeams (am_store am')) = 1"
proof -
  from sample_signup_result obtain w am' where
    r: "handleSignupPOST sample_env no_hook sample_site sample_signup = Ret (w, am')"
    and tok: "SetSession ''0a1b2c3d|red'' \<in> set w" by blast
  have ok: "store_ok (am_store sample_site)" by (simp add: sample_site_def store_ok_new)
  have fresh: "map_get (teams (am_store sample_site)) (take 8 (uuid sample_env)) = None"
    by (simp add: sample_site_def NewTeamStore_def)
  have n: "TrimSpace (PostFormValue sample_signup ''team-name'') = ''red''"
    "take 8 (uuid sample_env) = ''0a1b2c3d''"
    by (simp_all add: PostFormValue_def sample_signup_def TrimSpace_def is_space_def sample_env_def)
  show ?thesis
    using r signup_accepts [OF ok no_hook_ok fresh r tok]
    by (simp add: Let_def n) (simp add: sample_site_def NewTeamStore_def GetTeams_def)
qed

text \<open>
  C6. A session opened by a login belongs to the team of that name whose password was
  given, and a later request that carries its token is served as that team, provided the token
  library reads back the claims it signed.
\<close>
theorem login_session:
  assumes "store_ok (am_store am)" and "hook_ok hook"
    and "\<And>i n tok. jwt_sign ev i n = Some tok \<Longrightarrow>
           jwt_parse ev tok = Inr (True, JObj [(''I'', JStr i), (''TN'', JStr n)])"
    and "handleLoginPOST ev hook am r = Ret (w, am')" and "SetSession tok \<in> set w"
  shows "\<exists>t t'. GetTeamByUsername (TrimSpace (PostFormValue r ''username'')) (am_store am) = Inr t \<and>
     IsPasswordEqual (crypt ev) t (PostFormValue r ''password'') \<and>
     getTeamFromRequest ev am' (r'\<lparr>rq_session := Some tok\<rparr>) = (Inr t', []) \<and>
     t_id t' = t_id t \<and> t_name t' = TrimSpace (PostFormValue r ''username'') \<and> store_ok (am_store am')"
  using assms(4)
proof (cases rule: handleLoginPOST_cases)
  case (1 e)
  with assms(5) show ?thesis by simp
next
  case (2 name password t token)
  then have name: "name = TrimSpace (PostFormValue r ''username'')" and pw: "password = PostFormValue r ''password''"
    by (auto simp: readLogin_def Let_def split: if_splits)
  from 2 assms(5) have tok: "tok = token" by simp
  note byname = by_username [OF assms(1) 2(2)]
  let ?t1 = "t\<lparr>lastAccess := now ev\<rparr>" and ?u = "snd (hook (t\<lparr>lastAccess := now ev\<rparr>))"
  have "registered (t_id ?t1) (t_name ?t1) (am_store am)"
    using byname assms(1) by (simp add: registered_def)
  from registered_write [OF this] have "registered (t_id ?u) (t_name ?u) (write_team ?t1 (am_store am))"
    by (simp add: hook_okD [OF assms(2)])
  from registered_write [OF this] have "registered (t_id ?u) (t_name ?u) (am_store am')"
    and u: "GetTeamByID (t_id t) (am_store am') = Inr ?u"
    by (simp_all add: 2(6) hook_okD [OF assms(2)])
  then have ok: "store_ok (am_store am')" by (simp add: registered_def)
  have "getTeamInfoFromToken ev token = Inr (t_id t, t_name t)"
    using assms(3) [OF 2(4)] by (simp add: getTeamInfoFromToken_def)
  then have "getTeamFromRequest ev am' (r'\<lparr>rq_session := Some tok\<rparr>) = (Inr ?u, [])"
    using u by (simp add: getTeamFromRequest_def tok)
  with 2(2,3) ok byname show ?thesis
    by (intro exI [of _ t] exI [of _ ?u]) (simp add: name pw hook_okD [OF assms(2)])
qed

definition member :: team where
  "member = sample_team_state\<lparr>hashedPassword := ''$secret1''\<rparr>"

definition sample_store :: teamstore where
  "sample_store = snd (SaveTeam True member NewTeamStore)"

lemma sample_store_eq: "sample_store = \<lparr>teams = [(''a1'', member)], tokens = [], names = [(''red'', ''a1'')]\<rparr>"
  by (simp add: sample_store_def SaveTeam_def NewTeamStore_def member_def sample_team_state_def map_put_def)

lemma sample_store_ok: "store_ok sample_store"
proof -
  have "map_get (teams NewTeamStore) (t_id member) = None" by (simp add: NewTeamStore_def)
  from SaveTeam_ok [OF store_ok_new this, of True "fst (SaveTeam True member NewTeamStore)" sample_store]
  show ?thesis by (simp add: sample_store_def)
qed

lemma sample_env_tokens:
  "jwt_sign sample_env i n = Some tok \<Longrightarrow>
   jwt_parse sample_env tok = Inr (True, JObj [(''I'', JStr i), (''TN'', JStr n)])"
  by (auto simp: sample_env_def split_on_append split_on_no_sep split: if_splits)

theorem login_session_witness:
  "\<exists>w am' t'. handleLoginPOST sample_env no_hook (sample_site\<lparr>am_store := sample_store\<rparr>) sample_login = Ret (w, am') \<and>
     getTeamFromRequest sample_env am' (sample_login\<lparr>rq_session := Some ''a1|red''\<rparr>) = (Inr t', []) \<and>
     t_name t' = ''red''"
proof -
  let ?am = "sample_site\<lparr>am_store := sample_store\<rparr>"
  have user: "TrimSpace (PostFormValue sample_login ''username'') = ''red''"
    by (simp add: sample_login_def sample_signup_def PostFormValue_def TrimSpace_def is_space_def)
  have "\<exists>w am'. handleLoginPOST sample_env no_hook ?am sample_login = Ret (w, am') \<and> SetSession ''a1|red'' \<in> set w"
    by (simp add: handleLoginPOST_def readLogin_def user)
      (simp add: sample_login_def sample_signup_def PostFormValue_def sample_store_eq map_get_Cons
        GetTeamByUsername_def IsPasswordEqual_def member_def sample_team_state_def loginTeam_def
        sample_env_def UpdateTeamAccessed_def)
  then obtain w am' where r: "handleLoginPOST sample_env no_hook ?am sample_login = Ret (w, am')"
    and tok: "SetSession ''a1|red'' \<in> set w" by blast
  have ok: "store_ok (am_store ?am)" by (simp add: sample_store_ok)
  from login_session [OF ok no_hook_ok sample_env_tokens r tok, of sample_login] r
  show ?thesis by (auto simp: user)
qed

end
