(* ===== verification/Amigo_Actions.thy ===== *)
theory Amigo_Actions
  imports Amigo_Session Page_Messages
begin

text \<open>
  What a logged-in team can do on the site (svcs/amigo/amigo.go): submit a flag, reset, start
  and stop a challenge, reset its machine, ask for its VPN state and files and its lab's subnet,
  and open its pages. Each handler is the whole body, with its middlewares in the \<^verbatim>\<open>_endpoint\<close>
  form; reading a JSON body takes the first value of the body within the size limit. The
  invariant of the site over all of them is at the end.
\<close>

subsection \<open>Bodies and tags\<close>

definition safeReadJson :: "env \<Rightarrow> amigo \<Rightarrow> request \<Rightarrow> (json \<Rightarrow> 'a option) \<Rightarrow> string + 'a" where
  "safeReadJson ev am r decode =
     (let err = (if am_max_read am < length (rq_body r) then ''request body is too large''
                 else decode_error ev (rq_body r))
      in case parse_value (2 * length (rq_body r) + 2) (take (am_max_read am) (rq_body r)) of
           None \<Rightarrow> Inl err
         | Some (j, _) \<Rightarrow> (case decode j of None \<Rightarrow> Inl (decode_error ev (rq_body r)) | Some x \<Rightarrow> Inr x))"

definition decode_tag :: "json \<Rightarrow> string option" where
  "decode_tag j = js_field ''tag'' j"

definition decode_flag :: "json \<Rightarrow> (string \<times> string) option" where
  "decode_flag j =
     (case (js_field ''tag'' j, js_field ''flag'' j) of (Some t, Some f) \<Rightarrow> Some (t, f) | _ \<Rightarrow> None)"

definition decode_vpn :: "json \<Rightarrow> string option" where
  "decode_vpn j =
     (case (js_field ''vpnConnID'' j, js_field ''status'' j) of (Some i, Some s) \<Rightarrow> Some i | _ \<Rightarrow> None)"

text \<open>A slice with a negative bound panics.\<close>

definition getParentChallengeTag :: "string \<Rightarrow> string go" where
  "getParentChallengeTag child =
     (if list_ex is_digit child
      then (if length child < 2 then Panic else Ret (take (length child - 2) child))
      else Ret child)"

subsection \<open>Flags\<close>

type_synonym state_hook = "team \<Rightarrow> string \<Rightarrow> bool \<Rightarrow> string option \<times> team"

text \<open>The goroutine that stops an exercise once all its children are solved.\<close>

definition stop_solved :: "state_hook \<Rightarrow> string \<Rightarrow> team \<Rightarrow> team" where
  "stop_solved stopExercise parentTag t =
     (let childrenChals = GetChildChallenges t parentTag;
          solvedChildChals = filter (\<lambda>ch. IsTeamSolvedChallenge t ch \<noteq> None) childrenChals
      in if length solvedChildChals = length childrenChals
         then AddDisabledChal parentTag (snd (stopExercise t parentTag False))
         else t)"

text \<open>The goroutine is run to its end after the reply.\<close>

definition handleFlagVerify :: "env \<Rightarrow> state_hook \<Rightarrow> handler" where
  "handleFlagVerify ev stopExercise am r =
     (case getTeamFromRequest ev am r of
        (Inl e, w) \<Rightarrow> Ret (w @ [replyJsonRequestErr e], am)
      | (Inr t, w) \<Rightarrow>
          (case safeReadJson ev am r decode_flag of
             Inl e \<Rightarrow> Ret (w @ [replyJsonRequestErr e], am)
           | Inr (tag, f) \<Rightarrow>
               go_bind (getParentChallengeTag tag) (\<lambda>parentTag.
               go_bind (VerifyFlag tag (TrimSpace f) (now ev) (db_flag_ok ev) t) (\<lambda>(res, t).
                 let am = save_team t am in
                 case res of
                   Some e \<Rightarrow> Ret (w @ [ReplyJson 200 (errReply (error_text e))], am)
                 | None \<Rightarrow> Ret (w @ [replyOk],
                     if am_recaptcha am \<noteq> [] then save_team (stop_solved stopExercise parentTag t) am
                     else am)))))"

subsection \<open>Resetting, starting and stopping\<close>

type_synonym tag_hook = "team \<Rightarrow> string \<Rightarrow> string option \<times> team"

definition lab_missing :: "team \<Rightarrow> string \<Rightarrow> string" where
  "lab_missing t event_tag =
     ''Lab is NOT assigned to team [ '' @ t_name t @ '' ] on event [ '' @ event_tag @ '' ]''"

definition handleResetChallenge :: "env \<Rightarrow> string \<Rightarrow> tag_hook \<Rightarrow> handler" where
  "handleResetChallenge ev event_tag resetHook am r =
     (case getTeamFromRequest ev am r of
        (Inl e, w) \<Rightarrow> Ret (w @ [replyJsonRequestErr e], am)
      | (Inr t, w) \<Rightarrow>
          (case safeReadJson ev am r decode_tag of
             Inl e \<Rightarrow> Ret (w @ [replyJsonRequestErr e], am)
           | Inr tag \<Rightarrow>
               go_bind (getParentChallengeTag tag) (\<lambda>chalTag.
                 if \<not> isLabAssigned t
                 then Ret (w @ [replyJsonRequestErr (lab_missing t event_tag)], am)
                 else (case resetHook t chalTag of
                         (Some e, t) \<Rightarrow> Ret (w @ [replyJsonRequestErr e], save_team t am)
                       | (None, t) \<Rightarrow> Ret (w @ [replyOk], save_team t am)))))"

definition handleStartStopChallenge :: "env \<Rightarrow> string \<Rightarrow> state_hook \<Rightarrow> handler" where
  "handleStartStopChallenge ev event_tag runHook am r =
     (case getTeamFromRequest ev am r of
        (Inl e, w) \<Rightarrow> Ret (w @ [replyJsonRequestErr e], am)
      | (Inr t, w) \<Rightarrow>
          (case safeReadJson ev am r decode_tag of
             Inl e \<Rightarrow> Ret (w @ [replyJsonRequestErr e], am)
           | Inr tag \<Rightarrow>
               go_bind (getParentChallengeTag tag) (\<lambda>chalTag.
                 if \<not> isLabAssigned t
                 then Ret (w @ [replyJsonRequestErr (lab_missing t event_tag)], am)
                 else
                   (case ManageDisabledChals chalTag t of (stopped, t) \<Rightarrow>
                      case runHook t chalTag stopped of
                        (Some e, t) \<Rightarrow>
                          Ret (w @ [replyJsonRequestErr e], save_team (AddDisabledChal chalTag t) am)
                      | (None, t) \<Rightarrow> Ret (w @ [replyOk], save_team t am)))))"

definition handleResetFrontend :: "env \<Rightarrow> hook \<Rightarrow> handler" where
  "handleResetFrontend ev resetFrontend am r =
     (case getTeamFromRequest ev am r of
        (Inl e, w) \<Rightarrow> Ret (w @ [replyJsonRequestErr e], am)
      | (Inr t, w) \<Rightarrow>
          (case resetFrontend t of
             (Some e, t) \<Rightarrow> Ret (w @ [replyJsonRequestErr e], save_team t am)
           | (None, t) \<Rightarrow> Ret (w @ [replyOk], save_team t am)))"

subsection \<open>VPN\<close>

definition conn_id :: "nat \<Rightarrow> string" where
  "conn_id i = ''conn'' @ ''_'' @ show_nat i"

definition json_vpn :: "nat \<Rightarrow> string \<Rightarrow> json" where
  "json_vpn i status = JObj [(''vpnConnID'', JStr (conn_id i)), (''status'', JStr status)]"

text \<open>The loop over \<^verbatim>\<open>vpnConfig\<close>: the statuses so far, or the error of the VPN service.\<close>

fun vpn_loop :: "(string \<Rightarrow> string + bool) \<Rightarrow> (int, string) gomap \<Rightarrow> nat \<Rightarrow> nat \<Rightarrow> string + json list" where
  "vpn_loop peer keys i 0 = Inr []"
| "vpn_loop peer keys i (Suc n) =
     (case peer (case map_get keys (int i) of None \<Rightarrow> [] | Some k \<Rightarrow> k) of
        Inl e \<Rightarrow> Inl e
      | Inr used \<Rightarrow>
          (case vpn_loop peer keys (i + 1) n of
             Inl e \<Rightarrow> Inl e
           | Inr js \<Rightarrow> Inr (json_vpn i (if used then ''USED'' else ''N/U'') # js)))"

definition no_vpn :: string where
  "no_vpn = ''Error, no vpn information found on on team err <nil>''"

definition vpn_replies :: "(string \<Rightarrow> string + bool) \<Rightarrow> team \<Rightarrow> reply list" where
  "vpn_replies peer t =
     (if length (vpnConf t) = 0 then [replyJsonRequestErr no_vpn] else []) @
     (case vpn_loop peer (vpnKeys t) 0 (length (vpnConf t)) of
        Inl e \<Rightarrow> [replyJsonRequestErr e]
      | Inr js \<Rightarrow> [ReplyJson 200 (json_slice js)])"

definition handleVPNStatus :: "env \<Rightarrow> (string \<Rightarrow> string + bool) \<Rightarrow> hook \<Rightarrow> handler" where
  "handleVPNStatus ev peer hook am r =
     (case getTeamFromRequest ev am r of
        (Inl e, w) \<Rightarrow> Ret (w @ [replyJsonRequestErr e], am)
      | (Inr t, w) \<Rightarrow>
          if isLabAssigned t then Ret (w @ vpn_replies peer t, am)
          else (case hook t of
                  (Some e, t) \<Rightarrow> Ret (w @ [Status 503], save_team t am)
                | (None, t) \<Rightarrow> Ret (w @ vpn_replies peer t, save_team t am)))"

text \<open>\<^verbatim>\<open>strconv.Atoi\<close>: the value (clamped when out of range) and whether it fails.\<close>

definition Atoi :: "string \<Rightarrow> int \<times> bool" where
  "Atoi s =
     (let neg = (s \<noteq> [] \<and> hd s = CHR ''-'');
          ds = (if s \<noteq> [] \<and> hd s \<in> {CHR ''-'', CHR ''+''} then tl s else s);
          n = int (read_digits ds)
      in if ds = [] \<or> \<not> list_all is_digit ds then (0, True)
         else if neg then (if n > 2 ^ 63 then (- (2 ^ 63), True) else (- n, False))
         else (if n \<ge> 2 ^ 63 then (2 ^ 63 - 1, True) else (n, False)))"

definition writeConfig :: "string list \<Rightarrow> nat \<Rightarrow> reply go" where
  "writeConfig vpnConfig i =
     (if i < length vpnConfig then Ret (File (conn_id i @ ''.conf'') (vpnConfig ! i)) else Panic)"

definition handleVPNFiles :: "env \<Rightarrow> handler" where
  "handleVPNFiles ev am r =
     (case getTeamFromRequest ev am r of
        (Inl e, w) \<Rightarrow> Ret (w @ [replyJsonRequestErr e], am)
      | (Inr t, w) \<Rightarrow>
          (let w = w @ (if length (vpnConf t) = 0 then [replyJsonRequestErr no_vpn] else []) in
           case safeReadJson ev am r decode_vpn of
             Inl e \<Rightarrow> Ret (w @ [replyJsonRequestErr e], am)
           | Inr vpnConnID \<Rightarrow>
               (case split_on CHR ''_'' vpnConnID of
                  _ # part # _ \<Rightarrow>
                    (case Atoi part of (confID, bad) \<Rightarrow>
                       let w = w @ (if bad then [replyJsonRequestErr (''strconv.Atoi'')] else []) in
                       if confID \<in> {0, 1, 2, 3}
                       then go_bind (writeConfig (vpnConf t) (nat confID)) (\<lambda>f. Ret (w @ [f], am))
                       else Ret (w, am))
                | _ \<Rightarrow> Panic)))"

subsection \<open>Lab and host information\<close>

definition json_lab :: "int \<Rightarrow> string \<Rightarrow> json" where
  "json_lab is_vpn subnet = JObj [(''isVPN'', JNum is_vpn), (''labSubnet'', JStr subnet)]"

definition handleLabInfo :: "env \<Rightarrow> handler" where
  "handleLabInfo ev am r =
     (if am_only_vpn am = 0 then Ret ([ReplyJson 200 (json_lab 0 ''VPN is not enabled !'')], am)
      else (case getTeamFromRequest ev am r of
              (Inl e, w) \<Rightarrow> Ret (w @ [replyJsonRequestErr e], am)
            | (Inr t, w) \<Rightarrow> Ret (w @ [ReplyJson 200 (json_lab (am_only_vpn am) (labSubnet t))], am)))"

definition tab :: char where "tab = CHR 0x09"

text \<open>The subnet \<^verbatim>\<open>handleInfo\<close> shows, from the first host's address.\<close>

definition infoSubnet :: "string list \<Rightarrow> string go" where
  "infoSubnet hosts =
     (case hosts of
        [] \<Rightarrow> Ret ''LAB IS NOT ASSIGNED YET''
      | h # _ \<Rightarrow>
          (case split_on CHR ''.'' (hd (split_on tab h)) of
             a # b # c # _ \<Rightarrow> Ret (a @ ''.'' @ b @ ''.'' @ c @ ''.0/24'')
           | _ \<Rightarrow> Panic))"

fun hostRecords :: "string list \<Rightarrow> (string \<times> string) list go" where
  "hostRecords [] = Ret []"
| "hostRecords (h # hs) =
     (case split_on tab h of
        ip # domain # _ \<Rightarrow> go_bind (hostRecords hs) (\<lambda>rs. Ret ((ip, domain) # rs))
      | _ \<Rightarrow> Panic)"

definition handleInfo :: "env \<Rightarrow> handler" where
  "handleInfo ev am r =
     (case getTeamFromRequest ev am r of
        (Inl e, w) \<Rightarrow> Ret (w @ [Redirect ''/login''], am)
      | (Inr t, w) \<Rightarrow> go_bind (infoSubnet (hostsInfo t))
          (\<lambda>subnet. Ret (w @ snd (getSiteInfo ev r) @ [Page subnet], am)))"

definition handleHostsInformation :: "env \<Rightarrow> handler" where
  "handleHostsInformation ev am r =
     (case getTeamFromRequest ev am r of
        (Inl e, w) \<Rightarrow> Ret (w @ [Redirect ''/login''], am)
      | (Inr t, w) \<Rightarrow> go_bind (hostRecords (hostsInfo t))
          (\<lambda>hosts. Ret (w @ snd (getSiteInfo ev r) @ [Page ''hosts''], am)))"

text \<open>\<^verbatim>\<open>handleChallenges\<close> and \<^verbatim>\<open>handleScoreBoard\<close> go on after the redirect.\<close>

definition login_redirect :: "env \<Rightarrow> amigo \<Rightarrow> request \<Rightarrow> reply list" where
  "login_redirect ev am r =
     (case getTeamFromRequest ev am r of (Inl e, w) \<Rightarrow> w @ [Redirect ''/login''] | (Inr t, w) \<Rightarrow> w)"

definition handleChallenges :: "env \<Rightarrow> handler" where
  "handleChallenges ev am r =
     Ret (login_redirect ev am r @ snd (getSiteInfo ev r) @ [Page ''challenges''], am)"

definition handleScoreBoard :: "env \<Rightarrow> handler" where
  "handleScoreBoard ev am r =
     Ret (snd (getSiteInfo ev r) @ (if am_secret am \<noteq> [] then login_redirect ev am r else [])
       @ [Page ''scoreboard''], am)"

definition handleGuacConnection :: "env \<Rightarrow> hook \<Rightarrow> handler" where
  "handleGuacConnection ev hook am r =
     (case getTeamFromRequest ev am r of
        (Inl e, w) \<Rightarrow> Ret (w @ [Redirect ''/login''], am)
      | (Inr t, w) \<Rightarrow>
          if isLabAssigned t then Ret (w @ [Next], am)
          else (case hook t of
                  (Some e, t) \<Rightarrow> Ret (w @ [Status 503, Waiting], save_team t am)
                | (None, t) \<Rightarrow> Ret (w @ [Next], save_team t am)))"

subsection \<open>Lemmas\<close>

lemma no_digits: "\<not> list_ex is_digit s \<longleftrightarrow> (\<forall>c \<in> set s. \<not> is_digit c)"
  by (auto simp: list_ex_iff)

lemma show_nat_length: "length (show_nat n) = 1 \<longleftrightarrow> n < 10"
  by (simp add: show_base.simps [of 10 n])

lemma show_nat_has_digit: "list_ex is_digit (show_nat n)"
proof -
  obtain c cs where "show_nat n = c # cs" by (metis neq_Nil_conv show_base_nonempty)
  then show ?thesis using show_nat_digits [of c n] by simp
qed

text \<open>What a request of a session gives: the team it names, as the store holds it.\<close>

lemma getTeamFromRequest_stored:
  assumes "getTeamFromRequest ev am r = (Inr t, w)" and "store_ok (am_store am)"
  shows "registered (t_id t) (t_name t) (am_store am)" and "GetTeamByID (t_id t) (am_store am) = Inr t"
proof -
  from assms(1) obtain i where i: "GetTeamByID i (am_store am) = Inr t"
    by (auto simp: getTeamFromRequest_def split: option.splits sum.splits prod.splits)
  then have "t_id t = i" by (rule by_id_name(2) [OF assms(2)])
  with i show "GetTeamByID (t_id t) (am_store am) = Inr t" by simp
  then show "registered (t_id t) (t_name t) (am_store am)" using assms(2) by (simp add: registered_def)
qed

definition state_hook_ok :: "state_hook \<Rightarrow> bool" where
  "state_hook_ok hook \<longleftrightarrow>
     (\<forall>t tag b. t_id (snd (hook t tag b)) = t_id t \<and> t_name (snd (hook t tag b)) = t_name t)"

definition tag_hook_ok :: "tag_hook \<Rightarrow> bool" where
  "tag_hook_ok hook \<longleftrightarrow> (\<forall>t tag. t_id (snd (hook t tag)) = t_id t \<and> t_name (snd (hook t tag)) = t_name t)"

text \<open>Which parts of the site an action may change: the record of a team that is registered.\<close>

definition same_site :: "amigo \<Rightarrow> amigo \<Rightarrow> bool" where
  "same_site am am' \<longleftrightarrow> am_capacity am' = am_capacity am \<and>
     (store_ok (am_store am) \<longrightarrow> store_ok (am_store am') \<and>
        length (GetTeams (am_store am')) = length (GetTeams (am_store am)) \<and>
        (\<forall>i n. registered i n (am_store am) \<longrightarrow> registered i n (am_store am')))"

lemma same_site_refl [simp]: "same_site am am"
  by (simp add: same_site_def)

lemma same_site_trans: "same_site a b \<Longrightarrow> same_site b c \<Longrightarrow> same_site a c"
  by (auto simp: same_site_def)

lemma registered_other:
  assumes "registered (t_id u) (t_name u) es" and "registered i n es"
  shows "registered i n (write_team u es)"
proof (cases "i = t_id u")
  case True
  with assms have "n = t_name u" by (auto simp: registered_def)
  with True registered_write [OF assms(1)] show ?thesis by simp
next
  case False
  from registered_write [OF assms(1)] have "store_ok (write_team u es)" by (simp add: registered_def)
  with assms(2) False show ?thesis
    by (auto simp: registered_def GetTeamByID_def write_team_def split: option.splits)
qed

lemma same_site_save:
  assumes "registered (t_id u) (t_name u) (am_store am)"
  shows "same_site am (save_team u am)"
  using registered_write [OF assms] registered_other [OF assms]
  by (auto simp: same_site_def registered_def)

lemma VerifyFlag_fields:
  "VerifyFlag tag f tm ok t = Ret (e, t') \<Longrightarrow> t_id t' = t_id t \<and> t_name t' = t_name t"
  by (auto simp: VerifyFlag_def Let_def return_unlocked_def unlock_def lock_def go_bind_Ret
      split: option.splits if_splits)

lemma DisabledChal_fields:
  "t_id (AddDisabledChal p t) = t_id t" "t_name (AddDisabledChal p t) = t_name t"
  "t_id (snd (ManageDisabledChals p t)) = t_id t" "t_name (snd (ManageDisabledChals p t)) = t_name t"
  by (simp_all add: AddDisabledChal_def ManageDisabledChals_def split: option.splits)

lemma stop_solved_fields:
  "state_hook_ok hook \<Longrightarrow> t_id (stop_solved hook p t) = t_id t \<and> t_name (stop_solved hook p t) = t_name t"
  by (simp add: stop_solved_def Let_def DisabledChal_fields state_hook_ok_def)

lemma saved_same:
  assumes "getTeamFromRequest ev am r = (Inr t, w)" and "store_ok (am_store am)"
    and "t_id u = t_id t" and "t_name u = t_name t"
  shows "same_site am (save_team u am)"
  using getTeamFromRequest_stored [OF assms(1,2)] assms(3,4) by (intro same_site_save) simp

lemma saved_twice:
  assumes "getTeamFromRequest ev am r = (Inr t, w)" and "store_ok (am_store am)"
    and "t_id u = t_id t" and "t_name u = t_name t" and "t_id v = t_id t" and "t_name v = t_name t"
  shows "same_site am (save_team v (save_team u am))"
proof -
  have "registered (t_id v) (t_name v) (am_store (save_team u am))"
    using saved_same [OF assms(1-4)] getTeamFromRequest_stored [OF assms(1,2)] assms(2,5,6)
    by (simp add: same_site_def)
  from same_site_trans [OF saved_same [OF assms(1-4)] same_site_save [OF this]] show ?thesis .
qed

text \<open>Every handler of a team first asks for the session's team.\<close>

lemma team_handler:
  assumes "(case getTeamFromRequest ev am r of (Inl e, w) \<Rightarrow> Ret (f e w, am) | (Inr t, w) \<Rightarrow> body t w) = Ret (w', am')"
  obtains "am' = am" | t w where "getTeamFromRequest ev am r = (Inr t, w)" "body t w = Ret (w', am')"
proof (cases "getTeamFromRequest ev am r")
  case (Pair x w)
  with assms that show ?thesis by (cases x) auto
qed

lemma flag_same_site:
  assumes "handleFlagVerify ev hook am r = Ret (w', am')" and "store_ok (am_store am)" and "state_hook_ok hook"
  shows "same_site am am'"
proof (cases "getTeamFromRequest ev am r")
  case (Pair x w)
  show ?thesis
  proof (cases x)
    case (Inl e)
    with Pair assms(1) show ?thesis by (simp add: handleFlagVerify_def)
  next
    case (Inr t)
    note got = Pair [unfolded Inr]
    show ?thesis
    proof (cases "safeReadJson ev am r decode_flag")
      case (Inl e)
      with got assms(1) show ?thesis by (simp add: handleFlagVerify_def)
    next
      case (Inr b)
      obtain tag f where b: "b = (tag, f)" by (cases b)
      from assms(1) got Inr b obtain p res u where
        p: "getParentChallengeTag tag = Ret p"
        and v: "VerifyFlag tag (TrimSpace f) (now ev) (db_flag_ok ev) t = Ret (res, u)"
        and am': "am' = save_team u am \<or> am' = save_team (stop_solved hook p u) (save_team u am)"
        by (auto simp: handleFlagVerify_def go_bind_Ret Let_def split: option.splits if_splits)
      note u = VerifyFlag_fields [OF v]
      from am' saved_same [OF got assms(2), of u] u
        saved_twice [OF got assms(2), of u "stop_solved hook p u"] stop_solved_fields [OF assms(3), of p u]
      show ?thesis by auto
    qed
  qed
qed

lemma reset_same_site:
  assumes "handleResetChallenge ev tg hook am r = Ret (w', am')" and "store_ok (am_store am)" and "tag_hook_ok hook"
  shows "same_site am am'"
  using assms(1) unfolding handleResetChallenge_def
proof (cases rule: team_handler)
  case (2 t w)
  have "am' = am \<or> (\<exists>p. am' = save_team (snd (hook t p)) am)"
  proof (cases "safeReadJson ev am r decode_tag")
    case (Inr tag)
    with 2 obtain p where "getParentChallengeTag tag = Ret p" by (auto simp: go_bind_Ret)
    with 2 Inr have "am' = am \<or> am' = save_team (snd (hook t p)) am"
      by (cases "hook t p") (auto split: option.splits if_splits)
    then show ?thesis by blast
  qed (use 2 in simp)
  moreover have "same_site am (save_team (snd (hook t p)) am)" for p
    using assms(3) by (intro saved_same [OF 2(1) assms(2)]) (simp_all add: tag_hook_ok_def)
  ultimately show ?thesis by auto
qed simp

lemma run_same_site:
  assumes "handleStartStopChallenge ev tg hook am r = Ret (w', am')" and "store_ok (am_store am)" and "state_hook_ok hook"
  shows "same_site am am'"
proof (cases "getTeamFromRequest ev am r")
  case (Pair x w)
  show ?thesis
  proof (cases x)
    case (Inl e)
    with Pair assms(1) show ?thesis by (simp add: handleStartStopChallenge_def)
  next
    case (Inr t)
    note got = Pair [unfolded Inr]
    show ?thesis
    proof (cases "safeReadJson ev am r decode_tag")
      case (Inl e)
      with got assms(1) show ?thesis by (simp add: handleStartStopChallenge_def)
    next
      case (Inr tag)
      from assms(1) got Inr obtain p where p: "getParentChallengeTag tag = Ret p"
        by (auto simp: handleStartStopChallenge_def go_bind_Ret)
      let ?m = "ManageDisabledChals p t"
      let ?u = "snd (hook (snd ?m) p (fst ?m))"
      have u: "t_id ?u = t_id t" "t_name ?u = t_name t"
        using assms(3) by (simp_all add: state_hook_ok_def DisabledChal_fields)
      have "am' = am \<or> am' = save_team ?u am \<or> am' = save_team (AddDisabledChal p ?u) am"
        using assms(1) got Inr p
        by (cases "hook (snd ?m) p (fst ?m)")
          (auto simp: handleStartStopChallenge_def split: prod.splits option.splits if_splits)
      then show ?thesis
        using saved_same [OF got assms(2), of ?u] saved_same [OF got assms(2), of "AddDisabledChal p ?u"] u
        by (auto simp: DisabledChal_fields)
    qed
  qed
qed

lemma frontend_same_site:
  assumes "handleResetFrontend ev hook am r = Ret (w', am')" and "store_ok (am_store am)" and "hook_ok hook"
  shows "same_site am am'"
  using assms(1) unfolding handleResetFrontend_def
proof (cases rule: team_handler)
  case (2 t w)
  then have "am' = am \<or> am' = save_team (snd (hook t)) am"
    by (auto split: prod.splits option.splits if_splits)
  moreover have "same_site am (save_team (snd (hook t)) am)"
    by (rule saved_same [OF 2(1) assms(2)]) (simp_all add: hook_okD [OF assms(3)])
  ultimately show ?thesis by auto
qed simp

lemma vpn_same_site:
  assumes "handleVPNStatus ev peer hook am r = Ret (w', am')" and "store_ok (am_store am)" and "hook_ok hook"
  shows "same_site am am'"
  using assms(1) unfolding handleVPNStatus_def
proof (cases rule: team_handler)
  case (2 t w)
  then have "am' = am \<or> am' = save_team (snd (hook t)) am"
    by (auto split: prod.splits option.splits if_splits)
  moreover have "same_site am (save_team (snd (hook t)) am)"
    by (rule saved_same [OF 2(1) assms(2)]) (simp_all add: hook_okD [OF assms(3)])
  ultimately show ?thesis by auto
qed simp

lemma guac_same_site:
  assumes "handleGuacConnection ev hook am r = Ret (w', am')" and "store_ok (am_store am)" and "hook_ok hook"
  shows "same_site am am'"
  using assms(1) unfolding handleGuacConnection_def
proof (cases rule: team_handler)
  case (2 t w)
  then have "am' = am \<or> am' = save_team (snd (hook t)) am"
    by (auto split: prod.splits option.splits if_splits)
  moreover have "same_site am (save_team (snd (hook t)) am)"
    by (rule saved_same [OF 2(1) assms(2)]) (simp_all add: hook_okD [OF assms(3)])
  ultimately show ?thesis by auto
qed simp

lemma login_same_site:
  assumes "handleLoginPOST ev hook am r = Ret (w', am')" and "store_ok (am_store am)" and "hook_ok hook"
  shows "same_site am am'"
  using assms(1)
proof (cases rule: handleLoginPOST_cases)
  case (2 name password t token)
  let ?t1 = "t\<lparr>lastAccess := now ev\<rparr>"
  note byname = by_username [OF assms(2) 2(2)]
  have reg: "registered (t_id ?t1) (t_name ?t1) (am_store am)"
    using byname assms(2) by (simp add: registered_def)
  note s1 = same_site_save [OF reg]
  have "registered (t_id (snd (hook ?t1))) (t_name (snd (hook ?t1))) (am_store (save_team ?t1 am))"
    using s1 reg assms(2) by (simp add: same_site_def hook_okD [OF assms(3)])
  from same_site_trans [OF s1 same_site_save [OF this]] show ?thesis by (simp add: 2(6))
qed simp

lemma page_same_site:
  "handleVPNFiles ev am r = Ret (w, am') \<Longrightarrow> am' = am"
  "handleLabInfo ev am r = Ret (w, am') \<Longrightarrow> am' = am"
  "handleInfo ev am r = Ret (w, am') \<Longrightarrow> am' = am"
  "handleHostsInformation ev am r = Ret (w, am') \<Longrightarrow> am' = am"
  by (auto simp: handleVPNFiles_def handleLabInfo_def handleInfo_def handleHostsInformation_def Let_def go_bind_Ret
      split: prod.splits sum.splits list.splits if_splits)

subsection \<open>The site as a whole\<close>

lemma finish_same_site:
  assumes "finish_signup ev hook t w am = (w', am')" and "registered (t_id t) (t_name t) (am_store am)"
    and "hook_ok hook"
  shows "same_site am am'"
proof (cases "jwt_sign ev (t_id t) (t_name t)")
  case None
  with assms show ?thesis by (simp add: finish_signup_def)
next
  case (Some token)
  obtain e s where s: "SaveTokenForTeam token t (am_store am) = (e, s)" by (cases "SaveTokenForTeam token t (am_store am)")
  note maps = same_maps [OF SaveToken_fields [OF s, THEN conjunct1] SaveToken_fields [OF s, THEN conjunct2]]
  then have tok: "same_site am (am\<lparr>am_store := s\<rparr>)" by (simp add: same_site_def registered_def)
  have reg: "registered (t_id (snd (hook t))) (t_name (snd (hook t))) s"
    using assms(2) by (simp add: registered_def maps hook_okD [OF assms(3)])
  have "same_site am (save_team (snd (hook t)) (am\<lparr>am_store := s\<rparr>))"
    by (rule same_site_trans [OF tok same_site_save]) (simp add: reg)
  with tok assms(1) Some s show ?thesis by (auto simp: finish_signup_def split: option.splits)
qed

lemma SaveTeam_keeps:
  assumes "registered i n es" and "map_get (teams es) (t_id t) = None" and "SaveTeam b t es = (e, s)"
  shows "registered i n s"
proof -
  have "store_ok s" using SaveTeam_ok assms by (auto simp: registered_def)
  moreover have "i \<noteq> t_id t" using assms(1,2) by (auto simp: registered_def GetTeamByID_def)
  then have "GetTeamByID i s = GetTeamByID i es"
    using assms(3) by (auto simp: SaveTeam_def Let_def GetTeamByID_def split: if_splits)
  ultimately show ?thesis using assms(1) by (simp add: registered_def)
qed

text \<open>What a signup may do to the site: add at most one team, and only below the capacity.\<close>

lemma signup_effect:
  assumes "handleSignupPOST ev hook am r = Ret (w, am')" and "store_ok (am_store am)" and "hook_ok hook"
    and "map_get (teams (am_store am)) (take 8 (uuid ev)) = None"
  shows "store_ok (am_store am') \<and> am_capacity am' = am_capacity am \<and>
    (\<forall>i n. registered i n (am_store am) \<longrightarrow> registered i n (am_store am')) \<and>
    (am' = am \<or> int (length (GetTeams (am_store am))) \<noteq> am_capacity am \<and>
       length (GetTeams (am_store am')) \<le> Suc (length (GetTeams (am_store am))))"
  using assms(1)
proof (cases rule: handleSignupPOST_cases)
  case rejected
  with assms(2) show ?thesis by simp
next
  case (stopped p e s)
  have fresh: "map_get (teams (am_store am)) (t_id (new_team ev am p)) = None"
    using assms(4) by (simp add: new_team_fields)
  show ?thesis
    using stopped SaveTeam_ok [OF assms(2) fresh stopped(3)] SaveTeam_keeps [OF _ fresh stopped(3)]
      SaveTeam_size [OF stopped(3)] by simp
next
  case (accepted p s token t)
  let ?am1 = "save_team t (am\<lparr>am_store := s\<rparr>)"
  have fresh: "map_get (teams (am_store am)) (t_id (new_team ev am p)) = None"
    using assms(4) by (simp add: new_team_fields)
  have t: "t_id t = t_id (new_team ev am p)" "t_name t = t_name (new_team ev am p)"
    by (simp_all add: accepted(6))
  have reg: "registered (t_id t) (t_name t) s"
    using SaveTeam_registered(1) [OF assms(2) fresh accepted(5)] by (simp add: t)
  then have s1: "same_site (am\<lparr>am_store := s\<rparr>) ?am1" by (intro same_site_save) simp
  have "registered (t_id t) (t_name t) (am_store ?am1)"
    using registered_write [OF reg] by simp
  note fin = finish_signup_result [OF accepted(8) [symmetric] assms(3) this]
  have "same_site ?am1 am'"
    using accepted(8) [symmetric] \<open>registered (t_id t) (t_name t) (am_store ?am1)\<close> assms(3)
    by (rule finish_same_site)
  from same_site_trans [OF s1 this] have "same_site (am\<lparr>am_store := s\<rparr>) am'" .
  then show ?thesis
    using SaveTeam_ok [OF assms(2) fresh accepted(5)] SaveTeam_keeps [OF _ fresh accepted(5)]
      SaveTeam_size [OF accepted(5)] accepted(3) by (simp add: same_site_def)
qed

inductive site_step :: "amigo \<Rightarrow> amigo \<Rightarrow> bool" where
  signup: "hook_ok hook \<Longrightarrow> map_get (teams (am_store am)) (take 8 (uuid ev)) = None \<Longrightarrow>
     handleSignupPOST ev hook am r = Ret (w, am') \<Longrightarrow> site_step am am'"
| login: "hook_ok hook \<Longrightarrow> handleLoginPOST ev hook am r = Ret (w, am') \<Longrightarrow> site_step am am'"
| flag: "state_hook_ok shook \<Longrightarrow> json_post (handleFlagVerify ev shook) am r = Ret (w, am') \<Longrightarrow> site_step am am'"
| reset: "tag_hook_ok thook \<Longrightarrow> json_post (handleResetChallenge ev tg thook) am r = Ret (w, am') \<Longrightarrow> site_step am am'"
| run: "state_hook_ok shook \<Longrightarrow> json_post (handleStartStopChallenge ev tg shook) am r = Ret (w, am') \<Longrightarrow> site_step am am'"
| frontend: "hook_ok hook \<Longrightarrow> json_post (handleResetFrontend ev hook) am r = Ret (w, am') \<Longrightarrow> site_step am am'"
| vpn: "hook_ok hook \<Longrightarrow> json_post (handleVPNStatus ev peer hook) am r = Ret (w, am') \<Longrightarrow> site_step am am'"
| guac: "hook_ok hook \<Longrightarrow> handleGuacConnection ev hook am r = Ret (w, am') \<Longrightarrow> site_step am am'"

inductive site_reachable :: "amigo \<Rightarrow> amigo \<Rightarrow> bool" for am0 where
  start: "site_reachable am0 am0"
| step: "site_reachable am0 am \<Longrightarrow> site_step am am' \<Longrightarrow> site_reachable am0 am'"

lemma json_post_cases:
  assumes "json_post h am r = Ret (w, am')"
  obtains "am' = am" | "h am r = Ret (w, am')"
  using assms by (auto simp: json_post_def JSONEndpoint_def POSTEndpoint_def split: if_splits)

lemma site_step_effect:
  assumes "site_step am am'" and "store_ok (am_store am)"
  shows "store_ok (am_store am') \<and> am_capacity am' = am_capacity am \<and>
    (\<forall>i n. registered i n (am_store am) \<longrightarrow> registered i n (am_store am')) \<and>
    (int (length (GetTeams (am_store am))) \<le> am_capacity am \<longrightarrow>
       int (length (GetTeams (am_store am'))) \<le> am_capacity am')"
proof -
  have same: ?thesis if "same_site am am'"
    using that assms(2) by (auto simp: same_site_def)
  from assms(1) show ?thesis
  proof cases
    case (signup hook ev r w)
    from signup_effect [OF signup(3) assms(2) signup(1,2)] show ?thesis by auto
  next
    case (login hook ev r w)
    from login_same_site [OF login(2) assms(2) login(1)] show ?thesis by (rule same)
  next
    case (flag shook ev r w)
    from flag(2) have "same_site am am'"
      by (cases rule: json_post_cases) (auto intro: flag_same_site [OF _ assms(2) flag(1)])
    then show ?thesis by (rule same)
  next
    case (reset thook ev tg r w)
    from reset(2) have "same_site am am'"
      by (cases rule: json_post_cases) (auto intro: reset_same_site [OF _ assms(2) reset(1)])
    then show ?thesis by (rule same)
  next
    case (run shook ev tg r w)
    from run(2) have "same_site am am'"
      by (cases rule: json_post_cases) (auto intro: run_same_site [OF _ assms(2) run(1)])
    then show ?thesis by (rule same)
  next
    case (frontend hook ev r w)
    from frontend(2) have "same_site am am'"
      by (cases rule: json_post_cases) (auto intro: frontend_same_site [OF _ assms(2) frontend(1)])
    then show ?thesis by (rule same)
  next
    case (vpn hook ev peer r w)
    from vpn(2) have "same_site am am'"
      by (cases rule: json_post_cases) (auto intro: vpn_same_site [OF _ assms(2) vpn(1)])
    then show ?thesis by (rule same)
  next
    case (guac hook ev r w)
    from guac_same_site [OF guac(2) assms(2) guac(1)] show ?thesis by (rule same)
  qed
qed

subsection \<open>Properties\<close>

text \<open>
  C4. Through any sequence of signups, logins and team requests a site whose store is
  consistent stays so, never registers more teams than its capacity if it did not start
  above it, and never loses a team.
\<close>
theorem site_invariant:
  assumes "site_reachable am0 am" and "store_ok (am_store am0)"
    and "int (length (GetTeams (am_store am0))) \<le> am_capacity am0"
  shows "store_ok (am_store am) \<and> int (length (GetTeams (am_store am))) \<le> am_capacity am0 \<and>
    (\<forall>i n. registered i n (am_store am0) \<longrightarrow> registered i n (am_store am))"
proof -
  from assms(1) have "store_ok (am_store am) \<and> am_capacity am = am_capacity am0 \<and>
    int (length (GetTeams (am_store am))) \<le> am_capacity am \<and>
    (\<forall>i n. registered i n (am_store am0) \<longrightarrow> registered i n (am_store am))"
  proof induction
    case start
    with assms(2,3) show ?case by simp
  next
    case (step am am')
    with site_step_effect [OF step.hyps(2)] show ?case by auto
  qed
  then show ?thesis by simp
qed

theorem site_invariant_witness:
  "\<exists>am. site_reachable (sample_site\<lparr>am_store := sample_store\<rparr>) am \<and> registered ''a1'' ''red'' (am_store am) \<and>
     int (length (GetTeams (am_store am))) \<le> 2"
proof -
  let ?am = "sample_site\<lparr>am_store := sample_store\<rparr>"
  have "registered ''a1'' ''red'' (am_store ?am)"
    using sample_store_ok by (simp add: registered_def sample_store_eq GetTeamByID_def map_get_Cons member_def
        sample_team_state_def)
  moreover have "store_ok (am_store ?am)" by (simp add: sample_store_ok)
  moreover have "int (length (GetTeams (am_store ?am))) \<le> am_capacity ?am"
    by (simp add: sample_store_eq GetTeams_def sample_site_def)
  ultimately show ?thesis
    using site_invariant [OF site_reachable.start [of ?am]]
    by (intro exI [of _ ?am]) (simp add: site_reachable.start sample_site_def)
qed

text \<open>
  For a child tag of the documented form (a parent tag without digits, a hyphen, a number)
  the parent tag is found exactly for the numbers 0 to 9.
\<close>
theorem parent_tag_one_digit:
  assumes "\<not> list_ex is_digit parent"
  shows "getParentChallengeTag (parent @ ''-'' @ show_nat n) = Ret parent \<longleftrightarrow> n < 10"
proof -
  have d: "list_ex is_digit (parent @ ''-'' @ show_nat n)"
    using show_nat_has_digit [of n] by simp
  have pos: "0 < length (show_nat n)" by simp
  let ?k = "length (show_nat n)"
  have "getParentChallengeTag (parent @ ''-'' @ show_nat n)
      = Ret (take (length parent + (?k - 1)) (parent @ ''-'' @ show_nat n))"
    using d pos by (simp add: getParentChallengeTag_def add.commute Suc_le_eq del: show_base.simps)
  moreover have "take (length parent + (?k - 1)) (parent @ ''-'' @ show_nat n) = parent \<longleftrightarrow> ?k \<le> 1"
    by (auto simp del: show_base.simps)
  moreover have "?k \<le> 1 \<longleftrightarrow> ?k = 1" using pos by linarith
  ultimately show ?thesis using show_nat_length [of n] by simp
qed

theorem parent_tag_one_digit_witness:
  "getParentChallengeTag (''sql-'' @ show_nat 7) = Ret ''sql'' \<and> getParentChallengeTag (''sql-'' @ show_nat 10) \<noteq> Ret ''sql''"
proof -
  have "\<not> list_ex is_digit ''sql''" by (simp add: is_digit_def char_digit_def)
  from parent_tag_one_digit [OF this, of 7] parent_tag_one_digit [OF this, of 10] show ?thesis by simp
qed

text \<open>
  When the daemon fails to start or to stop an exercise, the request is answered with its
  error and the exercise's challenges are marked disabled, also when it was running.
\<close>
theorem startstop_failure_disables:
  assumes "getTeamFromRequest ev am r = (Inr t, w)" and "safeReadJson ev am r decode_tag = Inr tag"
    and "getParentChallengeTag tag = Ret p" and "isLabAssigned t"
    and "map_get (allChallenges t) p = Some ch" and "\<And>u b. runHook u p b = (Some e, u)"
  shows "\<exists>t'. handleStartStopChallenge ev event_tag runHook am r =
       Ret (w @ [replyJsonRequestErr e], save_team t' am) \<and>
     t' = t\<lparr>disabledChallenges := disabledChallenges t'\<rparr> \<and> map_get (disabledChallenges t') p = Some ch \<and>
     (\<forall>q. q \<noteq> p \<longrightarrow> map_get (disabledChallenges t') q = map_get (disabledChallenges t) q)"
proof -
  let ?u = "snd (ManageDisabledChals p t)" and ?t' = "AddDisabledChal p (snd (ManageDisabledChals p t))"
  have "handleStartStopChallenge ev event_tag runHook am r = Ret (w @ [replyJsonRequestErr e], save_team ?t' am)"
    using assms by (cases "ManageDisabledChals p t") (simp add: handleStartStopChallenge_def)
  moreover obtain d where u: "?u = t\<lparr>disabledChallenges := d\<rparr>"
    and d: "\<forall>q. q \<noteq> p \<longrightarrow> map_get d q = map_get (disabledChallenges t) q"
    using assms(5) by (cases "map_get (disabledChallenges t) p") (auto simp: ManageDisabledChals_def)
  moreover have "?t' = t\<lparr>disabledChallenges := map_put p ch d\<rparr>"
    using assms(5) by (simp add: u AddDisabledChal_def)
  ultimately show ?thesis by (intro exI [of _ ?t']) simp
qed

definition user_request :: "string \<Rightarrow> request" where
  "user_request body = \<lparr>rq_method = ''POST'', rq_content_type = ''application/json'',
     rq_session = Some ''a1|red'', rq_form = [], rq_body = body\<rparr>"

definition sample_am :: amigo where
  "sample_am = sample_site\<lparr>am_store := sample_store\<rparr>"

lemma sample_session: "getTeamFromRequest sample_env sample_am (user_request body) = (Inr member, [])"
proof -
  have "jwt_sign sample_env ''a1'' ''red'' = Some ''a1|red''" by (simp add: sample_env_def)
  from sample_env_tokens [OF this] show ?thesis
    by (simp add: getTeamFromRequest_def user_request_def getTeamInfoFromToken_def sample_am_def
        sample_store_eq GetTeamByID_def map_get_Cons)
qed

text \<open>Reading back a body that was printed as JSON.\<close>

lemma safeReadJson_printed:
  assumes "rq_body r = json_marshal j" and "length (json_marshal j) \<le> am_max_read am" and "decode j = Some x"
  shows "safeReadJson ev am r decode = Inr x"
  using assms parse_marshal [of j "2 * length (json_marshal j) + 2" "[]"] json_need_le_length [of j]
  by (simp add: safeReadJson_def Let_def)

theorem startstop_failure_disables_witness:
  "\<exists>t'. handleStartStopChallenge sample_env ''ev'' (\<lambda>u p b. (Some ''no lab'', u)) sample_am
      (user_request (json_marshal (JObj [(''tag'', JStr ''sql-1'')]))) =
        Ret ([replyJsonRequestErr ''no lab''], save_team t' sample_am) \<and>
     map_get (disabledChallenges member) ''sql'' = None \<and>
     map_get (disabledChallenges t') ''sql'' = Some [''sql-1'', ''sql-2'']"
proof -
  let ?j = "JObj [(''tag'', JStr ''sql-1'')]"
  have read: "safeReadJson sample_env sample_am (user_request (json_marshal ?j)) decode_tag = Inr ''sql-1''"
    by (rule safeReadJson_printed [of _ ?j])
      (simp_all add: user_request_def sample_am_def sample_site_def decode_tag_def print_string_def
        escape_char_def quote_char_def backslash_def newline_def)
  have parent: "getParentChallengeTag ''sql-1'' = Ret ''sql''"
    by (simp add: getParentChallengeTag_def is_digit_def char_digit_def)
  show ?thesis
    using startstop_failure_disables [OF sample_session read parent, of "[''sql-1'', ''sql-2'']"
        "\<lambda>u p b. (Some ''no lab'', u)" "''no lab''" "''ev''"]
    by (auto simp: member_def sample_team_state_def map_get_Cons)
qed

text \<open>
  A submitted flag is answered with status ok exactly when it is, up to surrounding white space, the
  open flag of the tagged challenge, and with an error otherwise; only the submitting team's
  record changes, and afterwards it has solved the challenge exactly if the answer was ok or it
  had solved it before.
\<close>
theorem flag_reply:
  assumes "store_ok (am_store am)" and "getTeamFromRequest ev am r = (Inr t, w)"
    and "safeReadJson ev am r decode_flag = Inr (tag, f)" and "getParentChallengeTag tag = Ret p"
    and "team_ok t" and "has_dbc t" and "db_flag_ok ev" and "am_recaptcha am = []"
  shows "\<exists>t' rep. handleFlagVerify ev stop am r = Ret (w @ [rep], save_team t' am) \<and>
     (rep = replyOk \<longleftrightarrow> map_get (challenges t) (TrimSpace f) = Some \<lparr>tc_tag = tag, completed_at = None\<rparr>) \<and>
     (rep \<noteq> replyOk \<longrightarrow> t' = t \<and> (\<exists>e. rep = ReplyJson 200 (errReply e))) \<and>
     (\<forall>tg. IsTeamSolvedChallenge t' tg =
        (if rep = replyOk \<and> tg = tag then Some (now ev) else IsTeamSolvedChallenge t tg)) \<and>
     GetTeamByID (t_id t) (am_store (save_team t' am)) = Inr t'"
proof -
  have free: "\<not> t_locked t" using assms(5) by (simp add: team_ok_def)
  have "\<exists>x. VerifyFlag tag (TrimSpace f) (now ev) True t = Ret x"
    by (auto simp: VerifyFlag_cases [OF free assms(6)] split: option.split)
  then obtain e t' where v: "VerifyFlag tag (TrimSpace f) (now ev) True t = Ret (e, t')" by auto
  note res = VerifyFlag_result [OF assms(5,6) v] and ids = VerifyFlag_fields [OF v]
  let ?rep = "case e of None \<Rightarrow> replyOk | Some x \<Rightarrow> ReplyJson 200 (errReply (error_text x))"
  have run: "handleFlagVerify ev stop am r = Ret (w @ [?rep], save_team t' am)"
    using assms v by (simp add: handleFlagVerify_def Let_def split: option.splits)
  have ok: "?rep = replyOk \<longleftrightarrow> e = None"
    by (simp add: replyOk_def errReply_def split: option.splits)
  have "GetTeamByID (t_id t) (am_store (save_team t' am)) = Inr t'"
    using registered_write [of t' "am_store am"] getTeamFromRequest_stored [OF assms(2,1)] ids by simp
  with run ok res show ?thesis
    by (intro exI [of _ t'] exI [of _ ?rep]) (auto split: option.splits)
qed

lemma member_ok: "team_ok member" "has_dbc member"
  using sample_team_ok by (simp_all add: member_def team_ok_def)

theorem flag_reply_witness:
  "\<exists>t'. handleFlagVerify sample_env (\<lambda>t p b. (None, t)) sample_am
      (user_request (json_marshal (JObj [(''tag'', JStr ''sql-1''), (''flag'', JStr '' HKN{x}'')]))) =
        Ret ([replyOk], save_team t' sample_am) \<and>
     IsTeamSolvedChallenge t' ''sql-1'' = Some ''t9''"
proof -
  let ?j = "JObj [(''tag'', JStr ''sql-1''), (''flag'', JStr '' HKN{x}'')]"
  have read: "safeReadJson sample_env sample_am (user_request (json_marshal ?j)) decode_flag = Inr (''sql-1'', '' HKN{x}'')"
    by (rule safeReadJson_printed [of _ ?j])
      (simp_all add: user_request_def sample_am_def sample_site_def decode_flag_def print_string_def
        escape_char_def quote_char_def backslash_def newline_def)
  have parent: "getParentChallengeTag ''sql-1'' = Ret ''sql''"
    by (simp add: getParentChallengeTag_def is_digit_def char_digit_def)
  have am: "store_ok (am_store sample_am)" "am_recaptcha sample_am = []"
    using sample_store_ok by (simp_all add: sample_am_def sample_site_def)
  have db: "db_flag_ok sample_env" "now sample_env = ''t9''" by (simp_all add: sample_env_def)
  have trim: "TrimSpace '' HKN{x}'' = ''HKN{x}''" by (simp add: TrimSpace_def is_space_def)
  have flag: "map_get (challenges member) ''HKN{x}'' = Some \<lparr>tc_tag = ''sql-1'', completed_at = None\<rparr>"
    by (simp add: member_def sample_team_state_def map_get_Cons)
  from flag_reply [OF am(1) sample_session read parent member_ok db(1) am(2), of "\<lambda>t p b. (None, t)"]
  show ?thesis by (auto simp: trim flag db)
qed

subsection \<open>VPN identifiers\<close>

lemma hd_show_nat_digit: "hd (show_nat n) \<notin> {CHR ''-'', CHR ''+''}"
proof -
  have "hd (show_nat n) \<in> set (show_nat n)" by (rule hd_in_set) simp
  then have "is_digit (hd (show_nat n))" by (rule show_nat_digits)
  moreover have "\<not> is_digit CHR ''-''" "\<not> is_digit CHR ''+''" by (simp_all add: is_digit_def char_digit_def)
  ultimately show ?thesis by (metis empty_iff insert_iff)
qed

lemma Atoi_show_nat: "n < 2 ^ 63 \<Longrightarrow> Atoi (show_nat n) = (int n, False)"
proof -
  assume n: "n < 2 ^ 63"
  have d: "list_all is_digit (show_nat n)" using show_nat_digits by (auto simp: list_all_iff)
  have "int n < 2 ^ 63" using n by (metis of_nat_less_iff of_nat_numeral of_nat_power)
  with d hd_show_nat_digit [of n] show ?thesis by (simp add: Atoi_def Let_def del: show_base.simps)
qed

lemma split_conn_id: "split_on CHR ''_'' (conn_id i) = [''conn'', show_nat i]"
proof -
  have "CHR ''_'' \<notin> set (show_nat i)"
    using show_nat_digits [of "CHR ''_''" i] by (auto simp: is_digit_def char_digit_def)
  then have "split_on CHR ''_'' (show_nat i) = [show_nat i]" by (rule split_on_no_sep)
  moreover have "CHR ''_'' \<notin> set ''conn''" by simp
  ultimately show ?thesis
    using split_on_append [of "CHR ''_''" "''conn''" "show_nat i"] by (simp add: conn_id_def del: show_base.simps)
qed

lemma vpn_loop_ids:
  "vpn_loop peer keys i n = Inr js \<Longrightarrow> length js = n \<and>
     (\<forall>k < n. \<exists>st. js ! k = json_vpn (i + k) st \<and> st \<in> {''USED'', ''N/U''})"
proof (induction n arbitrary: i js)
  case 0
  then show ?case by simp
next
  case (Suc n)
  then obtain used js' where "vpn_loop peer keys (i + 1) n = Inr js'"
    and js: "js = json_vpn i (if used then ''USED'' else ''N/U'') # js'"
    by (auto split: sum.splits)
  with Suc.IH [of "i + 1" js'] show ?case
    by (auto simp: nth_Cons split: nat.split)
qed

text \<open>
  Each entry of the VPN status list carries an identifier for which the download
  returns the corresponding configuration file under that name; from the fifth on it
  returns an empty reply instead.
\<close>
theorem vpn_status_download:
  assumes "getTeamFromRequest ev am r = (Inr t, w)" and "isLabAssigned t"
    and "vpn_replies peer t = [ReplyJson 200 (JArr js)]" and "i < length js" and "length js < 2 ^ 63"
    and "js_prop ''vpnConnID'' (js ! i) = Some (JStr vid)" and "safeReadJson ev am r decode_vpn = Inr vid"
  shows "handleVPNStatus ev peer hook am r = Ret (w @ [ReplyJson 200 (JArr js)], am) \<and>
     length js = length (vpnConf t) \<and>
     handleVPNFiles ev am r =
       Ret (w @ (if i < 4 then [File (vid @ ''.conf'') (vpnConf t ! i)] else []), am)"
proof -
  have ne: "length (vpnConf t) \<noteq> 0" and loop: "vpn_loop peer (vpnKeys t) 0 (length (vpnConf t)) = Inr js"
    using assms(3,4) by (auto simp: vpn_replies_def json_slice_def replyJsonRequestErr_def split: sum.splits if_splits)
  note ids = vpn_loop_ids [OF loop]
  have len: "length js = length (vpnConf t)" using ids by simp
  have vid: "vid = conn_id i" using ids assms(4,6) by (auto simp: json_vpn_def)
  have "Atoi (show_nat i) = (int i, False)" using assms(4,5) by (intro Atoi_show_nat) simp
  moreover have "int i \<in> {0, 1, 2, 3} \<longleftrightarrow> i < 4" by auto
  ultimately have "handleVPNFiles ev am r =
      Ret (w @ (if i < 4 then [File (vid @ ''.conf'') (vpnConf t ! i)] else []), am)"
    using assms(1,4,7) ne len
    by (simp add: handleVPNFiles_def Let_def split_conn_id vid writeConfig_def del: show_base.simps insert_iff)
  with assms(1-3) len show ?thesis by (simp add: handleVPNStatus_def)
qed

definition vpn_member :: team where
  "vpn_member = member\<lparr>vpnConf := [''[Interface] 0'', ''[Interface] 1''], vpnKeys := [(0, ''k0''), (1, ''k1'')]\<rparr>"

definition vpn_am :: amigo where
  "vpn_am = sample_am\<lparr>am_store := write_team vpn_member sample_store\<rparr>"

lemma vpn_session: "getTeamFromRequest sample_env vpn_am (user_request body) = (Inr vpn_member, [])"
proof -
  have "jwt_sign sample_env ''a1'' ''red'' = Some ''a1|red''" by (simp add: sample_env_def)
  from sample_env_tokens [OF this] show ?thesis
    by (simp add: getTeamFromRequest_def user_request_def getTeamInfoFromToken_def vpn_am_def
        GetTeamByID_def write_team_def) (simp add: vpn_member_def member_def sample_team_state_def)
qed

theorem vpn_status_download_witness:
  "handleVPNFiles sample_env vpn_am
      (user_request (json_marshal (JObj [(''vpnConnID'', JStr ''conn_1''), (''status'', JStr ''N/U'')]))) =
     Ret ([File ''conn_1.conf'' ''[Interface] 1''], vpn_am)"
proof -
  let ?j = "JObj [(''vpnConnID'', JStr ''conn_1''), (''status'', JStr ''N/U'')]"
  let ?js = "[json_vpn 0 ''USED'', json_vpn 1 ''N/U'']" and ?peer = "\<lambda>k. Inr (k = ''k0'')"
  have read: "safeReadJson sample_env vpn_am (user_request (json_marshal ?j)) decode_vpn = Inr ''conn_1''"
    by (rule safeReadJson_printed [of _ ?j])
      (simp_all add: user_request_def vpn_am_def sample_am_def sample_site_def decode_vpn_def print_string_def
        escape_char_def quote_char_def backslash_def newline_def)
  have c1: "conn_id 1 = ''conn_1''" by code_simp
  have id1: "js_prop ''vpnConnID'' (?js ! 1) = Some (JStr ''conn_1'')"
    using c1 by (simp add: json_vpn_def)
  have rep: "vpn_replies ?peer vpn_member = [ReplyJson 200 (JArr ?js)]"
    by (simp add: vpn_replies_def vpn_member_def member_def sample_team_state_def json_slice_def map_get_Cons
        numeral_2_eq_2)
  have lab: "isLabAssigned vpn_member" by (simp add: vpn_member_def member_def sample_team_state_def)
  have len: "1 < length ?js" "length ?js < 2 ^ 63" by simp_all
  have conf: "vpnConf vpn_member ! 1 = ''[Interface] 1''" by (simp add: vpn_member_def)
  from vpn_status_download [OF vpn_session lab rep len id1 read, of no_hook]
  show ?thesis using conf by simp
qed

end
