(* ===== verification/Vue_Forms.thy ===== *)
theory Vue_Forms
  imports Page_Messages
begin

text \<open>
  The pages' forms: FlagChecker.vue, the Reset and Start/Stop buttons of a challenge
  (ResetChallenge.vue, RunChallenge.vue) and ResetFrontend.vue. An async method is cut at its
  \<^verbatim>\<open>await\<close>: the part before it returns the effects it starts (a request, a timer, a call of the
  modal, an event), the part after it is the handler of the response's JSON. A response that is
  no JSON, or a failed request, rejects the promise: the second part never runs. Where a text
  is expected and the server sends a string, other values show as their JSON text.
\<close>

datatype effect =
    Fetch string "json option"
  | Timeout nat
  | HideModal string
  | ShowModal string
  | Emit string
  | SetHtml string string
  | OpenSocket string

text \<open>\<^verbatim>\<open>res.error !== undefined\<close> and \<^verbatim>\<open>res.status === "ok"\<close>.\<close>

definition has_error :: "json \<Rightarrow> bool" where
  "has_error res \<longleftrightarrow> js_prop ''error'' res \<noteq> None"

definition status_ok :: "json \<Rightarrow> bool" where
  "status_ok res \<longleftrightarrow> js_prop ''status'' res = Some (JStr ''ok'')"

definition truthy :: "json \<Rightarrow> bool" where
  "truthy j = (case j of JNull \<Rightarrow> False | JBool b \<Rightarrow> b | JNum n \<Rightarrow> n \<noteq> 0 | JStr s \<Rightarrow> s \<noteq> []
     | _ \<Rightarrow> True)"

definition show_json :: "json \<Rightarrow> string" where
  "show_json j = (case j of JStr s \<Rightarrow> s | _ \<Rightarrow> json_marshal j)"

subsection \<open>FlagChecker\<close>

record flag_checker =
  fc_action :: string
  fc_description :: string
  fc_flag :: string
  fc_error :: json
  fc_success :: string

definition flag_checker_init :: flag_checker where
  "flag_checker_init =
     \<lparr>fc_action = ''Submit'', fc_description = ''Flag...'', fc_flag = [], fc_error = JStr [], fc_success = []\<rparr>"

definition clearMessages :: "flag_checker \<Rightarrow> flag_checker" where
  "clearMessages st = st\<lparr>fc_error := JStr [], fc_success := []\<rparr>"

definition flag_submit :: "string \<Rightarrow> flag_checker \<Rightarrow> flag_checker \<times> effect list" where
  "flag_submit challengeTag st =
     (st, [Fetch ''/flags/verify''
             (Some (JObj [(''tag'', JStr challengeTag), (''flag'', JStr (fc_flag st))]))])"

definition flag_response :: "json \<Rightarrow> flag_checker \<Rightarrow> js_error option \<times> flag_checker \<times> effect list" where
  "flag_response res st =
     (if res = JNull then (Some TypeError, st, [])
      else (case js_prop ''error'' res of
              Some e \<Rightarrow> (None, st\<lparr>fc_error := e\<rparr>, [])
            | None \<Rightarrow>
                if status_ok res
                then (None, st\<lparr>fc_success := ''You found a flag!'', fc_flag := []\<rparr>, [Timeout 800])
                else (None, st, [])))"

definition flag_timer :: "effect list" where
  "flag_timer = [HideModal ''challengeModal'', Emit ''challengeComplete'']"

definition flag_template :: "flag_checker \<Rightarrow> vnode" where
  "flag_template st =
     Elem ''div'' [''flag-form''] []
       [Elem ''form'' [] []
         [Elem ''span'' [] [] [Text ''Flag''],
          Elem ''div'' [''input-div''] []
            [Elem ''div'' (''input-div-icon'' # class_if [(''text-success'', fc_success st \<noteq> []),
                                                     (''text-danger'', truthy (fc_error st))]) []
               [Elem ''i'' [''fa'', ''fa-flag''] [] []],
             Elem ''div'' [''input-div-input''] []
               [Elem ''input'' [''input''] [(''type'', ''text''), (''value'', fc_flag st)] []]],
          Elem ''div'' [''text-center''] []
            ((if truthy (fc_error st) then [Elem ''p'' [''text-danger''] [] [Text (show_json (fc_error st))]] else [])
             @ (if fc_success st \<noteq> [] then [Elem ''p'' [''text-success''] [] [Text (fc_success st)]] else [])),
          Elem ''input'' [''btn'', ''btn-login''] [(''type'', ''submit''), (''value'', ''Submit'')] []]]"

subsection \<open>The Reset and Start/Stop buttons\<close>

record button =
  isDisabled :: bool
  isError :: bool
  isSuccess :: bool

definition button_init :: button where
  "button_init = \<lparr>isDisabled = False, isError = False, isSuccess = False\<rparr>"

definition button_submit :: "string \<Rightarrow> string \<Rightarrow> button \<Rightarrow> button \<times> effect list" where
  "button_submit url challengeTag st =
     (st\<lparr>isDisabled := True\<rparr>, [Fetch url (Some (JObj [(''tag'', JStr challengeTag)]))])"

definition button_response :: "json \<Rightarrow> button \<Rightarrow> js_error option \<times> button \<times> effect list" where
  "button_response res st =
     (if res = JNull then (Some TypeError, st, [])
      else if has_error res then (None, st\<lparr>isError := True, isDisabled := False\<rparr>, [])
      else if status_ok res then (None, st\<lparr>isSuccess := True, isDisabled := False\<rparr>, [Timeout 1000])
      else (None, st, []))"

definition reset_submit :: "string \<Rightarrow> button \<Rightarrow> button \<times> effect list" where
  "reset_submit challengeTag st = button_submit ''/reset/challenge'' challengeTag st"

definition reset_timer :: "effect list" where
  "reset_timer = [HideModal ''challengeModal'', Emit ''resetChallenge'']"

definition run_submit :: "string \<Rightarrow> button \<Rightarrow> button \<times> effect list" where
  "run_submit challengeTag st = button_submit ''/manage/challenge'' challengeTag st"

definition run_timer :: "effect list" where
  "run_timer = [HideModal ''challengeModal'', Emit ''runChallenge'']"

definition run_init :: button where
  "run_init = \<lparr>isDisabled = False, isError = False, isSuccess = False\<rparr>"

definition run_response :: "json \<Rightarrow> button \<Rightarrow> js_error option \<times> button \<times> effect list" where
  "run_response res st =
     (if res = JNull then (Some TypeError, st, [])
      else if has_error res then (None, st\<lparr>isError := True, isDisabled := False\<rparr>, [])
      else if status_ok res then (None, st\<lparr>isSuccess := True, isDisabled := False\<rparr>, [Timeout 1000])
      else (None, st, []))"

text \<open>Both buttons are the same state machine.\<close>

lemma run_is_reset: "run_init = button_init" "run_response = button_response"
  by (simp_all add: run_init_def button_init_def run_response_def button_response_def fun_eq_iff)

definition button_template :: "string \<Rightarrow> button \<Rightarrow> vnode" where
  "button_template value st =
     Elem ''div'' [''pl-3''] []
       [Elem ''form'' [] []
         [Elem ''input'' ([''btn'', ''btn-haaukins''] @ class_if [(''btn-danger'', isError st), (''btn-success'', isSuccess st)])
            ([(''type'', ''submit''), (''value'', value)] @ (if isDisabled st then [(''disabled'', ''disabled'')] else []))
            []]]"

definition reset_template :: "button \<Rightarrow> vnode" where
  "reset_template st = button_template ''Reset'' st"

definition run_template :: "button \<Rightarrow> vnode" where
  "run_template st = button_template ''Start/Stop'' st"

text \<open>
  One button over time, with the request it waits for: a click is possible only while the
  button is enabled; a lost request is one whose promise rejects.
\<close>

datatype button_event = Click | Response json | Lost

record button_run =
  br_button :: button
  br_waiting :: bool

fun button_step :: "button_event \<Rightarrow> button_run \<Rightarrow> button_run" where
  "button_step Click s =
     (if isDisabled (br_button s) then s
      else s\<lparr>br_button := fst (reset_submit [] (br_button s)), br_waiting := True\<rparr>)"
| "button_step (Response res) s =
     (if br_waiting s
      then s\<lparr>br_button := fst (snd (button_response res (br_button s))), br_waiting := False\<rparr> else s)"
| "button_step Lost s = (if br_waiting s then s\<lparr>br_waiting := False\<rparr> else s)"

definition button_history :: "button_event list \<Rightarrow> button_run" where
  "button_history evs = fold button_step evs \<lparr>br_button = button_init, br_waiting = False\<rparr>"

text \<open>The answers the button understands.\<close>

definition understood :: "json \<Rightarrow> bool" where
  "understood res \<longleftrightarrow> res \<noteq> JNull \<and> (has_error res \<or> status_ok res)"

subsection \<open>ResetFrontend\<close>

record reset_frontend =
  rf_disabled :: bool
  rf_isVpn :: "json option"
  rf_labSubnet :: string

definition reset_frontend_init :: reset_frontend where
  "reset_frontend_init = \<lparr>rf_disabled = False, rf_isVpn = Some (JNum 0), rf_labSubnet = []\<rparr>"

definition getLabSubnet :: "effect list" where
  "getLabSubnet = [Fetch ''/get/labsubnet'' None]"

definition frontend_created :: "effect list" where
  "frontend_created = getLabSubnet"

definition frontend_submit :: "reset_frontend \<Rightarrow> reset_frontend \<times> effect list" where
  "frontend_submit st = (st\<lparr>rf_disabled := True\<rparr>, [Fetch ''/reset/frontend'' None])"

text \<open>\<open>has_div\<close>: whether the page has an element \<^verbatim>\<open>reset-frontend-resp\<close>.\<close>

definition frontend_response ::
  "bool \<Rightarrow> json \<Rightarrow> reset_frontend \<Rightarrow> js_error option \<times> reset_frontend \<times> effect list" where
  "frontend_response has_div res st =
     (if res = JNull then (Some TypeError, st, [])
      else (case js_prop ''error'' res of
              Some e \<Rightarrow>
                if \<not> has_div then (Some TypeError, st, [])
                else (None, st\<lparr>rf_disabled := False\<rparr>,
                      [SetHtml ''reset-frontend-resp'' (''<span class=\"text-danger\">'' @ show_json e @ ''</span>'')])
            | None \<Rightarrow>
                if status_ok res
                then (if \<not> has_div then (Some TypeError, st, [])
                      else (None, st\<lparr>rf_disabled := False\<rparr>,
                            [SetHtml ''reset-frontend-resp''
                               ''<span class=\"text-success\">Kali Machine successfully restarted</span>'']))
                else (None, st, [])))"

definition lab_response :: "json \<Rightarrow> reset_frontend \<Rightarrow> js_error option \<times> reset_frontend" where
  "lab_response res st =
     (if res = JNull then (Some TypeError, st)
      else
        (let st = st\<lparr>rf_isVpn := js_prop ''isVPN'' res\<rparr> in
         case js_prop ''labSubnet'' res of
           Some (JStr s) \<Rightarrow>
             (None, st\<lparr>rf_labSubnet := (if s = [] then ''NOT ASSIGNED YET'' else s @ ''/24'')\<rparr>)
         | Some j \<Rightarrow> (None, st\<lparr>rf_labSubnet := show_json j @ ''/24''\<rparr>)
         | None \<Rightarrow> (None, st\<lparr>rf_labSubnet := ''undefined/24''\<rparr>)))"

definition frontend_template :: "reset_frontend \<Rightarrow> vnode" where
  "frontend_template st =
     (let reset = Elem ''form'' [] [] [Elem ''input'' [''btn'', ''btn-login'']
              ([(''type'', ''submit''), (''value'', ''RESET Kali Machine'')]
               @ (if rf_disabled st then [(''disabled'', ''disabled'')] else [])) []];
          subnet = (\<lambda>cls. Elem ''div'' cls [] [Text ''Lab Subnet: [ '', Elem ''b'' [] [] [Text (rf_labSubnet st)], Text '']''])
      in Elem ''div'' [''mt-toppage-reset'', ''pt-2'', ''mb-2''] []
           [if rf_isVpn st = Some (JNum 0) then reset
            else if rf_isVpn st = Some (JNum 1) then Elem ''div'' [] [] [subnet [''labsubnet'']]
            else Elem ''div'' [] [] [reset, subnet [''labsubnet'', ''mt-2'']]])"

subsection \<open>Properties\<close>

lemma button_response_understood:
  "understood res \<Longrightarrow> \<not> isDisabled (fst (snd (button_response res b)))"
  by (auto simp: understood_def button_response_def)

lemma button_history_snoc: "button_history (evs @ [e]) = button_step e (button_history evs)"
  by (simp add: button_history_def)

text \<open>
  As long as every request is answered and every answer is an error or a status ok, the
  button is disabled exactly while a request is under way; a request that is lost leaves
  it disabled for good.
\<close>
theorem button_disabled_iff_waiting:
  assumes "\<And>res. Response res \<in> set evs \<Longrightarrow> understood res"
  shows "(Lost \<notin> set evs \<longrightarrow> (isDisabled (br_button (button_history evs)) \<longleftrightarrow> br_waiting (button_history evs))) \<and>
    (br_waiting (button_history evs) \<longrightarrow>
       button_history (evs @ Lost # evs') = button_history (evs @ [Lost]) \<and>
       isDisabled (br_button (button_history (evs @ [Lost]))))"
proof -
  have inv: "(br_waiting (button_history es) \<longrightarrow> isDisabled (br_button (button_history es))) \<and>
      (Lost \<notin> set es \<longrightarrow> (isDisabled (br_button (button_history es)) \<longleftrightarrow> br_waiting (button_history es)))"
    if "\<forall>res. Response res \<in> set es \<longrightarrow> understood res" for es
    using that
  proof (induction es rule: rev_induct)
    case Nil
    show ?case by (simp add: button_history_def button_init_def)
  next
    case (snoc e es)
    show ?case
    proof (cases e)
      case Click
      with snoc show ?thesis
        by (auto simp: button_history_snoc reset_submit_def button_submit_def)
    next
      case (Response res)
      with snoc have "understood res" by simp
      with Response snoc show ?thesis
        by (auto simp: button_history_snoc button_response_understood)
    next
      case Lost
      with snoc show ?thesis by (auto simp: button_history_snoc)
    qed
  qed
  have stuck: "fold button_step es s = s" if "isDisabled (br_button s)" "\<not> br_waiting s" for es s
    using that
  proof (induction es)
    case (Cons e es)
    then show ?case by (cases e) simp_all
  qed simp
  have "button_history (evs @ Lost # evs') = button_history (evs @ [Lost]) \<and>
      isDisabled (br_button (button_history (evs @ [Lost])))"
    if w: "br_waiting (button_history evs)"
  proof -
    have d: "isDisabled (br_button (button_history evs))" using inv [of evs] assms w by blast
    have "button_history (evs @ Lost # evs') = fold button_step evs' (button_step Lost (button_history evs))"
      by (simp add: button_history_def)
    also have "\<dots> = button_step Lost (button_history evs)"
      using d w by (intro stuck) simp_all
    finally show ?thesis using d w by (simp add: button_history_snoc)
  qed
  with inv [of evs] assms show ?thesis by blast
qed

theorem button_disabled_iff_waiting_witness:
  "\<not> isDisabled (br_button (button_history [Click, Response (JObj [(''status'', JStr ''ok'')])])) \<and>
   isDisabled (br_button (button_history [Click]))"
proof -
  have u: "understood res" if "Response res \<in> set [Click, Response (JObj [(''status'', JStr ''ok'')])]" for res
    using that by (simp add: understood_def status_ok_def)
  have v: "understood res" if "Response res \<in> set [Click]" for res using that by simp
  from button_disabled_iff_waiting [of "[Click, Response (JObj [(''status'', JStr ''ok'')])]", OF u]
    button_disabled_iff_waiting [of "[Click]", OF v]
  show ?thesis
    by (simp add: button_history_def button_init_def reset_submit_def button_submit_def)
qed

end
