(* ===== verification/Vue_Challenges.thy ===== *)
theory Vue_Challenges
  imports Vue_Forms
begin

text \<open>
  The challenge page (components/ChallegesPage.vue and its ChallengeModal.vue).
  \<open>challengesFromAmigo\<close> is first the array of a message and then, once sorted, an object from
  categories to lists, so the state has both forms (\<open>Arr\<close>, \<open>Groups\<close>); the object's properties are
  kept in insertion order, and \<open>own_order\<close> is the order in which \<^verbatim>\<open>for ... in\<close> and \<^verbatim>\<open>v-for\<close> visit them.
  The sockets the page opens are counted in \<open>page_step\<close>.
\<close>

subsection \<open>Data\<close>

record chal_view =
  cv_tag :: "string option"
  cv_name :: "string option"
  cv_points :: jsnum
  cv_category :: "string option"
  cv_description :: "string option"
  cv_static :: bool
  cv_disabled :: bool
  cv_completed :: bool
  cv_teams :: "(string \<times> string option) list option"

definition opt_str :: "string \<Rightarrow> json \<Rightarrow> string option" where
  "opt_str k j = (case js_prop k j of Some (JStr s) \<Rightarrow> Some s | _ \<Rightarrow> None)"

definition to_solver :: "json \<Rightarrow> string \<times> string option" where
  "to_solver j = (prop_str ''teamName'' j, opt_str ''completedAt'' j)"

text \<open>\<^term>\<open>None\<close> where \<^verbatim>\<open>el.challenge.category\<close> throws.\<close>

definition to_chal_view :: "json \<Rightarrow> chal_view option" where
  "to_chal_view el =
     (case js_prop ''challenge'' el of
        None \<Rightarrow> None
      | Some JNull \<Rightarrow> None
      | Some c \<Rightarrow> Some
          \<lparr>cv_tag = opt_str ''tag'' c, cv_name = opt_str ''name'' c, cv_points = prop_num ''points'' c,
           cv_category = opt_str ''category'' c, cv_description = opt_str ''teamDescription'' c,
           cv_static = prop_bool ''staticChallenge'' c, cv_disabled = prop_bool ''isChalDisabled'' el,
           cv_completed = prop_bool ''isUserCompleted'' el,
           cv_teams = map_option (map to_solver) (prop_list ''teamsCompleted'' el)\<rparr>)"

datatype chal_value =
    Arr "chal_view option list"
  | Groups "(string \<times> chal_view list) list"
  | NotArray

record challenges_page =
  chalInfo :: "chal_view option"
  cp_isLabAssigned :: bool
  cp_teamsCompleted :: "(string \<times> string option) list option"
  challengesFromAmigo :: chal_value

definition challenges_init :: challenges_page where
  "challenges_init = \<lparr>chalInfo = None, cp_isLabAssigned = False, cp_teamsCompleted = Some [],
     challengesFromAmigo = Arr []\<rparr>"

subsection \<open>sortChallenges\<close>

text \<open>A missing property used as a key is the string \<^verbatim>\<open>undefined\<close>.\<close>

definition category_key :: "chal_view \<Rightarrow> string" where
  "category_key el = (case cv_category el of None \<Rightarrow> ''undefined'' | Some c \<Rightarrow> c)"

text \<open>The names \<^verbatim>\<open>in\<close> finds in every object; none of these properties has a method \<^verbatim>\<open>push\<close>.\<close>

definition inherited_names :: "string list" where
  "inherited_names =
     [''constructor'', ''hasOwnProperty'', ''isPrototypeOf'', ''propertyIsEnumerable'', ''toLocaleString'',
      ''toString'', ''valueOf'', ''__proto__'', ''__defineGetter__'', ''__defineSetter__'',
      ''__lookupGetter__'', ''__lookupSetter__'']"

type_synonym groups = "(string \<times> chal_view list) list"

fun push_to :: "string \<Rightarrow> chal_view \<Rightarrow> groups \<Rightarrow> groups" where
  "push_to k el [] = []"
| "push_to k el ((k', els) # g) = (if k' = k then (k', els @ [el]) # g else (k', els) # push_to k el g)"

fun group_all :: "chal_view option list \<Rightarrow> groups \<Rightarrow> js_error option \<times> groups" where
  "group_all [] challenges = (None, challenges)"
| "group_all (None # els) challenges = (Some TypeError, challenges)"
| "group_all (Some el # els) challenges =
     (let k = category_key el in
      if k \<in> fst ` set challenges then group_all els (push_to k el challenges)
      else if k \<in> set inherited_names then (Some TypeError, challenges)
      else group_all els (push_to k el (challenges @ [(k, [])])))"

definition points_cmp :: "chal_view \<Rightarrow> chal_view \<Rightarrow> jsnum" where
  "points_cmp a b = js_sub (cv_points a) (cv_points b)"

interpretation by_points: key_comparator points_cmp "\<lambda>c. num_val (cv_points c)" "\<lambda>c. is_num (cv_points c)"
  by unfold_locales (auto simp: points_cmp_def cmp_gt_def cmp_lt_def elim!: is_numE)

definition sortChallenges :: "challenges_page \<Rightarrow> js_error option \<times> challenges_page" where
  "sortChallenges st =
     (case challengesFromAmigo st of
        Arr els \<Rightarrow>
          (case group_all els [] of
             (Some e, g) \<Rightarrow> (Some e, st)
           | (None, g) \<Rightarrow>
               (None, st\<lparr>challengesFromAmigo := Groups (map (\<lambda>(k, els). (k, js_sort points_cmp els)) g)\<rparr>))
      | _ \<Rightarrow> (Some TypeError, st))"

subsection \<open>Messages\<close>

definition message_chals :: "json \<Rightarrow> chal_value" where
  "message_chals j = (case prop_list ''values'' j of None \<Rightarrow> NotArray | Some els \<Rightarrow> Arr (map to_chal_view els))"

definition challenges_handle :: "json \<Rightarrow> challenges_page \<Rightarrow> js_error option \<times> challenges_page" where
  "challenges_handle j st =
     (if is_msg ''challenges'' j
      then (None, st\<lparr>challengesFromAmigo := message_chals j, cp_isLabAssigned := prop_bool ''isLabAssigned'' j\<rparr>)
      else (None, st))"

definition challenges_receive :: "string \<Rightarrow> challenges_page \<Rightarrow> js_error option \<times> challenges_page" where
  "challenges_receive data st =
     (case on_frame challenges_handle data st of
        (Some e, st') \<Rightarrow> (Some e, st')
      | (None, st') \<Rightarrow> sortChallenges st')"

definition openModal :: "chal_view \<Rightarrow> challenges_page \<Rightarrow> challenges_page \<times> effect list" where
  "openModal obj st =
     (st\<lparr>chalInfo := Some obj, cp_teamsCompleted := cv_teams obj\<rparr>,
      if cp_isLabAssigned st then [ShowModal ''challengeModal''] else [])"

subsection \<open>Sockets\<close>

text \<open>
  The sockets that are open and the timers that will reopen one. The child events are
  \<^verbatim>\<open>challengeCompleteReload\<close>, \<^verbatim>\<open>runChallenge\<close> and \<^verbatim>\<open>resetChallenge\<close>.
\<close>

datatype page_event = ChallengeComplete | RunChallenge | ResetChallenge | SocketClosed | TimerFired

record page_sockets =
  ps_sockets :: nat
  ps_timers :: nat

definition connectToWS :: "page_sockets \<Rightarrow> page_sockets" where
  "connectToWS s = s\<lparr>ps_sockets := ps_sockets s + 1\<rparr>"

definition page_created :: page_sockets where
  "page_created = connectToWS \<lparr>ps_sockets = 0, ps_timers = 0\<rparr>"

fun page_step :: "page_event \<Rightarrow> page_sockets \<Rightarrow> page_sockets" where
  "page_step ChallengeComplete s = connectToWS s"
| "page_step RunChallenge s = connectToWS s"
| "page_step ResetChallenge s = connectToWS s"
| "page_step SocketClosed s =
     (if ps_sockets s = 0 then s
      else s\<lparr>ps_sockets := ps_sockets s - 1, ps_timers := ps_timers s + 1\<rparr>)"
| "page_step TimerFired s =
     (if ps_timers s = 0 then s else connectToWS (s\<lparr>ps_timers := ps_timers s - 1\<rparr>))"

definition challenges_ws_url :: "url \<Rightarrow> url" where
  "challenges_ws_url loc = ws_url ''/challengesFrontend'' loc"

definition is_child_event :: "page_event \<Rightarrow> bool" where
  "is_child_event e \<longleftrightarrow> e \<in> {ChallengeComplete, RunChallenge, ResetChallenge}"

subsection \<open>The template\<close>

text \<open>Integer-like property names come first, ascending; the others in insertion order.\<close>

definition index_key :: "string \<Rightarrow> bool" where
  "index_key k \<longleftrightarrow> list_all is_digit k \<and> show_nat (read_digits k) = k \<and> read_digits k < 2 ^ 32 - 1"

definition own_order :: "groups \<Rightarrow> groups" where
  "own_order g = sort_key (\<lambda>(k, els). read_digits k) (filter (\<lambda>(k, els). index_key k) g)
     @ filter (\<lambda>(k, els). \<not> index_key k) g"

definition show_opt :: "string option \<Rightarrow> string" where
  "show_opt s = (case s of None \<Rightarrow> [] | Some s \<Rightarrow> s)"

text \<open>\<^verbatim>\<open>undefined\<close> renders as nothing.\<close>

definition show_points :: "jsnum \<Rightarrow> string" where
  "show_points n = (case n of NaN \<Rightarrow> [] | Num i \<Rightarrow> show_int i)"

definition chal_button :: "chal_view \<Rightarrow> vnode" where
  "chal_button el =
     Elem ''button''
       ([''btn'', ''challenge-button'', ''w-100'', ''text-truncate'', ''pt-3'', ''pb-3'', ''mb-2''] @
        class_if [(''btn-disabled'', cv_disabled el \<and> \<not> cv_completed el), (''btn-haaukins'', \<not> cv_completed el),
                  (''btn-success'', cv_completed el)]) []
       [Elem ''p'' [''chal-name-font''] [] [Text (show_opt (cv_name el))],
        Elem ''span'' [] [] [Text (show_points (cv_points el))]]"

definition category_row :: "string \<times> chal_view list \<Rightarrow> vnode" where
  "category_row c =
     Elem ''div'' [''row'', ''mt-2''] []
       (Elem ''div'' [''category-header'', ''col-md-12'', ''mb-3''] []
          [Elem ''h3'' [] [] [Text (show_opt (cv_category (hd (snd c))))]]
        # map (\<lambda>el. Elem ''div'' [''col-lg-3'', ''col-md-4''] [(''key'', show_opt (cv_tag el))] [chal_button el]) (snd c))"

definition board_template :: "challenges_page \<Rightarrow> vnode" where
  "board_template st =
     Elem ''div'' []
       ((''id'', ''challenges-board'') #
        (if cp_isLabAssigned st then [] else [(''style'', ''pointer-events: none; opacity: 0.5;'')]))
       ((case challengesFromAmigo st of Groups g \<Rightarrow> map category_row (own_order g) | _ \<Rightarrow> [])
        @ [Elem ''challenge-modal'' [] [] []])"

subsection \<open>The modal\<close>

definition checkTeams :: "'a list option \<Rightarrow> nat" where
  "checkTeams teamsCompleted = (case teamsCompleted of None \<Rightarrow> 0 | Some ts \<Rightarrow> length ts)"

definition monthNames :: "string list" where
  "monthNames = [''January'', ''February'', ''March'', ''April'', ''May'', ''June'', ''July'', ''August'',
     ''September'', ''October'', ''November'', ''December'']"

text \<open>The local hour, minute, day and month (from 0) of a stamp; \<^term>\<open>None\<close> for an invalid date.\<close>

type_synonym local_time = "string option \<Rightarrow> (nat \<times> nat \<times> nat \<times> nat) option"

definition beauty_date :: "local_time \<Rightarrow> string option \<Rightarrow> string" where
  "beauty_date lt input_date =
     (case lt input_date of
        None \<Rightarrow> ''NaN:NaN   NaN undefined''
      | Some (h, m, d, mon) \<Rightarrow>
          show_nat h @ '':'' @ show_nat m @ ''   '' @ show_nat d @ '' '' @
          (if mon < length monthNames then monthNames ! mon else ''undefined''))"

definition solver_row :: "local_time \<Rightarrow> string \<times> string option \<Rightarrow> vnode" where
  "solver_row lt team =
     Elem ''tr'' [] [(''key'', fst team)]
       [Elem ''td'' [] [] [Text (fst team)], Elem ''td'' [] [] [Text (beauty_date lt (snd team))]]"

definition modal_template ::
  "local_time \<Rightarrow> challenges_page \<Rightarrow> flag_checker \<Rightarrow> button \<Rightarrow> button \<Rightarrow> vnode" where
  "modal_template lt st fc rb ub =
     (let static = (case chalInfo st of None \<Rightarrow> False | Some c \<Rightarrow> cv_static c) in
      Elem ''div'' [] [] [Elem ''b-modal'' [] [(''id'', ''challengeModal'')]
        [Elem ''div'' [''modal-body''] []
          [Elem ''button'' [''close''] [(''type'', ''button'')] [],
           Elem ''nav'' [] []
             [Elem ''div'' [''nav'', ''nav-tabs''] [(''id'', ''nav-tab'')]
                ([Elem ''a'' [''nav-item'', ''nav-link'', ''active''] [(''id'', ''nav-challenge-tab'')] [Text ''Challenge''],
                  Elem ''a'' [''nav-item'', ''nav-link''] [(''id'', ''nav-solves-tab'')]
                    [Text (show_nat (checkTeams (cp_teamsCompleted st)) @ '' Solves'')]]
                 @ (if static then [] else [reset_template rb, run_template ub]))],
           Elem ''div'' [''tab-content''] []
             [Elem ''div'' [''tab-pane'', ''fade'', ''show'', ''active''] [(''id'', ''nav-challenge'')]
                [Elem ''h2'' [''chal-name'', ''text-center'', ''pt-5'', ''pb-1''] []
                   [Text (case chalInfo st of None \<Rightarrow> [] | Some c \<Rightarrow> show_opt (cv_name c))],
                 Elem ''h4'' [''chal-value'', ''text-center'', ''mb-5''] []
                   [Text (case chalInfo st of None \<Rightarrow> [] | Some c \<Rightarrow> show_points (cv_points c))],
                 Elem ''span'' [''chal-desc'', ''mb-5''] []
                   [Elem ''p'' [] [(''html'', case chalInfo st of None \<Rightarrow> [] | Some c \<Rightarrow> show_opt (cv_description c))] []],
                 flag_template fc],
              Elem ''div'' [''tab-pane'', ''fade''] [(''id'', ''nav-solves'')]
                [Elem ''table'' [''table'', ''table-striped'', ''text-center'', ''mt-4''] []
                   [Elem ''thead'' [''thead-dark-custom''] []
                      [Elem ''tr'' [] [] [Elem ''th'' [] [] [Elem ''b'' [] [] [Text ''Name'']],
                                          Elem ''th'' [] [] [Elem ''b'' [] [] [Text ''Date'']]]],
                    if checkTeams (cp_teamsCompleted st) \<noteq> 0
                    then Elem ''tbody'' [] []
                           (map (solver_row lt) (case cp_teamsCompleted st of None \<Rightarrow> [] | Some ts \<Rightarrow> ts))
                    else Elem ''tbody'' [] []
                           [Elem ''tr'' [] [] [Elem ''td'' [] [(''colspan'', ''2'')]
                              [Text ''Nobody solved this challenge!'']]]]]]]]])"

subsection \<open>Lemmas\<close>

lemma keys_push_to [simp]: "map fst (push_to k el g) = map fst g"
  by (induction k el g rule: push_to.induct) auto

lemma map_of_push_to:
  "map_of (push_to k el g) k' =
     (if k' = k then map_option (\<lambda>els. els @ [el]) (map_of g k) else map_of g k')"
  by (induction k el g rule: push_to.induct) auto

definition group_list :: "groups \<Rightarrow> string \<Rightarrow> chal_view list" where
  "group_list g k = (case map_of g k of None \<Rightarrow> [] | Some els \<Rightarrow> els)"

lemma group_list_push:
  "k \<in> fst ` set g \<Longrightarrow> group_list (push_to k el g) k' = (if k' = k then group_list g k @ [el] else group_list g k')"
  by (auto simp: group_list_def map_of_push_to split: option.splits dest: map_of_eq_None_iff [THEN iffD1])

lemma group_all_ok:
  assumes "distinct (map fst g)" and "\<forall>el \<in> set els. category_key el \<notin> set inherited_names"
  shows "\<exists>g'. group_all (map Some els) g = (None, g') \<and> distinct (map fst g') \<and>
     fst ` set g' = fst ` set g \<union> category_key ` set els \<and>
     (\<forall>k. group_list g' k = group_list g k @ filter (\<lambda>el. category_key el = k) els)"
  using assms
proof (induction els arbitrary: g)
  case Nil
  then show ?case by simp
next
  case (Cons el els)
  let ?k = "category_key el"
  let ?g = "if ?k \<in> fst ` set g then g else g @ [(?k, [])]"
  have run: "group_all (map Some (el # els)) g = group_all (map Some els) (push_to ?k el ?g)"
    using Cons.prems(2) by (simp add: Let_def)
  have keys: "fst ` set ?g = insert ?k (fst ` set g)" and k: "?k \<in> fst ` set ?g"
    by (auto simp: image_iff)
  have d: "distinct (map fst (push_to ?k el ?g))" using Cons.prems(1) by auto
  have lists: "group_list (push_to ?k el ?g) j = group_list g j @ (if ?k = j then [el] else [])" for j
  proof -
    have "group_list ?g i = group_list g i" for i
      by (auto simp: group_list_def map_add_def split: option.split dest: map_of_eq_None_iff [THEN iffD2])
    then show ?thesis using group_list_push [OF k, of el j] by auto
  qed
  have push_keys: "fst ` set (push_to ?k el ?g) = fst ` set ?g"
    by (metis keys_push_to set_map)
  from Cons.IH [OF d] Cons.prems(2) obtain g' where
    g': "group_all (map Some els) (push_to ?k el ?g) = (None, g')" "distinct (map fst g')"
      "fst ` set g' = fst ` set (push_to ?k el ?g) \<union> category_key ` set els"
      "\<forall>j. group_list g' j = group_list (push_to ?k el ?g) j @ filter (\<lambda>el. category_key el = j) els"
    by auto
  show ?case
  proof (intro exI [of _ g'] conjI)
    show "group_all (map Some (el # els)) g = (None, g')" using run g'(1) by simp
    show "distinct (map fst g')" by (rule g'(2))
    show "fst ` set g' = fst ` set g \<union> category_key ` set (el # els)"
      using g'(3) push_keys keys by auto
    show "\<forall>j. group_list g' j = group_list g j @ filter (\<lambda>el. category_key el = j) (el # els)"
      using g'(4) lists by simp
  qed
qed

lemma group_all_fails:
  assumes "fst ` set g \<inter> set inherited_names = {}" and "el \<in> set els" and "category_key el \<in> set inherited_names"
  shows "fst (group_all (map Some els) g) = Some TypeError"
  using assms
proof (induction els arbitrary: g)
  case Nil
  then show ?case by simp
next
  case (Cons e els)
  let ?k = "category_key e"
  have keys: "fst ` set (push_to k x h) = fst ` set h" for k x h by (metis keys_push_to set_map)
  show ?case
  proof (cases "?k \<in> set inherited_names")
    case True
    with Cons.prems(1) have "?k \<notin> fst ` set g" by blast
    with True show ?thesis by (simp add: Let_def)
  next
    case False
    with Cons.prems have "el \<in> set els" by auto
    with Cons.IH Cons.prems False show ?thesis by (simp add: Let_def keys)
  qed
qed

lemma group_entries:
  assumes "distinct (map fst g)" and "(k, els) \<in> set g"
  shows "group_list g k = els"
  using assms by (simp add: group_list_def)

subsection \<open>Properties\<close>


definition chal_json :: "string \<Rightarrow> int \<Rightarrow> string \<Rightarrow> json" where
  "chal_json tag n cat =
     JObj [(''challenge'', JObj [(''tag'', JStr tag), (''name'', JStr tag), (''points'', JNum n), (''category'', JStr cat)]),
           (''isUserCompleted'', JBool False), (''teamsCompleted'', JNull), (''isChalDisabled'', JBool False)]"

definition sample_list :: json where
  "sample_list = JObj [(''msg'', JStr ''challenges''),
     (''values'', JArr [chal_json ''sql-1'' 20 ''Web'', chal_json ''xor'' 5 ''Crypto'', chal_json ''xss'' 10 ''Web'']),
     (''isLabAssigned'', JBool True)]"

definition sample_chal :: "string \<Rightarrow> int \<Rightarrow> string \<Rightarrow> chal_view" where
  "sample_chal tag n cat = \<lparr>cv_tag = Some tag, cv_name = Some tag, cv_points = Num n, cv_category = Some cat,
     cv_description = None, cv_static = False, cv_disabled = False, cv_completed = False, cv_teams = None\<rparr>"

lemma to_sample_chal: "\<bar>n\<bar> < 2 ^ 53 \<Longrightarrow> to_chal_view (chal_json tag n cat) = Some (sample_chal tag n cat)"
  by (simp add: to_chal_view_def chal_json_def sample_chal_def opt_str_def prop_num_def prop_bool_def prop_list_def)


text \<open>
  A challenge whose category is the name of an inherited property, such as \<^verbatim>\<open>constructor\<close>,
  makes sorting throw for the whole list; without one sorting succeeds.
\<close>
theorem sortChallenges_throws_iff:
  assumes "challengesFromAmigo st = Arr (map Some cs)"
  shows "fst (sortChallenges st) = Some TypeError \<longleftrightarrow> (\<exists>c \<in> set cs. category_key c \<in> set inherited_names)"
proof (cases "\<exists>c \<in> set cs. category_key c \<in> set inherited_names")
  case True
  then obtain c where "c \<in> set cs" "category_key c \<in> set inherited_names" by blast
  from group_all_fails [OF _ this, of "[]"] True assms show ?thesis
    by (auto simp: sortChallenges_def split: prod.splits)
next
  case False
  with group_all_ok [of "[]" cs] assms show ?thesis by (auto simp: sortChallenges_def)
qed

theorem sortChallenges_throws_iff_witness:
  "fst (sortChallenges (challenges_init\<lparr>challengesFromAmigo := Arr (map Some [sample_chal ''a'' 1 ''constructor''])\<rparr>))
     = Some TypeError"
  using sortChallenges_throws_iff
    [of "challenges_init\<lparr>challengesFromAmigo := Arr (map Some [sample_chal ''a'' 1 ''constructor''])\<rparr>"
        "[sample_chal ''a'' 1 ''constructor'']"]
  by (simp add: sample_chal_def category_key_def inherited_names_def)

text \<open>
  Once the list is shown, every further frame without a challenge list ends with a
  TypeError and leaves the page as it was: the handler sorts the already grouped value again.
\<close>
theorem later_frame_throws:
  assumes "challengesFromAmigo st = Groups g" and "js \<noteq> []"
    and "\<forall>j \<in> set js. j \<noteq> JNull \<and> \<not> is_msg ''challenges'' j"
  shows "challenges_receive (join_with newline (map json_marshal js)) st = (Some TypeError, st)"
proof -
  have "handle_values challenges_handle js st = (None, st)"
    using assms(3) by (induction js) (auto simp: challenges_handle_def)
  with assms show ?thesis
    using on_frame_printed [OF assms(2), of challenges_handle st]
    by (auto simp: challenges_receive_def sortChallenges_def)
qed

theorem later_frame_throws_witness:
  "challenges_receive (json_marshal (JObj [(''msg'', JStr ''scoreboard'')]))
     (challenges_init\<lparr>challengesFromAmigo := Groups []\<rparr>) =
     (Some TypeError, challenges_init\<lparr>challengesFromAmigo := Groups []\<rparr>)"
  using later_frame_throws [of "challenges_init\<lparr>challengesFromAmigo := Groups []\<rparr>" "[]"
      "[JObj [(''msg'', JStr ''scoreboard'')]]"]
  by (simp add: is_msg_def del: json_marshal.simps)

text \<open>
  However sockets close and reopen, the open sockets and the pending reconnections
  together are one more than the flags found and the challenges reset, started or stopped since
  the page was opened: each opens a socket and none is ever given up.
\<close>
theorem sockets_leak:
  "ps_sockets (fold page_step evs page_created) + ps_timers (fold page_step evs page_created)
     = 1 + length (filter is_child_event evs)"
proof (induction evs rule: rev_induct)
  case Nil
  show ?case by (simp add: page_created_def connectToWS_def)
next
  case (snoc e evs)
  then show ?case by (cases e) (simp_all add: is_child_event_def connectToWS_def)
qed

end
