(* ===== verification/Vue_Vpn.thy ===== *)
theory Vue_Vpn
  imports Vue_Forms
begin

text \<open>
  The VPN menu of the navigation bar (components/VPNDropdown.vue): a click empties the list and
  asks for the connections, the answer is appended; a click on an entry downloads its file.
  \<open>dropdown_history\<close> runs clicks and answers in any interleaving.
\<close>

record dropdown =
  dropDownList :: "json list"

definition dropdown_init :: dropdown where
  "dropdown_init = \<lparr>dropDownList = []\<rparr>"

definition createDropDown :: "dropdown \<Rightarrow> dropdown \<times> effect list" where
  "createDropDown st = (st\<lparr>dropDownList := []\<rparr>, [Fetch ''/vpn/status'' None])"

text \<open>
  The items \<^verbatim>\<open>res[i]\<close> for \<open>i\<close> below \<^verbatim>\<open>res.length\<close>: an array's elements, a string's characters;
  the objects the server sends (errors) have no \<^verbatim>\<open>length\<close>.
\<close>

definition indexed_items :: "json \<Rightarrow> json list" where
  "indexed_items res = (case res of JArr js \<Rightarrow> js | JStr s \<Rightarrow> map (\<lambda>c. JStr [c]) s | _ \<Rightarrow> [])"

definition dropdown_response :: "json \<Rightarrow> dropdown \<Rightarrow> js_error option \<times> dropdown" where
  "dropdown_response res st =
     (if res = JNull then (Some TypeError, st)
      else (None, foldl (\<lambda>st item. st\<lparr>dropDownList := dropDownList st @ [item]\<rparr>) st (indexed_items res)))"


text \<open>The request of \<^verbatim>\<open>downloadConf\<close>, and the file it saves when the data arrives.\<close>

definition downloadConf :: "string \<Rightarrow> string \<Rightarrow> effect" where
  "downloadConf vpnConnID status =
     Fetch ''/vpn/download'' (Some (JObj [(''vpnConnID'', JStr vpnConnID), (''status'', JStr status)]))"

definition save_download :: "string \<Rightarrow> string \<Rightarrow> string \<times> string" where
  "save_download vpnConnID data = (vpnConnID @ ''.conf'', data)"

definition dropdown_item :: "json \<Rightarrow> vnode" where
  "dropdown_item item =
     Elem ''a'' [''dropdown-item'', ''vpn-dd-line''] [(''key'', prop_str ''vpnConnID'' item)]
       [Text (prop_str ''vpnConnID'' item),
        Elem ''span'' [''float-right''] [] [Text (prop_str ''status'' item)]]"

definition dropdown_template :: "dropdown \<Rightarrow> vnode" where
  "dropdown_template st =
     Elem ''div'' [''dropdown''] []
       [Elem ''button'' [''btn'', ''btn-haaukins'', ''dropdown-toggle'', ''dropdown-css'']
          [(''id'', ''dropdownMenuButton'')] [Text ''VPN''],
        Elem ''div'' [''dropdown-menu'', ''custom-css''] [] (map dropdown_item (dropDownList st))]"

subsection \<open>Clicks and answers\<close>

datatype vpn_event = OpenMenu | Answer json

fun vpn_step :: "vpn_event \<Rightarrow> dropdown \<Rightarrow> dropdown" where
  "vpn_step OpenMenu st = fst (createDropDown st)"
| "vpn_step (Answer res) st = snd (dropdown_response res st)"

definition dropdown_history :: "vpn_event list \<Rightarrow> dropdown" where
  "dropdown_history evs = fold vpn_step evs dropdown_init"

text \<open>What was answered since the last click, whichever click the answers belong to.\<close>

fun answered :: "vpn_event list \<Rightarrow> json list" where
  "answered [] = []"
| "answered (OpenMenu # evs) = answered evs"
| "answered (Answer res # evs) = indexed_items res @ answered evs"

definition since_click :: "vpn_event list \<Rightarrow> vpn_event list" where
  "since_click evs = rev (takeWhile (\<lambda>e. e \<noteq> OpenMenu) (rev evs))"

lemma dropdown_response_items:
  "dropDownList (snd (dropdown_response res st)) = dropDownList st @ indexed_items res"
proof -
  have "dropDownList (foldl (\<lambda>st item. st\<lparr>dropDownList := dropDownList st @ [item]\<rparr>) st js)
      = dropDownList st @ js" for st :: dropdown and js
    by (induction js arbitrary: st) simp_all
  then show ?thesis by (simp add: dropdown_response_def indexed_items_def)
qed

lemma answered_append: "answered (evs @ evs') = answered evs @ answered evs'"
  by (induction evs rule: answered.induct) simp_all

text \<open>
  The menu shows every connection answered since the last click, in order: two clicks
  before the first answer show the list twice.
\<close>
theorem dropdown_contents:
  "dropDownList (dropdown_history evs) = answered (since_click evs) \<and>
   dropDownList (dropdown_history [OpenMenu, OpenMenu, Answer (JArr js), Answer (JArr js)]) = js @ js"
proof -
  have "dropDownList (dropdown_history evs) = answered (since_click evs)" for evs
  proof (induction evs rule: rev_induct)
    case Nil
    show ?case by (simp add: dropdown_history_def dropdown_init_def since_click_def)
  next
    case (snoc e evs)
    then show ?case
      by (cases e) (simp_all add: dropdown_history_def since_click_def createDropDown_def
          dropdown_response_items answered_append)
  qed
  note this [of evs] this [of "[OpenMenu, OpenMenu, Answer (JArr js), Answer (JArr js)]"]
  then show ?thesis by (simp add: since_click_def indexed_items_def)
qed

end
