(* ===== verification/Page.thy ===== *)
theory Page
  imports Page_Messages
begin

text \<open>
  What runs on every page: the mounting of the components (src/main.js), the focus classes of
  the input fields and the navigation bar (public/js/amigo.js, and the same listeners in
  FlagChecker.vue), and the build configuration (vue.config.js, babel.config.js). The document is the
  list of the element identifiers it holds; mounting an application replaces its mount point
  by the component's own elements.
\<close>

subsection \<open>main.js\<close>

datatype component = VPNDropdown | ResetFrontend | FlagChecker | Scoreboard | ChallegesPage | TeamsPage

text \<open>The identifiers in a component's template, as it is first rendered.\<close>

fun template_ids :: "component \<Rightarrow> string list" where
  "template_ids VPNDropdown = [''dropdownMenuButton'']"
| "template_ids ResetFrontend = []"
| "template_ids FlagChecker = []"
| "template_ids Scoreboard = [''scoreboardtable'']"
| "template_ids ChallegesPage = [''challenges-board'']"
| "template_ids TeamsPage = [''teams'']"

record document =
  doc_ids :: "string list"
  doc_apps :: "(string \<times> component) list"

definition getElementById :: "string \<Rightarrow> document \<Rightarrow> bool" where
  "getElementById i d \<longleftrightarrow> i \<in> set (doc_ids d)"

definition mount :: "string \<Rightarrow> component \<Rightarrow> document \<Rightarrow> document" where
  "mount i c d = d\<lparr>doc_ids := remove1 i (doc_ids d) @ template_ids c, doc_apps := doc_apps d @ [(i, c)]\<rparr>"

definition mount_if :: "string \<Rightarrow> component \<Rightarrow> document \<Rightarrow> document" where
  "mount_if i c d = (if getElementById i d then mount i c d else d)"

definition main_js :: "document \<Rightarrow> document" where
  "main_js d0 =
     (let d = mount_if ''vpn-dropdown'' VPNDropdown d0;
          d = mount_if ''vpn-dropdown-2'' VPNDropdown d;
          d = mount_if ''reset-frontend'' ResetFrontend d;
          d = mount_if ''flagchecker'' FlagChecker d;
          d = mount_if ''scoreboard'' Scoreboard d;
          d = mount_if ''challenges'' ChallegesPage d;
          d = mount_if ''teamspagevue'' TeamsPage d
      in d)"

definition mount_points :: "(string \<times> component) list" where
  "mount_points =
     [(''vpn-dropdown'', VPNDropdown), (''vpn-dropdown-2'', VPNDropdown), (''reset-frontend'', ResetFrontend),
      (''flagchecker'', FlagChecker), (''scoreboard'', Scoreboard), (''challenges'', ChallegesPage),
      (''teamspagevue'', TeamsPage)]"

lemma main_js_fold: "main_js d = foldl (\<lambda>d (i, c). mount_if i c d) d mount_points"
  by (simp add: main_js_def mount_points_def Let_def)

lemma mount_ids:
  "distinct (doc_ids d) \<Longrightarrow> k \<in> set (doc_ids (mount_if i c d)) \<longleftrightarrow>
     (if i \<in> set (doc_ids d) then (k \<noteq> i \<and> k \<in> set (doc_ids d)) \<or> k \<in> set (template_ids c) else k \<in> set (doc_ids d))"
  by (auto simp: mount_if_def mount_def getElementById_def)

text \<open>
  Mounting from a list of mount points none of whose templates holds a mount point: what was
  mounted before, then those of the list whose element the original document has.
\<close>

lemma mount_all:
  assumes "distinct (map fst ms)" and "\<forall>(i, c) \<in> set ms. \<forall>(j, e) \<in> set ms. i \<notin> set (template_ids e)"
    and "\<forall>i \<in> fst ` set ms. count_list (doc_ids d) i \<le> 1"
  shows "doc_apps (foldl (\<lambda>d (i, c). mount_if i c d) d ms) =
      doc_apps d @ filter (\<lambda>(i, c). i \<in> set (doc_ids d)) ms \<and>
    (\<forall>i \<in> fst ` set ms. i \<notin> set (doc_ids (foldl (\<lambda>d (i, c). mount_if i c d) d ms))) \<and>
    (\<forall>i. (\<forall>(j, e) \<in> set ms. i \<noteq> j \<and> i \<notin> set (template_ids e)) \<longrightarrow>
       (i \<in> set (doc_ids (foldl (\<lambda>d (i, c). mount_if i c d) d ms)) \<longleftrightarrow> i \<in> set (doc_ids d)))"
  using assms
proof (induction ms arbitrary: d)
  case Nil
  then show ?case by simp
next
  case (Cons m ms)
  obtain i c where m: "m = (i, c)" by (cases m)
  let ?d = "mount_if i c d"
  have count: "count_list (remove1 i xs) j = (if j = i then count_list xs j - 1 else count_list xs j)" for xs j
    by (induction xs) auto
  have zero: "count_list xs j = 0 \<longleftrightarrow> j \<notin> set xs" for xs and j :: string
    by (rule count_list_0_iff)
  have app: "count_list (xs @ ys) j = count_list xs j + count_list ys j" for xs ys and j :: string
    by (induction xs) auto
  have ids: "count_list (doc_ids ?d) j =
      (if i \<in> set (doc_ids d) then (if j = i then count_list (doc_ids d) j - 1 else count_list (doc_ids d) j)
         + count_list (template_ids c) j else count_list (doc_ids d) j)" for j
    by (simp add: mount_if_def mount_def getElementById_def app count)
  have tmpl: "count_list (template_ids c) j = 0" if "j \<in> insert i (fst ` set ms)" for j
    using that Cons.prems(2) by (auto simp: m zero)
  have same: "j \<in> set (doc_ids ?d) \<longleftrightarrow> j \<in> set (doc_ids d)" if "j \<noteq> i" "count_list (template_ids c) j = 0" for j
    using that by (auto simp: mount_if_def mount_def getElementById_def zero)
  have gone: "i \<notin> set (doc_ids ?d)"
  proof -
    have "count_list (doc_ids d) i \<le> 1" using Cons.prems(3) by (simp add: m)
    with ids [of i] tmpl [of i] zero [of "doc_ids d" i] have "count_list (doc_ids ?d) i = 0"
      by (cases "i \<in> set (doc_ids d)") simp_all
    then show ?thesis by (simp only: zero) simp
  qed
  have IH: "doc_apps (foldl (\<lambda>d (i, c). mount_if i c d) ?d ms) =
      doc_apps ?d @ filter (\<lambda>(i, c). i \<in> set (doc_ids ?d)) ms \<and>
    (\<forall>i \<in> fst ` set ms. i \<notin> set (doc_ids (foldl (\<lambda>d (i, c). mount_if i c d) ?d ms))) \<and>
    (\<forall>i. (\<forall>(j, e) \<in> set ms. i \<noteq> j \<and> i \<notin> set (template_ids e)) \<longrightarrow>
       (i \<in> set (doc_ids (foldl (\<lambda>d (i, c). mount_if i c d) ?d ms)) \<longleftrightarrow> i \<in> set (doc_ids ?d)))"
  proof (rule Cons.IH)
    show "distinct (map fst ms)" using Cons.prems(1) by (simp add: m)
    show "\<forall>(i, c) \<in> set ms. \<forall>(j, e) \<in> set ms. i \<notin> set (template_ids e)" using Cons.prems(2) by auto
    show "\<forall>i \<in> fst ` set ms. count_list (doc_ids ?d) i \<le> 1"
      using Cons.prems(1,3) ids tmpl by (auto simp: m)
  qed
  have i_new: "i \<notin> fst ` set ms" using Cons.prems(1) by (simp add: m)
  have filt: "filter (\<lambda>(i, c). i \<in> set (doc_ids ?d)) ms = filter (\<lambda>(i, c). i \<in> set (doc_ids d)) ms"
  proof (rule filter_cong [OF refl])
    fix x assume "x \<in> set ms"
    then have f: "fst x \<in> fst ` set ms" by simp
    then have "fst x \<noteq> i" and "count_list (template_ids c) (fst x) = 0" using i_new tmpl by auto
    from same [OF this] show "(case x of (i, c) \<Rightarrow> i \<in> set (doc_ids ?d)) = (case x of (i, c) \<Rightarrow> i \<in> set (doc_ids d))"
      by (simp add: case_prod_beta)
  qed
  have apps: "doc_apps ?d = doc_apps d @ (if i \<in> set (doc_ids d) then [(i, c)] else [])"
    by (simp add: mount_if_def mount_def getElementById_def)
  have keep: "i \<notin> set (doc_ids (foldl (\<lambda>d (i, c). mount_if i c d) ?d ms))"
  proof -
    have "\<forall>(j, e) \<in> set ms. i \<noteq> j \<and> i \<notin> set (template_ids e)"
      using i_new Cons.prems(2) by (force simp: m)
    with IH gone show ?thesis by blast
  qed
  have rest: "k \<in> set (doc_ids ?d) \<longleftrightarrow> k \<in> set (doc_ids d)"
    if "\<forall>(j, e) \<in> set (m # ms). k \<noteq> j \<and> k \<notin> set (template_ids e)" for k
    using that by (intro same) (auto simp: m zero)
  show ?case
    using IH filt apps keep rest by (auto simp: m)
qed

subsection \<open>Input fields\<close>

text \<open>
  An input's value and whether the wrapper two levels up carries the class \<^verbatim>\<open>focus\<close>. Both
  amigo.js and FlagChecker.vue register a pair of listeners, so an event runs the handler
  once per registration.
\<close>

record field =
  fld_value :: string
  fld_focus :: bool

definition addcl :: "field \<Rightarrow> field" where
  "addcl s = s\<lparr>fld_focus := True\<rparr>"

definition remcl :: "field \<Rightarrow> field" where
  "remcl s = (if fld_value s = [] then s\<lparr>fld_focus := False\<rparr> else s)"

datatype field_event = FocusIn | FocusOut | Edit string

fun field_step :: "nat \<Rightarrow> field_event \<Rightarrow> field \<Rightarrow> field" where
  "field_step listeners FocusIn s = (addcl ^^ listeners) s"
| "field_step listeners FocusOut s = (remcl ^^ listeners) s"
| "field_step listeners (Edit v) s = s\<lparr>fld_value := v\<rparr>"

subsection \<open>The navigation bar\<close>

text \<open>The top of \<^verbatim>\<open>#content\<close> and the classes of \<^verbatim>\<open>#mainNav\<close>, where the page has these elements.\<close>

record nav_page =
  content_top :: "int option"
  nav_classes :: "string list option"

definition navbarCollapse :: "nav_page \<Rightarrow> js_error option \<times> nav_page" where
  "navbarCollapse p =
     (case content_top p of
        None \<Rightarrow> (Some TypeError, p)
      | Some y \<Rightarrow>
          (case nav_classes p of
             None \<Rightarrow> (Some TypeError, p)
           | Some cls \<Rightarrow>
               (None, p\<lparr>nav_classes := Some (if y < 0 then
                    (if ''navbar-shrink'' \<in> set cls then cls else cls @ [''navbar-shrink''])
                  else filter (\<lambda>c. c \<noteq> ''navbar-shrink'') cls)\<rparr>)))"

text \<open>
  The script: the first call, and, if it returned, the handler for every scroll, each of which
  moves the content to a new position.
\<close>

definition scroll_to :: "int \<Rightarrow> nav_page \<Rightarrow> nav_page" where
  "scroll_to y p = snd (navbarCollapse (p\<lparr>content_top := Some y\<rparr>))"

definition amigo_js :: "int list \<Rightarrow> nav_page \<Rightarrow> js_error option \<times> nav_page" where
  "amigo_js tops p =
     (case navbarCollapse p of
        (Some e, p') \<Rightarrow> (Some e, p')
      | (None, p') \<Rightarrow> (None, foldl (\<lambda>p y. scroll_to y p) p' tops))"

subsection \<open>The build\<close>

record cache_group =
  cg_test :: "string \<Rightarrow> bool"
  cg_name :: string
  cg_chunks :: string

record webpack_config =
  filename :: string
  chunkFilename :: string
  mode :: string
  nodeEnv :: string
  minimize :: bool
  commons :: cache_group

definition is_sep :: "char \<Rightarrow> bool" where
  "is_sep c \<longleftrightarrow> c = CHR 0x5C \<or> c = CHR ''/''"

text \<open>The regular expression of the test: a separator, \<^verbatim>\<open>node_modules\<close>, a separator, anywhere.\<close>

fun node_modules_test :: "string \<Rightarrow> bool" where
  "node_modules_test [] = False"
| "node_modules_test (c # p) =
     ((is_sep c \<and> starts_with ''node_modules'' p \<and> drop 12 p \<noteq> [] \<and> is_sep (hd (drop 12 p)))
      \<or> node_modules_test p)"

definition vue_config :: webpack_config where
  "vue_config = \<lparr>filename = ''[name].js'', chunkFilename = ''[name].js'', mode = ''production'',
     nodeEnv = ''production'', minimize = True,
     commons = \<lparr>cg_test = node_modules_test, cg_name = ''vendors'', cg_chunks = ''all''\<rparr>\<rparr>"

definition babel_presets :: "string list" where
  "babel_presets = [''@vue/cli-plugin-babel/preset'']"

text \<open>The file a module of the application (entry \<^verbatim>\<open>app\<close>) ends up in.\<close>

definition bundle_file :: "string \<Rightarrow> string" where
  "bundle_file path =
     js_replace ''[name]''
       (if cg_test (commons vue_config) path then cg_name (commons vue_config) else ''app'')
       (chunkFilename vue_config)"

fun segments :: "string \<Rightarrow> string list" where
  "segments [] = [[]]"
| "segments (c # p) =
     (if is_sep c then [] # segments p
      else case segments p of [] \<Rightarrow> [[c]] | s # ss \<Rightarrow> (c # s) # ss)"

subsection \<open>Properties\<close>

text \<open>
  On a page whose mount points occur at most once, each of the seven applications is
  mounted exactly when the page has its element, in the fixed order, and no mount point is
  left: no component's own elements make another application mount.
\<close>
theorem main_js_mounts:
  assumes "\<forall>i \<in> fst ` set mount_points. count_list (doc_ids d) i \<le> 1"
  shows "doc_apps (main_js d) = doc_apps d @ filter (\<lambda>(i, c). i \<in> set (doc_ids d)) mount_points \<and>
    (\<forall>i \<in> fst ` set mount_points. i \<notin> set (doc_ids (main_js d)))"
proof -
  have "distinct (map fst mount_points)" by (simp add: mount_points_def)
  moreover have "\<forall>(i, c) \<in> set mount_points. \<forall>(j, e) \<in> set mount_points. i \<notin> set (template_ids e)"
    by (simp add: mount_points_def)
  ultimately show ?thesis
    using mount_all [of mount_points d] assms by (simp add: main_js_fold)
qed

theorem main_js_mounts_witness:
  "doc_apps (main_js \<lparr>doc_ids = [''mainNav'', ''vpn-dropdown-2'', ''content'', ''scoreboard''], doc_apps = []\<rparr>) =
     [(''vpn-dropdown-2'', VPNDropdown), (''scoreboard'', Scoreboard)]"
proof -
  let ?d = "\<lparr>doc_ids = [''mainNav'', ''vpn-dropdown-2'', ''content'', ''scoreboard''], doc_apps = []\<rparr>"
  have "\<forall>i \<in> fst ` set mount_points. count_list (doc_ids ?d) i \<le> 1" by (simp add: mount_points_def)
  from main_js_mounts [OF this] show ?thesis by (simp add: mount_points_def)
qed

lemma addcl_pow: "0 < n \<Longrightarrow> (addcl ^^ n) s = s\<lparr>fld_focus := True\<rparr>"
proof (induction n)
  case (Suc n)
  then show ?case by (cases n) (simp_all add: addcl_def)
qed simp

lemma remcl_pow: "0 < n \<Longrightarrow> (remcl ^^ n) s = remcl s"
proof (induction n)
  case (Suc n)
  then show ?case by (cases n) (simp_all add: remcl_def)
qed simp

text \<open>
  With at least one pair of listeners, whatever was typed before and during a visit of a
  field, after the visit its label is raised exactly when the field is not empty; how often the
  listeners were registered makes no difference.
\<close>
theorem focus_after_visit:
  assumes "0 < listeners"
  shows "fold (field_step listeners) (FocusIn # map Edit vs @ [FocusOut]) s =
     \<lparr>fld_value = last (fld_value s # vs), fld_focus = (last (fld_value s # vs) \<noteq> [])\<rparr>"
proof -
  have edits: "fold (field_step n) (map Edit vs) s = s\<lparr>fld_value := last (fld_value s # vs)\<rparr>" for n and s :: field
    by (induction vs arbitrary: s) simp_all
  show ?thesis
    by (cases s) (simp add: assms addcl_pow remcl_pow edits remcl_def)
qed

theorem focus_after_visit_witness:
  "fold (field_step 2) [FocusIn, Edit ''H'', FocusOut] \<lparr>fld_value = [], fld_focus = False\<rparr> =
     \<lparr>fld_value = ''H'', fld_focus = True\<rparr>"
  using focus_after_visit [of 2 "[''H'']" "\<lparr>fld_value = [], fld_focus = False\<rparr>"] by simp

text \<open>
  On a page that has both elements the script never throws and the bar is shrunk exactly
  while the content is scrolled past the top; on a page without one of them it throws at once.
\<close>
theorem navbar_tracks_scroll:
  "(case amigo_js tops p of (e, p') \<Rightarrow>
     if content_top p = None \<or> nav_classes p = None then e = Some TypeError \<and> p' = p
     else e = None \<and>
       (''navbar-shrink'' \<in> set (the (nav_classes p')) \<longleftrightarrow> last (the (content_top p) # tops) < 0) \<and>
       filter (\<lambda>c. c \<noteq> ''navbar-shrink'') (the (nav_classes p')) =
         filter (\<lambda>c. c \<noteq> ''navbar-shrink'') (the (nav_classes p)))"
proof (cases "content_top p = None \<or> nav_classes p = None")
  case True
  then show ?thesis
    by (auto simp: amigo_js_def navbarCollapse_def split: option.splits)
next
  case False
  let ?good = "\<lambda>q y. content_top q = Some y \<and> nav_classes q \<noteq> None \<and>
      (''navbar-shrink'' \<in> set (the (nav_classes q)) \<longleftrightarrow> y < 0) \<and>
      filter (\<lambda>c. c \<noteq> ''navbar-shrink'') (the (nav_classes q)) =
         filter (\<lambda>c. c \<noteq> ''navbar-shrink'') (the (nav_classes p))"
  from False obtain y cls where top: "content_top p = Some y" and cls: "nav_classes p = Some cls" by auto
  have first: "fst (navbarCollapse p) = None \<and> ?good (snd (navbarCollapse p)) y"
    by (auto simp: navbarCollapse_def top cls)
  have nxt: "?good (scroll_to t q) t" if "?good q u" for q t u
    using that by (auto simp: scroll_to_def navbarCollapse_def split: option.splits)
  have all: "?good (foldl (\<lambda>p t. scroll_to t p) q tops) (last (u # tops))" if "?good q u" for q u
    using that
  proof (induction tops arbitrary: q u)
    case (Cons t tops)
    from Cons.IH [OF nxt [OF Cons.prems, of t]] show ?case by simp
  qed simp
  from first all [of "snd (navbarCollapse p)" y] False show ?thesis
    by (simp add: amigo_js_def top case_prod_beta split: option.split)
qed

lemma segments_nonempty [simp]: "segments p \<noteq> []"
  by (cases p) (auto split: list.split)

lemma segments_cons: "\<not> is_sep c \<Longrightarrow> segments (c # p) = (c # hd (segments p)) # tl (segments p)"
  by (cases "segments p") (auto dest: sym)

lemma first_segment:
  "\<forall>c \<in> set w. \<not> is_sep c \<Longrightarrow>
   starts_with w p \<and> drop (length w) p \<noteq> [] \<and> is_sep (hd (drop (length w) p)) \<longleftrightarrow>
   hd (segments p) = w \<and> tl (segments p) \<noteq> []"
proof (induction w arbitrary: p)
  case Nil
  show ?case
  proof (cases p)
    case (Cons c q)
    then show ?thesis by (cases "is_sep c") (simp_all add: segments_cons del: segments.simps(2), simp)
  qed simp
next
  case (Cons x w)
  then have x: "\<not> is_sep x" by simp
  show ?case
  proof (cases p)
    case (Cons c q)
    show ?thesis
    proof (cases "is_sep c")
      case True
      with x have "x \<noteq> c" by auto
      with True show ?thesis by (simp add: \<open>p = c # q\<close>)
    next
      case False
      with Cons.IH [of q] Cons.prems \<open>p = c # q\<close> show ?thesis
        by (simp add: segments_cons del: segments.simps(2)) blast
    qed
  qed simp
qed

lemma test_segments: "node_modules_test p \<longleftrightarrow> ''node_modules'' \<in> set (butlast (tl (segments p)))"
proof (induction p)
  case Nil
  show ?case by simp
next
  case (Cons c p)
  have "\<forall>c \<in> set ''node_modules''. \<not> is_sep c" by (simp add: is_sep_def)
  from first_segment [OF this, of p]
  have here: "starts_with ''node_modules'' p \<and> drop 12 p \<noteq> [] \<and> is_sep (hd (drop 12 p)) \<longleftrightarrow>
      hd (segments p) = ''node_modules'' \<and> tl (segments p) \<noteq> []" by (simp add: eval_nat_numeral)
  obtain s ss where seg: "segments p = s # ss" by (metis list.exhaust segments_nonempty)
  show ?case
  proof (cases "is_sep c")
    case True
    with Cons.IH here seg show ?thesis by (auto simp del: starts_with.simps)
  next
    case False
    with Cons.IH show ?thesis by (simp add: segments_cons del: segments.simps(2) starts_with.simps)
  qed
qed

text \<open>
  A module is bundled into vendors.js exactly when \<^verbatim>\<open>node_modules\<close> is a directory on its path
  that is neither the first nor the last segment, with either kind of separator, and into
  app.js otherwise: the two files the pages load.
\<close>
theorem bundle_files:
  "bundle_file path =
     (if ''node_modules'' \<in> set (butlast (tl (segments path))) then ''vendors.js'' else ''app.js'')"
  by (simp add: bundle_file_def vue_config_def test_segments)

end
