(* ===== verification/Store_Config.thy ===== *)
theory Store_Config
  imports Complex_Main Go_Runtime
begin

unbundle bit_operations_syntax

text \<open>
  Tags, flags and exercise configurations (store/flag.go, store/exercise.go, store/model.go,
  the configuration part of lab/lab.go) and the store of frontends (store/frontend.go). The
  regular expression of a tag is a \<open>regex\<close>, matched by derivatives. Random numbers are
  streams with a position: \<open>src k\<close> is the k-th value of \<^verbatim>\<open>flagSrc.Int63()\<close>, a 63-bit word, and \<open>rnd k\<close>
  the k-th result of \<^verbatim>\<open>rand.Intn(2)\<close>. The loop of \<^verbatim>\<open>randCharBytes\<close> ends only if the source gives
  enough usable groups of six bits, so it is a partial function; its \<open>left\<close> is the source's \<open>i + 1\<close>.
\<close>

subsection \<open>Tags\<close>

datatype config_error =
    TagEmptyErr
  | InvalidTagSyntaxErr string
  | EmptyVar string string
  | CpuNegative
  | ImageNotDefinedErr
  | MemoryNotDefinedErr

datatype regex = Never | Epsilon | Chars "char list" | Seq regex regex | Alt regex regex | Star regex

fun nullable :: "regex \<Rightarrow> bool" where
  "nullable Never = False"
| "nullable Epsilon = True"
| "nullable (Chars cs) = False"
| "nullable (Seq r s) = (nullable r \<and> nullable s)"
| "nullable (Alt r s) = (nullable r \<or> nullable s)"
| "nullable (Star r) = True"

fun deriv :: "char \<Rightarrow> regex \<Rightarrow> regex" where
  "deriv c Never = Never"
| "deriv c Epsilon = Never"
| "deriv c (Chars cs) = (if c \<in> set cs then Epsilon else Never)"
| "deriv c (Seq r s) =
     (if nullable r then Alt (Seq (deriv c r) s) (deriv c s) else Seq (deriv c r) s)"
| "deriv c (Alt r s) = Alt (deriv c r) (deriv c s)"
| "deriv c (Star r) = Seq (deriv c r) (Star r)"

definition MatchString :: "regex \<Rightarrow> string \<Rightarrow> bool" where
  "MatchString r s = nullable (foldl (\<lambda>r c. deriv c r) r s)"

definition tag_alnum :: "char list" where
  "tag_alnum = ''abcdefghijklmnopqrstuvwxyz0123456789''"

definition tagRegex :: regex where
  "tagRegex = Seq (Chars tag_alnum) (Seq (Star (Chars (tag_alnum @ ''-''))) (Chars tag_alnum))"

definition Tag_Validate :: "string \<Rightarrow> config_error option" where
  "Tag_Validate s =
     (if s = [] then Some TagEmptyErr
      else if \<not> MatchString tagRegex s then Some (InvalidTagSyntaxErr s)
      else None)"

definition NewTag :: "string \<Rightarrow> config_error + string" where
  "NewTag s = (case Tag_Validate s of Some e \<Rightarrow> Inl e | None \<Rightarrow> Inr s)"

subsection \<open>Flags\<close>

definition letterBytes :: string where
  "letterBytes = ''abcdefghijklmnopqrstuvwxyzABCDEFGHIJKLMNOPQRSTUVWXYZ12345679''"

definition letterIdxBits :: nat where "letterIdxBits = 6"
definition letterIdxMask :: "63 word" where "letterIdxMask = push_bit letterIdxBits 1 - 1"
definition letterIdxMax :: nat where "letterIdxMax = 63 div letterIdxBits"

partial_function (option) rand_loop ::
  "(nat \<Rightarrow> 63 word) \<Rightarrow> nat \<Rightarrow> 63 word \<Rightarrow> nat \<Rightarrow> nat \<Rightarrow> string \<Rightarrow> (string \<times> nat) option" where
  "rand_loop src left cache remain pos b =
     (if left = 0 then Some (b, pos)
      else
        let cr = (if remain = 0 then (src pos, letterIdxMax, pos + 1) else (cache, remain, pos));
            idx = unat (fst cr AND letterIdxMask);
            ok = idx < length letterBytes
        in rand_loop src (if ok then left - 1 else left) (drop_bit letterIdxBits (fst cr)) (fst (snd cr) - 1)
             (snd (snd cr)) (if ok then b[left - 1 := letterBytes ! idx] else b))"

definition randCharBytes :: "(nat \<Rightarrow> 63 word) \<Rightarrow> nat \<Rightarrow> nat \<Rightarrow> (string \<times> nat) option" where
  "randCharBytes src n pos = rand_loop src n (src pos) letterIdxMax (pos + 1) (replicate n (CHR 0x00))"

definition flagUniqueChars :: nat where "flagUniqueChars = 10"
definition flagNumCharsFormat :: nat where "flagNumCharsFormat = 15"

text \<open>The array is filled byte by byte; a longer text would be out of its range.\<close>

definition formatFlag :: "string \<Rightarrow> string" where
  "formatFlag arr =
     (let flag = ''HKN{'' @ arr @ ''}''
      in foldl (\<lambda>f k. f[k := flag ! k]) (replicate flagNumCharsFormat (CHR 0x00)) [0..<length flag])"

definition NewFlag :: "(nat \<Rightarrow> 63 word) \<Rightarrow> nat \<Rightarrow> (string \<times> nat) option" where
  "NewFlag src pos =
     (case randCharBytes src 10 pos of None \<Rightarrow> None | Some (s, pos') \<Rightarrow> Some (formatFlag (take flagUniqueChars s), pos'))"

definition Flag_String :: "string \<Rightarrow> nat \<Rightarrow> nat \<Rightarrow> string" where
  "Flag_String f r1 r2 =
     (let str = drop 4 (take (flagNumCharsFormat - 1) f); i = 2 + r1; j = i + 2 + r2
      in ''HKN{'' @ take i str @ ''-'' @ drop i (take j str) @ ''-'' @ drop j str @ ''}'')"

subsection \<open>What the expressions match\<close>

inductive_set star :: "string set \<Rightarrow> string set" for A where
  nil: "[] \<in> star A"
| app: "a \<in> A \<Longrightarrow> b \<in> star A \<Longrightarrow> a @ b \<in> star A"

fun lang :: "regex \<Rightarrow> string set" where
  "lang Never = {}"
| "lang Epsilon = {[]}"
| "lang (Chars cs) = {[c] |c. c \<in> set cs}"
| "lang (Seq r s) = {a @ b |a b. a \<in> lang r \<and> b \<in> lang s}"
| "lang (Alt r s) = lang r \<union> lang s"
| "lang (Star r) = star (lang r)"

lemma nullable_lang: "nullable r \<longleftrightarrow> [] \<in> lang r"
  by (induction r) (auto intro: star.nil)

lemma star_Cons: "c # s \<in> star A \<longleftrightarrow> (\<exists>a b. s = a @ b \<and> c # a \<in> A \<and> b \<in> star A)"
proof
  assume "c # s \<in> star A"
  then show "\<exists>a b. s = a @ b \<and> c # a \<in> A \<and> b \<in> star A"
    by (induction "c # s") (auto simp: append_eq_Cons_conv)
next
  assume "\<exists>a b. s = a @ b \<and> c # a \<in> A \<and> b \<in> star A"
  then obtain a b where "s = a @ b" and "c # a \<in> A" and "b \<in> star A" by blast
  with star.app [of "c # a" A b] show "c # s \<in> star A" by simp
qed

lemma lang_deriv: "s \<in> lang (deriv c r) \<longleftrightarrow> c # s \<in> lang r"
proof (induction r arbitrary: s)
  case (Seq r1 r2)
  have split: "c # s \<in> lang (Seq r1 r2) \<longleftrightarrow>
      (\<exists>a b. s = a @ b \<and> c # a \<in> lang r1 \<and> b \<in> lang r2) \<or> ([] \<in> lang r1 \<and> c # s \<in> lang r2)"
    by (auto simp: Cons_eq_append_conv)
  show ?case unfolding split using Seq by (auto simp: nullable_lang)
qed (auto simp: star_Cons)

lemma MatchString_lang: "MatchString r s \<longleftrightarrow> s \<in> lang r"
  unfolding MatchString_def
  by (induction s arbitrary: r) (simp_all add: nullable_lang lang_deriv)

lemma star_chars: "star {[c] |c. c \<in> A} = {s. set s \<subseteq> A}"
proof (intro set_eqI iffI; simp)
  fix s assume "s \<in> star {[c] |c. c \<in> A}"
  then show "set s \<subseteq> A" by induction auto
next
  fix s assume "set s \<subseteq> A"
  then show "s \<in> star {[c] |c. c \<in> A}"
  proof (induction s)
    case (Cons c s)
    then show ?case using star.app [of "[c]" "{[c] |c. c \<in> A}" s] by simp
  qed (rule star.nil)
qed

lemma lang_star_chars: "lang (Star (Chars cs)) = {s. set s \<subseteq> set cs}"
  by (simp add: star_chars)

lemma lang_enclosed:
  "lang (Seq (Chars xs) (Seq r (Chars ys))) = {c # w @ [d] |c w d. c \<in> set xs \<and> w \<in> lang r \<and> d \<in> set ys}"
proof (intro set_eqI iffI)
  fix s assume "s \<in> {c # w @ [d] |c w d. c \<in> set xs \<and> w \<in> lang r \<and> d \<in> set ys}"
  then obtain c w d where "s = [c] @ (w @ [d])" and "c \<in> set xs" "w \<in> lang r" "d \<in> set ys" by auto
  then show "s \<in> lang (Seq (Chars xs) (Seq r (Chars ys)))" by (simp only: lang.simps mem_Collect_eq) blast
qed auto

lemma tag_language:
  "s \<in> lang tagRegex \<longleftrightarrow> 2 \<le> length s \<and> hd s \<in> set tag_alnum \<and> last s \<in> set tag_alnum \<and>
     set s \<subseteq> insert (CHR ''-'') (set tag_alnum)"
proof -
  have "s \<in> lang tagRegex \<longleftrightarrow> (\<exists>c w d. s = c # w @ [d] \<and> c \<in> set tag_alnum \<and> d \<in> set tag_alnum \<and>
      set w \<subseteq> insert (CHR ''-'') (set tag_alnum))" (is "_ = ?R")
    unfolding tagRegex_def lang_enclosed lang_star_chars by auto
  also have "?R \<longleftrightarrow> 2 \<le> length s \<and> hd s \<in> set tag_alnum \<and> last s \<in> set tag_alnum \<and>
     set s \<subseteq> insert (CHR ''-'') (set tag_alnum)" (is "_ = ?S")
  proof
    assume ?S
    then obtain c t where s: "s = c # t" and t: "t \<noteq> []" by (cases s) (auto simp: Suc_le_eq)
    then have "s = c # butlast t @ [last t]" by simp
    moreover have "set (butlast t) \<subseteq> set s" using s by (auto dest: in_set_butlastD)
    ultimately show ?R using \<open>?S\<close> s t by (intro exI [of _ c] exI [of _ "butlast t"] exI [of _ "last t"]) auto
  qed auto
  finally show ?thesis .
qed

subsection \<open>Random characters\<close>

text \<open>The groups of six bits in the order the loop visits them.\<close>

definition group :: "(nat \<Rightarrow> 63 word) \<Rightarrow> nat \<Rightarrow> nat" where
  "group src g = unat (drop_bit (letterIdxBits * (g mod letterIdxMax)) (src (g div letterIdxMax)) AND letterIdxMask)"

definition usable :: "(nat \<Rightarrow> 63 word) \<Rightarrow> nat \<Rightarrow> nat \<Rightarrow> nat list" where
  "usable src g m = filter (\<lambda>k. k < length letterBytes) (map (group src) [g..<m])"

lemma letter_consts: "letterIdxMax = 10" "letterIdxBits = 6" "length letterBytes = 60"
  by (simp_all add: letterIdxMax_def letterIdxBits_def letterBytes_def)

lemma drop_update_Cons: "n < length b \<Longrightarrow> drop n (b[n := x]) = x # drop (Suc n) b"
  by (simp add: Cons_nth_drop_Suc [symmetric])

lemma rand_loop_usable:
  assumes "left \<le> length (usable src (10 * pos - remain) m)" and "remain \<le> 10" and "0 < pos"
    and "cache = drop_bit (6 * (10 - remain)) (src (pos - 1))" and "left \<le> length b"
  shows "\<exists>pos'. rand_loop src left cache remain pos b =
     Some (rev (map ((!) letterBytes) (take left (usable src (10 * pos - remain) m))) @ drop left b, pos')"
  using assms
proof (induction "m - (10 * pos - remain)" arbitrary: left cache remain pos b)
  case 0
  then have "left = 0" by (simp add: usable_def)
  then show ?case by (subst rand_loop.simps) simp
next
  case (Suc n)
  let ?g = "10 * pos - remain"
  show ?case
  proof (cases "left = 0")
    case True
    then show ?thesis by (subst rand_loop.simps) simp
  next
    case False
    let ?c = "if remain = 0 then src pos else cache" and ?p = "if remain = 0 then pos + 1 else pos"
      and ?r = "(if remain = 0 then 10 else remain) - 1"
    have c: "?c = drop_bit (6 * (?g mod 10)) (src (?g div 10))"
    proof (cases "remain = 0")
      case False
      with Suc.prems(2,3) have "?g = 10 * (pos - 1) + (10 - remain)" and "10 - remain < 10" by linarith+
      then have "?g div 10 = pos - 1" and "?g mod 10 = 10 - remain" by simp_all
      with False Suc.prems(4) show ?thesis by simp
    qed simp
    have g: "group src ?g = unat (?c AND letterIdxMask)" by (simp add: group_def letter_consts c)
    have next_g: "10 * ?p - ?r = Suc ?g" using Suc.prems(2,3) by auto
    have len: "Suc n = m - ?g" by (rule Suc.hyps(2))
    then have "[?g..<m] = ?g # [Suc ?g..<m]" by (simp add: upt_conv_Cons)
    then have u: "usable src ?g m = (if group src ?g < 60 then [group src ?g] else []) @ usable src (Suc ?g) m"
      by (simp add: usable_def letter_consts)
    have cache: "drop_bit 6 ?c = drop_bit (6 * (10 - ?r)) (src (?p - 1))"
    proof (cases "remain = 0")
      case False
      have "6 + 6 * (10 - remain) = 6 * (10 - (remain - 1))" using False Suc.prems(2) by simp
      then show ?thesis using False Suc.prems(4) by (simp add: drop_bit_drop_bit)
    qed simp
    have n: "n = m - (10 * ?p - ?r)" unfolding next_g using len by simp
    note IH = Suc.hyps(1) [OF n]
    let ?ok = "group src ?g < 60"
    let ?l = "if ?ok then left - 1 else left"
      and ?b = "if ?ok then b[left - 1 := letterBytes ! group src ?g] else b"
    have "?l \<le> length (usable src (10 * ?p - ?r) m)"
      unfolding next_g using Suc.prems(1) False unfolding u by (auto split: if_splits)
    moreover have "?r \<le> 10" "0 < ?p" using Suc.prems(2,3) by auto
    moreover have "?l \<le> length ?b" using Suc.prems(5) by auto
    ultimately obtain pos' where r: "rand_loop src ?l (drop_bit 6 ?c) ?r ?p ?b =
        Some (rev (map ((!) letterBytes) (take ?l (usable src (Suc ?g) m))) @ drop ?l ?b, pos')"
      using IH [of "?l" "drop_bit 6 ?c" "?b"] cache unfolding next_g by auto
    have step: "rand_loop src left cache remain pos b = rand_loop src ?l (drop_bit 6 ?c) ?r ?p ?b"
      using False by (subst rand_loop.simps) (simp add: Let_def letter_consts g)
    show ?thesis
      unfolding step r u using False Suc.prems(5) by (cases left) (auto simp: drop_update_Cons)
  qed
qed

lemma randCharBytes_usable:
  assumes "n \<le> length (usable src (10 * pos) m)"
  shows "\<exists>pos'. randCharBytes src n pos =
     Some (rev (map ((!) letterBytes) (take n (usable src (10 * pos) m))), pos')"
  using rand_loop_usable [of n src "pos + 1" 10 m "src pos" "replicate n (CHR 0x00)"] assms
  by (simp add: randCharBytes_def letter_consts)

lemma usable_letters: "set (map ((!) letterBytes) (take n (usable src g m))) \<subseteq> set letterBytes"
  by (auto simp: usable_def dest!: in_set_takeD)

lemma copy_bytes:
  "m \<le> length xs \<Longrightarrow> m \<le> length ys \<Longrightarrow> foldl (\<lambda>f k. f[k := ys ! k]) xs [0..<m] = take m ys @ drop m xs"
proof (induction m)
  case (Suc m)
  then have "length (take m ys) = m" by simp
  moreover have "drop m xs = xs ! m # drop (Suc m) xs" using Suc.prems by (simp add: Cons_nth_drop_Suc)
  ultimately show ?case using Suc by (simp add: list_update_append take_Suc_conv_app_nth)
qed simp

lemma formatFlag_eq: "length arr = 10 \<Longrightarrow> formatFlag arr = ''HKN{'' @ arr @ ''}''"
  by (simp add: formatFlag_def Let_def flagNumCharsFormat_def copy_bytes del: append.simps)

lemma NewFlag_usable:
  assumes "10 \<le> length (usable src (10 * pos) m)"
  shows "\<exists>pos'. NewFlag src pos =
     Some (''HKN{'' @ rev (map ((!) letterBytes) (take 10 (usable src (10 * pos) m))) @ ''}'', pos')"
  using randCharBytes_usable [OF assms] assms
  by (auto simp: NewFlag_def flagUniqueChars_def formatFlag_eq)

lemma drop_dashes:
  assumes "CHR ''-'' \<notin> set l" and "i \<le> j"
  shows "filter (\<lambda>c. c \<noteq> CHR ''-'') (take i l @ ''-'' @ drop i (take j l) @ ''-'' @ drop j l) = l"
proof -
  have i: "take i l = take i (take j l)" using assms(2) by (simp add: min_absorb1)
  have "take i l @ drop i (take j l) @ drop j l = l"
    unfolding i by (simp only: append_assoc [symmetric] append_take_drop_id)
  moreover have "filter (\<lambda>c. c \<noteq> CHR ''-'') l = l" using assms(1) by (intro filter_True ballI) blast
  moreover have "filter (\<lambda>c. c \<noteq> CHR ''-'') (take i l @ ''-'' @ drop i (take j l) @ ''-'' @ drop j l) =
      filter (\<lambda>c. c \<noteq> CHR ''-'') (take i l @ drop i (take j l) @ drop j l)" by simp
  ultimately show ?thesis by (simp only:)
qed

lemma flag_text:
  assumes "length l = 10" and "CHR ''-'' \<notin> set l" and "r1 < 2" and "r2 < 2"
  shows "let s = Flag_String (''HKN{'' @ l @ ''}'') r1 r2 in
     length s = 17 \<and> take 4 s = ''HKN{'' \<and> last s = CHR ''}'' \<and>
     filter (\<lambda>c. c \<noteq> CHR ''-'') (drop 4 (butlast s)) = l"
proof -
  define i j where "i = 2 + r1" and "j = 2 + r1 + 2 + r2"
  have "Flag_String (''HKN{'' @ l @ ''}'') r1 r2 =
      ''HKN{'' @ (take i l @ ''-'' @ drop i (take j l) @ ''-'' @ drop j l) @ ''}''"
    using assms(1) by (simp add: Flag_String_def Let_def flagNumCharsFormat_def i_def j_def)
  moreover have "i \<le> j" "j \<le> 10" using assms(3,4) by (simp_all add: i_def j_def)
  ultimately show ?thesis using assms(1) drop_dashes [OF assms(2) \<open>i \<le> j\<close>]
    by (simp add: Let_def butlast_append)
qed

subsection \<open>Properties\<close>

text \<open>
  C34. A tag is accepted exactly when it has at least two characters, all of them lower-case letters,
  digits or dashes, and neither begins nor ends with a dash.
\<close>
theorem tag_syntax:
  "Tag_Validate s = None \<longleftrightarrow>
     2 \<le> length s \<and> hd s \<noteq> CHR ''-'' \<and> last s \<noteq> CHR ''-'' \<and> set s \<subseteq> insert (CHR ''-'') (set tag_alnum)"
proof -
  have "CHR ''-'' \<notin> set tag_alnum" by (simp add: tag_alnum_def)
  moreover have "hd s \<in> set s" "last s \<in> set s" if "2 \<le> length s" using that by (cases s; auto)+
  ultimately have "s \<in> lang tagRegex \<longleftrightarrow> 2 \<le> length s \<and> hd s \<noteq> CHR ''-'' \<and> last s \<noteq> CHR ''-'' \<and>
      set s \<subseteq> insert (CHR ''-'') (set tag_alnum)"
    unfolding tag_language by fastforce
  then show ?thesis by (auto simp: Tag_Validate_def MatchString_lang)
qed

text \<open>
  When ten of the next groups of six bits are indices of the alphabet, a flag is generated, and
  however the dashes fall its text is 17 characters long, has the form of a flag, and gives the ten
  letters back once the dashes are dropped.
\<close>
theorem generated_flag:
  assumes "10 \<le> length (usable src (10 * pos) m)" and "r1 < 2" and "r2 < 2"
  shows "\<exists>f pos'. NewFlag src pos = Some (f, pos') \<and>
     (let s = Flag_String f r1 r2; letters = rev (map ((!) letterBytes) (take 10 (usable src (10 * pos) m))) in
      length s = 17 \<and> take 4 s = ''HKN{'' \<and> last s = CHR ''}'' \<and>
      filter (\<lambda>c. c \<noteq> CHR ''-'') (drop 4 (butlast s)) = letters \<and> set letters \<subseteq> set letterBytes)"
proof -
  let ?l = "rev (map ((!) letterBytes) (take 10 (usable src (10 * pos) m)))"
  obtain pos' where f: "NewFlag src pos = Some (''HKN{'' @ ?l @ ''}'', pos')"
    using NewFlag_usable [OF assms(1)] by blast
  have abc: "set ?l \<subseteq> set letterBytes" using usable_letters [of 10 src "10 * pos" m] by simp
  moreover have "CHR ''-'' \<notin> set letterBytes" by (simp add: letterBytes_def)
  ultimately have "CHR ''-'' \<notin> set ?l" by blast
  from flag_text [OF _ this assms(2,3)] f abc show ?thesis using assms(1) by (simp add: Let_def)
qed

text \<open>A source whose every value is zero gives the first letter ten times.\<close>

lemma zero_usable: "usable (\<lambda>k. 0) 0 10 = replicate 10 0"
proof -
  have "group (\<lambda>k. 0) = (\<lambda>g. 0)" by (simp add: group_def fun_eq_iff)
  then show ?thesis by (simp add: usable_def letter_consts map_replicate_const)
qed

lemma zero_flag: "\<exists>pos'. NewFlag (\<lambda>k. 0) 0 = Some (''HKN{aaaaaaaaaa}'', pos')"
proof -
  have "replicate 10 (CHR ''a'') = ''aaaaaaaaaa''" by (simp add: numeral_eq_Suc)
  moreover have "letterBytes ! 0 = CHR ''a''" by (simp add: letterBytes_def)
  ultimately show ?thesis using NewFlag_usable [of "\<lambda>k. 0" 0 10] by (simp add: zero_usable map_replicate)
qed

theorem generated_flag_witness:
  "\<exists>f pos'. NewFlag (\<lambda>k. 0) 0 = Some (f, pos') \<and> length (Flag_String f 0 1) = 17 \<and>
     Flag_String f 0 1 = ''HKN{aa-aaa-aaaaa}''"
proof -
  obtain f pos' where f: "NewFlag (\<lambda>k. 0) 0 = Some (f, pos')" and l: "length (Flag_String f 0 1) = 17"
    using generated_flag [of "\<lambda>k. 0" 0 10 0 1] by (auto simp: zero_usable Let_def)
  moreover have "f = ''HKN{aaaaaaaaaa}''" using f zero_flag by auto
  ultimately show ?thesis by (simp add: Flag_String_def flagNumCharsFormat_def Let_def)
qed

end
