(* ===== verification/Store_Exercise.thy ===== *)
theory Store_Exercise
  imports Store_Config Amigo_Table
begin

text \<open>
  Exercises (store/exercise.go): their validation, the flags they ask for, and
  \<^verbatim>\<open>ContainerOpts\<close>, which draws the dynamic flags and hands each to the container through its
  environment; the lab configuration built from them (lab/lab.go); and the store of frontends
  (store/frontend.go), whose file is the list last written. A \<^verbatim>\<open>float64\<close> is only
  compared with zero and copied; it is a rational. Random numbers are as in Store_Config, with
  one position in either stream.
\<close>

subsection \<open>Data\<close>

record env_var =
  ev_env :: string
  ev_value :: string

record record_config =
  r_type :: string
  r_name :: string
  r_data :: string

record ex_instance =
  ei_image :: string
  ei_memory :: "64 word"
  ei_cpu :: rat
  ei_envs :: "env_var list"
  ei_flags :: "child_chal list"
  ei_records :: "record_config list"

record exercise_conf =
  ex_tag :: string
  ex_name :: string
  ex_category :: string
  ex_secret :: bool
  ex_static :: bool
  ex_instances :: "ex_instance list"
  ex_description :: string

record flag_challenge =
  ch_name :: string
  ch_tag :: string
  ch_value :: string

record docker_conf =
  dc_image :: string
  dc_resources :: "(64 word \<times> rat) option"
  dc_env :: "(string, string) gomap"
  dc_dns :: "string list"
  dc_labels :: "(string, string) gomap"

record container_options =
  co_docker :: docker_conf
  co_records :: "record_config list"
  co_challenges :: "flag_challenge list"

record instance_config =
  ic_image :: string
  ic_memory :: "64 word"
  ic_cpu :: rat

definition zero_docker :: docker_conf where
  "zero_docker = \<lparr>dc_image = [], dc_resources = None, dc_env = [], dc_dns = [], dc_labels = []\<rparr>"

subsection \<open>Validation\<close>

definition Exercise_Validate :: "exercise_conf \<Rightarrow> config_error option" where
  "Exercise_Validate e = (if ex_tag e = [] then Some (EmptyVar ''Tag'' ''Exercise'') else None)"

definition RecordConfig_Validate :: "record_config \<Rightarrow> config_error option" where
  "RecordConfig_Validate rc =
     (if r_type rc = [] then Some (EmptyVar ''Type'' ''Record config'')
      else if r_name rc = [] then Some (EmptyVar ''Name'' ''Record config'')
      else None)"

definition RecordConfig_Format :: "record_config \<Rightarrow> string \<Rightarrow> string" where
  "RecordConfig_Format rc ip = r_name rc @ '' '' @ r_type rc @ '' '' @ ip"

definition ChildChal_Validate :: "child_chal \<Rightarrow> config_error option" where
  "ChildChal_Validate fc =
     (case Tag_Validate (cc_tag fc) of
        Some e \<Rightarrow> Some e
      | None \<Rightarrow>
          if cc_name fc = [] then Some (EmptyVar ''Name'' ''Flag ServiceConfig'')
          else if cc_static_flag fc = [] \<and> cc_env fc = []
          then Some (EmptyVar ''Static or Env'' ''Flag ServiceConfig'')
          else if cc_points fc = 0 then Some (EmptyVar ''Points'' ''Flag ServiceConfig'')
          else None)"

definition EnvVar_Validate :: "env_var \<Rightarrow> config_error option" where
  "EnvVar_Validate evc =
     (if ev_env evc = [] then Some (EmptyVar ''Env'' ''Environment Variable'')
      else if ev_value evc = [] then Some (EmptyVar ''Value'' ''Environment Variable'')
      else None)"

text \<open>\<^verbatim>\<open>ic.MemoryMB < 0\<close> never holds of a \<^verbatim>\<open>uint\<close>.\<close>

definition Instance_Validate :: "instance_config \<Rightarrow> config_error option" where
  "Instance_Validate ic =
     (if ic_image ic = [] then Some (EmptyVar ''Image'' ''Instance ServiceConfig'')
      else if ic_cpu ic < 0 then Some CpuNegative
      else None)"

definition Vbox_Validate :: "ex_instance \<Rightarrow> config_error option" where
  "Vbox_Validate vc =
     (if ei_image vc = [] then Some ImageNotDefinedErr
      else if ei_memory vc = 0 then Some MemoryNotDefinedErr
      else None)"

subsection \<open>The flags of an exercise\<close>

definition Exercise_Flags :: "exercise_conf \<Rightarrow> child_chal list" where
  "Exercise_Flags e =
     foldl (\<lambda>res conf. foldl (\<lambda>res f. res @ [f\<lparr>cc_static := ex_static e\<rparr>]) res (ei_flags conf)) [] (ex_instances e)"

definition Exercise_ChildTags :: "exercise_conf \<Rightarrow> string list" where
  "Exercise_ChildTags e = map cc_tag (Exercise_Flags e)"

record lab_config =
  lc_frontends :: "instance_config list"
  lc_exercises :: "exercise_conf list"
  lc_disabled :: "string list"

definition Config_Flags :: "lab_config \<Rightarrow> child_chal list" where
  "Config_Flags conf = foldl (\<lambda>res e. res @ Exercise_Flags e) [] (lc_exercises conf)"

definition GetChildrenChallenges :: "lab_config \<Rightarrow> string \<Rightarrow> string list" where
  "GetChildrenChallenges conf parentTag =
     map cc_tag (foldl (\<lambda>flags i. if ex_tag i = parentTag
                                   then foldl (\<lambda>flags m. flags @ ei_flags m) flags (ex_instances i)
                                   else flags) [] (lc_exercises conf))"

definition UpdateExercises :: "exercise_conf list \<Rightarrow> lab_config \<Rightarrow> lab_config" where
  "UpdateExercises new conf = conf\<lparr>lc_exercises := new @ lc_exercises conf\<rparr>"

subsection \<open>Container options\<close>

type_synonym rng = "nat \<times> nat"

definition new_flag_string ::
  "(nat \<Rightarrow> 63 word) \<Rightarrow> (nat \<Rightarrow> nat) \<Rightarrow> rng \<Rightarrow> (string \<times> rng) option" where
  "new_flag_string src rnd st =
     (case NewFlag src (fst st) of
        None \<Rightarrow> None
      | Some (f, pos) \<Rightarrow> Some (Flag_String f (rnd (snd st)) (rnd (snd st + 1)), (pos, snd st + 2)))"

fun flag_loop ::
  "(nat \<Rightarrow> 63 word) \<Rightarrow> (nat \<Rightarrow> nat) \<Rightarrow> child_chal list \<Rightarrow> (string, string) gomap \<Rightarrow> flag_challenge list \<Rightarrow> rng \<Rightarrow>
     ((string, string) gomap \<times> flag_challenge list \<times> rng) option" where
  "flag_loop src rnd [] env cs st = Some (env, cs, st)"
| "flag_loop src rnd (f # fs) env cs st =
     (if cc_static_flag f = []
      then (case new_flag_string src rnd st of
              None \<Rightarrow> None
            | Some (v, st') \<Rightarrow>
                flag_loop src rnd fs (map_put (cc_env f) v env)
                  (cs @ [\<lparr>ch_name = cc_name f, ch_tag = cc_tag f, ch_value = v\<rparr>]) st')
      else flag_loop src rnd fs env
             (cs @ [\<lparr>ch_name = cc_name f, ch_tag = cc_tag f, ch_value = cc_static_flag f\<rparr>]) st)"

definition container_opt ::
  "(nat \<Rightarrow> 63 word) \<Rightarrow> (nat \<Rightarrow> nat) \<Rightarrow> bool \<Rightarrow> ex_instance \<Rightarrow> rng \<Rightarrow> (container_options \<times> rng) option" where
  "container_opt src rnd static conf st =
     (case flag_loop src rnd (ei_flags conf) [] [] st of
        None \<Rightarrow> None
      | Some (env, cs, st') \<Rightarrow>
          let env = foldl (\<lambda>m e. map_put (ev_env e) (ev_value e) m) env (ei_envs conf);
              spec = (if static then zero_docker
                      else zero_docker\<lparr>dc_image := ei_image conf,
                             dc_resources := Some (ei_memory conf, ei_cpu conf), dc_env := env\<rparr>)
          in Some (\<lparr>co_docker = spec, co_records = ei_records conf, co_challenges = cs\<rparr>, st'))"

fun opts_loop ::
  "(nat \<Rightarrow> 63 word) \<Rightarrow> (nat \<Rightarrow> nat) \<Rightarrow> bool \<Rightarrow> ex_instance list \<Rightarrow> rng \<Rightarrow> (container_options list \<times> rng) option" where
  "opts_loop src rnd static [] st = Some ([], st)"
| "opts_loop src rnd static (i # is) st =
     (case container_opt src rnd static i st of
        None \<Rightarrow> None
      | Some (opt, st') \<Rightarrow>
          (case opts_loop src rnd static is st' of None \<Rightarrow> None | Some (opts, st'') \<Rightarrow> Some (opt # opts, st'')))"

definition ContainerOpts ::
  "(nat \<Rightarrow> 63 word) \<Rightarrow> (nat \<Rightarrow> nat) \<Rightarrow> exercise_conf \<Rightarrow> rng \<Rightarrow> (container_options list \<times> rng) option" where
  "ContainerOpts src rnd e st = opts_loop src rnd (ex_static e) (ex_instances e) st"

subsection \<open>The store of frontends\<close>

record frontend_store =
  fs_frontends :: "(string, instance_config) gomap"
  fs_conf :: "instance_config list"
  fs_file :: "instance_config list option"

text \<open>What \<^verbatim>\<open>NewFrontendsFile\<close> builds from the file's list; None is its error.\<close>

fun load_frontends :: "instance_config list \<Rightarrow> (string, instance_config) gomap \<Rightarrow> (string, instance_config) gomap option" where
  "load_frontends [] m = Some m"
| "load_frontends (f # fs) m =
     (case Instance_Validate f of Some e \<Rightarrow> None | None \<Rightarrow> load_frontends fs (map_put (ic_image f) f m))"

definition NewFrontendsFile :: "instance_config list option \<Rightarrow> frontend_store option" where
  "NewFrontendsFile file =
     (case file of
        None \<Rightarrow> Some \<lparr>fs_frontends = [], fs_conf = [], fs_file = None\<rparr>
      | Some l \<Rightarrow> map_option (\<lambda>m. \<lparr>fs_frontends = m, fs_conf = l, fs_file = file\<rparr>) (load_frontends l []))"

definition default_frontend :: "string \<Rightarrow> instance_config" where
  "default_frontend name = \<lparr>ic_image = name, ic_memory = 0, ic_cpu = 0\<rparr>"

definition get_frontend :: "frontend_store \<Rightarrow> string \<Rightarrow> instance_config" where
  "get_frontend fs name = (case map_get (fs_frontends fs) name of None \<Rightarrow> default_frontend name | Some ic \<Rightarrow> ic)"

definition GetFrontends :: "frontend_store \<Rightarrow> string list \<Rightarrow> instance_config list" where
  "GetFrontends fs ns = map (get_frontend fs) ns"

text \<open>The hook that saves the file; its error is dropped by the callers.\<close>

definition frontend_hooks :: "bool \<Rightarrow> frontend_store \<Rightarrow> frontend_store" where
  "frontend_hooks write_ok fs =
     (let l = map snd (fs_frontends fs)
      in fs\<lparr>fs_conf := l, fs_file := (if write_ok then Some l else fs_file fs)\<rparr>)"

definition set_frontend ::
  "bool \<Rightarrow> (instance_config \<Rightarrow> instance_config) \<Rightarrow> string \<Rightarrow> frontend_store \<Rightarrow> config_error option \<times> frontend_store" where
  "set_frontend write_ok change f fs =
     (let ic = change (get_frontend fs f)
      in case Instance_Validate ic of
           Some e \<Rightarrow> (Some e, fs)
         | None \<Rightarrow> (None, frontend_hooks write_ok (fs\<lparr>fs_frontends := map_put f ic (fs_frontends fs)\<rparr>)))"

definition SetMemoryMB :: "bool \<Rightarrow> string \<Rightarrow> 64 word \<Rightarrow> frontend_store \<Rightarrow> config_error option \<times> frontend_store" where
  "SetMemoryMB write_ok f memoryMB = set_frontend write_ok (\<lambda>ic. ic\<lparr>ic_memory := memoryMB\<rparr>) f"

definition SetCpu :: "bool \<Rightarrow> string \<Rightarrow> rat \<Rightarrow> frontend_store \<Rightarrow> config_error option \<times> frontend_store" where
  "SetCpu write_ok f cpu = set_frontend write_ok (\<lambda>ic. ic\<lparr>ic_cpu := cpu\<rparr>) f"

subsection \<open>Lemmas\<close>

lemma foldl_snoc_map: "foldl (\<lambda>res f. res @ [g f]) acc xs = acc @ map g xs"
  by (induction xs arbitrary: acc) simp_all

lemma foldl_append_map: "foldl (\<lambda>res x. res @ g x) acc xs = acc @ concat (map g xs)"
  by (induction xs arbitrary: acc) simp_all

lemma Exercise_Flags_eq:
  "Exercise_Flags e = map (\<lambda>f. f\<lparr>cc_static := ex_static e\<rparr>) (concat (map ei_flags (ex_instances e)))"
  by (simp add: Exercise_Flags_def foldl_snoc_map foldl_append_map map_concat comp_def)

lemma Config_Flags_eq: "Config_Flags conf = concat (map Exercise_Flags (lc_exercises conf))"
  by (simp add: Config_Flags_def foldl_append_map)

lemma GetChildrenChallenges_eq:
  "GetChildrenChallenges conf p = concat (map Exercise_ChildTags (filter (\<lambda>e. ex_tag e = p) (lc_exercises conf)))"
proof -
  have "map cc_tag (foldl (\<lambda>flags i. if ex_tag i = p then foldl (\<lambda>flags m. flags @ ei_flags m) flags (ex_instances i)
      else flags) acc es) = map cc_tag acc @ concat (map Exercise_ChildTags (filter (\<lambda>e. ex_tag e = p) es))" for acc es
    by (induction es arbitrary: acc)
       (simp_all add: foldl_append_map Exercise_ChildTags_def Exercise_Flags_eq comp_def)
  from this [of "[]"] show ?thesis by (simp add: GetChildrenChallenges_def)
qed

lemma flag_loop_result:
  assumes "flag_loop src rnd fs env cs st = Some (env', cs', st')"
  shows "\<exists>new. cs' = cs @ new \<and> map ch_tag new = map cc_tag fs \<and> map ch_name new = map cc_name fs \<and>
     (\<forall>k < length fs. cc_static_flag (fs ! k) \<noteq> [] \<longrightarrow> ch_value (new ! k) = cc_static_flag (fs ! k)) \<and>
     (distinct (map cc_env (filter (\<lambda>f. cc_static_flag f = []) fs)) \<longrightarrow>
        (\<forall>k < length fs. cc_static_flag (fs ! k) = [] \<longrightarrow>
           map_get env' (cc_env (fs ! k)) = Some (ch_value (new ! k)))) \<and>
     (\<forall>x. (\<forall>f \<in> set fs. cc_static_flag f = [] \<longrightarrow> cc_env f \<noteq> x) \<longrightarrow> map_get env' x = map_get env x)"
  using assms
proof (induction fs arbitrary: env cs st)
  case Nil
  then show ?case by simp
next
  case (Cons f fs)
  define dyn where "dyn \<longleftrightarrow> cc_static_flag f = []"
  from Cons.prems obtain v env1 st1 where
    run: "flag_loop src rnd fs env1 (cs @ [\<lparr>ch_name = cc_name f, ch_tag = cc_tag f, ch_value = v\<rparr>]) st1 = Some (env', cs', st')"
    and v: "\<not> dyn \<Longrightarrow> v = cc_static_flag f"
    and env1: "env1 = (if dyn then map_put (cc_env f) v env else env)"
    by (auto simp: dyn_def split: if_splits option.splits)
  from Cons.IH [OF run] obtain new where new: "cs' = (cs @ [\<lparr>ch_name = cc_name f, ch_tag = cc_tag f, ch_value = v\<rparr>]) @ new"
    "map ch_tag new = map cc_tag fs" "map ch_name new = map cc_name fs"
    and stat: "\<forall>k < length fs. cc_static_flag (fs ! k) \<noteq> [] \<longrightarrow> ch_value (new ! k) = cc_static_flag (fs ! k)"
    and dist: "distinct (map cc_env (filter (\<lambda>f. cc_static_flag f = []) fs)) \<longrightarrow>
        (\<forall>k < length fs. cc_static_flag (fs ! k) = [] \<longrightarrow>
           map_get env' (cc_env (fs ! k)) = Some (ch_value (new ! k)))"
    and other: "\<forall>x. (\<forall>f \<in> set fs. cc_static_flag f = [] \<longrightarrow> cc_env f \<noteq> x) \<longrightarrow> map_get env' x = map_get env1 x"
    by blast
  let ?new = "\<lparr>ch_name = cc_name f, ch_tag = cc_tag f, ch_value = v\<rparr> # new"
  have head: "map_get env' (cc_env f) = Some v"
    if "dyn" and "distinct (map cc_env (filter (\<lambda>f. cc_static_flag f = []) (f # fs)))"
  proof -
    from that have "\<forall>g \<in> set fs. cc_static_flag g = [] \<longrightarrow> cc_env g \<noteq> cc_env f"
      by (simp add: dyn_def image_iff) metis
    with other have "map_get env' (cc_env f) = map_get env1 (cc_env f)" by blast
    with that show ?thesis by (simp add: env1)
  qed
  show ?case
  proof (intro exI [of _ ?new] conjI)
    show "\<forall>k < length (f # fs). cc_static_flag ((f # fs) ! k) \<noteq> [] \<longrightarrow> ch_value (?new ! k) = cc_static_flag ((f # fs) ! k)"
      using stat v by (simp add: dyn_def nth_Cons split: nat.split)
    show "distinct (map cc_env (filter (\<lambda>f. cc_static_flag f = []) (f # fs))) \<longrightarrow>
        (\<forall>k < length (f # fs). cc_static_flag ((f # fs) ! k) = [] \<longrightarrow>
           map_get env' (cc_env ((f # fs) ! k)) = Some (ch_value (?new ! k)))"
      using head dist by (auto simp: dyn_def nth_Cons split: nat.split)
    show "\<forall>x. (\<forall>g \<in> set (f # fs). cc_static_flag g = [] \<longrightarrow> cc_env g \<noteq> x) \<longrightarrow> map_get env' x = map_get env x"
      using other by (auto simp: env1 dyn_def)
  qed (use new in simp_all)
qed

lemma env_loop_other:
  "x \<notin> set (map ev_env es) \<Longrightarrow> map_get (foldl (\<lambda>m e. map_put (ev_env e) (ev_value e) m) env es) x = map_get env x"
  by (induction es arbitrary: env) auto

text \<open>That a container's options give it its flags: the values the site checks are those the container gets.\<close>

definition opt_delivers :: "bool \<Rightarrow> ex_instance \<Rightarrow> container_options \<Rightarrow> bool" where
  "opt_delivers static i opt \<longleftrightarrow>
     map ch_tag (co_challenges opt) = map cc_tag (ei_flags i) \<and>
     map ch_name (co_challenges opt) = map cc_name (ei_flags i) \<and>
     list_all2 (\<lambda>f c. if cc_static_flag f \<noteq> [] then ch_value c = cc_static_flag f
                      else static \<or> map_get (dc_env (co_docker opt)) (cc_env f) = Some (ch_value c))
       (ei_flags i) (co_challenges opt)"

definition own_variables :: "ex_instance \<Rightarrow> bool" where
  "own_variables i \<longleftrightarrow>
     distinct (map cc_env (filter (\<lambda>f. cc_static_flag f = []) (ei_flags i))) \<and>
     (\<forall>f \<in> set (ei_flags i). cc_static_flag f = [] \<longrightarrow> cc_env f \<notin> set (map ev_env (ei_envs i)))"

lemma container_opt_delivers:
  assumes "container_opt src rnd static i st = Some (opt, st')" and "own_variables i"
  shows "opt_delivers static i opt"
proof -
  obtain env cs where run: "flag_loop src rnd (ei_flags i) [] [] st = Some (env, cs, st')"
    and opt: "opt = \<lparr>co_docker = (if static then zero_docker
                 else zero_docker\<lparr>dc_image := ei_image i, dc_resources := Some (ei_memory i, ei_cpu i),
                   dc_env := foldl (\<lambda>m e. map_put (ev_env e) (ev_value e) m) env (ei_envs i)\<rparr>),
               co_records = ei_records i, co_challenges = cs\<rparr>"
    using assms(1) by (auto simp: container_opt_def Let_def split: option.splits)
  note r = flag_loop_result [OF run, unfolded append_Nil]
  then have tags: "map ch_tag cs = map cc_tag (ei_flags i)" and len: "length cs = length (ei_flags i)"
    by (auto dest: map_eq_imp_length_eq)
  have "if cc_static_flag (ei_flags i ! k) \<noteq> [] then ch_value (cs ! k) = cc_static_flag (ei_flags i ! k)
      else map_get (foldl (\<lambda>m e. map_put (ev_env e) (ev_value e) m) env (ei_envs i)) (cc_env (ei_flags i ! k)) =
        Some (ch_value (cs ! k))" if "k < length (ei_flags i)" for k
    using r that assms(2) nth_mem [OF that] by (auto simp: own_variables_def env_loop_other)
  then show ?thesis
    using r tags len by (auto simp: opt_delivers_def opt list_all2_conv_all_nth)
qed

lemma opts_loop_delivers:
  assumes "opts_loop src rnd static is st = Some (opts, st')" and "list_all own_variables is"
  shows "list_all2 (opt_delivers static) is opts"
  using assms
  by (induction "is" arbitrary: st opts) (auto split: option.splits prod.splits dest: container_opt_delivers)

definition frontends_ok :: "frontend_store \<Rightarrow> bool" where
  "frontends_ok fs \<longleftrightarrow> map_ok (fs_frontends fs) \<and>
     (\<forall>k ic. map_get (fs_frontends fs) k = Some ic \<longrightarrow> ic_image ic = k \<and> Instance_Validate ic = None)"

lemma load_frontends_ok:
  "\<forall>f \<in> set l. Instance_Validate f = None \<Longrightarrow>
   load_frontends l m = Some (foldl (\<lambda>m f. map_put (ic_image f) f m) m l)"
  by (induction l arbitrary: m) auto

lemma map_get_images:
  "distinct (map ic_image l) \<Longrightarrow>
   map_get (foldl (\<lambda>m f. map_put (ic_image f) f m) m l) k =
     (case map_of (map (\<lambda>f. (ic_image f, f)) l) k of None \<Rightarrow> map_get m k | Some f \<Rightarrow> Some f)"
  by (induction l arbitrary: m) (auto split: option.splits simp: map_of_eq_None_iff image_iff dest!: map_of_SomeD)

lemma frontends_reload:
  assumes "frontends_ok fs"
  shows "\<exists>m. load_frontends (map snd (fs_frontends fs)) [] = Some m \<and> map_get m = map_get (fs_frontends fs)"
proof -
  let ?m = "fs_frontends fs"
  have entry: "ic_image ic = k \<and> Instance_Validate ic = None" if "(k, ic) \<in> set ?m" for k ic
    using that assms in_map_get [of ?m k ic] by (simp add: frontends_ok_def)
  then have fst: "map (\<lambda>f. (ic_image f, f)) (map snd ?m) = ?m" by (auto intro!: map_idI)
  have "map ic_image (map snd ?m) = map fst ?m" using entry by auto
  then have "distinct (map ic_image (map snd ?m))" using assms by (simp only: frontends_ok_def map_ok_def)
  note map_get_images [OF this, of "[]"]
  then have "map_get (foldl (\<lambda>m f. map_put (ic_image f) f m) [] (map snd ?m)) k = map_get ?m k" for k
    using fst by (simp only: map_get_Nil) (simp add: map_get_def split: option.split)
  then have "map_get (foldl (\<lambda>m f. map_put (ic_image f) f m) [] (map snd ?m)) = map_get ?m" by (rule ext)
  with entry show ?thesis by (subst load_frontends_ok) auto
qed

lemma set_frontend_ok:
  assumes "frontends_ok fs" and "\<And>ic. ic_image (change ic) = ic_image ic" and "set_frontend w change f fs = (e, fs')"
  shows "frontends_ok fs'"
proof -
  have "ic_image (get_frontend fs f) = f"
    using assms(1) by (auto simp: get_frontend_def default_frontend_def frontends_ok_def split: option.split)
  with assms show ?thesis
    by (auto simp: set_frontend_def frontend_hooks_def frontends_ok_def Let_def split: option.splits if_splits)
qed

lemma set_frontend_restart:
  assumes "frontends_ok fs" and "\<And>ic. ic_image (change ic) = ic_image ic"
    and "set_frontend True change f fs = (None, fs')"
  shows "\<exists>fs''. NewFrontendsFile (fs_file fs') = Some fs'' \<and> GetFrontends fs'' = GetFrontends fs'"
proof -
  have "frontends_ok fs'" by (rule set_frontend_ok [OF assms])
  moreover have "fs_file fs' = Some (map snd (fs_frontends fs'))"
    using assms(3) by (auto simp: set_frontend_def frontend_hooks_def Let_def split: option.splits)
  ultimately show ?thesis
    using frontends_reload [of fs'] by (force simp: NewFrontendsFile_def GetFrontends_def get_frontend_def fun_eq_iff)
qed

subsection \<open>Properties\<close>

text \<open>
  For an exercise that runs in containers the challenges handed to the site are exactly
  the exercise's own, in order, and the value of each is its static flag or, for a dynamic
  one, the value of its variable in the container's environment, when an instance uses no variable twice.
\<close>
theorem container_flags:
  assumes "ContainerOpts src rnd e st = Some (opts, st')" and "\<not> ex_static e"
    and "list_all own_variables (ex_instances e)"
  shows "concat (map (map ch_tag \<circ> co_challenges) opts) = Exercise_ChildTags e \<and>
     list_all2 (\<lambda>i opt. dc_image (co_docker opt) = ei_image i \<and>
       list_all2 (\<lambda>f c. ch_value c = cc_static_flag f \<and> cc_static_flag f \<noteq> [] \<or>
           cc_static_flag f = [] \<and> map_get (dc_env (co_docker opt)) (cc_env f) = Some (ch_value c))
         (ei_flags i) (co_challenges opt)) (ex_instances e) opts"
proof -
  have all: "list_all2 (opt_delivers (ex_static e)) (ex_instances e) opts"
    using opts_loop_delivers [OF _ assms(3)] assms(1) by (simp add: ContainerOpts_def)
  have image: "list_all2 (\<lambda>i opt. dc_image (co_docker opt) = ei_image i) is os"
    if "opts_loop src rnd False is st = Some (os, st')" for "is" os st
    using that by (induction "is" arbitrary: st os) (auto simp: container_opt_def Let_def split: option.splits)
  have "concat (map (map ch_tag \<circ> co_challenges) opts) = concat (map (map cc_tag \<circ> ei_flags) (ex_instances e))"
    using all by (induction rule: list_all2_induct) (auto simp: opt_delivers_def)
  then have "concat (map (map ch_tag \<circ> co_challenges) opts) = Exercise_ChildTags e"
    by (simp add: Exercise_ChildTags_def Exercise_Flags_eq map_concat comp_def)
  moreover have "list_all2 (\<lambda>i opt. dc_image (co_docker opt) = ei_image i \<and> opt_delivers (ex_static e) i opt) (ex_instances e) opts"
    using all image [of "ex_instances e" st opts] assms(1,2) by (simp add: ContainerOpts_def list_all2_conv_all_nth)
  ultimately show ?thesis
    using assms(2) by (auto elim!: list_all2_mono simp: opt_delivers_def split: if_splits)
qed

definition sample_exercise :: exercise_conf where
  "sample_exercise = \<lparr>ex_tag = ''sql'', ex_name = ''SQL'', ex_category = ''Web'', ex_secret = False, ex_static = False,
     ex_instances = [\<lparr>ei_image = ''img'', ei_memory = 50, ei_cpu = 1, ei_envs = [\<lparr>ev_env = ''MODE'', ev_value = ''ctf''\<rparr>],
       ei_flags = [\<lparr>cc_tag = ''sql-1'', cc_name = ''One'', cc_env = ''FLAG'', cc_static_flag = [], cc_points = 5,
           cc_category = ''Web'', cc_description = [], cc_prereqs = [], cc_outcomes = [], cc_static = False\<rparr>],
       ei_records = []\<rparr>],
     ex_description = []\<rparr>"

lemma sample_exercise_options:
  "\<exists>opts st'. ContainerOpts (\<lambda>k. 0) (\<lambda>k. 1) sample_exercise (0, 0) = Some (opts, st')"
proof -
  obtain pos' where "NewFlag (\<lambda>k. 0) 0 = Some (''HKN{aaaaaaaaaa}'', pos')" using zero_flag by blast
  then show ?thesis by (simp add: ContainerOpts_def sample_exercise_def container_opt_def new_flag_string_def Let_def)
qed

theorem container_flags_witness:
  "\<exists>opts st' opt c. ContainerOpts (\<lambda>k. 0) (\<lambda>k. 1) sample_exercise (0, 0) = Some (opts, st') \<and>
     opt \<in> set opts \<and> c \<in> set (co_challenges opt) \<and> map_get (dc_env (co_docker opt)) ''FLAG'' = Some (ch_value c)"
proof -
  obtain opts st' where o: "ContainerOpts (\<lambda>k. 0) (\<lambda>k. 1) sample_exercise (0, 0) = Some (opts, st')"
    using sample_exercise_options by blast
  have s: "\<not> ex_static sample_exercise" "list_all own_variables (ex_instances sample_exercise)"
    by (simp_all add: sample_exercise_def own_variables_def)
  from container_flags [OF o s, THEN conjunct2] obtain opt c where "opts = [opt]" and "co_challenges opt = [c]"
    and "map_get (dc_env (co_docker opt)) ''FLAG'' = Some (ch_value c)"
    by (auto simp: sample_exercise_def list_all2_Cons1)
  with o show ?thesis by auto
qed

end
