(* ===== verification/Store_Users.thy ===== *)
theory Store_Users
  imports Store_Team
begin

text \<open>
  The users of the daemon and their signup keys (store/user.go). The users live twice: as a list,
  which is what \<^verbatim>\<open>RunHooks\<close> hands to the file, and as a map from user names to records of its own.
  A \<open>users_file\<close> holds both, the keys, the configuration \<^verbatim>\<open>conf\<close> the hooks write into, and
  the file as last written. Writing may fail (\<open>write_ok\<close>), hashing is a parameter. A slice handed out
  by \<^verbatim>\<open>ListUsers\<close> is the list at that time.
\<close>

subsection \<open>Data\<close>

datatype user_error =
    UserExistsErr
  | UserNotFoundErr
  | PasswdTooShortErr
  | HashErr
  | SignupKeyExistsErr
  | SignupKeyNotFoundErr
  | SaveErr

record user =
  u_username :: string
  u_name :: string
  u_surname :: string
  u_email :: string
  u_hash :: string
  u_super :: bool
  u_np :: bool
  u_created :: string

record signup_key =
  sk_np :: bool
  sk_super :: bool
  sk_value :: string

type_synonym users_conf = "user list \<times> signup_key list"

record users_file =
  uf_map :: "(string, user) gomap"
  uf_users :: "user list"
  uf_keys :: "(string, signup_key) gomap"
  uf_conf :: users_conf
  uf_file :: "users_conf option"

definition generateHashedPasswd :: "(string \<Rightarrow> string option) \<Rightarrow> string \<Rightarrow> user_error + string" where
  "generateHashedPasswd bcrypt password =
     (if length password < 6 then Inl PasswdTooShortErr
      else (case bcrypt password of None \<Rightarrow> Inl HashErr | Some h \<Rightarrow> Inr h))"

text \<open>\<^verbatim>\<open>strings.ToLower\<close> on ASCII text.\<close>

definition to_lower :: "char \<Rightarrow> char" where
  "to_lower c = (let n = of_char c :: nat in if 65 \<le> n \<and> n \<le> 90 then char_of (n + 32) else c)"

definition NewUser ::
  "(string \<Rightarrow> string option) \<Rightarrow> string \<Rightarrow> string \<Rightarrow> string \<Rightarrow> string \<Rightarrow> string \<Rightarrow> user_error + user" where
  "NewUser bcrypt username name surname email password =
     (case generateHashedPasswd bcrypt password of
        Inl e \<Rightarrow> Inl e
      | Inr h \<Rightarrow> Inr \<lparr>u_username = map to_lower username, u_name = TrimSpace name, u_surname = TrimSpace surname,
                      u_email = TrimSpace email, u_hash = h, u_super = False, u_np = False, u_created = []\<rparr>)"

definition IsCorrectPassword :: "(string \<Rightarrow> string \<Rightarrow> bool) \<Rightarrow> user \<Rightarrow> string \<Rightarrow> bool" where
  "IsCorrectPassword compare_hash u pass = compare_hash (u_hash u) pass"

subsection \<open>Users\<close>

definition NewUserStore :: "user list \<Rightarrow> (string, user) gomap" where
  "NewUserStore us = foldl (\<lambda>m u. map_put (u_username u) u m) [] us"

definition NewSignupKeyStore :: "signup_key list \<Rightarrow> (string, signup_key) gomap" where
  "NewSignupKeyStore ks = foldl (\<lambda>m k. map_put (sk_value k) k m) [] ks"

definition NewUserFile :: "users_conf option \<Rightarrow> users_file" where
  "NewUserFile file =
     (let conf = (case file of None \<Rightarrow> ([], []) | Some c \<Rightarrow> c)
      in \<lparr>uf_map = NewUserStore (fst conf), uf_users = fst conf, uf_keys = NewSignupKeyStore (snd conf),
          uf_conf = conf, uf_file = file\<rparr>)"

definition save :: "bool \<Rightarrow> users_file \<Rightarrow> user_error option \<times> users_file" where
  "save write_ok s = (if write_ok then (None, s\<lparr>uf_file := Some (uf_conf s)\<rparr>) else (Some SaveErr, s))"

definition user_hooks :: "bool \<Rightarrow> users_file \<Rightarrow> user_error option \<times> users_file" where
  "user_hooks write_ok s = save write_ok (s\<lparr>uf_conf := (uf_users s, snd (uf_conf s))\<rparr>)"

text \<open>For an unknown name the map gives nil, which is dereferenced.\<close>

definition IsSuperUser :: "string \<Rightarrow> users_file \<Rightarrow> bool go" where
  "IsSuperUser username s = (case map_get (uf_map s) username of None \<Rightarrow> Panic | Some u \<Rightarrow> Ret (u_super u))"

fun remove_first :: "string \<Rightarrow> user list \<Rightarrow> user list" where
  "remove_first username [] = []"
| "remove_first username (u # us) = (if u_username u = username then us else u # remove_first username us)"

definition DeleteUserByUsername :: "bool \<Rightarrow> string \<Rightarrow> users_file \<Rightarrow> user_error option \<times> users_file" where
  "DeleteUserByUsername write_ok username s =
     (if map_get (uf_map s) username = None then (Some UserNotFoundErr, s)
      else user_hooks write_ok (s\<lparr>uf_map := map_del username (uf_map s),
                                  uf_users := remove_first username (uf_users s)\<rparr>))"

text \<open>The record behind the map's pointer is changed; the list has a record of its own.\<close>

definition UpdatePasswd ::
  "(string \<Rightarrow> string option) \<Rightarrow> bool \<Rightarrow> string \<Rightarrow> string \<Rightarrow> users_file \<Rightarrow> user_error option \<times> users_file" where
  "UpdatePasswd bcrypt write_ok username password s =
     (case map_get (uf_map s) username of
        None \<Rightarrow> (Some UserNotFoundErr, s)
      | Some u \<Rightarrow>
          (case generateHashedPasswd bcrypt password of
             Inl e \<Rightarrow> (Some e, s)
           | Inr h \<Rightarrow> user_hooks write_ok (s\<lparr>uf_map := map_put username (u\<lparr>u_hash := h\<rparr>) (uf_map s)\<rparr>)))"

definition GetUserByUsername :: "string \<Rightarrow> users_file \<Rightarrow> user_error + user" where
  "GetUserByUsername username s =
     (case map_get (uf_map s) username of None \<Rightarrow> Inl UserNotFoundErr | Some u \<Rightarrow> Inr u)"

definition ListUsers :: "users_file \<Rightarrow> user list" where
  "ListUsers s = uf_users s"

definition CreateUser :: "bool \<Rightarrow> string \<Rightarrow> user \<Rightarrow> users_file \<Rightarrow> user_error option \<times> users_file" where
  "CreateUser write_ok tm u s =
     (if map_get (uf_map s) (u_username u) \<noteq> None then (Some UserExistsErr, s)
      else
        let u = u\<lparr>u_created := tm\<rparr>
        in user_hooks write_ok (s\<lparr>uf_map := map_put (u_username u) u (uf_map s), uf_users := uf_users s @ [u]\<rparr>))"

subsection \<open>Signup keys\<close>

definition NewSignupKey :: "string \<Rightarrow> signup_key" where
  "NewSignupKey uuid = \<lparr>sk_np = False, sk_super = False, sk_value = uuid\<rparr>"

definition ListSignupKeys :: "users_file \<Rightarrow> signup_key list" where
  "ListSignupKeys s = map snd (uf_keys s)"

definition key_hooks :: "bool \<Rightarrow> users_file \<Rightarrow> user_error option \<times> users_file" where
  "key_hooks write_ok s = save write_ok (s\<lparr>uf_conf := (fst (uf_conf s), ListSignupKeys s)\<rparr>)"

definition CreateSignupKey :: "bool \<Rightarrow> signup_key \<Rightarrow> users_file \<Rightarrow> user_error option \<times> users_file" where
  "CreateSignupKey write_ok k s =
     (if map_get (uf_keys s) (sk_value k) \<noteq> None then (Some SignupKeyExistsErr, s)
      else key_hooks write_ok (s\<lparr>uf_keys := map_put (sk_value k) k (uf_keys s)\<rparr>))"

definition GetSignupKey :: "string \<Rightarrow> users_file \<Rightarrow> user_error + signup_key" where
  "GetSignupKey v s = (case map_get (uf_keys s) v of None \<Rightarrow> Inl SignupKeyNotFoundErr | Some k \<Rightarrow> Inr k)"

definition DeleteSignupKey :: "bool \<Rightarrow> signup_key \<Rightarrow> users_file \<Rightarrow> user_error option \<times> users_file" where
  "DeleteSignupKey write_ok k s =
     (if map_get (uf_keys s) (sk_value k) = None then (Some SignupKeyNotFoundErr, s)
      else key_hooks write_ok (s\<lparr>uf_keys := map_del (sk_value k) (uf_keys s)\<rparr>))"

subsection \<open>Reachable stores\<close>

inductive users_step :: "(string \<Rightarrow> string option) \<Rightarrow> users_file \<Rightarrow> users_file \<Rightarrow> bool" for bcrypt where
  create: "users_step bcrypt s (snd (CreateUser w tm u s))"
| delete: "users_step bcrypt s (snd (DeleteUserByUsername w n s))"
| passwd: "users_step bcrypt s (snd (UpdatePasswd bcrypt w n p s))"
| add_key: "users_step bcrypt s (snd (CreateSignupKey w k s))"
| del_key: "users_step bcrypt s (snd (DeleteSignupKey w k s))"

inductive users_reachable :: "(string \<Rightarrow> string option) \<Rightarrow> users_conf option \<Rightarrow> users_file \<Rightarrow> bool" for bcrypt init where
  start: "users_reachable bcrypt init (NewUserFile init)"
| step: "users_reachable bcrypt init s \<Longrightarrow> users_step bcrypt s s' \<Longrightarrow> users_reachable bcrypt init s'"

definition but_hash :: "user \<Rightarrow> user" where
  "but_hash u = u\<lparr>u_hash := []\<rparr>"

lemma but_hash_update [simp]: "but_hash (u\<lparr>u_hash := h\<rparr>) = but_hash u"
  by (simp add: but_hash_def)

definition listed :: "user list \<Rightarrow> string \<Rightarrow> user option" where
  "listed us n = map_of (map (\<lambda>u. (u_username u, u)) us) n"

definition keys_ok :: "(string, signup_key) gomap \<Rightarrow> bool" where
  "keys_ok m \<longleftrightarrow> map_ok m \<and> (\<forall>v k. map_get m v = Some k \<longrightarrow> sk_value k = v)"

text \<open>The two copies agree on everything but the passwords, and what the hooks last saw is what they hold.\<close>

definition users_ok :: "users_file \<Rightarrow> bool" where
  "users_ok s \<longleftrightarrow> map_ok (uf_map s) \<and> distinct (map u_username (uf_users s)) \<and>
     (\<forall>n. map_option but_hash (map_get (uf_map s) n) = map_option but_hash (listed (uf_users s) n)) \<and>
     keys_ok (uf_keys s) \<and>
     fst (uf_conf s) = uf_users s"

definition saved_users :: "users_conf option \<Rightarrow> user list" where
  "saved_users file = (case file of None \<Rightarrow> [] | Some c \<Rightarrow> fst c)"

definition saved_keys :: "users_conf option \<Rightarrow> signup_key list" where
  "saved_keys file = (case file of None \<Rightarrow> [] | Some c \<Rightarrow> snd c)"

lemma listed_simps [simp]:
  "listed [] n = None"
  "listed (u # us) n = (if u_username u = n then Some u else listed us n)"
  "listed (us @ vs) n = (case listed us n of None \<Rightarrow> listed vs n | Some u \<Rightarrow> Some u)"
  by (simp_all add: listed_def map_add_def split: option.split)

lemma listed_None: "listed us n = None \<longleftrightarrow> n \<notin> u_username ` set us"
  by (induction us) auto

lemma listed_remove:
  "distinct (map u_username us) \<Longrightarrow> listed (remove_first x us) n = (if n = x then None else listed us n)"
  by (induction us) (auto simp: listed_None)

lemma set_remove_first: "u \<in> set (remove_first x us) \<Longrightarrow> u \<in> set us"
  by (induction us) (auto split: if_splits)

lemma distinct_remove:
  "distinct (map u_username us) \<Longrightarrow> distinct (map u_username (remove_first x us))"
  by (induction us) (auto dest: set_remove_first)

lemma map_ok_puts: "map_ok m \<Longrightarrow> map_ok (foldl (\<lambda>m u. map_put (f u) u m) m us)"
  by (induction us arbitrary: m) auto

lemma map_ok_stores: "map_ok (NewUserStore us)"
  by (simp add: NewUserStore_def map_ok_puts)

lemma NewUserStore_listed:
  assumes "distinct (map u_username us)"
  shows "map_get (NewUserStore us) n = listed us n"
proof -
  have "distinct (map u_username us) \<Longrightarrow>
      map_get (foldl (\<lambda>m u. map_put (u_username u) u m) m us) n =
        (case listed us n of None \<Rightarrow> map_get m n | Some u \<Rightarrow> Some u)" for m
  proof (induction us arbitrary: m)
    case (Cons a us)
    then have "listed us (u_username a) = None" by (simp add: listed_None)
    with Cons show ?case by (auto split: option.split)
  qed simp
  with assms show ?thesis by (simp add: NewUserStore_def split: option.split)
qed

lemma keys_ok_put: "keys_ok m \<Longrightarrow> keys_ok (map_put (sk_value k) k m)"
  by (simp add: keys_ok_def split: if_split)

lemma keys_ok_del: "keys_ok m \<Longrightarrow> keys_ok (map_del x m)"
  by (simp add: keys_ok_def split: if_split)

lemma keys_ok_stored: "keys_ok (NewSignupKeyStore ks)"
proof -
  have "keys_ok m \<Longrightarrow> keys_ok (foldl (\<lambda>m k. map_put (sk_value k) k m) m ks)" for m
    by (induction ks arbitrary: m) (simp_all add: keys_ok_put)
  moreover have "keys_ok []" by (simp add: keys_ok_def)
  ultimately show ?thesis by (simp add: NewSignupKeyStore_def)
qed

lemma users_ok_NewUserFile: "distinct (map u_username (saved_users init)) \<Longrightarrow> users_ok (NewUserFile init)"
  by (cases init) (auto simp: users_ok_def NewUserFile_def Let_def saved_users_def NewUserStore_listed map_ok_stores
      keys_ok_stored)

lemma users_ok_save: "users_ok (snd (save w s)) \<longleftrightarrow> users_ok s"
  by (simp add: save_def users_ok_def)

lemma users_step_ok:
  assumes "users_step bcrypt s s'" and "users_ok s"
  shows "users_ok s'"
  using assms(1)
proof cases
  case (create w tm u)
  show ?thesis
  proof (cases "map_get (uf_map s) (u_username u) = None")
    case True
    then have "map_option but_hash (listed (uf_users s) (u_username u)) = None"
      using assms(2) by (metis option.map(1) users_ok_def)
    then have none: "listed (uf_users s) (u_username u) = None" by simp
    then have "u_username u \<notin> u_username ` set (uf_users s)" by (simp only: listed_None) simp
    with True none assms(2) create show ?thesis
      by (auto simp: CreateUser_def Let_def user_hooks_def users_ok_save)
         (auto simp: users_ok_def split: option.split)
  qed (use assms(2) create in \<open>simp add: CreateUser_def\<close>)
next
  case (delete w n)
  with assms(2) show ?thesis
    by (auto simp: DeleteUserByUsername_def user_hooks_def users_ok_save)
       (auto simp: users_ok_def listed_remove distinct_remove)
next
  case (passwd w n p)
  with assms(2) show ?thesis
    by (auto simp: UpdatePasswd_def user_hooks_def users_ok_save split: option.split sum.split)
       (auto simp: users_ok_def split: option.splits, metis option.map(2))
next
  case (add_key w k)
  with assms(2) show ?thesis
    by (auto simp: CreateSignupKey_def key_hooks_def users_ok_save) (auto simp: users_ok_def keys_ok_put)
next
  case (del_key w k)
  with assms(2) show ?thesis
    by (auto simp: DeleteSignupKey_def key_hooks_def users_ok_save) (auto simp: users_ok_def keys_ok_del)
qed

lemma users_reachable_ok:
  "users_reachable bcrypt init s \<Longrightarrow> distinct (map u_username (saved_users init)) \<Longrightarrow> users_ok s"
  by (induction rule: users_reachable.induct) (auto intro: users_ok_NewUserFile users_step_ok)

text \<open>What a restart finds is the list as last written.\<close>

lemma reload_users:
  assumes "users_ok s" and "uf_file s = Some (uf_conf s)"
  shows "map_get (uf_map (NewUserFile (uf_file s))) n = listed (uf_users s) n"
  using assms by (simp add: NewUserFile_def NewUserStore_listed users_ok_def Let_def)

lemma user_hooks_saved:
  "user_hooks True s = (e, s') \<Longrightarrow> e = None \<and> uf_file s' = Some (uf_conf s') \<and> uf_users s' = uf_users s \<and> uf_map s' = uf_map s"
  by (auto simp: user_hooks_def save_def)

subsection \<open>Properties\<close>

text \<open>
  After a user was created or deleted and the file was written, a restart from the file finds
  the same users as the running daemon, up to their passwords, whatever happened before.
\<close>
theorem users_restart:
  assumes "users_reachable bcrypt init s" and "distinct (map u_username (saved_users init))"
    and "CreateUser True tm u s = (None, s') \<or> DeleteUserByUsername True n s = (None, s')"
  shows "users_ok s' \<and>
    map_sum id but_hash (GetUserByUsername m (NewUserFile (uf_file s'))) = map_sum id but_hash (GetUserByUsername m s')"
proof -
  have ok: "users_ok s" by (rule users_reachable_ok [OF assms(1,2)])
  have saved: "uf_file s' = Some (uf_conf s')"
    using assms(3) by (auto simp: CreateUser_def DeleteUserByUsername_def Let_def dest: user_hooks_saved split: if_splits)
  have ok': "users_ok s'"
    using assms(3) users_step_ok [OF users_step.create [of bcrypt s True tm u] ok]
      users_step_ok [OF users_step.delete [of bcrypt s True n] ok] by auto
  have "map_option but_hash (map_get (uf_map s') m) = map_option but_hash (listed (uf_users s') m)"
    using ok' by (simp add: users_ok_def)
  then show ?thesis using ok' reload_users [OF ok' saved, of m]
    by (auto simp: GetUserByUsername_def split: option.splits)
qed

text \<open>
  A changed password is in force until the daemon restarts: the update is answered with
  success and the file is written, but with the user as it was listed before, so the restarted
  daemon asks for the old password.
\<close>
theorem password_not_saved:
  assumes "users_reachable bcrypt init s" and "distinct (map u_username (saved_users init))"
    and "UpdatePasswd bcrypt True n p s = (None, s')"
  shows "\<exists>h u v. bcrypt p = Some h \<and> GetUserByUsername n s' = Inr u \<and> u_hash u = h \<and>
    v \<in> set (ListUsers s) \<and> GetUserByUsername n (NewUserFile (uf_file s')) = Inr v \<and> u_username v = n"
proof -
  have ok: "users_ok s" by (rule users_reachable_ok [OF assms(1,2)])
  obtain u h where u: "map_get (uf_map s) n = Some u" and h: "generateHashedPasswd bcrypt p = Inr h"
    and run: "user_hooks True (s\<lparr>uf_map := map_put n (u\<lparr>u_hash := h\<rparr>) (uf_map s)\<rparr>) = (None, s')"
    using assms(3) by (auto simp: UpdatePasswd_def split: option.splits sum.splits)
  note saved = user_hooks_saved [OF run]
  have ok': "users_ok s'"
    using users_step_ok [OF users_step.passwd [of bcrypt s True n p] ok] assms(3) by simp
  have "map_option but_hash (listed (uf_users s) n) = map_option but_hash (map_get (uf_map s) n)"
    using ok by (simp add: users_ok_def)
  then obtain v where v: "listed (uf_users s) n = Some v" using u by auto
  then have "v \<in> set (uf_users s)" "u_username v = n" by (auto simp: listed_def dest: map_of_SomeD)
  moreover have "GetUserByUsername n (NewUserFile (uf_file s')) = Inr v"
    using reload_users [OF ok', of n] saved v by (simp add: GetUserByUsername_def)
  moreover have "GetUserByUsername n s' = Inr (u\<lparr>u_hash := h\<rparr>)" using saved by (simp add: GetUserByUsername_def)
  moreover have "bcrypt p = Some h"
    using h by (auto simp: generateHashedPasswd_def split: if_splits option.splits)
  ultimately show ?thesis by (auto simp: ListUsers_def)
qed

definition sample_user :: user where
  "sample_user = \<lparr>u_username = ''ann'', u_name = ''Ann'', u_surname = [], u_email = [], u_hash = ''old'', u_super = True,
     u_np = False, u_created = ''t0''\<rparr>"

lemma sample_users: "users_reachable Some (Some ([sample_user], [])) (NewUserFile (Some ([sample_user], [])))"
  "distinct (map u_username (saved_users (Some ([sample_user], []))))"
  by (rule users_reachable.start) (simp add: saved_users_def)

lemmas users_run = CreateUser_def UpdatePasswd_def DeleteUserByUsername_def user_hooks_def save_def NewUserFile_def
  NewUserStore_def NewSignupKeyStore_def generateHashedPasswd_def

theorem users_restart_witness:
  "\<exists>s'. CreateUser True ''t1'' (sample_user\<lparr>u_username := ''bob''\<rparr>) (NewUserFile (Some ([sample_user], []))) = (None, s') \<and>
     map_sum id but_hash (GetUserByUsername ''bob'' (NewUserFile (uf_file s'))) =
       map_sum id but_hash (GetUserByUsername ''bob'' s')"
proof -
  obtain s' where s: "CreateUser True ''t1'' (sample_user\<lparr>u_username := ''bob''\<rparr>) (NewUserFile (Some ([sample_user], []))) = (None, s')"
    by (simp add: users_run sample_user_def map_get_Cons Let_def)
  with users_restart [OF sample_users, of "''t1''" "sample_user\<lparr>u_username := ''bob''\<rparr>" s' "[]" "''bob''"]
  show ?thesis by blast
qed

theorem password_not_saved_witness:
  "\<exists>s' u v. UpdatePasswd Some True ''ann'' ''secret'' (NewUserFile (Some ([sample_user], []))) = (None, s') \<and>
     GetUserByUsername ''ann'' s' = Inr u \<and> u_hash u = ''secret'' \<and>
     GetUserByUsername ''ann'' (NewUserFile (uf_file s')) = Inr v \<and> u_hash v = ''old''"
proof -
  obtain s' where s: "UpdatePasswd Some True ''ann'' ''secret'' (NewUserFile (Some ([sample_user], []))) = (None, s')"
    by (simp add: users_run sample_user_def map_get_Cons Let_def)
  have "ListUsers (NewUserFile (Some ([sample_user], []))) = [sample_user]" by (simp add: ListUsers_def NewUserFile_def Let_def)
  moreover have "u_hash sample_user = ''old''" by (simp add: sample_user_def)
  ultimately show ?thesis using password_not_saved [OF sample_users s] s by force
qed

end
