(* ===== verification/Guac_Keys.thy ===== *)
theory Guac_Keys
  imports Prelude
begin

text \<open>
  The key logger of the Guacamole proxy (svcs/guacamole/proto.go, keylogger.go): the reader of
  protocol frames, the two filters, and the loop that logs key presses and mouse clicks. A raw
  frame is a list of bytes. \<open>DecodeRune\<close> is Go's \<^verbatim>\<open>utf8.DecodeRune\<close> and \<open>rune_string\<close> the
  conversion \<^verbatim>\<open>string(r)\<close>; the loop of \<^verbatim>\<open>NewFrame\<close> ends because a rune takes at least one byte.
\<close>

subsection \<open>Runes\<close>

abbreviation byte :: "char \<Rightarrow> nat" where
  "byte c \<equiv> of_char c"

definition RuneError :: nat where "RuneError = 0xFFFD"

definition tail_byte :: "char \<Rightarrow> bool" where
  "tail_byte c \<longleftrightarrow> 0x80 \<le> byte c \<and> byte c \<le> 0xBF"

text \<open>The bytes that may follow the first one of a three- or four-byte rune.\<close>

definition second_ok :: "nat \<Rightarrow> char \<Rightarrow> bool" where
  "second_ok b0 c \<longleftrightarrow>
     (if b0 = 0xE0 then 0xA0 else if b0 = 0xF0 then 0x90 else 0x80) \<le> byte c \<and>
     byte c \<le> (if b0 = 0xED then 0x9F else if b0 = 0xF4 then 0x8F else 0xBF)"

fun DecodeRune :: "string \<Rightarrow> nat \<times> nat" where
  "DecodeRune [] = (RuneError, 0)"
| "DecodeRune (c0 # p) =
     (let b0 = byte c0 in
      if b0 < 0x80 then (b0, 1)
      else if b0 < 0xC2 \<or> 0xF4 < b0 then (RuneError, 1)
      else if b0 < 0xE0 then
        (case p of
           c1 # _ \<Rightarrow> if tail_byte c1 then ((b0 - 0xC0) * 64 + (byte c1 - 0x80), 2) else (RuneError, 1)
         | _ \<Rightarrow> (RuneError, 1))
      else if b0 < 0xF0 then
        (case p of
           c1 # c2 # _ \<Rightarrow>
             if second_ok b0 c1 \<and> tail_byte c2
             then ((b0 - 0xE0) * 4096 + (byte c1 - 0x80) * 64 + (byte c2 - 0x80), 3) else (RuneError, 1)
         | _ \<Rightarrow> (RuneError, 1))
      else
        (case p of
           c1 # c2 # c3 # _ \<Rightarrow>
             if second_ok b0 c1 \<and> tail_byte c2 \<and> tail_byte c3
             then ((b0 - 0xF0) * 262144 + (byte c1 - 0x80) * 4096 + (byte c2 - 0x80) * 64 + (byte c3 - 0x80), 4)
             else (RuneError, 1)
         | _ \<Rightarrow> (RuneError, 1)))"

definition scalar :: "nat \<Rightarrow> bool" where
  "scalar r \<longleftrightarrow> r < 0xD800 \<or> 0xDFFF < r \<and> r \<le> 0x10FFFF"

definition encode_rune :: "nat \<Rightarrow> string" where
  "encode_rune r =
     (if r < 0x80 then [char_of r]
      else if r < 0x800 then [char_of (0xC0 + r div 64), char_of (0x80 + r mod 64)]
      else if r < 0x10000
      then [char_of (0xE0 + r div 4096), char_of (0x80 + r div 64 mod 64), char_of (0x80 + r mod 64)]
      else [char_of (0xF0 + r div 262144), char_of (0x80 + r div 4096 mod 64), char_of (0x80 + r div 64 mod 64),
            char_of (0x80 + r mod 64)])"

definition rune_string :: "nat \<Rightarrow> string" where
  "rune_string r = encode_rune (if scalar r then r else RuneError)"

lemma DecodeRune_size: "p \<noteq> [] \<Longrightarrow> 0 < snd (DecodeRune p)"
  by (cases p) (auto simp: Let_def split: list.split)

lemma byte_char_of: "n < 256 \<Longrightarrow> byte (char_of n) = n"
  by simp

lemma base64: "(r :: nat) = r div 64 * 64 + r mod 64"
  by simp

lemma DecodeRune_string:
  assumes "scalar r"
  shows "DecodeRune (rune_string r @ p) = (r, length (rune_string r))"
proof -
  consider "r < 0x80" | "0x80 \<le> r" "r < 0x800" | "0x800 \<le> r" "r < 0x10000" | "0x10000 \<le> r" "r < 0x110000"
    using assms by (force simp: scalar_def)
  then show ?thesis
  proof cases
    case 1
    with assms show ?thesis by (simp add: rune_string_def encode_rune_def)
  next
    case 2
    define a b where "a = r div 64" and "b = r mod 64"
    have r: "r = a * 64 + b" and b: "b < 64" by (simp_all add: a_def b_def)
    have "rune_string r = [char_of (0xC0 + a), char_of (0x80 + b)]"
      using 2 assms by (simp add: rune_string_def encode_rune_def a_def b_def)
    moreover have "2 \<le> a" "a < 32" using 2 b unfolding r by simp_all
    ultimately show ?thesis using b by (simp add: r Let_def byte_char_of tail_byte_def)
  next
    case 3
    define a b c where "a = r div 4096" and "b = r div 64 mod 64" and "c = r mod 64"
    have bc: "b < 64" "c < 64" by (simp_all add: b_def c_def)
    have r: "r = a * 4096 + b * 64 + c"
    proof -
      have "r div 64 = a * 64 + b" using base64 [of "r div 64"] by (simp add: a_def b_def div_mult2_eq [symmetric])
      with base64 [of r] have "r = (a * 64 + b) * 64 + c" by (simp only: c_def)
      then show ?thesis by simp
    qed
    have "rune_string r = [char_of (0xE0 + a), char_of (0x80 + b), char_of (0x80 + c)]"
      using 3 assms by (simp add: rune_string_def encode_rune_def a_def b_def c_def)
    moreover have "a < 16" "a = 0 \<Longrightarrow> 32 \<le> b" "a = 13 \<Longrightarrow> b \<le> 31"
      using 3 bc assms unfolding r scalar_def by simp_all
    ultimately show ?thesis using bc by (simp add: r Let_def byte_char_of tail_byte_def second_ok_def)
  next
    case 4
    define a b c d where "a = r div 262144" and "b = r div 4096 mod 64" and "c = r div 64 mod 64" and "d = r mod 64"
    have bcd: "b < 64" "c < 64" "d < 64" by (simp_all add: b_def c_def d_def)
    have r: "r = a * 262144 + b * 4096 + c * 64 + d"
    proof -
      have "r div 4096 = a * 64 + b" using base64 [of "r div 4096"] by (simp add: a_def b_def div_mult2_eq [symmetric])
      then have "r div 64 = (a * 64 + b) * 64 + c"
        using base64 [of "r div 64"] by (simp add: c_def div_mult2_eq [symmetric])
      with base64 [of r] have "r = ((a * 64 + b) * 64 + c) * 64 + d" by (simp only: d_def)
      then show ?thesis by simp
    qed
    have "rune_string r = [char_of (0xF0 + a), char_of (0x80 + b), char_of (0x80 + c), char_of (0x80 + d)]"
      using 4 assms by (simp add: rune_string_def encode_rune_def a_def b_def c_def d_def)
    moreover have "a < 5" "a = 0 \<Longrightarrow> 16 \<le> b" "a = 4 \<Longrightarrow> b \<le> 15"
      using 4 bcd unfolding r by simp_all
    ultimately show ?thesis using bcd by (simp add: r Let_def byte_char_of tail_byte_def second_ok_def)
  qed
qed

subsection \<open>Frames\<close>

record frame =
  Opcode :: string
  Args :: "string list"

definition frame_element :: "string \<Rightarrow> frame \<Rightarrow> frame" where
  "frame_element s msg = (if Opcode msg = [] then msg\<lparr>Opcode := s\<rparr> else msg\<lparr>Args := Args msg @ [s]\<rparr>)"

function frame_loop :: "string \<Rightarrow> string \<Rightarrow> frame \<Rightarrow> frame" where
  "frame_loop raw s msg =
     (if raw = [] then msg
      else
        let r = fst (DecodeRune raw); raw' = drop (snd (DecodeRune raw)) raw in
        if r = 46 then frame_loop raw' [] msg
        else if r = 44 \<or> r = 59 then frame_loop raw' [] (frame_element s msg)
        else frame_loop raw' (s @ rune_string r) msg)"
  by pat_completeness auto
termination
  by (relation "measure (\<lambda>(raw, s, msg). length raw)") (use DecodeRune_size in \<open>auto intro!: diff_less\<close>)

declare frame_loop.simps [simp del]

definition NewFrame :: "string \<Rightarrow> frame" where
  "NewFrame raw = frame_loop raw [] \<lparr>Opcode = [], Args = []\<rparr>"

datatype frame_error = InvalidOpcodeErr | InvalidArgsErr

record key_frame =
  kf_key :: string
  kf_pressed :: string

record mouse_frame =
  mf_x :: string
  mf_y :: string
  mf_button :: string

definition NewKeyFrame :: "frame \<Rightarrow> frame_error + key_frame" where
  "NewKeyFrame f =
     (if Opcode f \<noteq> ''key'' then Inl InvalidOpcodeErr
      else if length (Args f) \<noteq> 2 then Inl InvalidArgsErr
      else Inr \<lparr>kf_key = Args f ! 0, kf_pressed = Args f ! 1\<rparr>)"

definition NewMouseFrame :: "frame \<Rightarrow> frame_error + mouse_frame" where
  "NewMouseFrame f =
     (if Opcode f \<noteq> ''mouse'' then Inl InvalidOpcodeErr
      else if length (Args f) \<noteq> 3 then Inl InvalidArgsErr
      else Inr \<lparr>mf_x = Args f ! 0, mf_y = Args f ! 1, mf_button = Args f ! 2\<rparr>)"

subsection \<open>The filters and the logger\<close>

definition keyOpcode :: string where "keyOpcode = ''3.key''"
definition mouseOpcode :: string where "mouseOpcode = ''5.mouse''"

definition KeyPressed :: "key_frame \<Rightarrow> bool" where
  "KeyPressed kf \<longleftrightarrow> kf_pressed kf = ''1''"

definition MouseClicked :: "mouse_frame \<Rightarrow> bool" where
  "MouseClicked mf \<longleftrightarrow> mf_button mf = ''1'' \<or> mf_button mf = ''4'' \<or> mf_button mf = ''2''"

text \<open>\<^verbatim>\<open>(nil, false, nil)\<close> is \<^term>\<open>Inr None\<close>.\<close>

definition key_filter :: "(key_frame \<Rightarrow> bool) list \<Rightarrow> string \<Rightarrow> frame_error + key_frame option" where
  "key_filter conditions raw =
     (if length raw < length keyOpcode then Inr None
      else if take (length keyOpcode) raw \<noteq> keyOpcode then Inr None
      else (case NewKeyFrame (NewFrame raw) of
              Inl e \<Rightarrow> Inl e
            | Inr kf \<Rightarrow> if list_ex (\<lambda>c. \<not> c kf) conditions then Inr None else Inr (Some kf)))"

definition mouse_filter :: "(mouse_frame \<Rightarrow> bool) list \<Rightarrow> string \<Rightarrow> frame_error + mouse_frame option" where
  "mouse_filter conditions raw =
     (if length raw < length mouseOpcode then Inr None
      else if take (length mouseOpcode) raw \<noteq> mouseOpcode then Inr None
      else (case NewMouseFrame (NewFrame raw) of
              Inl e \<Rightarrow> Inl e
            | Inr mf \<Rightarrow> if list_ex (\<lambda>c. \<not> c mf) conditions then Inr None else Inr (Some mf)))"

datatype log_entry = LogKey string string string | LogMouse string string string string

text \<open>One round of \<^verbatim>\<open>run\<close>; a filter's error is only a warning.\<close>

definition log_event :: "string \<times> string \<Rightarrow> log_entry list" where
  "log_event ev =
     (case key_filter [KeyPressed] (snd ev) of
        Inr (Some kf) \<Rightarrow> [LogKey (fst ev) (kf_key kf) (kf_pressed kf)]
      | _ \<Rightarrow> (case mouse_filter [MouseClicked] (snd ev) of
                Inr (Some mf) \<Rightarrow> [LogMouse (fst ev) (mf_x mf) (mf_y mf) (mf_button mf)]
              | _ \<Rightarrow> []))"

definition keylogger_run :: "(string \<times> string) list \<Rightarrow> log_entry list" where
  "keylogger_run evs = concat (map log_event evs)"

subsection \<open>Reading back printed instructions\<close>

text \<open>
  An instruction of the Guacamole protocol: every element with its length in characters, a
  comma between elements, a semicolon at the end.
\<close>

definition print_element :: "nat list \<Rightarrow> string" where
  "print_element rs = show_nat (length rs) @ ''.'' @ concat (map rune_string rs)"

definition print_instruction :: "nat list \<Rightarrow> nat list list \<Rightarrow> string" where
  "print_instruction opcode as = join_with (CHR '','') (map print_element (opcode # as)) @ '';''"

definition plain :: "nat list \<Rightarrow> bool" where
  "plain rs \<longleftrightarrow> (\<forall>r \<in> set rs. scalar r \<and> r \<notin> {44, 46, 59})"

lemma frame_loop_rune:
  assumes "scalar r"
  shows "frame_loop (rune_string r @ p) s msg =
     (if r = 46 then frame_loop p [] msg
      else if r = 44 \<or> r = 59 then frame_loop p [] (frame_element s msg)
      else frame_loop p (s @ rune_string r) msg)"
proof -
  have "rune_string r \<noteq> []" by (simp add: rune_string_def encode_rune_def)
  then show ?thesis
    by (subst frame_loop.simps) (simp add: DecodeRune_string [OF assms] Let_def)
qed

lemma frame_loop_text:
  "plain rs \<Longrightarrow> frame_loop (concat (map rune_string rs) @ p) s msg = frame_loop p (s @ concat (map rune_string rs)) msg"
  by (induction rs arbitrary: s) (simp_all add: plain_def frame_loop_rune)

lemma rune_string_ascii: "r < 128 \<Longrightarrow> rune_string r = [char_of r]"
  by (simp add: rune_string_def encode_rune_def scalar_def)

lemma frame_loop_char:
  assumes "byte c < 128"
  shows "frame_loop (c # p) s msg =
     (if c = CHR ''.'' then frame_loop p [] msg
      else if c = CHR '','' \<or> c = CHR '';'' then frame_loop p [] (frame_element s msg)
      else frame_loop p (s @ [c]) msg)"
proof -
  have "rune_string (byte c) = [c]" using assms by (simp add: rune_string_ascii)
  moreover have "byte c = 46 \<longleftrightarrow> c = CHR ''.''" "byte c = 44 \<longleftrightarrow> c = CHR '',''" "byte c = 59 \<longleftrightarrow> c = CHR '';''"
    using of_char_eq_iff [where 'a = nat, of c "CHR ''.''"] of_char_eq_iff [where 'a = nat, of c "CHR '',''"]
      of_char_eq_iff [where 'a = nat, of c "CHR '';''"] by simp_all
  ultimately show ?thesis using frame_loop_rune [of "byte c" p s msg] assms by (simp add: scalar_def)
qed

lemma frame_loop_digits:
  "frame_loop (show_nat n @ CHR ''.'' # p) s msg = frame_loop p [] msg"
proof -
  have "frame_loop (ds @ CHR ''.'' # p) s msg = frame_loop p [] msg" if "\<forall>c \<in> set ds. is_digit c" for ds s
    using that
  proof (induction ds arbitrary: s)
    case (Cons c ds)
    then have "byte c < 128" "c \<notin> {CHR ''.'', CHR '','', CHR '';''}"
      by (auto simp: is_digit_def char_digit_def Let_def split: if_splits)
    with Cons show ?case by (simp add: frame_loop_char)
  qed (simp add: frame_loop_char)
  then show ?thesis using show_nat_digits by blast
qed

lemma frame_loop_element:
  "plain rs \<Longrightarrow> c = CHR '','' \<or> c = CHR '';'' \<Longrightarrow>
   frame_loop (print_element rs @ c # p) s msg = frame_loop p [] (frame_element (concat (map rune_string rs)) msg)"
  by (auto simp: print_element_def frame_loop_digits frame_loop_text frame_loop_char)

lemma frame_loop_elements:
  assumes "list_all plain as" and "as \<noteq> []"
  shows "frame_loop (join_with (CHR '','') (map print_element as) @ '';'') s msg =
     foldl (\<lambda>m rs. frame_element (concat (map rune_string rs)) m) msg as"
  using assms
proof (induction as arbitrary: s msg)
  case (Cons a as)
  show ?case
  proof (cases as)
    case Nil
    with Cons.prems show ?thesis by (simp add: frame_loop_element) (simp add: frame_loop.simps)
  next
    case (Cons b bs)
    with Cons.prems Cons.IH show ?thesis by (simp add: frame_loop_element)
  qed
qed simp

lemma foldl_elements:
  "Opcode msg \<noteq> [] \<Longrightarrow> foldl (\<lambda>m rs. frame_element (f rs) m) msg as = msg\<lparr>Args := Args msg @ map f as\<rparr>"
  by (induction as arbitrary: msg) (simp_all add: frame_element_def)

lemma NewFrame_print:
  assumes "opcode \<noteq> []" and "list_all plain (opcode # as)"
  shows "NewFrame (print_instruction opcode as) =
     \<lparr>Opcode = concat (map rune_string opcode), Args = map (\<lambda>rs. concat (map rune_string rs)) as\<rparr>"
proof -
  let ?f = "\<lambda>rs. concat (map rune_string rs)"
  have "?f opcode \<noteq> []" using assms(1) by (cases opcode) (simp_all add: rune_string_def encode_rune_def)
  then have rest: "foldl (\<lambda>m rs. frame_element (?f rs) m) \<lparr>Opcode = ?f opcode, Args = []\<rparr> as =
      \<lparr>Opcode = ?f opcode, Args = map ?f as\<rparr>" by (subst foldl_elements) simp_all
  have first: "frame_element (?f opcode) \<lparr>Opcode = [], Args = []\<rparr> = \<lparr>Opcode = ?f opcode, Args = []\<rparr>"
    by (simp add: frame_element_def)
  have "opcode # as \<noteq> []" by simp
  from frame_loop_elements [OF assms(2) this] show ?thesis
    by (simp only: NewFrame_def print_instruction_def foldl.simps first rest)
qed

text \<open>Elements of ASCII text, as the key and mouse instructions have them.\<close>

definition plain_text :: "string \<Rightarrow> bool" where
  "plain_text s \<longleftrightarrow> (\<forall>c \<in> set s. byte c < 128 \<and> c \<notin> {CHR '','', CHR ''.'', CHR '';''})"

definition print_text :: "string \<Rightarrow> string list \<Rightarrow> string" where
  "print_text opcode as = print_instruction (map byte opcode) (map (map byte) as)"

lemma runes_text: "plain_text s \<Longrightarrow> concat (map rune_string (map byte s)) = s"
  by (induction s) (simp_all add: plain_text_def rune_string_ascii)

lemmas runes_texts = runes_text runes_text [unfolded map_map comp_def]

lemma plain_bytes: "plain_text s \<Longrightarrow> plain (map byte s)"
proof -
  have "scalar (byte c) \<and> byte c \<notin> {44, 46, 59}" if "byte c < 128 \<and> c \<notin> {CHR '','', CHR ''.'', CHR '';''}" for c
    using that of_char_eq_iff [where 'a = nat, of c "CHR ''.''"] of_char_eq_iff [where 'a = nat, of c "CHR '',''"]
      of_char_eq_iff [where 'a = nat, of c "CHR '';''"] by (simp add: scalar_def)
  note ascii = this
  assume s: "plain_text s"
  show "plain (map byte s)"
    unfolding plain_def
  proof
    fix r assume "r \<in> set (map byte s)"
    then obtain c where "c \<in> set s" and r: "r = byte c" by auto
    with s have "byte c < 128 \<and> c \<notin> {CHR '','', CHR ''.'', CHR '';''}" by (simp add: plain_text_def)
    from ascii [OF this] show "scalar r \<and> r \<notin> {44, 46, 59}" unfolding r .
  qed
qed

lemma NewFrame_text:
  assumes "op \<noteq> []" and "list_all plain_text (op # as)"
  shows "NewFrame (print_text op as) = \<lparr>Opcode = op, Args = as\<rparr>"
proof -
  have "map (\<lambda>rs. concat (map rune_string rs)) (map (map byte) as) = as"
    using assms(2) by (auto simp: list_all_iff comp_def intro!: map_idI dest: runes_texts)
  then show ?thesis
    using NewFrame_print [of "map byte op" "map (map byte) as"] assms runes_text [of op]
    by (simp add: print_text_def list_all_iff plain_bytes)
qed

lemma print_text_start:
  assumes "plain_text op"
  shows "\<exists>rest. print_text op as = show_nat (length op) @ ''.'' @ op @ rest"
  using runes_text [OF assms]
  by (cases as) (auto simp: print_text_def print_instruction_def print_element_def)

lemma opcode_prefix:
  assumes "plain_text op" and "p = show_nat (length k) @ ''.'' @ k"
  shows "take (length p) (print_text op as) = p \<longleftrightarrow> op = k"
proof -
  obtain rest where raw: "print_text op as = show_nat (length op) @ ''.'' @ op @ rest"
    using print_text_start [OF assms(1)] by blast
  have digits: "takeWhile (\<lambda>c. c \<noteq> CHR ''.'') (show_nat n @ ''.'' @ x) = show_nat n" for n x
  proof -
    have "\<not> is_digit (CHR ''.'')" by (simp add: is_digit_def char_digit_def)
    then have "\<forall>c \<in> set (show_nat n). c \<noteq> CHR ''.''" using show_nat_digits by blast
    then show ?thesis by (simp add: takeWhile_append)
  qed
  show ?thesis
  proof
    assume "take (length p) (print_text op as) = p"
    then obtain z where z: "print_text op as = p @ z" by (metis append_take_drop_id)
    then have "takeWhile (\<lambda>c. c \<noteq> CHR ''.'') (show_nat (length op) @ ''.'' @ op @ rest) =
        takeWhile (\<lambda>c. c \<noteq> CHR ''.'') (show_nat (length k) @ ''.'' @ k @ z)" by (simp add: raw assms(2))
    then have "show_nat (length op) = show_nat (length k)" by (simp only: digits)
    then have "length op = length k" by (metis read_show_nat)
    with z show "op = k" by (simp add: raw assms(2))
  qed (use raw in \<open>simp add: assms(2)\<close>)
qed

lemma opcode_starts:
  "keyOpcode = show_nat (length ''key'') @ ''.'' @ ''key''"
  "mouseOpcode = show_nat (length ''mouse'') @ ''.'' @ ''mouse''"
  by code_simp+

lemma take_short: "take n xs = p \<Longrightarrow> n = length p \<Longrightarrow> \<not> length xs < n"
  by auto

lemma key_filter_text:
  assumes "op \<noteq> []" and "list_all plain_text (op # as)"
  shows "key_filter cs (print_text op as) =
     (if op \<noteq> ''key'' then Inr None
      else if length as \<noteq> 2 then Inl InvalidArgsErr
      else if list_ex (\<lambda>c. \<not> c \<lparr>kf_key = as ! 0, kf_pressed = as ! 1\<rparr>) cs then Inr None
      else Inr (Some \<lparr>kf_key = as ! 0, kf_pressed = as ! 1\<rparr>))"
  using opcode_prefix [OF _ opcode_starts(1), of op as] take_short [of _ _ keyOpcode] assms
  by (auto simp: key_filter_def NewKeyFrame_def NewFrame_text)

lemma mouse_filter_text:
  assumes "op \<noteq> []" and "list_all plain_text (op # as)"
  shows "mouse_filter cs (print_text op as) =
     (if op \<noteq> ''mouse'' then Inr None
      else if length as \<noteq> 3 then Inl InvalidArgsErr
      else if list_ex (\<lambda>c. \<not> c \<lparr>mf_x = as ! 0, mf_y = as ! 1, mf_button = as ! 2\<rparr>) cs then Inr None
      else Inr (Some \<lparr>mf_x = as ! 0, mf_y = as ! 1, mf_button = as ! 2\<rparr>))"
  using opcode_prefix [OF _ opcode_starts(2), of op as] take_short [of _ _ mouseOpcode] assms
  by (auto simp: mouse_filter_def NewMouseFrame_def NewFrame_text)

subsection \<open>Properties\<close>

text \<open>
  C35. The reader of frames gives back every printed instruction, in any script, whose elements
  hold none of the three separators.
\<close>
theorem NewFrame_roundtrip:
  assumes "opcode \<noteq> []" and "list_all plain (opcode # as)"
  shows "NewFrame (print_instruction opcode as) =
     \<lparr>Opcode = concat (map rune_string opcode), Args = map (\<lambda>rs. concat (map rune_string rs)) as\<rparr>"
  using assms by (rule NewFrame_print)

theorem NewFrame_roundtrip_witness:
  "NewFrame (print_instruction (map byte ''key'') [map byte ''97'', map byte ''1'']) =
     \<lparr>Opcode = ''key'', Args = [''97'', ''1'']\<rparr>"
proof -
  define k a b where "k = map byte ''key''" and "a = map byte ''97''" and "b = map byte ''1''"
  have p: "plain_text ''key''" "plain_text ''97''" "plain_text ''1''" by (simp_all add: plain_text_def)
  have "list_all plain [k, a, b]" by (simp add: k_def a_def b_def plain_bytes [OF p(1)] plain_bytes [OF p(2)]
      plain_bytes [OF p(3)] del: list.map)
  moreover have "k \<noteq> []" by (simp add: k_def)
  moreover have "concat (map rune_string k) = ''key''" "concat (map rune_string a) = ''97''"
    "concat (map rune_string b) = ''1''"
    unfolding k_def a_def b_def by (rule runes_text, rule p)+
  ultimately show ?thesis
    unfolding k_def [symmetric] a_def [symmetric] b_def [symmetric] using NewFrame_roundtrip [of k "[a, b]"] by simp
qed

text \<open>
  Of any sequence of client instructions the logger keeps, in order and each at its time,
  exactly the key instructions with two arguments that are presses and the mouse
  instructions with three whose button is 1, 2 or 4.
\<close>
theorem keylogger_keeps:
  assumes "\<forall>(t, op, as) \<in> set evs. op \<noteq> [] \<and> list_all plain_text (op # as)"
  shows "keylogger_run (map (\<lambda>(t, op, as). (t, print_text op as)) evs) =
     concat (map (\<lambda>(t, op, as).
       if op = ''key'' \<and> length as = 2 \<and> as ! 1 = ''1'' then [LogKey t (as ! 0) ''1'']
       else if op = ''mouse'' \<and> length as = 3 \<and> as ! 2 \<in> {''1'', ''2'', ''4''}
       then [LogMouse t (as ! 0) (as ! 1) (as ! 2)] else []) evs)"
proof -
  have one: "log_event (t, print_text op as) =
      (if op = ''key'' \<and> length as = 2 \<and> as ! 1 = ''1'' then [LogKey t (as ! 0) ''1'']
       else if op = ''mouse'' \<and> length as = 3 \<and> as ! 2 \<in> {''1'', ''2'', ''4''}
       then [LogMouse t (as ! 0) (as ! 1) (as ! 2)] else [])"
    if "op \<noteq> []" and "list_all plain_text (op # as)" for t op as
  proof (cases "op = ''key''")
    case True
    with that have "key_filter [KeyPressed] (print_text ''key'' as) =
        (if length as \<noteq> 2 then Inl InvalidArgsErr
         else if as ! 1 \<noteq> ''1'' then Inr None else Inr (Some \<lparr>kf_key = as ! 0, kf_pressed = as ! 1\<rparr>))"
      and "mouse_filter [MouseClicked] (print_text ''key'' as) = Inr None"
      by (simp_all add: key_filter_text mouse_filter_text KeyPressed_def)
    with True show ?thesis by (simp add: log_event_def)
  next
    case False
    with that have "key_filter [KeyPressed] (print_text op as) = Inr None" by (simp add: key_filter_text)
    then show ?thesis
      using that False by (simp add: log_event_def mouse_filter_text MouseClicked_def)
  qed
  show ?thesis
    unfolding keylogger_run_def map_map
  proof (intro arg_cong [of _ _ concat] map_cong refl)
    fix x assume x: "x \<in> set evs"
    obtain t op as where e: "x = (t, op, as)" by (cases x)
    with assms x have "op \<noteq> []" and "list_all plain_text (op # as)" by auto
    from one [OF this, of t] show "(log_event \<circ> (\<lambda>(t, op, as). (t, print_text op as))) x =
        (\<lambda>(t, op, as).
           if op = ''key'' \<and> length as = 2 \<and> as ! 1 = ''1'' then [LogKey t (as ! 0) ''1'']
           else if op = ''mouse'' \<and> length as = 3 \<and> as ! 2 \<in> {''1'', ''2'', ''4''}
           then [LogMouse t (as ! 0) (as ! 1) (as ! 2)] else []) x" by (simp only: e comp_def split_conv)
  qed
qed

theorem keylogger_keeps_witness:
  "keylogger_run [(''t1'', print_text ''key'' [''97'', ''1'']), (''t2'', print_text ''key'' [''97'', ''0'']),
     (''t3'', print_text ''mouse'' [''10'', ''20'', ''4''])] =
   [LogKey ''t1'' ''97'' ''1'', LogMouse ''t3'' ''10'' ''20'' ''4'']"
  using keylogger_keeps [of "[(''t1'', ''key'', [''97'', ''1'']), (''t2'', ''key'', [''97'', ''0'']),
     (''t3'', ''mouse'', [''10'', ''20'', ''4''])]"]
  by (simp add: plain_text_def)

end
