(* ===== verification/Lab_Hub.thy ===== *)
theory Lab_Hub
  imports Go_Runtime
begin

text \<open>
  The hub that creates an event's labs ahead of time (lab/hub.go). \<^verbatim>\<open>NewHub\<close> starts two
  workers, a manager and a forwarder, which talk over channels; their interleavings are the
  runs of \<open>lab_hub_step\<close>. A worker receives a token from \<^verbatim>\<open>ready\<close> (\<open>Got\<close>), adds itself to
  the wait group (\<open>Creating\<close>), and offers the lab it made (\<open>Holding\<close>). The manager selects between
  a lab and the stop signal, offers the lab on the queue, and hands out the next token. \<open>sz\<close> is the
  capacity of the two lab channels, zero for unbuffered ones, where sender and receiver meet in
  one step; \<open>cap\<close> is the event's capacity. A lab is its tag; \<open>hb_log\<close> lists the labs
  created, \<open>hb_closed\<close> those closed. A failed \<^verbatim>\<open>NewLab\<close> ends the process, as the nil lab is started, and has no step.
\<close>

subsection \<open>State\<close>

datatype worker = Idle | Got | Creating | Holding string

datatype manager = Select | Offer string | GiveReady | WaitWorkers | Finished

record hub =
  hb_workers :: "worker list"
  hb_labs :: "string list"
  hb_queue :: "string list"
  hb_dealloc :: "string list"
  hb_started :: "(string, string) gomap"
  hb_mgr :: manager
  hb_ready_closed :: bool
  hb_labs_closed :: bool
  hb_stop :: bool
  hb_closed :: "string list"
  hb_log :: "string list"

definition workerAmount :: nat where "workerAmount = 2"

text \<open>The channels' capacity, \<^verbatim>\<open>buffer-workerAmount\<close>.\<close>

definition channel_size :: "int \<Rightarrow> nat" where
  "channel_size buffer = nat ((if buffer < int workerAmount then int workerAmount else buffer) - int workerAmount)"

text \<open>\<^verbatim>\<open>NewHub\<close> has handed every worker its first token.\<close>

definition NewHub :: hub where
  "NewHub = \<lparr>hb_workers = replicate workerAmount Got, hb_labs = [], hb_queue = [], hb_dealloc = [], hb_started = [],
     hb_mgr = Select, hb_ready_closed = False, hb_labs_closed = False, hb_stop = False, hb_closed = [], hb_log = []\<rparr>"

definition set_worker :: "nat \<Rightarrow> worker \<Rightarrow> hub \<Rightarrow> hub" where
  "set_worker i w h = h\<lparr>hb_workers := (hb_workers h)[i := w]\<rparr>"

definition record_lab :: "string \<Rightarrow> hub \<Rightarrow> hub" where
  "record_lab l h = h\<lparr>hb_started := map_put l l (hb_started h), hb_mgr := Offer l\<rparr>"

text \<open>What the manager does once the lab is queued.\<close>

definition after_offer :: "nat \<Rightarrow> hub \<Rightarrow> hub" where
  "after_offer cap h =
     (let labsStarting = length (hb_started h) + workerAmount - 1 in
      if labsStarting = cap then h\<lparr>hb_ready_closed := True, hb_mgr := Select\<rparr>
      else if length (hb_started h) = cap then h\<lparr>hb_mgr := Select\<rparr>
      else h\<lparr>hb_mgr := GiveReady\<rparr>)"

definition running :: "worker \<Rightarrow> bool" where
  "running w = (case w of Creating \<Rightarrow> True | Holding l \<Rightarrow> True | _ \<Rightarrow> False)"

text \<open>The wait group is at zero: the manager closes what is left.\<close>

definition close_all :: "hub \<Rightarrow> hub" where
  "close_all h = h\<lparr>hb_mgr := Finished, hb_ready_closed := True, hb_labs_closed := True, hb_labs := [],
     hb_closed := hb_closed h @ hb_labs h @ map snd (hb_started h)\<rparr>"

inductive lab_hub_step :: "nat \<Rightarrow> nat \<Rightarrow> hub \<Rightarrow> hub \<Rightarrow> bool" for sz cap where
  enter: "i < length (hb_workers h) \<Longrightarrow> hb_workers h ! i = Got \<Longrightarrow> lab_hub_step sz cap h (set_worker i Creating h)"
| create: "i < length (hb_workers h) \<Longrightarrow> hb_workers h ! i = Creating \<Longrightarrow>
     lab_hub_step sz cap h ((set_worker i (Holding l) h)\<lparr>hb_log := hb_log h @ [l]\<rparr>)"
| send: "i < length (hb_workers h) \<Longrightarrow> hb_workers h ! i = Holding l \<Longrightarrow> length (hb_labs h) < sz \<Longrightarrow>
     \<not> hb_labs_closed h \<Longrightarrow> lab_hub_step sz cap h ((set_worker i Idle h)\<lparr>hb_labs := hb_labs h @ [l]\<rparr>)"
| send_direct: "i < length (hb_workers h) \<Longrightarrow> hb_workers h ! i = Holding l \<Longrightarrow> sz = 0 \<Longrightarrow> hb_mgr h = Select \<Longrightarrow>
     lab_hub_step sz cap h (record_lab l (set_worker i Idle h))"
| give_up: "i < length (hb_workers h) \<Longrightarrow> hb_workers h ! i = Holding l \<Longrightarrow> hb_stop h \<Longrightarrow>
     lab_hub_step sz cap h ((set_worker i Idle h)\<lparr>hb_closed := hb_closed h @ [l]\<rparr>)"
| receive: "hb_mgr h = Select \<Longrightarrow> hb_labs h = l # ls \<Longrightarrow> lab_hub_step sz cap h (record_lab l (h\<lparr>hb_labs := ls\<rparr>))"
| offer: "hb_mgr h = Offer l \<Longrightarrow> length (hb_queue h) < sz \<Longrightarrow>
     lab_hub_step sz cap h (after_offer cap (h\<lparr>hb_queue := hb_queue h @ [l]\<rparr>))"
| offer_direct: "hb_mgr h = Offer l \<Longrightarrow> sz = 0 \<Longrightarrow> lab_hub_step sz cap h (after_offer cap h)"
| offer_stop: "hb_mgr h = Offer l \<Longrightarrow> hb_stop h \<Longrightarrow> lab_hub_step sz cap h (h\<lparr>hb_mgr := Select\<rparr>)"
| ready: "hb_mgr h = GiveReady \<Longrightarrow> i < length (hb_workers h) \<Longrightarrow> hb_workers h ! i = Idle \<Longrightarrow> \<not> hb_ready_closed h \<Longrightarrow>
     lab_hub_step sz cap h ((set_worker i Got h)\<lparr>hb_mgr := Select\<rparr>)"
| take_lab: "hb_queue h = l # q \<Longrightarrow> lab_hub_step sz cap h (h\<lparr>hb_queue := q\<rparr>)"
| update: "length (hb_dealloc h) < cap \<Longrightarrow> lab_hub_step sz cap h (h\<lparr>hb_dealloc := hb_dealloc h @ [l]\<rparr>)"
| forward: "hb_dealloc h = l # d \<Longrightarrow> length (hb_queue h) < sz \<Longrightarrow>
     lab_hub_step sz cap h (h\<lparr>hb_dealloc := d, hb_queue := hb_queue h @ [l]\<rparr>)"
| forward_direct: "hb_dealloc h = l # d \<Longrightarrow> sz = 0 \<Longrightarrow> lab_hub_step sz cap h (h\<lparr>hb_dealloc := d\<rparr>)"
| close: "\<not> hb_stop h \<Longrightarrow> lab_hub_step sz cap h (h\<lparr>hb_stop := True\<rparr>)"
| see_stop: "hb_mgr h = Select \<Longrightarrow> hb_stop h \<Longrightarrow> lab_hub_step sz cap h (h\<lparr>hb_mgr := WaitWorkers\<rparr>)"
| finish: "hb_mgr h = WaitWorkers \<Longrightarrow> \<not> list_ex running (hb_workers h) \<Longrightarrow> lab_hub_step sz cap h (close_all h)"

inductive lab_hub_reachable :: "nat \<Rightarrow> nat \<Rightarrow> hub \<Rightarrow> bool" for sz cap where
  start: "lab_hub_reachable sz cap NewHub"
| step: "lab_hub_reachable sz cap h \<Longrightarrow> lab_hub_step sz cap h h' \<Longrightarrow> lab_hub_reachable sz cap h'"

text \<open>A worker that holds a lab may pick the closed channel, which is a panic.\<close>

definition may_panic :: "hub \<Rightarrow> bool" where
  "may_panic h \<longleftrightarrow> hb_labs_closed h \<and> list_ex (\<lambda>w. case w of Holding l \<Rightarrow> True | _ \<Rightarrow> False) (hb_workers h)"

subsection \<open>The invariant\<close>

definition starting :: "worker \<Rightarrow> bool" where
  "starting w \<longleftrightarrow> w = Got \<or> w = Creating"

definition held :: "worker \<Rightarrow> string list" where
  "held w = (case w of Holding l \<Rightarrow> [l] | _ \<Rightarrow> [])"

text \<open>Tokens whose lab is not made yet, and labs made that the manager has not received.\<close>

definition to_give :: "manager \<Rightarrow> nat" where
  "to_give m = (if m = GiveReady then 1 else 0)"

lemma to_give_simps [simp]: "to_give GiveReady = 1" "m \<noteq> GiveReady \<Longrightarrow> to_give m = 0"
  by (simp_all add: to_give_def)

definition pending :: "hub \<Rightarrow> nat" where
  "pending h = length (filter starting (hb_workers h)) + to_give (hb_mgr h)"

definition waiting :: "hub \<Rightarrow> nat" where
  "waiting h = length (concat (map held (hb_workers h))) + length (hb_labs h)"

text \<open>Every lab created is in one place; the tokens given out are two more than the labs received, up to the capacity.\<close>

definition tracked :: "manager \<Rightarrow> (string, string) gomap \<Rightarrow> string multiset" where
  "tracked m started = (if m = Finished then {#} else mset (map fst started))"

lemma tracked_simps [simp]:
  "tracked Finished s = {#}" "m \<noteq> Finished \<Longrightarrow> tracked m s = mset (map fst s)"
  by (simp_all add: tracked_def)

definition places :: "hub \<Rightarrow> string multiset" where
  "places h = mset (concat (map held (hb_workers h))) + mset (hb_labs h) + tracked (hb_mgr h) (hb_started h) +
     mset (hb_closed h)"

definition tokens_due :: "nat \<Rightarrow> manager \<Rightarrow> nat \<Rightarrow> nat" where
  "tokens_due cap m n = (case m of Offer l \<Rightarrow> min cap (n + 1) | _ \<Rightarrow> min cap (n + 2))"

lemma tokens_due_simps [simp]:
  "tokens_due cap (Offer l) n = min cap (n + 1)" "tokens_due cap Select n = min cap (n + 2)"
  "tokens_due cap GiveReady n = min cap (n + 2)" "tokens_due cap WaitWorkers n = min cap (n + 2)"
  "tokens_due cap Finished n = min cap (n + 2)"
  by (simp_all add: tokens_due_def)

definition lab_hub_ok :: "nat \<Rightarrow> hub \<Rightarrow> bool" where
  "lab_hub_ok cap h \<longleftrightarrow> length (hb_workers h) = 2 \<and> map_ok (hb_started h) \<and> map snd (hb_started h) = map fst (hb_started h) \<and>
     places h = mset (hb_log h) \<and> length (hb_log h) + pending h \<le> tokens_due cap (hb_mgr h) (length (hb_started h)) \<and>
     (\<not> hb_stop h \<longrightarrow> hb_closed h = [] \<and> length (hb_log h) + pending h = tokens_due cap (hb_mgr h) (length (hb_started h)) \<and>
        hb_mgr h \<noteq> WaitWorkers \<and> hb_mgr h \<noteq> Finished) \<and>
     (hb_mgr h = Finished \<longrightarrow> hb_labs h = [] \<and> hb_labs_closed h \<and> set (map fst (hb_started h)) \<subseteq> set (hb_closed h)) \<and>
     (hb_labs_closed h \<longrightarrow> hb_mgr h = Finished)"

lemma filter_update:
  "i < length ws \<Longrightarrow> length (filter P (ws[i := w])) + (if P (ws ! i) then 1 else 0) =
     length (filter P ws) + (if P w then 1 else 0)"
proof (induction ws arbitrary: i)
  case (Cons v ws)
  then show ?case by (cases i) auto
qed simp

lemma held_update:
  "i < length ws \<Longrightarrow> mset (concat (map held (ws[i := w]))) + mset (held (ws ! i)) =
     mset (concat (map held ws)) + mset (held w)"
proof (induction ws arbitrary: i)
  case (Cons v ws)
  then show ?case by (cases i) (auto simp: ac_simps)
qed simp

lemma starting_simps [simp]:
  "starting Got" "starting Creating" "\<not> starting Idle" "\<not> starting (Holding l)"
  by (simp_all add: starting_def)

lemma held_simps [simp]: "held Idle = []" "held Got = []" "held Creating = []" "held (Holding l) = [l]"
  by (simp_all add: held_def)

lemma lab_hub_ok_NewHub: "2 \<le> cap \<Longrightarrow> lab_hub_ok cap NewHub"
  by (simp add: lab_hub_ok_def NewHub_def workerAmount_def places_def pending_def numeral_2_eq_2)

text \<open>The facts about a worker's step, for the effects on the counts and places.\<close>

lemma set_worker_fields [simp]:
  "hb_workers (set_worker i w h) = (hb_workers h)[i := w]" "hb_labs (set_worker i w h) = hb_labs h"
  "hb_started (set_worker i w h) = hb_started h" "hb_mgr (set_worker i w h) = hb_mgr h"
  "hb_closed (set_worker i w h) = hb_closed h" "hb_log (set_worker i w h) = hb_log h"
  "hb_stop (set_worker i w h) = hb_stop h" "hb_labs_closed (set_worker i w h) = hb_labs_closed h"
  by (simp_all add: set_worker_def)

lemma started_le:
  assumes "lab_hub_ok cap h" and "hb_mgr h \<noteq> Finished"
  shows "length (hb_started h) \<le> length (hb_log h)"
proof -
  have "size (mset (map fst (hb_started h))) \<le> size (places h)" using assms(2) by (simp add: places_def)
  then show ?thesis using assms(1) by (simp add: lab_hub_ok_def)
qed

lemma fresh_lab:
  assumes "lab_hub_ok cap h" and "distinct (hb_log h)" and "hb_mgr h \<noteq> Finished"
    and "l \<in># mset (concat (map held (hb_workers h))) + mset (hb_labs h)"
  shows "map_get (hb_started h) l = None"
proof (rule map_get_fst)
  obtain M where "mset (concat (map held (hb_workers h))) + mset (hb_labs h) = add_mset l M"
    using assms(4) by (meson mset_add)
  then have "mset (hb_log h) = add_mset l M + mset (map fst (hb_started h)) + mset (hb_closed h)"
    using assms(1,3) by (simp add: lab_hub_ok_def places_def)
  moreover have "count (mset (hb_log h)) l \<le> 1" using assms(2) by (simp add: distinct_count_atmost_1)
  ultimately have "count (mset (map fst (hb_started h))) l = 0" by simp
  then show "l \<notin> set (map fst (hb_started h))" by (metis count_mset_0_iff)
qed

lemma record_lab_ok:
  assumes "lab_hub_ok cap h" and "hb_mgr h = Select" and "map_get (hb_started h) l = None"
    and "length ws = 2" and "length (filter starting ws) = length (filter starting (hb_workers h))"
    and "mset (concat (map held (hb_workers h))) + mset (hb_labs h) =
           add_mset l (mset (concat (map held ws)) + mset ls)"
    and "\<not> hb_labs_closed h"
  shows "lab_hub_ok cap (record_lab l (h\<lparr>hb_workers := ws, hb_labs := ls\<rparr>))"
proof -
  let ?h = "record_lab l (h\<lparr>hb_workers := ws, hb_labs := ls\<rparr>)"
  have started: "hb_started ?h = hb_started h @ [(l, l)]" using assms(3) by (simp add: record_lab_def map_put_fresh)
  have "places ?h = add_mset l (mset (concat (map held ws)) + mset ls) + mset (map fst (hb_started h)) + mset (hb_closed h)"
    by (simp add: places_def started del: mset_map) (simp add: record_lab_def)
  moreover have "places h = (mset (concat (map held (hb_workers h))) + mset (hb_labs h)) +
      mset (map fst (hb_started h)) + mset (hb_closed h)" using assms(2) by (simp add: places_def)
  ultimately have places: "places ?h = places h" by (simp only: assms(6))
  have "map_ok (hb_started ?h)" using assms(1) by (simp add: record_lab_def lab_hub_ok_def)
  moreover have "hb_workers ?h = ws" "hb_labs ?h = ls" "hb_mgr ?h = Offer l" "hb_closed ?h = hb_closed h"
    "hb_log ?h = hb_log h" "hb_stop ?h = hb_stop h" "hb_labs_closed ?h = hb_labs_closed h"
    by (simp_all add: record_lab_def)
  ultimately show ?thesis
    using assms(1,2,4,5,7) places started by (simp add: lab_hub_ok_def pending_def del: mset_map)
qed

lemma after_offer_ok:
  assumes "lab_hub_ok cap h" and "hb_mgr h = Offer l" and "2 \<le> cap"
  shows "lab_hub_ok cap (after_offer cap (h\<lparr>hb_queue := q\<rparr>))"
proof -
  let ?h = "after_offer cap (h\<lparr>hb_queue := q\<rparr>)"
  have "length (hb_started h) \<le> length (hb_log h)" using assms(1,2) by (intro started_le) auto
  moreover have "length (hb_log h) \<le> cap" using assms(1,2) by (auto simp: lab_hub_ok_def tokens_due_def)
  ultimately have le: "length (hb_started h) \<le> cap" by simp
  have places: "places ?h = places h"
    using assms(2) by (simp add: after_offer_def Let_def places_def)
  show ?thesis
    using assms le places
    by (auto simp: lab_hub_ok_def after_offer_def Let_def pending_def workerAmount_def split: if_splits)
qed

lemma hub_step_ok:
  assumes "lab_hub_step sz cap h h'" and "lab_hub_ok cap h" and "2 \<le> cap" and "distinct (hb_log h)"
  shows "lab_hub_ok cap h'"
  using assms(1)
proof cases
  case (enter i)
  then show ?thesis
    using assms(2) filter_update [of i "hb_workers h" starting Creating] held_update [of i "hb_workers h" Creating]
    by (simp add: lab_hub_ok_def pending_def places_def)
next
  case (create i l)
  then show ?thesis
    using assms(2) filter_update [of i "hb_workers h" starting "Holding l"] held_update [of i "hb_workers h" "Holding l"]
    by (auto simp: lab_hub_ok_def pending_def places_def ac_simps)
next
  case (send i l)
  then show ?thesis
    using assms(2) filter_update [of i "hb_workers h" starting Idle] held_update [of i "hb_workers h" Idle, symmetric]
    by (auto simp: lab_hub_ok_def pending_def places_def ac_simps)
next
  case (send_direct i l)
  note held = held_update [OF send_direct(2), of Idle]
  have "hb_mgr h \<noteq> Finished" using send_direct by simp
  moreover from this have "\<not> hb_labs_closed h" using assms(2) by (auto simp: lab_hub_ok_def)
  moreover have "Holding l \<in> set (hb_workers h)" using send_direct(2,3) by (metis nth_mem)
  then have "map_get (hb_started h) l = None" using fresh_lab [OF assms(2,4), of l] send_direct(5) by force
  ultimately show ?thesis
    using record_lab_ok [OF assms(2), of l "(hb_workers h)[i := Idle]" "hb_labs h"] send_direct held assms(2)
      filter_update [OF send_direct(2), of starting Idle]
    by (simp add: lab_hub_ok_def set_worker_def)
next
  case (give_up i l)
  then show ?thesis
    using assms(2) filter_update [of i "hb_workers h" starting Idle] held_update [of i "hb_workers h" Idle, symmetric]
    by (auto simp: lab_hub_ok_def pending_def places_def ac_simps)
next
  case (receive l ls)
  have "\<not> hb_labs_closed h" using receive assms(2) by (auto simp: lab_hub_ok_def)
  moreover have "map_get (hb_started h) l = None" using fresh_lab [OF assms(2,4), of l] receive by simp
  ultimately show ?thesis
    using record_lab_ok [OF assms(2), of l "hb_workers h" ls] receive assms(2) by (simp add: lab_hub_ok_def)
next
  case (offer l)
  with after_offer_ok [OF assms(2) _ assms(3)] show ?thesis by blast
next
  case (offer_direct l)
  with after_offer_ok [OF assms(2) _ assms(3), of l "hb_queue h"] show ?thesis by simp
next
  case (ready i)
  then show ?thesis
    using assms(2) filter_update [of i "hb_workers h" starting Got] held_update [of i "hb_workers h" Got]
    by (simp add: lab_hub_ok_def pending_def places_def)
next
  case finish
  have held: "concat (map held ws) = []" if "\<not> list_ex running ws" for ws
    using that by (auto simp: list_ex_iff running_def held_def split: worker.splits)
  have same: "map snd (hb_started h) = map fst (hb_started h)" using assms(2) by (simp only: lab_hub_ok_def)
  have "concat (map held (hb_workers h)) = []" by (rule held) (rule finish)
  then show ?thesis
    using finish assms(2) by (simp add: lab_hub_ok_def close_all_def pending_def places_def same ac_simps
        del: mset_map map_eq_conv concat_eq_Nil_conv) auto
qed (use assms(2) in \<open>auto simp: lab_hub_ok_def pending_def places_def\<close>)

lemma hub_step_log: "lab_hub_step sz cap h h' \<Longrightarrow> \<exists>x. hb_log h' = hb_log h @ x"
  by (induction rule: lab_hub_step.induct)
     (auto simp: record_lab_def after_offer_def close_all_def Let_def)

lemma hub_reachable_ok:
  assumes "lab_hub_reachable sz cap h" and "2 \<le> cap" and "distinct (hb_log h)"
  shows "lab_hub_ok cap h"
  using assms
proof induction
  case start
  then show ?case by (intro lab_hub_ok_NewHub)
next
  case (step h h')
  have "distinct (hb_log h)" using hub_step_log [OF step.hyps(2)] step.prems(2) by auto
  with step.prems step.IH hub_step_ok [OF step.hyps(2)] show ?case by blast
qed

subsection \<open>Properties\<close>

text \<open>
  C31. As long as no two labs draw the same tag, a hub of capacity two or more never creates more labs than its
  capacity, however the workers, the manager, the consumers and the closing interleave; and
  until it is closed the tokens it has given out are exactly two more than the labs the
  manager has recorded, up to the capacity.
\<close>
theorem hub_capacity:
  assumes "lab_hub_reachable sz cap h" and "2 \<le> cap" and "distinct (hb_log h)"
  shows "length (hb_log h) \<le> cap \<and> length (hb_log h) + pending h \<le> cap \<and>
    (\<not> hb_stop h \<and> hb_mgr h = Select \<longrightarrow> length (hb_log h) + pending h = min cap (length (hb_started h) + 2))"
proof -
  have ok: "lab_hub_ok cap h" by (rule hub_reachable_ok [OF assms])
  moreover have "tokens_due cap m n \<le> cap" for m n by (cases m) simp_all
  ultimately show ?thesis unfolding lab_hub_ok_def by (metis add_leE le_trans tokens_due_simps(2))
qed

text \<open>
  When the manager of a closed hub has finished, every lab the hub ever created is closed, or
  is still in the hands of a worker that got its token before the signal.
\<close>
theorem hub_close_complete:
  assumes "lab_hub_reachable sz cap h" and "2 \<le> cap" and "distinct (hb_log h)" and "hb_mgr h = Finished"
    and "l \<in> set (hb_log h)"
  shows "l \<in> set (hb_closed h) \<or> Holding l \<in> set (hb_workers h)"
proof -
  have ok: "lab_hub_ok cap h" by (rule hub_reachable_ok [OF assms(1-3)])
  then have "places h = mset (hb_log h)" "hb_labs h = []" using assms(4) by (simp_all add: lab_hub_ok_def)
  then have "mset (hb_log h) = mset (concat (map held (hb_workers h))) + mset (hb_closed h)"
    using assms(4) by (simp add: places_def)
  then have "set (hb_log h) = set (concat (map held (hb_workers h)) @ hb_closed h)" by (metis mset_append set_mset_mset)
  with assms(5) show ?thesis by (auto simp: held_def split: worker.splits)
qed

text \<open>One step after another; the states are written out.\<close>

lemma hub_next: "lab_hub_reachable sz cap h \<Longrightarrow> lab_hub_step sz cap h h' \<Longrightarrow> h' = k \<Longrightarrow> lab_hub_reachable sz cap k"
  by (blast intro: lab_hub_reachable.step)

text \<open>
  Closing a hub can crash the daemon, whatever its capacity: there is a run in which the signal
  comes before a worker has entered the wait group, so that the channel is closed while the worker
  still has a lab to send on it.
\<close>
theorem hub_close_race: "\<exists>h. lab_hub_reachable sz cap h \<and> may_panic h"
proof -
  let ?h = "\<lambda>ws m closed log. NewHub\<lparr>hb_workers := ws, hb_mgr := m, hb_stop := True, hb_ready_closed := closed,
      hb_labs_closed := closed, hb_log := log\<rparr>"
  have "lab_hub_reachable sz cap (?h [Got, Got] Select False [])"
    by (rule hub_next [OF lab_hub_reachable.start lab_hub_step.close]) (simp_all add: NewHub_def workerAmount_def numeral_2_eq_2)
  then have "lab_hub_reachable sz cap (?h [Got, Got] WaitWorkers False [])"
    by (rule hub_next [OF _ lab_hub_step.see_stop]) (simp_all add: NewHub_def)
  then have "lab_hub_reachable sz cap (?h [Got, Got] Finished True [])"
    by (rule hub_next [OF _ lab_hub_step.finish]) (simp_all add: NewHub_def close_all_def running_def)
  then have "lab_hub_reachable sz cap (?h [Creating, Got] Finished True [])"
    by (rule hub_next [OF _ lab_hub_step.enter [of 0]]) (simp_all add: NewHub_def set_worker_def)
  then have "lab_hub_reachable sz cap (?h [Holding ''lab'', Got] Finished True [''lab''])"
    by (rule hub_next [OF _ lab_hub_step.create [of 0]]) (simp_all add: NewHub_def set_worker_def)
  moreover have "may_panic (?h [Holding ''lab'', Got] Finished True [''lab''])" by (simp add: may_panic_def)
  ultimately show ?thesis by blast
qed

text \<open>A hub for a single lab, with room for one lab in its channels, after \<open>n\<close> labs were created and taken.\<close>

definition single_hub :: "worker list \<Rightarrow> string list \<Rightarrow> string list \<Rightarrow> string list \<Rightarrow> manager \<Rightarrow> string list \<Rightarrow> hub" where
  "single_hub ws ls q started m log = NewHub\<lparr>hb_workers := ws, hb_labs := ls, hb_queue := q,
     hb_started := map (\<lambda>l. (l, l)) started, hb_mgr := m, hb_log := log\<rparr>"

lemma single_hub_steps:
  "i < length ws \<Longrightarrow> ws ! i = Got \<Longrightarrow>
     lab_hub_step sz cap (single_hub ws ls q st m log) (single_hub (ws[i := Creating]) ls q st m log)"
  "i < length ws \<Longrightarrow> ws ! i = Creating \<Longrightarrow>
     lab_hub_step sz cap (single_hub ws ls q st m log) (single_hub (ws[i := Holding l]) ls q st m (log @ [l]))"
  "i < length ws \<Longrightarrow> ws ! i = Holding l \<Longrightarrow> length ls < sz \<Longrightarrow>
     lab_hub_step sz cap (single_hub ws ls q st m log) (single_hub (ws[i := Idle]) (ls @ [l]) q st m log)"
  "l \<notin> set st \<Longrightarrow>
     lab_hub_step sz cap (single_hub ws (l # ls) q st Select log) (single_hub ws ls q (st @ [l]) (Offer l) log)"
  "length q < sz \<Longrightarrow> length st + 1 \<noteq> cap \<Longrightarrow>
     lab_hub_step sz cap (single_hub ws ls q st (Offer l) log)
       (single_hub ws ls (q @ [l]) st (if length st = cap then Select else GiveReady) log)"
  "i < length ws \<Longrightarrow> ws ! i = Idle \<Longrightarrow>
     lab_hub_step sz cap (single_hub ws ls q st GiveReady log) (single_hub (ws[i := Got]) ls q st Select log)"
  "lab_hub_step sz cap (single_hub ws ls (l # q) st m log) (single_hub ws ls q st m log)"
proof -
  let ?h = "single_hub ws ls q st m log"
  show "lab_hub_step sz cap ?h (single_hub (ws[i := Creating]) ls q st m log)" if "i < length ws" "ws ! i = Got"
    using lab_hub_step.enter [of i ?h] that by (simp add: single_hub_def set_worker_def NewHub_def)
  show "lab_hub_step sz cap ?h (single_hub (ws[i := Holding l]) ls q st m (log @ [l]))"
    if "i < length ws" "ws ! i = Creating"
    using lab_hub_step.create [of i ?h] that by (simp add: single_hub_def set_worker_def NewHub_def)
  show "lab_hub_step sz cap ?h (single_hub (ws[i := Idle]) (ls @ [l]) q st m log)"
    if "i < length ws" "ws ! i = Holding l" "length ls < sz"
    using lab_hub_step.send [of i ?h] that by (simp add: single_hub_def set_worker_def NewHub_def)
  show "lab_hub_step sz cap (single_hub ws (l # ls) q st Select log) (single_hub ws ls q (st @ [l]) (Offer l) log)"
    if "l \<notin> set st"
  proof -
    have "map_get (map (\<lambda>l. (l, l)) st) l = None" using that by (intro map_get_fst) (simp add: comp_def)
    then show ?thesis
      using lab_hub_step.receive [of "single_hub ws (l # ls) q st Select log" l ls]
      by (simp add: single_hub_def record_lab_def map_put_fresh NewHub_def)
  qed
  show "lab_hub_step sz cap (single_hub ws ls q st (Offer l) log)
       (single_hub ws ls (q @ [l]) st (if length st = cap then Select else GiveReady) log)"
    if "length q < sz" "length st + 1 \<noteq> cap"
  proof -
    let ?o = "single_hub ws ls q st (Offer l) log"
    have e: "after_offer cap (?o\<lparr>hb_queue := hb_queue ?o @ [l]\<rparr>) =
        single_hub ws ls (q @ [l]) st (if length st = cap then Select else GiveReady) log"
      using that by (simp add: single_hub_def after_offer_def Let_def workerAmount_def NewHub_def)
    have "hb_mgr ?o = Offer l" "length (hb_queue ?o) < sz" using that by (simp_all add: single_hub_def)
    from lab_hub_step.offer [OF this, where cap = cap] show ?thesis by (simp only: e)
  qed
  show "lab_hub_step sz cap (single_hub ws ls q st GiveReady log) (single_hub (ws[i := Got]) ls q st Select log)"
    if "i < length ws" "ws ! i = Idle"
    using lab_hub_step.ready [of "single_hub ws ls q st GiveReady log"] that
    by (simp add: single_hub_def set_worker_def NewHub_def)
  show "lab_hub_step sz cap (single_hub ws ls (l # q) st m log) (single_hub ws ls q st m log)"
    using lab_hub_step.take_lab [of "single_hub ws ls (l # q) st m log"] by (simp add: single_hub_def NewHub_def)
qed

definition made :: "nat \<Rightarrow> string list" where
  "made n = map (\<lambda>i. show_nat i) [0..<n]"

lemma made_facts: "length (made n) = n" "show_nat n \<notin> set (made n)" "made (Suc n) = made n @ [show_nat n]"
  by (auto simp: made_def dest: arg_cong [where f = read_digits])

lemma distinct_made: "distinct (made n)"
  by (induction n) (simp_all add: made_facts(2,3), simp add: made_def)

lemma single_hub_round:
  assumes "lab_hub_reachable 1 1 (single_hub [Idle, Idle] [] [] (made n) GiveReady (made n))" and "2 \<le> n"
  shows "lab_hub_reachable 1 1 (single_hub [Idle, Idle] [] [] (made (Suc n)) GiveReady (made (Suc n)))"
proof -
  let ?l = "show_nat n" and ?s = "single_hub" and ?m = "made n"
  note steps = single_hub_steps [where sz = 1 and cap = 1]
  have "lab_hub_reachable 1 1 (?s [Got, Idle] [] [] ?m Select ?m)"
    by (rule hub_next [OF assms(1) steps(6) [where i = 0]]) simp_all
  then have "lab_hub_reachable 1 1 (?s [Creating, Idle] [] [] ?m Select ?m)"
    by (rule hub_next [OF _ steps(1) [where i = 0]]) simp_all
  then have "lab_hub_reachable 1 1 (?s [Holding ?l, Idle] [] [] ?m Select (?m @ [?l]))"
    by (rule hub_next [OF _ steps(2) [where i = 0]]) simp_all
  then have "lab_hub_reachable 1 1 (?s [Idle, Idle] [?l] [] ?m Select (?m @ [?l]))"
    by (rule hub_next [OF _ steps(3) [where i = 0 and l = ?l]]) simp_all
  then have "lab_hub_reachable 1 1 (?s [Idle, Idle] [] [] (?m @ [?l]) (Offer ?l) (?m @ [?l]))"
    by (rule hub_next [OF _ steps(4)]) (simp_all add: made_facts)
  then have "lab_hub_reachable 1 1 (?s [Idle, Idle] [] [?l] (?m @ [?l]) GiveReady (?m @ [?l]))"
    by (rule hub_next [OF _ steps(5)]) (use assms(2) in \<open>simp_all add: made_facts\<close>)
  then show ?thesis
    by (rule hub_next [OF _ steps(7)]) (simp add: made_facts)
qed

text \<open>
  A hub of capacity one has no bound: after every number of labs there is a run that creates one more, since
  the count of labs passes both tests of the manager before it reaches them.
\<close>
theorem hub_of_one_overruns: "\<exists>h. lab_hub_reachable 1 1 h \<and> distinct (hb_log h) \<and> length (hb_log h) = n + 2"
proof -
  let ?a = "show_nat 0" and ?b = "show_nat 1" and ?s = "single_hub"
  note steps = single_hub_steps [where sz = 1 and cap = 1]
  have ab: "?a \<noteq> ?b" by (metis read_show_nat zero_neq_one)
  have "lab_hub_reachable 1 1 (?s [Got, Got] [] [] [] Select [])"
    using lab_hub_reachable.start by (simp add: single_hub_def NewHub_def workerAmount_def numeral_2_eq_2)
  then have "lab_hub_reachable 1 1 (?s [Creating, Got] [] [] [] Select [])"
    by (rule hub_next [OF _ steps(1) [where i = 0]]) simp_all
  then have "lab_hub_reachable 1 1 (?s [Creating, Creating] [] [] [] Select [])"
    by (rule hub_next [OF _ steps(1) [where i = 1]]) simp_all
  then have "lab_hub_reachable 1 1 (?s [Holding ?a, Creating] [] [] [] Select [?a])"
    by (rule hub_next [OF _ steps(2) [where i = 0]]) simp_all
  then have "lab_hub_reachable 1 1 (?s [Holding ?a, Holding ?b] [] [] [] Select [?a, ?b])"
    by (rule hub_next [OF _ steps(2) [where i = 1]]) simp_all
  then have "lab_hub_reachable 1 1 (?s [Idle, Holding ?b] [?a] [] [] Select [?a, ?b])"
    by (rule hub_next [OF _ steps(3) [where i = 0 and l = ?a]]) simp_all
  then have "lab_hub_reachable 1 1 (?s [Idle, Holding ?b] [] [] [?a] (Offer ?a) [?a, ?b])"
    by (rule hub_next [OF _ steps(4)]) simp_all
  then have "lab_hub_reachable 1 1 (?s [Idle, Holding ?b] [] [?a] [?a] Select [?a, ?b])"
    by (rule hub_next [OF _ steps(5)]) simp_all
  then have "lab_hub_reachable 1 1 (?s [Idle, Holding ?b] [] [] [?a] Select [?a, ?b])"
    by (rule hub_next [OF _ steps(7)]) simp_all
  then have "lab_hub_reachable 1 1 (?s [Idle, Idle] [?b] [] [?a] Select [?a, ?b])"
    by (rule hub_next [OF _ steps(3) [where i = 1 and l = ?b]]) simp_all
  then have "lab_hub_reachable 1 1 (?s [Idle, Idle] [] [] [?a, ?b] (Offer ?b) [?a, ?b])"
    by (rule hub_next [OF _ steps(4)]) (use ab in simp_all)
  then have "lab_hub_reachable 1 1 (?s [Idle, Idle] [] [?b] [?a, ?b] GiveReady [?a, ?b])"
    by (rule hub_next [OF _ steps(5)]) simp_all
  then have two: "lab_hub_reachable 1 1 (?s [Idle, Idle] [] [] (made 2) GiveReady (made 2))"
    by (rule hub_next [OF _ steps(7)]) (simp add: made_def numeral_2_eq_2)
  have "lab_hub_reachable 1 1 (?s [Idle, Idle] [] [] (made (n + 2)) GiveReady (made (n + 2)))"
  proof (induction n)
    case 0
    show ?case using two by (simp only: add_0)
  next
    case (Suc n)
    have "2 \<le> n + 2" by simp
    from single_hub_round [OF Suc this] show ?case by (simp only: add_Suc)
  qed
  moreover have "hb_log (?s [Idle, Idle] [] [] (made (n + 2)) GiveReady (made (n + 2))) = made (n + 2)"
    by (simp add: single_hub_def)
  ultimately show ?thesis using distinct_made [of "n + 2"] made_facts(1) [of "n + 2"] by metis
qed

theorem hub_capacity_witness:
  "\<exists>h. lab_hub_reachable 0 2 h \<and> hb_log h = [''lab''] \<and> length (hb_log h) + pending h \<le> 2"
proof -
  have "lab_hub_reachable 0 2 (single_hub [Got, Got] [] [] [] Select [])"
    using lab_hub_reachable.start by (simp add: single_hub_def NewHub_def workerAmount_def numeral_2_eq_2)
  then have "lab_hub_reachable 0 2 (single_hub [Creating, Got] [] [] [] Select [])"
    by (rule hub_next [OF _ single_hub_steps(1) [where i = 0]]) simp_all
  then have r: "lab_hub_reachable 0 2 (single_hub [Holding ''lab'', Got] [] [] [] Select [''lab''])"
    by (rule hub_next [OF _ single_hub_steps(2) [where i = 0]]) simp_all
  have l: "hb_log (single_hub [Holding ''lab'', Got] [] [] [] Select [''lab'']) = [''lab'']" by (simp add: single_hub_def)
  from hub_capacity [OF r] r l show ?thesis by force
qed

theorem hub_close_complete_witness:
  "\<exists>h. lab_hub_reachable 0 2 h \<and> hb_mgr h = Finished \<and> ''lab'' \<in> set (hb_log h) \<and> ''lab'' \<in> set (hb_closed h)"
proof -
  let ?h = "\<lambda>ws m stop closed c. NewHub\<lparr>hb_workers := ws, hb_mgr := m, hb_stop := stop, hb_ready_closed := closed,
      hb_labs_closed := closed, hb_closed := c, hb_log := [''lab'']\<rparr>"
  have "lab_hub_reachable 0 2 (single_hub [Got, Got] [] [] [] Select [])"
    using lab_hub_reachable.start by (simp add: single_hub_def NewHub_def workerAmount_def numeral_2_eq_2)
  then have "lab_hub_reachable 0 2 (single_hub [Creating, Got] [] [] [] Select [])"
    by (rule hub_next [OF _ single_hub_steps(1) [where i = 0]]) simp_all
  then have "lab_hub_reachable 0 2 (?h [Holding ''lab'', Got] Select False False [])"
    by (rule hub_next [OF _ single_hub_steps(2) [where i = 0]]) (simp_all add: single_hub_def NewHub_def)
  then have "lab_hub_reachable 0 2 (?h [Holding ''lab'', Got] Select True False [])"
    by (rule hub_next [OF _ lab_hub_step.close]) (simp_all add: NewHub_def)
  then have "lab_hub_reachable 0 2 (?h [Idle, Got] Select True False [''lab''])"
    by (rule hub_next [OF _ lab_hub_step.give_up [of 0]]) (simp_all add: NewHub_def set_worker_def)
  then have "lab_hub_reachable 0 2 (?h [Idle, Got] WaitWorkers True False [''lab''])"
    by (rule hub_next [OF _ lab_hub_step.see_stop]) (simp_all add: NewHub_def)
  then have r: "lab_hub_reachable 0 2 (?h [Idle, Got] Finished True True [''lab''])"
    by (rule hub_next [OF _ lab_hub_step.finish]) (simp_all add: NewHub_def close_all_def running_def)
  moreover have "''lab'' \<in> set (hb_closed (?h [Idle, Got] Finished True True [''lab'']))"
    using hub_close_complete [OF r, of "''lab''"] by simp
  ultimately show ?thesis by (intro exI conjI) (assumption, simp_all)
qed

end
