(* ===== verification/Address_Pool.thy ===== *)
theory Address_Pool
  imports Go_Runtime
begin

text \<open>
  The two pools of network addresses: the daemon's, for the VPN networks of events
  (daemon/net.go), and Docker's, for the networks of labs (virtual/docker/docker.go). Both draw
  addresses at random until one is not taken, which is a loop that may not end, so \<open>draw_loop\<close> is a partial
  function. \<open>rnd\<close> is the stream of random numbers and \<open>order\<close> the order in which a \<^verbatim>\<open>range\<close> loop visits a
  map's entries; a position in the stream is threaded through the calls. Weights stay far below
  the range of Go's \<^verbatim>\<open>int\<close>. The mutex is released when \<^verbatim>\<open>Get\<close> returns.
\<close>

subsection \<open>Pools\<close>

datatype net_error = NoAvailableIPsErr

record ip_pool =
  pool_ips :: "(string, unit) gomap"
  pool_weights :: "(string, int) gomap"

text \<open>\<^verbatim>\<open>rand.Intn\<close> panics if its argument is not positive.\<close>

definition Intn :: "(nat \<Rightarrow> nat) \<Rightarrow> int \<Rightarrow> nat \<Rightarrow> (nat \<times> nat) go" where
  "Intn rnd n pos = (if n \<le> 0 then Panic else Ret (rnd pos mod nat n, pos + 1))"

definition totalWeight :: "(string, int) gomap \<Rightarrow> int" where
  "totalWeight m = foldl (\<lambda>t (k, w). t + w) 0 m"

fun pick_loop :: "(string \<times> int) list \<Rightarrow> int \<Rightarrow> string" where
  "pick_loop [] r = []"
| "pick_loop ((k, w) # m) r = (if r - w \<le> 0 then k else pick_loop m (r - w))"

type_synonym map_order = "nat \<Rightarrow> (string \<times> int) list \<Rightarrow> (string \<times> int) list"

definition randomPickWeighted ::
  "map_order \<Rightarrow> (nat \<Rightarrow> nat) \<Rightarrow> (string, int) gomap \<Rightarrow> nat \<Rightarrow> (string \<times> nat) go" where
  "randomPickWeighted order rnd m pos =
     go_bind (Intn rnd (totalWeight m) pos) (\<lambda>(r, pos'). Ret (pick_loop (order pos m) (int r), pos'))"

definition dotted :: "string \<Rightarrow> nat \<Rightarrow> string" where
  "dotted ip n = ip @ CHR ''.'' # show_nat n"

definition append_random :: "(nat \<Rightarrow> nat) \<Rightarrow> int \<Rightarrow> nat \<Rightarrow> string \<Rightarrow> nat \<Rightarrow> (string \<times> nat) go" where
  "append_random rnd n base ip pos = go_bind (Intn rnd n pos) (\<lambda>(r, pos'). Ret (dotted ip (r + base), pos'))"

text \<open>The closure \<^verbatim>\<open>genIP\<close> of the daemon's pool and of Docker's.\<close>

definition vpn_genIP :: "map_order \<Rightarrow> (nat \<Rightarrow> nat) \<Rightarrow> ip_pool \<Rightarrow> nat \<Rightarrow> (string \<times> nat) go" where
  "vpn_genIP order rnd ipp pos =
     go_bind (randomPickWeighted order rnd (pool_weights ipp) pos) (\<lambda>(ip, pos').
       if ip = ''25'' \<or> ip = ''35'' then append_random rnd 255 0 ip pos' else Ret (ip, pos'))"

definition lab_genIP :: "map_order \<Rightarrow> (nat \<Rightarrow> nat) \<Rightarrow> ip_pool \<Rightarrow> nat \<Rightarrow> (string \<times> nat) go" where
  "lab_genIP order rnd ipp pos =
     go_bind (randomPickWeighted order rnd (pool_weights ipp) pos) (\<lambda>(ip, pos').
       go_bind (if ip = ''34'' then append_random rnd 6 25 ip pos'
                else if ip = ''22'' then Ret (ip @ ''.168'', pos')
                else if ip = ''77'' then append_random rnd 255 0 ip pos'
                else Ret (ip, pos')) (\<lambda>(ip, pos').
         append_random rnd 255 0 ip pos'))"

text \<open>The loop \<^verbatim>\<open>for exists\<close>; \<open>None\<close> means that it does not end.\<close>

partial_function (option) draw_loop ::
  "(nat \<Rightarrow> (string \<times> nat) go) \<Rightarrow> (string, unit) gomap \<Rightarrow> nat \<Rightarrow> (string \<times> nat) go option" where
  "draw_loop gen ips pos =
     (case gen pos of
        Ret (ip, pos') \<Rightarrow> (if map_get ips ip = None then Some (Ret (ip, pos')) else draw_loop gen ips pos')
      | Panic \<Rightarrow> Some Panic
      | Fatal \<Rightarrow> Some Fatal)"

definition pool_get ::
  "(ip_pool \<Rightarrow> nat \<Rightarrow> (string \<times> nat) go) \<Rightarrow> ip_pool \<Rightarrow> nat \<Rightarrow> ((net_error + string) \<times> ip_pool \<times> nat) go option" where
  "pool_get gen ipp pos =
     (if 60000 < length (pool_ips ipp) then Some (Ret (Inl NoAvailableIPsErr, ipp, pos))
      else map_option (\<lambda>res. go_bind res (\<lambda>(ip, pos').
              Ret (Inr ip, ipp\<lparr>pool_ips := map_put ip () (pool_ips ipp)\<rparr>, pos')))
            (draw_loop (gen ipp) (pool_ips ipp) pos))"

definition vpn_pool_get where "vpn_pool_get order rnd = pool_get (vpn_genIP order rnd)"

definition lab_pool_get where "lab_pool_get order rnd = pool_get (lab_genIP order rnd)"

definition ReleaseIP :: "string \<Rightarrow> ip_pool \<Rightarrow> ip_pool" where
  "ReleaseIP ip ipp = ipp\<lparr>pool_ips := map_del ip (pool_ips ipp)\<rparr>"

text \<open>
  What the host's interfaces take out of a pool. Each interface's addresses may be
  unreadable; an address that is not IPv4 is \<open>None\<close>, else its dotted text, which has four parts.
\<close>

type_synonym interfaces = "string option list option list option"

definition take_address :: "ip_pool \<Rightarrow> string option \<Rightarrow> ip_pool" where
  "take_address ipp a =
     (case a of
        None \<Rightarrow> ipp
      | Some addr \<Rightarrow>
          let ipParts = split_on CHR ''.'' addr; lvl1 = hd ipParts
          in case map_get (pool_weights ipp) lvl1 of
               None \<Rightarrow> ipp
             | Some w \<Rightarrow> ipp\<lparr>pool_ips := map_put (join_with CHR ''.'' (take 3 ipParts)) () (pool_ips ipp),
                            pool_weights := map_put lvl1 (w - 1) (pool_weights ipp)\<rparr>)"

definition take_interfaces :: "interfaces \<Rightarrow> ip_pool \<Rightarrow> ip_pool" where
  "take_interfaces ifaces ipp =
     (case ifaces of
        None \<Rightarrow> ipp
      | Some is \<Rightarrow> foldl (\<lambda>ipp i. case i of None \<Rightarrow> ipp | Some addrs \<Rightarrow> foldl take_address ipp addrs) ipp is)"

definition vpn_pool_new :: "interfaces \<Rightarrow> ip_pool" where
  "vpn_pool_new ifaces =
     take_interfaces ifaces \<lparr>pool_ips = [], pool_weights = [(''35'', 1 * 255), (''25'', 255 * 255)]\<rparr>"

definition lab_pool_new :: "interfaces \<Rightarrow> ip_pool" where
  "lab_pool_new ifaces =
     take_interfaces ifaces
       \<lparr>pool_ips = [], pool_weights = [(''34'', 7 * 255), (''77'', 255 * 255), (''22'', 1 * 255)]\<rparr>"

definition is_taken :: "ip_pool \<Rightarrow> string \<Rightarrow> bool" where
  "is_taken ipp ip \<longleftrightarrow> map_get (pool_ips ipp) ip \<noteq> None"

subsection \<open>When drawing ends\<close>

text \<open>The attempts of the loop, were it to go on.\<close>

primrec attempt :: "(nat \<Rightarrow> (string \<times> nat) go) \<Rightarrow> nat \<Rightarrow> nat \<Rightarrow> string go" where
  "attempt gen 0 pos = go_bind (gen pos) (\<lambda>(ip, p). Ret ip)"
| "attempt gen (Suc k) pos = go_bind (gen pos) (\<lambda>(ip, p). attempt gen k p)"

definition taken :: "(string, unit) gomap \<Rightarrow> string go \<Rightarrow> bool" where
  "taken ips a = (case a of Ret ip \<Rightarrow> map_get ips ip \<noteq> None | _ \<Rightarrow> False)"

lemma unit_option [simp]: "x \<noteq> Some () \<longleftrightarrow> x = None"
  by (cases x) simp_all

lemma draw_loop_returns:
  "\<not> taken ips (attempt gen k pos) \<Longrightarrow> draw_loop gen ips pos \<noteq> None"
proof (induction k arbitrary: pos)
  case 0
  then show ?case
    by (subst draw_loop.simps) (auto simp: taken_def split: go.split)
next
  case (Suc k)
  then show ?case
    by (subst draw_loop.simps) (auto simp: taken_def split: go.split prod.split)
qed

lemma draw_loop_attempt:
  assumes "draw_loop gen ips pos = Some r"
  shows "\<exists>k. \<not> taken ips (attempt gen k pos) \<and> go_bind r (\<lambda>(ip, p). Ret ip) = attempt gen k pos"
proof (rule draw_loop.raw_induct [OF _ assms])
  fix loop gen ips pos r
  assume 1: "\<And>gen ips pos r. loop gen ips pos = Some r \<Longrightarrow>
      \<exists>k. \<not> taken ips (attempt gen k pos) \<and> go_bind r (\<lambda>(ip, p). Ret ip) = attempt gen k pos"
    and 2: "(case gen pos of
        Ret (ip, pos') \<Rightarrow> (if map_get ips ip = None then Some (Ret (ip, pos')) else loop gen ips pos')
      | Panic \<Rightarrow> Some Panic
      | Fatal \<Rightarrow> Some Fatal) = Some r"
  show "\<exists>k. \<not> taken ips (attempt gen k pos) \<and> go_bind r (\<lambda>(ip, p). Ret ip) = attempt gen k pos"
  proof (cases "gen pos")
    case (Ret x)
    obtain ip p where x: "x = (ip, p)" by fastforce
    show ?thesis
    proof (cases "map_get ips ip = None")
      case True
      with 2 Ret x show ?thesis by (intro exI [of _ 0]) (auto simp: taken_def)
    next
      case False
      then have "map_get ips ip = Some ()" by simp
      with 2 Ret x have "loop gen ips p = Some r" by simp
      from 1 [OF this] obtain k where
        "\<not> taken ips (attempt gen k p)" "go_bind r (\<lambda>(ip, p). Ret ip) = attempt gen k p" by blast
      with Ret x show ?thesis by (intro exI [of _ "Suc k"]) simp
    qed
  next
    case Panic
    with 2 show ?thesis by (intro exI [of _ 0]) (auto simp: taken_def)
  next
    case Fatal
    with 2 show ?thesis by (intro exI [of _ 0]) (auto simp: taken_def)
  qed
qed

theorem draw_loop_ends_iff:
  "draw_loop gen ips pos \<noteq> None \<longleftrightarrow> (\<exists>k. \<not> taken ips (attempt gen k pos))"
  using draw_loop_returns draw_loop_attempt by (metis option.exhaust)

text \<open>A generator that never panics and stays within a set of addresses.\<close>

definition generates :: "(nat \<Rightarrow> (string \<times> nat) go) \<Rightarrow> string set \<Rightarrow> bool" where
  "generates gen A \<longleftrightarrow> (\<forall>pos. \<exists>ip pos'. gen pos = Ret (ip, pos') \<and> ip \<in> A)"

lemma generates_attempt:
  assumes "generates gen A"
  shows "\<exists>ip \<in> A. attempt gen k pos = Ret ip"
proof (induction k arbitrary: pos)
  case 0
  from assms obtain ip pos' where "gen pos = Ret (ip, pos')" "ip \<in> A" unfolding generates_def by blast
  then show ?case by simp
next
  case (Suc k)
  from assms obtain ip pos' where "gen pos = Ret (ip, pos')" "ip \<in> A" unfolding generates_def by blast
  then show ?case using Suc by simp
qed

definition fair :: "(nat \<Rightarrow> (string \<times> nat) go) \<Rightarrow> string set \<Rightarrow> nat \<Rightarrow> bool" where
  "fair gen A pos \<longleftrightarrow> (\<forall>ip \<in> A. \<exists>k. attempt gen k pos = Ret ip)"

lemma pool_get_returns:
  assumes "generates (gen ipp) A" and "fair (gen ipp) A pos"
  shows "pool_get gen ipp pos \<noteq> None \<longleftrightarrow>
    60000 < length (pool_ips ipp) \<or> (\<exists>ip \<in> A. map_get (pool_ips ipp) ip = None)"
proof -
  have "(\<exists>k. \<not> taken (pool_ips ipp) (attempt (gen ipp) k pos)) \<longleftrightarrow> (\<exists>ip \<in> A. map_get (pool_ips ipp) ip = None)"
  proof
    assume "\<exists>k. \<not> taken (pool_ips ipp) (attempt (gen ipp) k pos)"
    then obtain k where "\<not> taken (pool_ips ipp) (attempt (gen ipp) k pos)" by blast
    moreover obtain ip where "ip \<in> A" "attempt (gen ipp) k pos = Ret ip" using generates_attempt [OF assms(1)] by blast
    ultimately show "\<exists>ip \<in> A. map_get (pool_ips ipp) ip = None" by (auto simp: taken_def)
  next
    assume "\<exists>ip \<in> A. map_get (pool_ips ipp) ip = None"
    then obtain ip where "ip \<in> A" "map_get (pool_ips ipp) ip = None" by blast
    moreover from this(1) obtain k where "attempt (gen ipp) k pos = Ret ip" using assms(2) unfolding fair_def by blast
    ultimately show "\<exists>k. \<not> taken (pool_ips ipp) (attempt (gen ipp) k pos)" by (intro exI [of _ k]) (simp add: taken_def)
  qed
  then show ?thesis using draw_loop_ends_iff [of "gen ipp" "pool_ips ipp" pos] by (simp add: pool_get_def)
qed

lemma pool_get_fresh:
  assumes "generates (gen ipp) A" and "pool_get gen ipp pos = Some res" and "length (pool_ips ipp) \<le> 60000"
  shows "\<exists>ip pos'. res = Ret (Inr ip, ipp\<lparr>pool_ips := map_put ip () (pool_ips ipp)\<rparr>, pos') \<and>
    ip \<in> A \<and> map_get (pool_ips ipp) ip = None"
proof -
  from assms(2,3) obtain r where r: "draw_loop (gen ipp) (pool_ips ipp) pos = Some r"
    and res: "res = go_bind r (\<lambda>(ip, pos'). Ret (Inr ip, ipp\<lparr>pool_ips := map_put ip () (pool_ips ipp)\<rparr>, pos'))"
    by (auto simp: pool_get_def)
  from draw_loop_attempt [OF r] obtain k where k: "\<not> taken (pool_ips ipp) (attempt (gen ipp) k pos)"
    "go_bind r (\<lambda>(ip, p). Ret ip) = attempt (gen ipp) k pos" by blast
  from generates_attempt [OF assms(1), of k pos] obtain ip where "ip \<in> A" "attempt (gen ipp) k pos = Ret ip" by blast
  with k res show ?thesis by (cases r) (auto simp: taken_def)
qed

subsection \<open>What the two pools draw\<close>

text \<open>The order of a \<^verbatim>\<open>range\<close> loop is some permutation of the entries.\<close>

definition orders :: "map_order \<Rightarrow> bool" where
  "orders order \<longleftrightarrow> (\<forall>pos m. mset (order pos m) = mset m)"

lemma totalWeight_sum: "totalWeight m = sum_mset (image_mset snd (mset m))"
proof -
  have "foldl (\<lambda>t (k, w). t + w) a m = a + sum_mset (image_mset snd (mset m))" for a :: int
    by (induction m arbitrary: a) auto
  then show ?thesis by (simp add: totalWeight_def)
qed

lemma pick_loop_key:
  "r < sum_mset (image_mset snd (mset m)) \<Longrightarrow> m \<noteq> [] \<Longrightarrow> pick_loop m r \<in> fst ` set m"
proof (induction m r rule: pick_loop.induct)
  case (2 k w m r)
  then show ?case by (cases "m = []") auto
qed simp

lemma pick_weighted:
  assumes "orders order" and "0 < totalWeight m"
  shows "\<exists>k p. randomPickWeighted order rnd m pos = Ret (k, p) \<and> k \<in> fst ` set m"
proof -
  let ?r = "int (rnd pos mod nat (totalWeight m))"
  have "mset (order pos m) = mset m" using assms(1) by (simp add: orders_def)
  then have same: "sum_mset (image_mset snd (mset (order pos m))) = totalWeight m" "set (order pos m) = set m"
    by (simp_all add: totalWeight_sum) (metis set_mset_mset)
  have "int (nat (totalWeight m)) = totalWeight m" "0 < nat (totalWeight m)" using assms(2) by simp_all
  then have "?r < totalWeight m" by (metis mod_less_divisor of_nat_less_iff)
  moreover have "m \<noteq> []" using assms(2) by (auto simp: totalWeight_def)
  then have "order pos m \<noteq> []" using same(2) by (metis set_empty)
  ultimately have "pick_loop (order pos m) ?r \<in> fst ` set (order pos m)" using same(1) by (intro pick_loop_key) simp_all
  with assms(2) same(2) show ?thesis by (simp add: randomPickWeighted_def Intn_def)
qed

lemma append_random_Ret:
  "0 < n \<Longrightarrow> append_random rnd n base ip pos = Ret (dotted ip (rnd pos mod nat n + base), pos + 1)"
  by (simp add: append_random_def Intn_def)

definition vpn_addresses :: "string set" where
  "vpn_addresses = {dotted ip d |ip d. ip \<in> {''35'', ''25''} \<and> d < 255}"

definition lab_addresses :: "string set" where
  "lab_addresses = {dotted (dotted ''34'' (c + 25)) d |c d. c < 6 \<and> d < 255} \<union>
     {dotted (dotted ''77'' c) d |c d. c < 255 \<and> d < 255} \<union> {dotted ''22.168'' d |d. d < 255}"

lemma vpn_addressI: "ip \<in> {''35'', ''25''} \<Longrightarrow> d < 255 \<Longrightarrow> dotted ip d \<in> vpn_addresses"
  unfolding vpn_addresses_def by blast

lemma lab_addressI:
  "c < 6 \<Longrightarrow> d < 255 \<Longrightarrow> dotted (dotted ''34'' (c + 25)) d \<in> lab_addresses"
  "c < 255 \<Longrightarrow> d < 255 \<Longrightarrow> dotted (dotted ''77'' c) d \<in> lab_addresses"
  "d < 255 \<Longrightarrow> dotted ''22.168'' d \<in> lab_addresses"
  unfolding lab_addresses_def by blast+

text \<open>Interfaces lower the weights, but leave the same keys; taking and giving back leave the weights.\<close>

definition vpn_pool_ok :: "ip_pool \<Rightarrow> bool" where
  "vpn_pool_ok ipp \<longleftrightarrow> map_ok (pool_ips ipp) \<and> fst ` set (pool_weights ipp) = {''35'', ''25''} \<and> 0 < totalWeight (pool_weights ipp)"

definition lab_pool_ok :: "ip_pool \<Rightarrow> bool" where
  "lab_pool_ok ipp \<longleftrightarrow> map_ok (pool_ips ipp) \<and> fst ` set (pool_weights ipp) = {''34'', ''77'', ''22''} \<and> 0 < totalWeight (pool_weights ipp)"

lemma vpn_generates: "orders order \<Longrightarrow> vpn_pool_ok ipp \<Longrightarrow> generates (vpn_genIP order rnd ipp) vpn_addresses"
  unfolding generates_def
proof
  fix pos assume "orders order" "vpn_pool_ok ipp"
  then obtain k p where "randomPickWeighted order rnd (pool_weights ipp) pos = Ret (k, p)" "k \<in> {''35'', ''25''}"
    using pick_weighted [of order "pool_weights ipp" rnd pos] by (auto simp: vpn_pool_ok_def)
  then show "\<exists>ip pos'. vpn_genIP order rnd ipp pos = Ret (ip, pos') \<and> ip \<in> vpn_addresses"
    by (auto simp: vpn_genIP_def append_random_Ret intro: vpn_addressI)
qed

lemma lab_generates: "orders order \<Longrightarrow> lab_pool_ok ipp \<Longrightarrow> generates (lab_genIP order rnd ipp) lab_addresses"
  unfolding generates_def
proof
  fix pos assume "orders order" "lab_pool_ok ipp"
  then obtain k p where k: "randomPickWeighted order rnd (pool_weights ipp) pos = Ret (k, p)" "k \<in> {''34'', ''77'', ''22''}"
    using pick_weighted [of order "pool_weights ipp" rnd pos] by (auto simp: lab_pool_ok_def)
  from k(2) consider "k = ''34''" | "k = ''77''" | "k = ''22''" by blast
  then show "\<exists>ip pos'. lab_genIP order rnd ipp pos = Ret (ip, pos') \<and> ip \<in> lab_addresses"
    using k(1) by cases (simp_all add: lab_genIP_def append_random_Ret lab_addressI)
qed

subsection \<open>Reachable pools\<close>

inductive vpn_pool_reachable :: "interfaces \<Rightarrow> ip_pool \<Rightarrow> bool" for ifaces where
  new: "vpn_pool_reachable ifaces (vpn_pool_new ifaces)"
| get: "vpn_pool_reachable ifaces ipp \<Longrightarrow> orders order \<Longrightarrow>
     vpn_pool_get order rnd ipp pos = Some (Ret (res, ipp', pos')) \<Longrightarrow> vpn_pool_reachable ifaces ipp'"
| release: "vpn_pool_reachable ifaces ipp \<Longrightarrow> vpn_pool_reachable ifaces (ReleaseIP ip ipp)"

lemma take_address_ok:
  "map_ok (pool_ips ipp) \<Longrightarrow> map_ok (pool_ips (take_address ipp a))"
  "fst ` set (pool_weights (take_address ipp a)) = fst ` set (pool_weights ipp)"
proof -
  show "map_ok (pool_ips ipp) \<Longrightarrow> map_ok (pool_ips (take_address ipp a))"
    by (simp add: take_address_def Let_def split: option.split)
  have "fst ` set (map_put k v m) = insert k (fst ` set m)" for k :: string and v :: int and m
    by (simp add: map_put_def dom_update)
  moreover have "k \<in> fst ` set m" if "map_get m k = Some w" for k :: string and w :: int and m
    using map_get_in [OF that] by force
  ultimately show "fst ` set (pool_weights (take_address ipp a)) = fst ` set (pool_weights ipp)"
    by (auto simp: take_address_def Let_def split: option.split)
qed

lemma take_interfaces_ok:
  assumes "map_ok (pool_ips ipp)"
  shows "map_ok (pool_ips (take_interfaces ifaces ipp)) \<and>
    fst ` set (pool_weights (take_interfaces ifaces ipp)) = fst ` set (pool_weights ipp)"
proof -
  have addrs: "map_ok (pool_ips (foldl take_address ipp as)) \<and>
      fst ` set (pool_weights (foldl take_address ipp as)) = fst ` set (pool_weights ipp)"
    if "map_ok (pool_ips ipp)" for ipp as
    using that by (induction as arbitrary: ipp) (simp_all add: take_address_ok)
  have "map_ok (pool_ips (foldl (\<lambda>ipp i. case i of None \<Rightarrow> ipp | Some as \<Rightarrow> foldl take_address ipp as) ipp is)) \<and>
      fst ` set (pool_weights (foldl (\<lambda>ipp i. case i of None \<Rightarrow> ipp | Some as \<Rightarrow> foldl take_address ipp as) ipp is)) =
        fst ` set (pool_weights ipp)" if "map_ok (pool_ips ipp)" for ipp "is"
    using that by (induction "is" arbitrary: ipp) (simp_all add: addrs split: option.split)
  with assms show ?thesis by (simp add: take_interfaces_def split: option.split)
qed

lemma vpn_pool_get_result:
  assumes "orders order" and "vpn_pool_ok ipp" and "vpn_pool_get order rnd ipp pos = Some r"
  shows "(60000 < length (pool_ips ipp) \<and> r = Ret (Inl NoAvailableIPsErr, ipp, pos)) \<or>
    (\<exists>ip pos'. length (pool_ips ipp) \<le> 60000 \<and> ip \<in> vpn_addresses \<and> map_get (pool_ips ipp) ip = None \<and>
       r = Ret (Inr ip, ipp\<lparr>pool_ips := map_put ip () (pool_ips ipp)\<rparr>, pos'))"
proof (cases "60000 < length (pool_ips ipp)")
  case True
  with assms(3) show ?thesis by (simp add: vpn_pool_get_def pool_get_def)
next
  case False
  then have "length (pool_ips ipp) \<le> 60000" by simp
  with pool_get_fresh [of "vpn_genIP order rnd", OF vpn_generates [OF assms(1,2)]] assms(3) show ?thesis
    unfolding vpn_pool_get_def by blast
qed

lemma vpn_pool_ok_add: "vpn_pool_ok ipp \<Longrightarrow> vpn_pool_ok (ipp\<lparr>pool_ips := map_put ip () (pool_ips ipp)\<rparr>)"
  by (simp add: vpn_pool_ok_def)

lemma vpn_pool_ok_new: "0 < totalWeight (pool_weights (vpn_pool_new ifaces)) \<Longrightarrow> vpn_pool_ok (vpn_pool_new ifaces)"
  using take_interfaces_ok [of "\<lparr>pool_ips = [], pool_weights = [(''35'', 1 * 255), (''25'', 255 * 255)]\<rparr>" ifaces]
  by (simp add: vpn_pool_ok_def vpn_pool_new_def)

lemma lab_pool_ok_new: "0 < totalWeight (pool_weights (lab_pool_new ifaces)) \<Longrightarrow> lab_pool_ok (lab_pool_new ifaces)"
  using take_interfaces_ok
    [of "\<lparr>pool_ips = [], pool_weights = [(''34'', 7 * 255), (''77'', 255 * 255), (''22'', 1 * 255)]\<rparr>" ifaces]
  by (simp add: lab_pool_ok_def lab_pool_new_def)

lemma vpn_pool_reachable_ok:
  "vpn_pool_reachable ifaces ipp \<Longrightarrow> 0 < totalWeight (pool_weights (vpn_pool_new ifaces)) \<Longrightarrow> vpn_pool_ok ipp"
proof (induction rule: vpn_pool_reachable.induct)
  case new
  then show ?case by (rule vpn_pool_ok_new)
next
  case (get ipp order rnd pos res ipp' pos')
  then have "vpn_pool_ok ipp" by blast
  moreover from vpn_pool_get_result [OF get.hyps(2) this get.hyps(3)]
  have "ipp' = ipp \<or> (\<exists>ip. ipp' = ipp\<lparr>pool_ips := map_put ip () (pool_ips ipp)\<rparr>)" by auto
  ultimately show ?case using vpn_pool_ok_add by blast
next
  case (release ipp ip)
  then show ?case by (simp add: ReleaseIP_def vpn_pool_ok_def)
qed

text \<open>Docker's pool has more addresses than the limit, so one of them is always free.\<close>

lemma dotted_77_inject:
  "dotted (dotted ''77'' c) d = dotted (dotted ''77'' c') d' \<longleftrightarrow> c = c' \<and> d = d'"
proof
  have no_dot: "CHR ''.'' \<notin> set (show_nat n)" for n
    using show_nat_digits [of "CHR ''.''" n] by (auto simp: is_digit_def char_digit_def)
  have "split_on CHR ''.'' (dotted (dotted ''77'' c) d) = [''77'', show_nat c, show_nat d]" for c d
    by (simp add: dotted_def split_on_append [where s = "''77''", simplified] split_on_append split_on_no_sep no_dot)
  moreover assume "dotted (dotted ''77'' c) d = dotted (dotted ''77'' c') d'"
  ultimately show "c = c' \<and> d = d'" by (metis list.inject show_nat_inject)
qed simp

lemma lab_address_free:
  assumes "length ips \<le> 60000"
  shows "\<exists>ip \<in> lab_addresses. map_get ips ip = None"
proof (rule ccontr)
  let ?f = "\<lambda>(c, d). dotted (dotted ''77'' c) d"
  let ?A = "{..<255::nat} \<times> {..<255::nat}"
  assume all: "\<not> ?thesis"
  have "ip \<in> fst ` set ips" if "ip \<in> lab_addresses" for ip
  proof (rule ccontr)
    assume "ip \<notin> fst ` set ips"
    then have "map_get ips ip = None" by (simp add: map_get_fst)
    with all that show False by blast
  qed
  moreover have "?f ` ?A \<subseteq> lab_addresses" by (rule image_subsetI) (auto intro: lab_addressI(2))
  ultimately have "?f ` ?A \<subseteq> fst ` set ips" by blast
  then have "card (?f ` ?A) \<le> card (fst ` set ips)" by (intro card_mono) simp_all
  also have "\<dots> \<le> length ips" by (metis card_length length_map list.set_map)
  also have "inj_on ?f ?A" by (auto simp: inj_on_def dotted_77_inject)
  then have "card (?f ` ?A) = 65025" by (simp add: card_image card_cartesian_product)
  finally show False using assms by simp
qed

subsection \<open>When getting an address ends\<close>

text \<open>
  C16. The daemon's pool of VPN networks holds 510 addresses, though it refuses only above 60000. For a
  random source that draws each of the 510 now and then, \<^verbatim>\<open>Get\<close> returns exactly while one of them is free:
  with 510 events running it loops for ever, holding the pool's lock.
\<close>
theorem vpn_pool_get_returns:
  assumes "vpn_pool_reachable ifaces ipp" and "0 < totalWeight (pool_weights (vpn_pool_new ifaces))"
    and "orders order" and "fair (vpn_genIP order rnd ipp) vpn_addresses pos"
  shows "vpn_pool_get order rnd ipp pos \<noteq> None \<longleftrightarrow>
    60000 < length (pool_ips ipp) \<or> (\<exists>ip \<in> vpn_addresses. map_get (pool_ips ipp) ip = None)"
  unfolding vpn_pool_get_def
  by (rule pool_get_returns [of "vpn_genIP order rnd", OF vpn_generates [OF assms(3) vpn_pool_reachable_ok [OF assms(1,2)]] assms(4)])

text \<open>
  Docker's pool of lab networks has more addresses than its limit: for a random
  source that draws each of them now and then, \<^verbatim>\<open>Get\<close> always returns, with an
  address that was free, and then it is taken.
\<close>
theorem lab_pool_get_returns:
  assumes "lab_pool_ok ipp" and "orders order" and "fair (lab_genIP order rnd ipp) lab_addresses pos"
    and "length (pool_ips ipp) \<le> 60000"
  shows "\<exists>ip pos'. lab_pool_get order rnd ipp pos = Some (Ret (Inr ip, ipp\<lparr>pool_ips := map_put ip () (pool_ips ipp)\<rparr>, pos')) \<and>
    ip \<in> lab_addresses \<and> map_get (pool_ips ipp) ip = None"
proof -
  note gen = lab_generates [OF assms(2,1), of rnd]
  obtain res where "pool_get (lab_genIP order rnd) ipp pos = Some res"
    using pool_get_returns [of "lab_genIP order rnd", OF gen assms(3)] lab_address_free [OF assms(4)] by auto
  with pool_get_fresh [of "lab_genIP order rnd", OF gen this assms(4)] show ?thesis by (auto simp: lab_pool_get_def)
qed

subsection \<open>Concrete sources\<close>

lemma attempt_skip:
  "(\<And>j. j < a \<Longrightarrow> gen (pos + n * j) = Ret (f j, pos + n * Suc j)) \<Longrightarrow>
   attempt gen (a + k) pos = attempt gen k (pos + n * a)"
proof (induction a arbitrary: pos f)
  case 0
  then show ?case by simp
next
  case (Suc a)
  have "gen pos = Ret (f 0, pos + n)" using Suc.prems [of 0] by simp
  moreover have "attempt gen (a + k) (pos + n) = attempt gen k (pos + n + n * a)"
  proof (rule Suc.IH)
    fix j assume "j < a"
    then show "gen (pos + n + n * j) = Ret (f (Suc j), pos + n + n * Suc j)"
      using Suc.prems [of "Suc j"] by (simp add: algebra_simps)
  qed
  ultimately show ?case by (simp add: algebra_simps)
qed

lemma attempt_stride:
  assumes "\<And>j. j \<le> k \<Longrightarrow> gen (pos + n * j) = Ret (f j, pos + n * Suc j)"
  shows "attempt gen k pos = Ret (f k)"
  using attempt_skip [of k gen pos n f 0] assms by simp

text \<open>A source that draws the 510 addresses one after the other.\<close>

definition sweep :: "nat \<Rightarrow> nat" where
  "sweep pos = (if even pos then (if (pos div 2) mod 510 < 255 then 0 else 300) else (pos div 2) mod 255)"

definition in_order :: map_order where "in_order pos m = m"

lemma orders_in_order: "orders in_order"
  by (simp add: orders_def in_order_def)

lemma vpn_genIP_sweep:
  assumes "pool_weights ipp = [(''35'', 255), (''25'', 65025)]"
  shows "vpn_genIP in_order sweep ipp (2 * m) =
    Ret (dotted (if m mod 510 < 255 then ''35'' else ''25'') (m mod 255), 2 * m + 2)"
  by (simp add: vpn_genIP_def randomPickWeighted_def assms totalWeight_def Intn_def in_order_def append_random_def sweep_def)

lemma sweep_fair:
  assumes "pool_weights ipp = [(''35'', 255), (''25'', 65025)]"
  shows "fair (vpn_genIP in_order sweep ipp) vpn_addresses 0"
  unfolding fair_def
proof
  fix ip assume "ip \<in> vpn_addresses"
  then obtain b d where ip: "ip = dotted b d" "b = ''35'' \<or> b = ''25''" "d < 255" by (auto simp: vpn_addresses_def)
  let ?k = "if b = ''35'' then d else d + 255"
  let ?f = "\<lambda>m. dotted (if m mod 510 < 255 then ''35'' else ''25'') (m mod 255)"
  have "attempt (vpn_genIP in_order sweep ipp) ?k 0 = Ret (?f ?k)"
    using attempt_stride [of ?k "vpn_genIP in_order sweep ipp" 0 2 ?f] vpn_genIP_sweep [OF assms] by simp
  also have "?f ?k = ip" using ip by auto
  finally show "\<exists>k. attempt (vpn_genIP in_order sweep ipp) k 0 = Ret ip" ..
qed

lemma vpn_pool_get_returns_witness:
  "vpn_pool_get in_order sweep (vpn_pool_new None) 0 \<noteq> None \<longleftrightarrow>
    60000 < length (pool_ips (vpn_pool_new None)) \<or> (\<exists>ip \<in> vpn_addresses. map_get (pool_ips (vpn_pool_new None)) ip = None)"
proof (rule vpn_pool_get_returns [OF vpn_pool_reachable.new _ orders_in_order sweep_fair])
qed (simp_all add: vpn_pool_new_def take_interfaces_def totalWeight_def)

text \<open>For Docker's pool: 65025 addresses of the second kind, then 1530 of the first, then the rest.\<close>

definition lab_sweep :: "nat \<Rightarrow> nat" where
  "lab_sweep pos =
     (if pos < 199665 then
        let m = pos div 3; j = (if m < 65025 then m else m - 65025)
        in (if pos mod 3 = 0 then (if m < 65025 then 2000 else 0)
            else if pos mod 3 = 1 then j div 255 else j mod 255)
      else if even (pos - 199665) then 66900 else (pos - 199665) div 2)"

definition lab_nth :: "nat \<Rightarrow> string" where
  "lab_nth m =
     (if m < 65025 then dotted (dotted ''77'' (m div 255)) (m mod 255)
      else dotted (dotted ''34'' ((m - 65025) div 255 + 25)) ((m - 65025) mod 255))"

lemma lab_sweep_3:
  "m < 66555 \<Longrightarrow> lab_sweep (3 * m) = (if m < 65025 then 2000 else 0)"
  "m < 66555 \<Longrightarrow> lab_sweep (Suc (3 * m)) = (if m < 65025 then m else m - 65025) div 255"
  "m < 66555 \<Longrightarrow> lab_sweep (Suc (Suc (3 * m))) = (if m < 65025 then m else m - 65025) mod 255"
proof -
  have "Suc (3 * m) div 3 = m" "Suc (3 * m) mod 3 = 1" "Suc (Suc (3 * m)) div 3 = m" "Suc (Suc (3 * m)) mod 3 = 2"
    by presburger+
  then show "m < 66555 \<Longrightarrow> lab_sweep (3 * m) = (if m < 65025 then 2000 else 0)"
    "m < 66555 \<Longrightarrow> lab_sweep (Suc (3 * m)) = (if m < 65025 then m else m - 65025) div 255"
    "m < 66555 \<Longrightarrow> lab_sweep (Suc (Suc (3 * m))) = (if m < 65025 then m else m - 65025) mod 255"
    by (simp_all add: lab_sweep_def Let_def)
qed

lemma lab_sweep_2: "lab_sweep (199665 + 2 * d) = 66900" "lab_sweep (Suc (199665 + 2 * d)) = d"
  by (simp_all add: lab_sweep_def)

lemma lab_genIP_sweep:
  assumes "pool_weights ipp = [(''34'', 1785), (''77'', 65025), (''22'', 255)]"
  shows "m < 66555 \<Longrightarrow> lab_genIP in_order lab_sweep ipp (3 * m) = Ret (lab_nth m, 3 * m + 3)"
    and "lab_genIP in_order lab_sweep ipp (199665 + 2 * d) = Ret (dotted ''22.168'' (d mod 255), 199665 + 2 * d + 2)"
proof -
  have pick: "randomPickWeighted in_order rnd (pool_weights ipp) pos =
      Ret (let r = int (rnd pos mod 67065) in if r \<le> 1785 then ''34'' else if r \<le> 66810 then ''77'' else ''22'', pos + 1)"
    if "rnd pos mod 67065 < 67065" for rnd pos
    using that by (simp add: randomPickWeighted_def assms totalWeight_def Intn_def in_order_def Let_def)
  show "m < 66555 \<Longrightarrow> lab_genIP in_order lab_sweep ipp (3 * m) = Ret (lab_nth m, 3 * m + 3)"
  proof (cases "m < 65025")
    case True
    then have "m div 255 < 255" by (simp add: less_mult_imp_div_less)
    with True show ?thesis
      by (simp add: lab_genIP_def pick append_random_Ret lab_sweep_3 lab_nth_def)
  next
    case False
    assume "m < 66555"
    with False have "(m - 65025) div 255 < 6" by (simp add: less_mult_imp_div_less)
    with False \<open>m < 66555\<close> show ?thesis
      by (simp add: lab_genIP_def pick append_random_Ret lab_sweep_3 lab_nth_def)
  qed
  show "lab_genIP in_order lab_sweep ipp (199665 + 2 * d) = Ret (dotted ''22.168'' (d mod 255), 199665 + 2 * d + 2)"
    using lab_sweep_2 [of d] by (simp add: lab_genIP_def pick append_random_Ret)
qed

lemma lab_sweep_fair:
  assumes "pool_weights ipp = [(''34'', 1785), (''77'', 65025), (''22'', 255)]"
  shows "fair (lab_genIP in_order lab_sweep ipp) lab_addresses 0"
proof -
  let ?gen = "lab_genIP in_order lab_sweep ipp"
  have first: "attempt ?gen m 0 = Ret (lab_nth m)" if "m < 66555" for m
    using attempt_stride [of m ?gen 0 3 lab_nth] lab_genIP_sweep(1) [OF assms] that by simp
  have rest: "attempt ?gen (66555 + d) 0 = Ret (dotted ''22.168'' d)" if "d < 255" for d
  proof -
    have "attempt ?gen (66555 + d) 0 = attempt ?gen d 199665"
      using attempt_skip [of 66555 ?gen 0 3 lab_nth d] lab_genIP_sweep(1) [OF assms] by simp
    also have "\<dots> = Ret (dotted ''22.168'' (d mod 255))"
      using attempt_stride [of d ?gen 199665 2 "\<lambda>d. dotted ''22.168'' (d mod 255)"] lab_genIP_sweep(2) [OF assms] by simp
    finally show ?thesis using that by simp
  qed
  show ?thesis unfolding fair_def
  proof
    fix ip assume "ip \<in> lab_addresses"
    then consider (a) c d where "ip = dotted (dotted ''34'' (c + 25)) d" "c < 6" "d < 255"
      | (b) c d where "ip = dotted (dotted ''77'' c) d" "c < 255" "d < 255"
      | (c) d where "ip = dotted ''22.168'' d" "d < 255" unfolding lab_addresses_def by blast
    then show "\<exists>k. attempt ?gen k 0 = Ret ip"
    proof cases
      case a
      then have "attempt ?gen (65025 + (255 * c + d)) 0 = Ret ip" by (subst first) (simp_all add: lab_nth_def)
      then show ?thesis ..
    next
      case b
      then have "attempt ?gen (255 * c + d) 0 = Ret ip" by (subst first) (simp_all add: lab_nth_def)
      then show ?thesis ..
    next
      case c
      then show ?thesis using rest by blast
    qed
  qed
qed

lemma lab_pool_get_returns_witness:
  "\<exists>ip pos'. lab_pool_get in_order lab_sweep (lab_pool_new None) 0 =
      Some (Ret (Inr ip, (lab_pool_new None)\<lparr>pool_ips := map_put ip () (pool_ips (lab_pool_new None))\<rparr>, pos')) \<and>
    ip \<in> lab_addresses \<and> map_get (pool_ips (lab_pool_new None)) ip = None"
proof (rule lab_pool_get_returns [OF lab_pool_ok_new orders_in_order lab_sweep_fair])
qed (simp_all add: lab_pool_new_def take_interfaces_def totalWeight_def)

end
