(* ===== verification/Daemon_Pool.thy ===== *)
theory Daemon_Pool
  imports Go_Runtime
begin

text \<open>
  The daemon's pool of events and the routing of web requests to them (daemon/eventpool.go). An event is kept
  under its tag together with the handler that serves its site: the handler built
  by \<^verbatim>\<open>ev.Handler()\<close>, or the page of a suspended event. \<open>tag_of\<close> is the tag in an event's configuration. The
  operations hold the pool's lock, so each is one step.
\<close>

subsection \<open>The pool\<close>

datatype 'e site_handler = EventSite 'e | SuspendPage

datatype 'e response = NotFound | Served "'e site_handler"

datatype pool_error = UnknownEventErr

record 'e event_pool =
  ep_host :: string
  ep_events :: "(string, 'e) gomap"
  ep_handlers :: "(string, 'e site_handler) gomap"

definition NewEventPool :: "string \<Rightarrow> 'e event_pool" where
  "NewEventPool host = \<lparr>ep_host = host, ep_events = [], ep_handlers = []\<rparr>"

definition AddEvent :: "('e \<Rightarrow> string) \<Rightarrow> 'e \<Rightarrow> 'e event_pool \<Rightarrow> 'e event_pool" where
  "AddEvent tag_of ev ep =
     ep\<lparr>ep_events := map_put (tag_of ev) ev (ep_events ep),
        ep_handlers := map_put (tag_of ev) (EventSite ev) (ep_handlers ep)\<rparr>"

definition RemoveEvent :: "string \<Rightarrow> 'e event_pool \<Rightarrow> pool_error option \<times> 'e event_pool" where
  "RemoveEvent t ep =
     (if map_get (ep_events ep) t = None then (Some UnknownEventErr, ep)
      else (None, ep\<lparr>ep_events := map_del t (ep_events ep), ep_handlers := map_del t (ep_handlers ep)\<rparr>))"

definition GetEvent :: "'e event_pool \<Rightarrow> string \<Rightarrow> pool_error + 'e" where
  "GetEvent ep t = (case map_get (ep_events ep) t of None \<Rightarrow> Inl UnknownEventErr | Some ev \<Rightarrow> Inr ev)"

definition GetAllEvents :: "'e event_pool \<Rightarrow> 'e list" where
  "GetAllEvents ep = map snd (ep_events ep)"

text \<open>Closing reports the first error, over all events.\<close>

definition pool_Close :: "('e \<Rightarrow> 'x option) \<Rightarrow> 'e event_pool \<Rightarrow> 'x option" where
  "pool_Close close ep =
     foldl (\<lambda>firstErr (t, ev). case close ev of
                None \<Rightarrow> firstErr
              | Some e \<Rightarrow> (if firstErr = None then Some e else firstErr)) None (ep_events ep)"

text \<open>\<^verbatim>\<open>SuspendEvent\<close> replaces only the handler.\<close>

definition set_handler :: "string \<Rightarrow> 'e site_handler \<Rightarrow> 'e event_pool \<Rightarrow> 'e event_pool" where
  "set_handler t h ep = ep\<lparr>ep_handlers := map_put t h (ep_handlers ep)\<rparr>"

subsection \<open>Routing\<close>

definition SplitN2 :: "string \<Rightarrow> string list" where
  "SplitN2 s =
     (case dropWhile (\<lambda>c. c \<noteq> CHR ''.'') s of
        [] \<Rightarrow> [s]
      | _ # r \<Rightarrow> [takeWhile (\<lambda>c. c \<noteq> CHR ''.'') s, r])"

definition HasPrefix :: "string \<Rightarrow> string \<Rightarrow> bool" where
  "HasPrefix s p \<longleftrightarrow> take (length p) s = p"

definition ServeHTTP :: "'e event_pool \<Rightarrow> string \<Rightarrow> 'e response" where
  "ServeHTTP ep host =
     (case SplitN2 host of
        [sub, dm] \<Rightarrow>
          (if \<not> HasPrefix dm (ep_host ep) then NotFound
           else (case map_get (ep_handlers ep) sub of None \<Rightarrow> NotFound | Some h \<Rightarrow> Served h))
      | _ \<Rightarrow> NotFound)"

text \<open>A text that begins with another, whose mark the rest of it does not have.\<close>

lemma no_early_prefix:
  assumes "x \<notin> set pre" and "x \<in> set p" and "pre \<noteq> []"
  shows "\<not> HasPrefix (pre @ p) p"
proof
  let ?w = "takeWhile (\<lambda>c. c \<noteq> x)"
  assume "HasPrefix (pre @ p) p"
  then obtain y where y: "pre @ p = p @ y" unfolding HasPrefix_def by (metis append_take_drop_id)
  have "c \<in> set pre \<Longrightarrow> c \<noteq> x" for c using assms(1) by blast
  then have "?w (pre @ p) = pre @ ?w p" by (rule takeWhile_append2)
  moreover have "?w (p @ y) = ?w p" by (rule takeWhile_append1 [OF assms(2)]) simp
  ultimately have "pre @ ?w p = ?w p" by (metis y)
  with assms(3) show False by simp
qed

subsection \<open>What the pool keeps\<close>

definition pool_ok :: "('e \<Rightarrow> string) \<Rightarrow> 'e event_pool \<Rightarrow> bool" where
  "pool_ok tag_of ep \<longleftrightarrow> map_ok (ep_events ep) \<and> map_ok (ep_handlers ep) \<and>
     (\<forall>t. map_get (ep_handlers ep) t = None \<longleftrightarrow> map_get (ep_events ep) t = None) \<and>
     (\<forall>t ev. map_get (ep_events ep) t = Some ev \<longrightarrow> tag_of ev = t \<and>
        map_get (ep_handlers ep) t \<in> {Some (EventSite ev), Some SuspendPage})"

lemma pool_ok_new: "pool_ok tag_of (NewEventPool host)"
  by (simp add: pool_ok_def NewEventPool_def)

lemma pool_ok_add: "pool_ok tag_of ep \<Longrightarrow> pool_ok tag_of (AddEvent tag_of ev ep)"
  by (simp add: pool_ok_def AddEvent_def)

lemma pool_ok_remove: "pool_ok tag_of ep \<Longrightarrow> pool_ok tag_of (snd (RemoveEvent t ep))"
  by (simp add: pool_ok_def RemoveEvent_def)

lemma pool_ok_handler:
  "pool_ok tag_of ep \<Longrightarrow> map_get (ep_events ep) t = Some ev \<Longrightarrow> h \<in> {EventSite ev, SuspendPage} \<Longrightarrow>
   pool_ok tag_of (set_handler t h ep)"
  by (auto simp: pool_ok_def set_handler_def)

lemma GetAllEvents_in: "pool_ok tag_of ep \<Longrightarrow> ev \<in> set (GetAllEvents ep) \<Longrightarrow> map_get (ep_events ep) (tag_of ev) = Some ev"
  unfolding GetAllEvents_def pool_ok_def by (auto simp: in_map_get)

lemma SplitN2_dot:
  "CHR ''.'' \<notin> set sub \<Longrightarrow> SplitN2 (sub @ CHR ''.'' # dm) = [sub, dm]"
proof -
  assume "CHR ''.'' \<notin> set sub"
  then have "c \<in> set sub \<Longrightarrow> c \<noteq> CHR ''.''" for c by blast
  then show ?thesis by (simp add: SplitN2_def dropWhile_append2 takeWhile_append2)
qed

lemma SplitN2_two:
  "SplitN2 s = [sub, dm] \<Longrightarrow> s = sub @ CHR ''.'' # dm \<and> CHR ''.'' \<notin> set sub"
proof (induction s arbitrary: sub)
  case Nil
  then show ?case by (simp add: SplitN2_def)
next
  case (Cons c s)
  show ?case
  proof (cases "c = CHR ''.''")
    case True
    with Cons.prems show ?thesis by (simp add: SplitN2_def)
  next
    case False
    with Cons.prems obtain sub' where "sub = c # sub'" "SplitN2 s = [sub', dm]"
      by (auto simp: SplitN2_def split: list.splits)
    with False Cons.IH show ?thesis by simp
  qed
qed

lemma ServeHTTP_iff:
  "ServeHTTP ep host = Served h \<longleftrightarrow>
   (\<exists>sub more. host = sub @ CHR ''.'' # ep_host ep @ more \<and> CHR ''.'' \<notin> set sub \<and> map_get (ep_handlers ep) sub = Some h)"
proof
  assume "ServeHTTP ep host = Served h"
  then obtain sub dm where s: "SplitN2 host = [sub, dm]" and "HasPrefix dm (ep_host ep)"
    and h: "map_get (ep_handlers ep) sub = Some h"
    by (auto simp: ServeHTTP_def split: list.splits if_splits option.splits)
  then have "dm = ep_host ep @ drop (length (ep_host ep)) dm" by (metis HasPrefix_def append_take_drop_id)
  with SplitN2_two [OF s] h show "\<exists>sub more. host = sub @ CHR ''.'' # ep_host ep @ more \<and> CHR ''.'' \<notin> set sub \<and>
      map_get (ep_handlers ep) sub = Some h" by metis
next
  assume "\<exists>sub more. host = sub @ CHR ''.'' # ep_host ep @ more \<and> CHR ''.'' \<notin> set sub \<and> map_get (ep_handlers ep) sub = Some h"
  then show "ServeHTTP ep host = Served h" by (auto simp: ServeHTTP_def SplitN2_dot HasPrefix_def)
qed

subsection \<open>Reachable pools\<close>

inductive pool_reachable :: "('e \<Rightarrow> string) \<Rightarrow> string \<Rightarrow> 'e event_pool \<Rightarrow> bool" for tag_of host where
  new: "pool_reachable tag_of host (NewEventPool host)"
| add: "pool_reachable tag_of host ep \<Longrightarrow> pool_reachable tag_of host (AddEvent tag_of ev ep)"
| remove: "pool_reachable tag_of host ep \<Longrightarrow> pool_reachable tag_of host (snd (RemoveEvent t ep))"
| suspend: "pool_reachable tag_of host ep \<Longrightarrow> GetEvent ep t = Inr ev \<Longrightarrow> pool_reachable tag_of host (set_handler t SuspendPage ep)"
| resume: "pool_reachable tag_of host ep \<Longrightarrow> GetEvent ep t = Inr ev \<Longrightarrow> pool_reachable tag_of host (set_handler t (EventSite ev) ep)"

lemma GetEvent_Inr: "GetEvent ep t = Inr ev \<longleftrightarrow> map_get (ep_events ep) t = Some ev"
  by (simp add: GetEvent_def split: option.split)

lemma pool_reachable_ok: "pool_reachable tag_of host ep \<Longrightarrow> pool_ok tag_of ep \<and> ep_host ep = host"
proof (induction rule: pool_reachable.induct)
  case new
  show ?case by (simp add: pool_ok_new) (simp add: NewEventPool_def)
next
  case (add ep ev)
  then show ?case by (simp add: pool_ok_add) (simp add: AddEvent_def)
next
  case (remove ep t)
  then show ?case by (simp add: pool_ok_remove) (simp add: RemoveEvent_def)
next
  case (suspend ep t ev)
  then show ?case by (simp add: pool_ok_handler GetEvent_Inr) (simp add: set_handler_def)
next
  case (resume ep t ev)
  then show ?case by (simp add: pool_ok_handler GetEvent_Inr) (simp add: set_handler_def)
qed

text \<open>
  C17. In every reachable pool, the site of an event answers exactly the requests whose host is its
  tag, a dot and a text that begins with the daemon's host (which leaves room for a port, and for
  any longer name): nothing else reaches an event, and a suspended event answers with the suspend page only.
\<close>
theorem requests_reach_their_event:
  assumes "pool_reachable tag_of host ep" and "CHR ''.'' \<notin> set t"
  shows "case ServeHTTP ep (t @ CHR ''.'' # dm) of
      NotFound \<Rightarrow> \<not> HasPrefix dm host \<or> GetEvent ep t = Inl UnknownEventErr
    | Served h \<Rightarrow> HasPrefix dm host \<and> (\<exists>ev. GetEvent ep t = Inr ev \<and> tag_of ev = t \<and> h \<in> {EventSite ev, SuspendPage})"
proof -
  note ok = pool_reachable_ok [OF assms(1)]
  show ?thesis
  proof (cases "HasPrefix dm host")
    case False
    with ok show ?thesis by (simp add: ServeHTTP_def SplitN2_dot [OF assms(2)])
  next
    case True
    show ?thesis
    proof (cases "map_get (ep_events ep) t")
      case None
      with ok have "map_get (ep_handlers ep) t = None" by (simp add: pool_ok_def)
      with True None ok show ?thesis by (simp add: ServeHTTP_def SplitN2_dot [OF assms(2)] GetEvent_def)
    next
      case (Some ev)
      with ok obtain h where "map_get (ep_handlers ep) t = Some h" "h \<in> {EventSite ev, SuspendPage}" "tag_of ev = t"
        unfolding pool_ok_def by blast
      with True ok Some show ?thesis by (simp add: ServeHTTP_def SplitN2_dot [OF assms(2)] GetEvent_def)
    qed
  qed
qed

lemma requests_reach_their_event_witness:
  "case ServeHTTP (AddEvent id ''demo'' (NewEventPool ''ntp.dk'')) (''demo'' @ CHR ''.'' # ''ntp.dk:8080'') of
      NotFound \<Rightarrow> \<not> HasPrefix ''ntp.dk:8080'' ''ntp.dk'' \<or>
        GetEvent (AddEvent id ''demo'' (NewEventPool ''ntp.dk'')) ''demo'' = Inl UnknownEventErr
    | Served h \<Rightarrow> HasPrefix ''ntp.dk:8080'' ''ntp.dk'' \<and>
        (\<exists>ev. GetEvent (AddEvent id ''demo'' (NewEventPool ''ntp.dk'')) ''demo'' = Inr ev \<and> id ev = ''demo'' \<and>
           h \<in> {EventSite ev, SuspendPage})"
  by (rule requests_reach_their_event [OF pool_reachable.add [OF pool_reachable.new]]) simp

end
