(* ===== verification/Daemon_Events.thy ===== *)
theory Daemon_Events
  imports Store_Users Store_Exercise Address_Pool Daemon_Pool
begin

text \<open>
  The daemon's operations on events (daemon/event.go, daemon/daemon.go): creating, booking, stopping and
  suspending an event, and the two periodic jobs that start booked events and close overdue ones. The
  record \<open>daemon\<close> holds the pool of events, the cached status of each, the pool of VPN networks with
  the position in the random stream, and the calls made so far that change the database. What
  the database, the exercise service and the event host answer are fields of \<open>daemon_env\<close>, an argument
  of every operation, so that answers may differ from call to call. Times are nanoseconds
  since 1970, read by a parser \<open>de_parse\<close> whose failure leaves the zero time. A result is
  \<open>None\<close> when the operation does not return, which only the pool of VPN networks can cause.
\<close>

subsection \<open>Data\<close>

type_synonym time = int

definition day :: time where "day = 86400 * 10 ^ 9"

definition zero_time :: time where "zero_time = - 62135596800 * 10 ^ 9"

definition isInvalidDate :: "time \<Rightarrow> bool" where "isInvalidDate t \<longleftrightarrow> t = zero_time"

definition Running :: int where "Running = 0"
definition Suspended :: int where "Suspended = 1"
definition Booked :: int where "Booked = 2"
definition Closed :: int where "Closed = 3"

datatype daemon_error =
    NoUserInformation
  | CapacityExceedsErr
  | OutOfQuota
  | QuotaErr "32 word"
  | ReservedDomainErr
  | ServiceErr string
  | NoPrivilege string
  | BadTag config_error
  | InvalidDateErr
  | NotAvailableTag
  | InvalidConf config_error
  | DuplicateEventErr
  | NotFree
  | TimeParseErr
  | PoolErr pool_error

record event_conf =
  ec_name :: string
  ec_host :: string
  ec_tag :: string
  ec_available :: int
  ec_capacity :: int
  ec_frontends :: "instance_config list"
  ec_exercises :: "string list"
  ec_disabled :: "string list"
  ec_started :: time
  ec_finish :: time
  ec_status :: int
  ec_created_by :: string
  ec_only_vpn :: int
  ec_vpn_address :: string
  ec_secret :: string

definition EventConfig_Validate :: "event_conf \<Rightarrow> config_error option" where
  "EventConfig_Validate e =
     (if ec_name e = [] then Some (EmptyVar ''Name'' ''Event'')
      else if ec_tag e = [] then Some (EmptyVar ''Tag'' ''Event'')
      else if ec_created_by e = [] then Some (EmptyVar ''User'' ''Event'')
      else if length (ec_exercises e) = 0 then Some (EmptyVar ''Exercises'' ''Event'')
      else if length (ec_frontends e) = 0 then Some (EmptyVar ''Frontends'' ''Event'')
      else None)"

datatype db_call =
    DbAddEvent string int
  | DbSetStatus string int
  | DbDrop string
  | DbFinish string string

record daemon =
  d_pool :: "event_conf event_pool"
  d_status :: "(string, int) gomap"
  d_vpn :: ip_pool
  d_pos :: nat
  d_calls :: "db_call list"

record create_request =
  rq_tag :: string
  rq_name :: string
  rq_available :: "32 word"
  rq_capacity :: "32 word"
  rq_frontends :: "string list"
  rq_exercises :: "string list"
  rq_disabled :: "string list"
  rq_start :: string
  rq_finish :: string
  rq_secret :: string
  rq_vpn :: "32 word"

record db_event =
  db_name :: string
  db_tag :: string
  db_available :: "32 word"
  db_capacity :: "32 word"
  db_frontends :: string
  db_exercises :: string
  db_disabled :: string
  db_started :: string
  db_finish :: string
  db_status :: int
  db_created_by :: string
  db_only_vpn :: "32 word"
  db_secret :: string

record daemon_env =
  de_order :: map_order
  de_rnd :: "nat \<Rightarrow> nat"
  de_host :: string
  de_frontends :: frontend_store
  de_parse :: "string \<Rightarrow> time option"
  de_exercises :: "string list \<Rightarrow> string + (string \<times> bool) list"
  de_exists :: "string \<Rightarrow> string + bool"
  de_user_events :: "string \<Rightarrow> string + 32 word list"
  de_series :: "string + (time, 32 word) gomap"
  de_status :: "string \<Rightarrow> string + int"
  de_booked :: "string \<Rightarrow> string + string list"
  de_write :: "db_call \<Rightarrow> string option"
  de_create :: "event_conf \<Rightarrow> string option"
  de_event :: "string \<Rightarrow> string option"

text \<open>A parse error leaves the zero time, where the code ignores it.\<close>

definition parse_time :: "daemon_env \<Rightarrow> string \<Rightarrow> time" where
  "parse_time env s = (case de_parse env s of None \<Rightarrow> zero_time | Some t \<Rightarrow> t)"

definition db_write :: "daemon_env \<Rightarrow> db_call \<Rightarrow> daemon \<Rightarrow> daemon_error option \<times> daemon" where
  "db_write env call d = (map_option ServiceErr (de_write env call), d\<lparr>d_calls := d_calls d @ [call]\<rparr>)"

definition is_vpn :: "int \<Rightarrow> bool" where "is_vpn v \<longleftrightarrow> v = 1 \<or> v = 2"

definition NPUserMaxLabs :: int where "NPUserMaxLabs = 40"

definition ReservedSubDomains :: "string list" where
  "ReservedSubDomains = [''docs'', ''admin'', ''grpc'', ''api'', ''vpn'']"

definition may_manage :: "user \<Rightarrow> string \<Rightarrow> bool" where
  "may_manage u createdBy \<longleftrightarrow> (u_np u \<and> u_username u = createdBy) \<or> \<not> u_np u"

subsection \<open>Quotas and dates\<close>

text \<open>\<^verbatim>\<open>cost\<close> is an \<^verbatim>\<open>int32\<close> and may wrap; no error means that the user is eligible.\<close>

definition checkUserQuota :: "daemon_env \<Rightarrow> user \<Rightarrow> daemon_error option" where
  "checkUserQuota env u =
     (case de_user_events env (u_username u) of
        Inl e \<Rightarrow> Some (ServiceErr e)
      | Inr caps \<Rightarrow>
          let cost = foldl (\<lambda>c x. c + x) 0 caps
          in if u_np u \<and> NPUserMaxLabs < sint cost then Some (QuotaErr cost) else None)"

text \<open>\<^verbatim>\<open>math.Round\<close> of a difference in days, away from zero.\<close>

definition round_days :: "time \<Rightarrow> int" where
  "round_days d = (if 0 \<le> d then (2 * d + day) div (2 * day) else - ((2 * (- d) + day) div (2 * day)))"

definition zeroTime :: "time \<Rightarrow> time" where "zeroTime t = (t div day) * day"

definition daysInDates :: "time \<Rightarrow> time \<Rightarrow> int" where "daysInDates s f = round_days (f - s)"

definition getDates :: "time \<Rightarrow> time \<Rightarrow> time list" where
  "getDates sT fT =
     map (\<lambda>k. zeroTime sT + int k * day) [0..<nat (daysInDates (zeroTime sT) (zeroTime fT) + 1)]"

text \<open>The map of the answer is keyed by the day. A nil map, which is what an empty one decodes to, panics on the first write.\<close>

fun free_loop :: "time list \<Rightarrow> 32 word \<Rightarrow> (time, 32 word) gomap \<Rightarrow> bool go" where
  "free_loop [] capacity m = Ret True"
| "free_loop (t # ts) capacity m =
     (if m = [] then Panic
      else let w = (case map_get m t of None \<Rightarrow> 0 | Some w \<Rightarrow> w) + capacity
           in if 90 < sint w then Ret False else free_loop ts capacity (map_put t w m))"

definition isFree :: "daemon_env \<Rightarrow> time \<Rightarrow> time \<Rightarrow> 32 word \<Rightarrow> daemon_error option go" where
  "isFree env sT fT capacity =
     (case de_series env of
        Inl e \<Rightarrow> Ret (Some (ServiceErr e))
      | Inr m \<Rightarrow> go_bind (free_loop (getDates sT fT) capacity m) (\<lambda>ok. Ret (if ok then None else Some NotFree)))"

subsection \<open>Creating and booking\<close>

definition removeDuplicates :: "string list \<Rightarrow> string list" where
  "removeDuplicates exercises =
     snd (foldl (\<lambda>(k, unique) e. if map_get k e = None then (map_put e True k, unique @ [e]) else (k, unique))
            ([], []) exercises)"

text \<open>The slots \<^verbatim>\<open>tags\<close> are as many as the tags asked for; a longer answer is out of their range.\<close>

fun tag_loop :: "user \<Rightarrow> (string \<times> bool) list \<Rightarrow> nat \<Rightarrow> string list \<Rightarrow> (daemon_error + string list) go" where
  "tag_loop u [] i tags = Ret (Inr tags)"
| "tag_loop u ((s, secret) # exs) i tags =
     (if secret \<and> \<not> u_super u then Ret (Inl (NoPrivilege s))
      else (case NewTag s of
              Inl e \<Rightarrow> Ret (Inl (BadTag e))
            | Inr t \<Rightarrow> (if i < length tags then tag_loop u exs (i + 1) (tags[i := t]) else Panic)))"

text \<open>An empty pool leaves the address without a network.\<close>

definition vpn_suffix :: string where "vpn_suffix = ''.240.1/22''"

definition take_network :: "daemon_env \<Rightarrow> daemon \<Rightarrow> (string \<times> daemon) go option" where
  "take_network env d =
     map_option (\<lambda>r. go_bind r (\<lambda>(res, ipp, pos).
         Ret ((case res of Inl e \<Rightarrow> [] | Inr ip \<Rightarrow> ip) @ vpn_suffix, d\<lparr>d_vpn := ipp, d_pos := pos\<rparr>)))
       (vpn_pool_get (de_order env) (de_rnd env) (d_vpn d) (d_pos d))"

definition startEvent :: "event_conf \<Rightarrow> daemon \<Rightarrow> daemon" where
  "startEvent c d = d\<lparr>d_pool := AddEvent ec_tag c (d_pool d), d_status := map_put (ec_tag c) (ec_status c) (d_status d)\<rparr>"

definition bookEvent :: "daemon_env \<Rightarrow> user \<Rightarrow> create_request \<Rightarrow> daemon \<Rightarrow> (daemon_error option \<times> daemon) go" where
  "bookEvent env u req d =
     (case (de_parse env (rq_start req), de_parse env (rq_finish req)) of
        (Some sT, Some fT) \<Rightarrow>
          go_bind (isFree env sT fT (rq_capacity req)) (\<lambda>busy.
            case busy of
              Some e \<Rightarrow> Ret (Some e, d)
            | None \<Rightarrow>
                (case checkUserQuota env u of
                   Some e \<Rightarrow> Ret (Some e, d)
                 | None \<Rightarrow>
                     if rq_frontends req = [] then Panic
                     else Ret (db_write env (DbAddEvent (rq_tag req) Booked) d)))
      | _ \<Rightarrow> Ret (Some TimeParseErr, d))"

definition event_conf_of :: "daemon_env \<Rightarrow> user \<Rightarrow> create_request \<Rightarrow> string list \<Rightarrow> string \<Rightarrow> string \<Rightarrow> event_conf" where
  "event_conf_of env u req tags evtag vpnAddress =
     \<lparr>ec_name = rq_name req, ec_host = de_host env, ec_tag = evtag, ec_available = sint (rq_available req),
      ec_capacity = sint (rq_capacity req), ec_frontends = GetFrontends (de_frontends env) (rq_frontends req),
      ec_exercises = tags, ec_disabled = rq_disabled req, ec_started = parse_time env (rq_start req),
      ec_finish = parse_time env (rq_finish req), ec_status = Running, ec_created_by = u_username u,
      ec_only_vpn = sint (rq_vpn req), ec_vpn_address = vpnAddress, ec_secret = TrimSpace (rq_secret req)\<rparr>"

definition with_defaults :: "time \<Rightarrow> event_conf \<Rightarrow> event_conf" where
  "with_defaults now c =
     c\<lparr>ec_available := (if ec_available c = 0 then 2 else ec_available c),
       ec_capacity := (if ec_capacity c = 0 then 10 else ec_capacity c),
       ec_finish := (if ec_finish c < now \<or> isInvalidDate (ec_finish c) then now + 15 * day else ec_finish c)\<rparr>"

text \<open>A result is what is sent to the client and the error returned.\<close>

type_synonym reply_step = "(daemon_error list \<times> daemon_error option \<times> daemon) go option"

definition refuse :: "daemon_error \<Rightarrow> daemon \<Rightarrow> reply_step" where
  "refuse e d = Some (Ret ([e], Some e, d))"

definition fail :: "daemon_error \<Rightarrow> daemon \<Rightarrow> reply_step" where
  "fail e d = Some (Ret ([], Some e, d))"

definition create_now :: "daemon_env \<Rightarrow> time \<Rightarrow> user \<Rightarrow> create_request \<Rightarrow> string list \<Rightarrow> string \<Rightarrow> string \<Rightarrow> daemon \<Rightarrow> reply_step" where
  "create_now env now u req tags evtag vpnAddress d =
     (let conf = event_conf_of env u req tags evtag vpnAddress in
      case EventConfig_Validate conf of
        Some e \<Rightarrow> fail (InvalidConf e) d
      | None \<Rightarrow>
          (case GetEvent (d_pool d) evtag of
             Inr _ \<Rightarrow> refuse DuplicateEventErr d
           | Inl _ \<Rightarrow>
               let conf = with_defaults now conf;
                   d = d\<lparr>d_calls := d_calls d @ [DbAddEvent (ec_tag conf) (ec_status conf)]\<rparr>
               in (case de_create env conf of
                     Some e \<Rightarrow> refuse (ServiceErr e) d
                   | None \<Rightarrow> Some (Ret ([], None, startEvent conf d)))))"

definition create_checked :: "daemon_env \<Rightarrow> time \<Rightarrow> user \<Rightarrow> create_request \<Rightarrow> string list \<Rightarrow> daemon \<Rightarrow> reply_step" where
  "create_checked env now u req tags d =
     (let evtag = (case NewTag (rq_tag req) of Inl _ \<Rightarrow> [] | Inr t \<Rightarrow> t);
          startTime = parse_time env (rq_start req)
      in if isInvalidDate startTime then refuse InvalidDateErr d
         else (case de_exists env (rq_tag req) of
                 Inl e \<Rightarrow> refuse (ServiceErr e) d
               | Inr True \<Rightarrow> refuse NotAvailableTag d
               | Inr False \<Rightarrow>
                   if 1 \<le> round_days (startTime - now)
                   then Some (go_bind (bookEvent env u req d) (\<lambda>(err, d').
                          Ret ((case err of None \<Rightarrow> [] | Some e \<Rightarrow> [e]), err, d')))
                   else if is_vpn (sint (rq_vpn req))
                   then (case take_network env d of
                           None \<Rightarrow> None
                         | Some (Ret (vpnAddress, d')) \<Rightarrow> create_now env now u req tags evtag vpnAddress d'
                         | Some Panic \<Rightarrow> Some Panic
                         | Some Fatal \<Rightarrow> Some Fatal)
                   else create_now env now u req tags evtag [] d))"

definition CreateEvent :: "daemon_env \<Rightarrow> time \<Rightarrow> user option \<Rightarrow> create_request \<Rightarrow> daemon \<Rightarrow> reply_step" where
  "CreateEvent env now caller req d =
     (case caller of
        None \<Rightarrow> fail NoUserInformation d
      | Some u \<Rightarrow>
          if is_vpn (sint (rq_vpn req)) \<and> 253 < sint (rq_capacity req) then refuse CapacityExceedsErr d
          else if u_np u \<and> NPUserMaxLabs < sint (rq_capacity req) then refuse OutOfQuota d
          else (case checkUserQuota env u of
                  Some e \<Rightarrow> refuse e d
                | None \<Rightarrow>
                    if map to_lower (rq_tag req) \<in> set ReservedSubDomains then refuse ReservedDomainErr d
                    else let unique = removeDuplicates (rq_exercises req) in
                      (case de_exercises env unique of
                         Inl e \<Rightarrow> refuse (ServiceErr e) d
                       | Inr exs \<Rightarrow>
                           (case tag_loop u exs 0 (replicate (length unique) []) of
                              Ret (Inl e) \<Rightarrow> fail e d
                            | Ret (Inr tags) \<Rightarrow> create_checked env now u req tags d
                            | Panic \<Rightarrow> Some Panic
                            | Fatal \<Rightarrow> Some Fatal))))"

subsection \<open>Stopping and suspending\<close>

text \<open>\<^verbatim>\<open>strings.ReplaceAll\<close> with a text that is not empty.\<close>

function ReplaceAll :: "string \<Rightarrow> string \<Rightarrow> string \<Rightarrow> string" where
  "ReplaceAll [] old new = []"
| "ReplaceAll (c # s) old new =
     (if old \<noteq> [] \<and> HasPrefix (c # s) old then new @ ReplaceAll (drop (length old) (c # s)) old new
      else c # ReplaceAll s old new)"
  by pat_completeness auto
termination
  by (relation "measure (\<lambda>(s, _). length s)") (auto simp: neq_Nil_conv)

definition release_network :: "event_conf \<Rightarrow> daemon \<Rightarrow> daemon" where
  "release_network c d =
     (if is_vpn (ec_only_vpn c) then d\<lparr>d_vpn := ReleaseIP (ReplaceAll (ec_vpn_address c) vpn_suffix []) (d_vpn d)\<rparr> else d)"

text \<open>Removing the event from the pool, closing and archiving it.\<close>

definition finish_event :: "daemon_env \<Rightarrow> string \<Rightarrow> string \<Rightarrow> daemon \<Rightarrow> daemon_error option \<times> daemon" where
  "finish_event env evtag newTag d =
     (case RemoveEvent evtag (d_pool d) of
        (Some e, _) \<Rightarrow> (Some (PoolErr e), d)
      | (None, ep) \<Rightarrow>
          let d = d\<lparr>d_pool := ep\<rparr> in
          (case de_event env evtag of
             Some e \<Rightarrow> (Some (ServiceErr e), d)
           | None \<Rightarrow> (None, snd (db_write env (DbFinish evtag newTag) d))))"

definition dropEvent :: "daemon_env \<Rightarrow> string \<Rightarrow> daemon \<Rightarrow> daemon_error option \<times> daemon" where
  "dropEvent env tag d = db_write env (DbDrop tag) d"

text \<open>For each of the user's booked events, the requested one is dropped.\<close>

fun drop_loop :: "daemon_env \<Rightarrow> user \<Rightarrow> string list \<Rightarrow> string \<Rightarrow> daemon \<Rightarrow> daemon_error option \<times> daemon" where
  "drop_loop env u [] tag d = (None, d)"
| "drop_loop env u (createdBy # es) tag d =
     (if createdBy = u_username u
      then (case dropEvent env tag d of (Some e, d) \<Rightarrow> (Some e, d) | (None, d) \<Rightarrow> drop_loop env u es tag d)
      else drop_loop env u es tag d)"

definition stop_booked :: "daemon_env \<Rightarrow> user \<Rightarrow> string \<Rightarrow> daemon \<Rightarrow> daemon_error option \<times> daemon" where
  "stop_booked env u tag d =
     (if u_np u
      then (case de_booked env (u_username u) of
              Inl e \<Rightarrow> (Some (ServiceErr e), d)
            | Inr es \<Rightarrow> drop_loop env u es tag d)
      else dropEvent env tag d)"

definition StopEvent :: "daemon_env \<Rightarrow> time \<Rightarrow> user option \<Rightarrow> string \<Rightarrow> daemon \<Rightarrow> daemon_error option \<times> daemon" where
  "StopEvent env now caller tag d =
     (case caller of
        None \<Rightarrow> (Some NoUserInformation, d)
      | Some u \<Rightarrow>
          (case NewTag tag of
             Inl e \<Rightarrow> (Some (BadTag e), d)
           | Inr evtag \<Rightarrow>
               let newTag = evtag @ ''-'' @ show_int (now div 10 ^ 9) in
               (case de_status env evtag of
                  Inl e \<Rightarrow> (Some (ServiceErr e), d)
                | Inr status \<Rightarrow>
                    if status = Running \<or> status = Suspended
                    then (case GetEvent (d_pool d) evtag of
                            Inl e \<Rightarrow> (Some (PoolErr e), d)
                          | Inr ev \<Rightarrow>
                              let d = release_network ev d in
                              if may_manage u (ec_created_by ev)
                              then (case db_write env (DbSetStatus evtag Closed) d of
                                      (Some e, d) \<Rightarrow> (Some e, d)
                                    | (None, d) \<Rightarrow> finish_event env evtag newTag d)
                              else (Some (NoPrivilege evtag), d))
                    else if status = Booked then stop_booked env u tag d
                    else (None, d))))"

definition SuspendEvent :: "daemon_env \<Rightarrow> user option \<Rightarrow> string \<Rightarrow> bool \<Rightarrow> daemon \<Rightarrow> daemon_error option \<times> daemon" where
  "SuspendEvent env caller tag isSuspend d =
     (case caller of
        None \<Rightarrow> (Some NoUserInformation, d)
      | Some u \<Rightarrow>
          (case GetEvent (d_pool d) tag of
             Inl e \<Rightarrow> (Some (PoolErr e), d)
           | Inr ev \<Rightarrow>
               if may_manage u (ec_created_by ev)
               then (case de_event env tag of
                       Some e \<Rightarrow> (Some (ServiceErr e), d)
                     | None \<Rightarrow>
                         let status = (if isSuspend then Suspended else Running);
                             h = (if isSuspend then SuspendPage else EventSite ev)
                         in (None, d\<lparr>d_pool := set_handler tag h (d_pool d), d_status := map_put tag status (d_status d),
                                     d_calls := d_calls d @ [DbSetStatus tag status]\<rparr>))
               else (None, d)))"

subsection \<open>The periodic jobs\<close>

text \<open>The finish time goes through a format without fractions of seconds.\<close>

definition isDelayed :: "time \<Rightarrow> time \<Rightarrow> bool" where
  "isDelayed now t \<longleftrightarrow> (t div 10 ^ 9) * 10 ^ 9 \<le> now"

text \<open>
  \<^verbatim>\<open>closer\<close>, one step per event. The errors only end up in a log; an event that is
  gone from the pool is nil, and closing it panics.
\<close>

definition closer :: "daemon_env \<Rightarrow> time \<Rightarrow> event_conf \<Rightarrow> daemon \<Rightarrow> daemon go" where
  "closer env now e d =
     (let d = release_network e d in
      if isDelayed now (ec_finish e)
      then let newTag = ec_tag e @ ''-'' @ show_int (now div 10 ^ 9);
               found = GetEvent (d_pool d) (ec_tag e);
               d = snd (db_write env (DbSetStatus (ec_tag e) Closed) d);
               d = d\<lparr>d_pool := snd (RemoveEvent (ec_tag e) (d_pool d))\<rparr>
           in (case found of
                 Inl _ \<Rightarrow> Panic
               | Inr _ \<Rightarrow> Ret (snd (db_write env (DbFinish (ec_tag e) newTag) d)))
      else Ret d)"

definition closeEvents :: "daemon_env \<Rightarrow> time \<Rightarrow> daemon \<Rightarrow> daemon go" where
  "closeEvents env now d = foldl (\<lambda>m e. go_bind m (closer env now e)) (Ret d) (GetAllEvents (d_pool d))"

definition generateEventConfig :: "daemon_env \<Rightarrow> db_event \<Rightarrow> int \<Rightarrow> string \<Rightarrow> event_conf" where
  "generateEventConfig env e status vpnAddress =
     \<lparr>ec_name = db_name e, ec_host = de_host env, ec_tag = db_tag e, ec_available = sint (db_available e),
      ec_capacity = sint (db_capacity e), ec_frontends = [hd (GetFrontends (de_frontends env) [db_frontends e])],
      ec_exercises = split_on CHR '','' (db_exercises e), ec_disabled = split_on CHR '','' (db_disabled e),
      ec_started = parse_time env (db_started e), ec_finish = parse_time env (db_finish e), ec_status = status,
      ec_created_by = db_created_by e, ec_only_vpn = sint (db_only_vpn e), ec_vpn_address = vpnAddress,
      ec_secret = db_secret e\<rparr>"

definition createEventFromEventDB :: "daemon_env \<Rightarrow> event_conf \<Rightarrow> daemon \<Rightarrow> daemon_error option \<times> daemon" where
  "createEventFromEventDB env conf d =
     (case EventConfig_Validate conf of
        Some e \<Rightarrow> (Some (InvalidConf e), d)
      | None \<Rightarrow>
          (case de_create env conf of
             Some e \<Rightarrow> (Some (ServiceErr e), d)
           | None \<Rightarrow> (None, startEvent conf d)))"

text \<open>The address of the previous VPN event stays in \<^verbatim>\<open>vpnAddress\<close> for an event without VPN.\<close>

definition next_address :: "daemon_env \<Rightarrow> db_event \<Rightarrow> string \<Rightarrow> daemon \<Rightarrow> (string \<times> daemon) go option" where
  "next_address env e vpnAddress d =
     (if is_vpn (sint (db_only_vpn e)) then take_network env d else Some (Ret (vpnAddress, d)))"

fun visit_loop :: "daemon_env \<Rightarrow> time \<Rightarrow> db_event list \<Rightarrow> string \<Rightarrow> daemon \<Rightarrow> (daemon_error option \<times> daemon) go option" where
  "visit_loop env now [] vpnAddress d = Some (Ret (None, d))"
| "visit_loop env now (e # es) vpnAddress d =
     (if parse_time env (db_started e) \<le> now
      then (case next_address env e vpnAddress d of
              Some (Ret (vpnAddress', d)) \<Rightarrow>
                let c = generateEventConfig env e Running vpnAddress' in
                (case createEventFromEventDB env c d of
                   (Some err, d) \<Rightarrow> Some (Ret (Some err, d))
                 | (None, d) \<Rightarrow>
                     (case db_write env (DbSetStatus (ec_tag c) Running) d of
                        (Some err, d) \<Rightarrow> Some (Ret (Some err, d))
                      | (None, d) \<Rightarrow> visit_loop env now es vpnAddress' d))
            | Some Panic \<Rightarrow> Some Panic
            | Some Fatal \<Rightarrow> Some Fatal
            | None \<Rightarrow> None)
      else visit_loop env now es vpnAddress d)"

definition visitBookedEvents ::
  "daemon_env \<Rightarrow> time \<Rightarrow> string + db_event list \<Rightarrow> daemon \<Rightarrow> (daemon_error option \<times> daemon) go option" where
  "visitBookedEvents env now answer d =
     (case answer of
        Inl e \<Rightarrow> Some (Ret (Some (ServiceErr e), d))
      | Inr es \<Rightarrow> visit_loop env now es [] d)"

text \<open>The events \<^verbatim>\<open>New\<close> reads from the database when the daemon starts; suspended ones are started, and suspended again.\<close>

fun load_loop :: "daemon_env \<Rightarrow> db_event list \<Rightarrow> string \<Rightarrow> daemon \<Rightarrow> (daemon_error option \<times> daemon) go option" where
  "load_loop env [] vpnAddress d = Some (Ret (None, d))"
| "load_loop env (e # es) vpnAddress d =
     (if db_status e = Running \<or> db_status e = Suspended
      then (case next_address env e vpnAddress d of
              Some (Ret (vpnAddress', d)) \<Rightarrow>
                let d = (if db_status e = Suspended then snd (db_write env (DbSetStatus (db_tag e) Running) d) else d);
                    c = generateEventConfig env e Running vpnAddress'
                in (case createEventFromEventDB env c d of
                      (Some err, d) \<Rightarrow> Some (Ret (Some err, d))
                    | (None, d) \<Rightarrow> load_loop env es vpnAddress' d)
            | Some Panic \<Rightarrow> Some Panic
            | Some Fatal \<Rightarrow> Some Fatal
            | None \<Rightarrow> None)
      else load_loop env es vpnAddress d)"

definition NewDaemon :: "interfaces \<Rightarrow> string \<Rightarrow> daemon" where
  "NewDaemon ifaces hst =
     \<lparr>d_pool = NewEventPool hst, d_status = [], d_vpn = vpn_pool_new ifaces, d_pos = 0, d_calls = []\<rparr>"

subsection \<open>Runs of the daemon\<close>

datatype daemon_op =
    Create "user option" create_request
  | Stop "user option" string
  | Suspend "user option" string bool
  | VisitBooked "string + db_event list"
  | CloseOverdue

definition run_op :: "daemon_env \<Rightarrow> time \<Rightarrow> daemon_op \<Rightarrow> daemon \<Rightarrow> daemon go option" where
  "run_op env now op d =
     (case op of
        Create caller req \<Rightarrow> map_option (\<lambda>r. go_bind r (\<lambda>(sent, err, d). Ret d)) (CreateEvent env now caller req d)
      | Stop caller tag \<Rightarrow> Some (Ret (snd (StopEvent env now caller tag d)))
      | Suspend caller tag b \<Rightarrow> Some (Ret (snd (SuspendEvent env caller tag b d)))
      | VisitBooked answer \<Rightarrow> map_option (\<lambda>r. go_bind r (\<lambda>(err, d). Ret d)) (visitBookedEvents env now answer d)
      | CloseOverdue \<Rightarrow> Some (closeEvents env now d))"

inductive daemon_reachable ::
  "(daemon_env \<Rightarrow> daemon_op \<Rightarrow> daemon \<Rightarrow> bool) \<Rightarrow> interfaces \<Rightarrow> string \<Rightarrow> daemon \<Rightarrow> bool"
  for allowed ifaces hst where
  start: "daemon_reachable allowed ifaces hst (NewDaemon ifaces hst)"
| step: "daemon_reachable allowed ifaces hst d \<Longrightarrow> orders (de_order env) \<Longrightarrow> allowed env op d \<Longrightarrow>
     run_op env now op d = Some (Ret d') \<Longrightarrow> daemon_reachable allowed ifaces hst d'"

text \<open>
  The steps that keep networks apart: all but the job that closes overdue events and
  a stop that is refused after it has released the network.
\<close>

definition calm :: "daemon_env \<Rightarrow> daemon_op \<Rightarrow> daemon \<Rightarrow> bool" where
  "calm env op d \<longleftrightarrow> op \<noteq> CloseOverdue \<and>
     (\<forall>u tag ev. op = Stop (Some u) tag \<and> GetEvent (d_pool d) tag = Inr ev \<longrightarrow>
        may_manage u (ec_created_by ev) \<and> de_write env (DbSetStatus tag Closed) = None)"

subsection \<open>Networks of running events\<close>

lemma strip_suffix: "CHR ''/'' \<notin> set ip \<Longrightarrow> ReplaceAll (ip @ vpn_suffix) vpn_suffix [] = ip"
proof (induction ip)
  case Nil
  show ?case by (simp add: vpn_suffix_def HasPrefix_def)
next
  case (Cons c ip)
  have "\<not> HasPrefix ((c # ip) @ vpn_suffix) vpn_suffix"
    using Cons.prems by (intro no_early_prefix [where x = "CHR ''/''"]) (auto simp: vpn_suffix_def)
  with Cons show ?case by simp
qed

lemma vpn_address_no_slash: "ip \<in> vpn_addresses \<Longrightarrow> CHR ''/'' \<notin> set ip"
  using show_nat_digits [of "CHR ''/''"]
  by (auto simp: vpn_addresses_def dotted_def is_digit_def char_digit_def)

definition nets_ok :: "event_conf event_pool \<Rightarrow> ip_pool \<Rightarrow> bool" where
  "nets_ok ep ipp \<longleftrightarrow> pool_ok ec_tag ep \<and> vpn_pool_ok ipp \<and>
     (\<forall>t c. map_get (ep_events ep) t = Some c \<and> is_vpn (ec_only_vpn c) \<longrightarrow>
        (\<exists>ip \<in> vpn_addresses. ec_vpn_address c = ip @ vpn_suffix \<and> is_taken ipp ip)) \<and>
     (\<forall>t c t' c'. map_get (ep_events ep) t = Some c \<and> map_get (ep_events ep) t' = Some c' \<and> t \<noteq> t' \<and>
        is_vpn (ec_only_vpn c) \<and> is_vpn (ec_only_vpn c') \<longrightarrow> ec_vpn_address c \<noteq> ec_vpn_address c')"

lemma nets_ok_net:
  "nets_ok ep ipp \<Longrightarrow> map_get (ep_events ep) t = Some c \<Longrightarrow> is_vpn (ec_only_vpn c) \<Longrightarrow>
   \<exists>ip \<in> vpn_addresses. ec_vpn_address c = ip @ vpn_suffix \<and> is_taken ipp ip"
  unfolding nets_ok_def by blast

lemma nets_ok_events:
  assumes "nets_ok ep ipp" and "ep_events ep' = ep_events ep" and "pool_ok ec_tag ep'"
  shows "nets_ok ep' ipp"
  using assms(1,3) unfolding nets_ok_def assms(2) by blast

text \<open>A network that can be given to a new event.\<close>

definition unused :: "event_conf event_pool \<Rightarrow> ip_pool \<Rightarrow> string \<Rightarrow> bool" where
  "unused ep ipp a \<longleftrightarrow> (\<exists>ip \<in> vpn_addresses. a = ip @ vpn_suffix \<and> is_taken ipp ip) \<and>
     (\<forall>t c. map_get (ep_events ep) t = Some c \<and> is_vpn (ec_only_vpn c) \<longrightarrow> ec_vpn_address c \<noteq> a)"

lemma nets_ok_add:
  assumes "nets_ok ep ipp" and "is_vpn (ec_only_vpn c) \<Longrightarrow> unused ep ipp (ec_vpn_address c)"
  shows "nets_ok (AddEvent ec_tag c ep) ipp"
  unfolding nets_ok_def
proof (intro conjI allI impI)
  show "pool_ok ec_tag (AddEvent ec_tag c ep)" "vpn_pool_ok ipp"
    using assms(1) by (simp_all add: nets_ok_def pool_ok_add)
next
  fix t e
  assume "map_get (ep_events (AddEvent ec_tag c ep)) t = Some e \<and> is_vpn (ec_only_vpn e)"
  then show "\<exists>ip \<in> vpn_addresses. ec_vpn_address e = ip @ vpn_suffix \<and> is_taken ipp ip"
    using assms by (auto simp: AddEvent_def nets_ok_def unused_def split: if_splits)
next
  fix t e t' e'
  assume a: "map_get (ep_events (AddEvent ec_tag c ep)) t = Some e \<and> map_get (ep_events (AddEvent ec_tag c ep)) t' = Some e' \<and>
     t \<noteq> t' \<and> is_vpn (ec_only_vpn e) \<and> is_vpn (ec_only_vpn e')"
  have fresh: "ec_vpn_address e \<noteq> ec_vpn_address c"
    if "map_get (ep_events ep) t = Some e" "is_vpn (ec_only_vpn e)" "is_vpn (ec_only_vpn c)" for t e
    using assms(2) that by (auto simp: unused_def)
  consider "t = ec_tag c" "t' \<noteq> ec_tag c" | "t' = ec_tag c" "t \<noteq> ec_tag c" | "t \<noteq> ec_tag c" "t' \<noteq> ec_tag c"
    using a by blast
  then show "ec_vpn_address e \<noteq> ec_vpn_address e'"
  proof cases
    case 1
    with a fresh [of t' e'] show ?thesis by (auto simp: AddEvent_def)
  next
    case 2
    with a fresh [of t e] show ?thesis by (auto simp: AddEvent_def)
  next
    case 3
    with a assms(1) show ?thesis by (auto simp: AddEvent_def nets_ok_def)
  qed
qed

lemma nets_ok_remove:
  assumes "nets_ok ep ipp" and "map_get (ep_events ep) t = Some c"
  shows "nets_ok (snd (RemoveEvent t ep)) (if is_vpn (ec_only_vpn c) then ReleaseIP (ReplaceAll (ec_vpn_address c) vpn_suffix []) ipp else ipp)"
    (is "nets_ok ?ep ?ipp")
proof -
  have ok: "map_ok (ep_events ep)" "map_ok (pool_ips ipp)" using assms(1) by (auto simp: nets_ok_def pool_ok_def vpn_pool_ok_def)
  have ev: "map_get (ep_events ?ep) s = (if s = t then None else map_get (ep_events ep) s)" for s
    using assms(2) ok by (simp add: RemoveEvent_def)
  have keep: "is_taken ?ipp ip"
    if "ip \<in> vpn_addresses" "is_taken ipp ip" "is_vpn (ec_only_vpn c) \<longrightarrow> ec_vpn_address c \<noteq> ip @ vpn_suffix" for ip
  proof (cases "is_vpn (ec_only_vpn c)")
    case True
    with nets_ok_net [OF assms] obtain ip' where "ip' \<in> vpn_addresses" "ec_vpn_address c = ip' @ vpn_suffix" by blast
    with True that ok show ?thesis by (auto simp: is_taken_def ReleaseIP_def strip_suffix vpn_address_no_slash)
  next
    case False
    with that show ?thesis by simp
  qed
  have "pool_ok ec_tag ?ep" "vpn_pool_ok ?ipp"
    using assms(1) by (simp_all add: nets_ok_def pool_ok_remove) (simp add: vpn_pool_ok_def ReleaseIP_def)
  moreover have "\<exists>ip \<in> vpn_addresses. ec_vpn_address e = ip @ vpn_suffix \<and> is_taken ?ipp ip"
    if "map_get (ep_events ?ep) s = Some e" "is_vpn (ec_only_vpn e)" for s e
  proof -
    from that have s: "s \<noteq> t" "map_get (ep_events ep) s = Some e" by (auto simp: ev split: if_splits)
    with that assms(1) obtain ip where ip: "ip \<in> vpn_addresses" "ec_vpn_address e = ip @ vpn_suffix" "is_taken ipp ip"
      unfolding nets_ok_def by blast
    moreover have "is_vpn (ec_only_vpn c) \<longrightarrow> ec_vpn_address c \<noteq> ip @ vpn_suffix"
      using assms s that(2) ip(2) unfolding nets_ok_def by metis
    ultimately show ?thesis using keep by blast
  qed
  moreover have "ec_vpn_address e \<noteq> ec_vpn_address e'"
    if "map_get (ep_events ?ep) s = Some e" "map_get (ep_events ?ep) s' = Some e'" "s \<noteq> s'"
      "is_vpn (ec_only_vpn e)" "is_vpn (ec_only_vpn e')" for s e s' e'
    using assms(1) that by (auto simp: ev nets_ok_def split: if_splits)
  ultimately show ?thesis unfolding nets_ok_def by blast
qed

text \<open>The pool never holds more than what the host took and the 510 addresses.\<close>

definition daemon_ok :: "interfaces \<Rightarrow> daemon \<Rightarrow> bool" where
  "daemon_ok ifaces d \<longleftrightarrow> nets_ok (d_pool d) (d_vpn d) \<and>
     fst ` set (pool_ips (d_vpn d)) \<subseteq> fst ` set (pool_ips (vpn_pool_new ifaces)) \<union> vpn_addresses"

definition small_host :: "interfaces \<Rightarrow> bool" where
  "small_host ifaces \<longleftrightarrow> 0 < totalWeight (pool_weights (vpn_pool_new ifaces)) \<and>
     length (pool_ips (vpn_pool_new ifaces)) \<le> 59000"

lemma card_vpn_addresses: "finite vpn_addresses" "card vpn_addresses \<le> 510"
proof -
  let ?A = "{''35'', ''25''} \<times> {..<255::nat}"
  have eq: "vpn_addresses = (\<lambda>(ip, d). dotted ip d) ` ?A" by (auto simp: vpn_addresses_def)
  show "finite vpn_addresses" by (simp add: eq)
  have "card vpn_addresses \<le> card ?A" unfolding eq by (rule card_image_le) simp
  then show "card vpn_addresses \<le> 510" by (simp add: card_cartesian_product)
qed

lemma pool_size:
  assumes "daemon_ok ifaces d" and "small_host ifaces"
  shows "length (pool_ips (d_vpn d)) \<le> 60000"
proof -
  let ?N = "fst ` set (pool_ips (vpn_pool_new ifaces))"
  have "distinct (map fst (pool_ips (d_vpn d)))" using assms(1) by (simp add: daemon_ok_def nets_ok_def vpn_pool_ok_def map_ok_def)
  then have "length (pool_ips (d_vpn d)) = card (fst ` set (pool_ips (d_vpn d)))"
    by (metis distinct_card length_map list.set_map)
  also have "\<dots> \<le> card (?N \<union> vpn_addresses)" using assms(1) card_vpn_addresses(1)
    by (intro card_mono) (simp_all add: daemon_ok_def)
  also have "\<dots> \<le> card ?N + card vpn_addresses" by (rule card_Un_le)
  also have "card ?N \<le> length (pool_ips (vpn_pool_new ifaces))" by (metis card_length length_map list.set_map)
  finally show ?thesis using assms(2) card_vpn_addresses(2) by (simp add: small_host_def)
qed

lemma put_ips: "fst ` set (map_put ip () ips) = insert ip (fst ` set ips)"
  by (simp add: map_put_def dom_update)

lemma take_network_unused:
  assumes "daemon_ok ifaces d" and "small_host ifaces" and "orders (de_order env)"
    and "take_network env d = Some (Ret (a, d'))"
  shows "d_pool d' = d_pool d \<and> daemon_ok ifaces d' \<and> unused (d_pool d') (d_vpn d') a"
proof -
  let ?ipp = "d_vpn d"
  have ok: "nets_ok (d_pool d) ?ipp" "vpn_pool_ok ?ipp" using assms(1) unfolding daemon_ok_def nets_ok_def by blast+
  from assms(4) obtain r where r: "vpn_pool_get (de_order env) (de_rnd env) ?ipp (d_pos d) = Some r"
    by (auto simp: take_network_def)
  from vpn_pool_get_result [OF assms(3) ok(2) r] pool_size [OF assms(1,2)]
  obtain ip pos' where ip: "ip \<in> vpn_addresses" "map_get (pool_ips ?ipp) ip = None"
    and res: "r = Ret (Inr ip, ?ipp\<lparr>pool_ips := map_put ip () (pool_ips ?ipp)\<rparr>, pos')" by auto
  let ?ipp' = "?ipp\<lparr>pool_ips := map_put ip () (pool_ips ?ipp)\<rparr>"
  have a: "a = ip @ vpn_suffix" "d' = d\<lparr>d_vpn := ?ipp', d_pos := pos'\<rparr>"
    using assms(4) r res by (simp_all add: take_network_def)
  have keep: "is_taken ?ipp' i" if "is_taken ?ipp i" for i
    using that by (simp add: is_taken_def)
  have "nets_ok (d_pool d) ?ipp'"
    using ok keep vpn_pool_ok_add [OF ok(2)] unfolding nets_ok_def by blast
  moreover have "fst ` set (pool_ips ?ipp') \<subseteq> fst ` set (pool_ips (vpn_pool_new ifaces)) \<union> vpn_addresses"
    using assms(1) ip(1) by (simp add: put_ips daemon_ok_def)
  moreover have "ec_vpn_address c \<noteq> a" if "map_get (ep_events (d_pool d)) t = Some c" "is_vpn (ec_only_vpn c)" for t c
    using nets_ok_net [OF ok(1) that] ip(2) a(1) by (auto simp: is_taken_def)
  moreover have "is_taken ?ipp' ip" by (simp add: is_taken_def)
  ultimately have "nets_ok (d_pool d) ?ipp'"
    "fst ` set (pool_ips ?ipp') \<subseteq> fst ` set (pool_ips (vpn_pool_new ifaces)) \<union> vpn_addresses" "unused (d_pool d) ?ipp' a"
    using ip(1) a(1) unfolding unused_def by blast+
  then show ?thesis by (simp add: a(2) daemon_ok_def)
qed

lemma daemon_ok_same: "d_pool d' = d_pool d \<Longrightarrow> d_vpn d' = d_vpn d \<Longrightarrow> daemon_ok ifaces d \<Longrightarrow> daemon_ok ifaces d'"
  by (simp add: daemon_ok_def)

lemma db_write_fields [simp]:
  "d_pool (snd (db_write env call d)) = d_pool d" "d_vpn (snd (db_write env call d)) = d_vpn d"
  by (simp_all add: db_write_def)

lemma startEvent_ok:
  "daemon_ok ifaces d \<Longrightarrow> (is_vpn (ec_only_vpn c) \<Longrightarrow> unused (d_pool d) (d_vpn d) (ec_vpn_address c)) \<Longrightarrow>
   daemon_ok ifaces (startEvent c d)"
  by (simp add: daemon_ok_def startEvent_def nets_ok_add)

lemma create_now_ok:
  assumes "daemon_ok ifaces d" and "is_vpn (sint (rq_vpn req)) \<Longrightarrow> unused (d_pool d) (d_vpn d) a"
    and "create_now env now u req tags evtag a d = Some (Ret (s, e, d'))"
  shows "daemon_ok ifaces d'"
proof -
  let ?c = "with_defaults now (event_conf_of env u req tags evtag a)"
  have same: "daemon_ok ifaces (d\<lparr>d_calls := calls\<rparr>)" for calls by (rule daemon_ok_same [OF _ _ assms(1)]) simp_all
  have "ec_only_vpn ?c = sint (rq_vpn req)" "ec_vpn_address ?c = a" by (simp_all add: with_defaults_def event_conf_of_def)
  then have "daemon_ok ifaces (startEvent ?c (d\<lparr>d_calls := calls\<rparr>))" for calls
    using same assms(2) by (intro startEvent_ok) simp_all
  with assms(1,3) same show ?thesis
    by (auto simp: create_now_def Let_def refuse_def fail_def split: option.splits sum.splits)
qed

lemma bookEvent_same:
  "bookEvent env u req d = Ret (e, d') \<Longrightarrow> d_pool d' = d_pool d \<and> d_vpn d' = d_vpn d"
  by (auto simp: bookEvent_def go_bind_Ret db_write_def split: option.splits if_splits)

lemma CreateEvent_ok:
  assumes "daemon_ok ifaces d" and "small_host ifaces" and "orders (de_order env)"
    and "CreateEvent env now caller req d = Some (Ret (s, e, d'))"
  shows "daemon_ok ifaces d'"
proof -
  have checked: "daemon_ok ifaces d'" if "create_checked env now u req tags d = Some (Ret (s, e, d'))" for u tags
  proof (cases "1 \<le> round_days (parse_time env (rq_start req) - now)")
    case True
    with that assms(1) show ?thesis
      by (auto simp: create_checked_def Let_def refuse_def go_bind_Ret dest!: bookEvent_same
          split: sum.splits bool.splits if_splits intro: daemon_ok_same)
  next
    case False
    let ?evtag = "case NewTag (rq_tag req) of Inl _ \<Rightarrow> [] | Inr t \<Rightarrow> t"
    show ?thesis
    proof (cases "is_vpn (sint (rq_vpn req))")
      case True
      with that False consider "d' = d" | a d'' where "take_network env d = Some (Ret (a, d''))"
          "create_now env now u req tags ?evtag a d'' = Some (Ret (s, e, d'))"
        by (auto simp: create_checked_def Let_def refuse_def split: sum.splits bool.splits if_splits option.splits go.splits)
      then show ?thesis
      proof cases
        case 1
        with assms(1) show ?thesis by simp
      next
        case 2
        from take_network_unused [OF assms(1-3) 2(1)] show ?thesis using create_now_ok [OF _ _ 2(2)] by blast
      qed
    next
      case no: False
      with that False consider "d' = d" | "create_now env now u req tags ?evtag [] d = Some (Ret (s, e, d'))"
        by (auto simp: create_checked_def Let_def refuse_def split: sum.splits bool.splits if_splits)
      then show ?thesis using create_now_ok [OF assms(1)] no assms(1) by cases blast+
    qed
  qed
  from assms(4) consider "d' = d" | u tags where "create_checked env now u req tags d = Some (Ret (s, e, d'))"
    by (auto simp: CreateEvent_def Let_def refuse_def fail_def split: option.splits if_splits sum.splits go.splits)
  then show ?thesis using checked assms(1) by cases blast+
qed

lemma set_handler_events [simp]: "ep_events (set_handler t h ep) = ep_events ep"
  by (simp add: set_handler_def)

lemma SuspendEvent_ok:
  assumes "daemon_ok ifaces d"
  shows "daemon_ok ifaces (snd (SuspendEvent env caller tag b d))"
proof -
  have nets: "nets_ok (d_pool d) (d_vpn d)" and ok: "pool_ok ec_tag (d_pool d)"
    using assms unfolding daemon_ok_def nets_ok_def by blast+
  have "daemon_ok ifaces (d\<lparr>d_pool := set_handler tag h (d_pool d), d_status := st, d_calls := calls\<rparr>)"
    if "GetEvent (d_pool d) tag = Inr ev" "h \<in> {EventSite ev, SuspendPage}" for ev h st calls
  proof -
    from that(1) have "map_get (ep_events (d_pool d)) tag = Some ev" by (simp add: GetEvent_Inr)
    from nets_ok_events [OF nets _ pool_ok_handler [OF ok this that(2)]] assms
    show ?thesis by (simp add: daemon_ok_def)
  qed
  with assms show ?thesis
    by (auto simp: SuspendEvent_def Let_def split: option.split sum.split)
qed

lemma subset_release: "fst ` set (map_del ip ips) \<subseteq> fst ` set ips"
  by (auto simp: map_del_def AList.delete_eq)

text \<open>Releasing a running event's network and removing the event go together.\<close>

lemma release_remove_ok:
  assumes "daemon_ok ifaces d" and "GetEvent (d_pool d) t = Inr ev"
  shows "daemon_ok ifaces ((release_network ev d)\<lparr>d_pool := snd (RemoveEvent t (d_pool d)), d_calls := calls\<rparr>)"
proof -
  let ?ipp = "d_vpn (release_network ev d)"
  have "map_get (ep_events (d_pool d)) t = Some ev" "nets_ok (d_pool d) (d_vpn d)"
    using assms by (simp_all add: GetEvent_Inr daemon_ok_def)
  from nets_ok_remove [OF this(2,1)] have "nets_ok (snd (RemoveEvent t (d_pool d))) ?ipp"
    by (simp add: release_network_def split: if_splits)
  moreover have "fst ` set (pool_ips ?ipp) \<subseteq> fst ` set (pool_ips (d_vpn d))"
    by (simp add: release_network_def ReleaseIP_def subset_release)
  ultimately show ?thesis using assms(1) by (auto simp: daemon_ok_def)
qed

lemma finish_event_ok:
  assumes "daemon_ok ifaces d" and "GetEvent (d_pool d) t = Inr ev" and "d' = (release_network ev d)\<lparr>d_calls := calls\<rparr>"
  shows "daemon_ok ifaces (snd (finish_event env t newTag d'))"
proof -
  have found: "map_get (ep_events (d_pool d)) t \<noteq> None" using assms(2) by (simp add: GetEvent_Inr)
  have pool: "d_pool d' = d_pool d" by (simp add: assms(3) release_network_def)
  have "daemon_ok ifaces (d'\<lparr>d_pool := snd (RemoveEvent t (d_pool d)), d_calls := calls'\<rparr>)" for calls'
    using release_remove_ok [OF assms(1,2), of calls'] by (simp add: assms(3))
  then have all: "daemon_ok ifaces (d'\<lparr>d_pool := snd (RemoveEvent t (d_pool d))\<rparr>)"
    by (rule daemon_ok_same [rotated 2]) simp_all
  obtain ep where removed: "RemoveEvent t (d_pool d) = (None, ep)" using found by (auto simp: RemoveEvent_def)
  with all have ep: "daemon_ok ifaces (d'\<lparr>d_pool := ep\<rparr>)" by simp
  then have "daemon_ok ifaces (snd (db_write env call (d'\<lparr>d_pool := ep\<rparr>)))" for call
    using daemon_ok_same [OF db_write_fields] by blast
  with ep removed show ?thesis by (simp add: finish_event_def pool Let_def split: option.split)
qed

lemma drop_loop_same: "d_pool (snd (drop_loop env u es tag d)) = d_pool d \<and> d_vpn (snd (drop_loop env u es tag d)) = d_vpn d"
  by (induction env u es tag d rule: drop_loop.induct)
     (auto simp: dropEvent_def db_write_def split: option.splits prod.splits)

lemma StopEvent_ok:
  assumes "daemon_ok ifaces d" and "calm env (Stop caller tag) d"
  shows "daemon_ok ifaces (snd (StopEvent env now caller tag d))"
proof -
  have booked: "daemon_ok ifaces (snd (stop_booked env u tag d))" for u
    using drop_loop_same assms(1)
    by (auto simp: stop_booked_def dropEvent_def split: sum.split intro: daemon_ok_same)
  show ?thesis
  proof (cases "\<exists>u evtag status ev. caller = Some u \<and> NewTag tag = Inr evtag \<and> de_status env evtag = Inr status \<and>
      (status = Running \<or> status = Suspended) \<and> GetEvent (d_pool d) evtag = Inr ev")
    case False
    with assms(1) booked show ?thesis
      by (auto simp: StopEvent_def Let_def split: option.split sum.split)
  next
    case True
    then obtain u evtag status ev where c: "caller = Some u" "NewTag tag = Inr evtag" "de_status env evtag = Inr status"
      "status = Running \<or> status = Suspended" "GetEvent (d_pool d) evtag = Inr ev" by blast
    then have "evtag = tag" by (auto simp: NewTag_def split: option.splits)
    with c(1,5) assms(2) have "may_manage u (ec_created_by ev)" "de_write env (DbSetStatus evtag Closed) = None"
      by (simp_all add: calm_def)
    with c have "snd (StopEvent env now caller tag d) =
        snd (finish_event env evtag (evtag @ ''-'' @ show_int (now div 10 ^ 9))
          ((release_network ev d)\<lparr>d_calls := d_calls (release_network ev d) @ [DbSetStatus evtag Closed]\<rparr>))"
      by (simp add: StopEvent_def Let_def db_write_def)
    with finish_event_ok [OF assms(1) c(5) refl] show ?thesis by simp
  qed
qed

lemma createEventFromEventDB_ok:
  assumes "daemon_ok ifaces d" and "is_vpn (ec_only_vpn c) \<Longrightarrow> unused (d_pool d) (d_vpn d) (ec_vpn_address c)"
  shows "daemon_ok ifaces (snd (createEventFromEventDB env c d))"
  using startEvent_ok [OF assms] assms(1) by (simp add: createEventFromEventDB_def split: option.split)

lemma next_address_ok:
  assumes "daemon_ok ifaces d" and "small_host ifaces" and "orders (de_order env)"
    and "next_address env e a d = Some (Ret (a', d'))"
  shows "daemon_ok ifaces d' \<and> (is_vpn (sint (db_only_vpn e)) \<longrightarrow> unused (d_pool d') (d_vpn d') a')"
proof (cases "is_vpn (sint (db_only_vpn e))")
  case True
  with assms(4) have "take_network env d = Some (Ret (a', d'))" by (simp add: next_address_def)
  from take_network_unused [OF assms(1-3) this] show ?thesis by blast
next
  case False
  with assms(1,4) show ?thesis by (simp add: next_address_def)
qed

lemma visit_loop_ok:
  "daemon_ok ifaces d \<Longrightarrow> small_host ifaces \<Longrightarrow> orders (de_order env) \<Longrightarrow>
   visit_loop env now es a d = Some (Ret (err, d')) \<Longrightarrow> daemon_ok ifaces d'"
proof (induction es arbitrary: a d)
  case (Cons e es)
  show ?case
  proof (cases "parse_time env (db_started e) \<le> now")
    case False
    with Cons show ?thesis by simp
  next
    case True
    with Cons.prems(4) obtain a' d1 where n: "next_address env e a d = Some (Ret (a', d1))"
      by (auto split: option.splits go.splits)
    let ?c = "generateEventConfig env e Running a'"
    obtain r2 d2 where c: "createEventFromEventDB env ?c d1 = (r2, d2)" by fastforce
    have d2: "daemon_ok ifaces d2"
      using createEventFromEventDB_ok [of ifaces d1 ?c env] next_address_ok [OF Cons.prems(1-3) n] c
      by (simp add: generateEventConfig_def)
    obtain r3 d3 where w: "db_write env (DbSetStatus (ec_tag ?c) Running) d2 = (r3, d3)" by fastforce
    have d3: "daemon_ok ifaces d3"
      using d2 db_write_fields [of env "DbSetStatus (ec_tag ?c) Running" d2] w by (auto intro: daemon_ok_same)
    from True Cons.prems(4) n c w have
      "d' = d2 \<or> d' = d3 \<or> visit_loop env now es a' d3 = Some (Ret (err, d'))"
      by (auto simp: Let_def split: option.splits)
    with d2 d3 Cons.IH [OF d3 Cons.prems(2,3)] show ?thesis by blast
  qed
qed simp

lemma run_op_ok:
  assumes "daemon_ok ifaces d" and "small_host ifaces" and "orders (de_order env)" and "calm env op d"
    and "run_op env now op d = Some (Ret d')"
  shows "daemon_ok ifaces d'"
proof (cases op)
  case (Create caller req)
  with assms(5) obtain s e where "CreateEvent env now caller req d = Some (Ret (s, e, d'))"
    by (auto simp: run_op_def go_bind_Ret)
  then show ?thesis by (rule CreateEvent_ok [OF assms(1-3)])
next
  case (Stop caller tag)
  with assms StopEvent_ok show ?thesis by (auto simp: run_op_def)
next
  case (Suspend caller tag b)
  with assms SuspendEvent_ok show ?thesis by (auto simp: run_op_def)
next
  case (VisitBooked answer)
  with assms(5) obtain e where v: "visitBookedEvents env now answer d = Some (Ret (e, d'))"
    by (auto simp: run_op_def go_bind_Ret)
  show ?thesis
  proof (cases answer)
    case (Inl x)
    with v assms(1) show ?thesis by (simp add: visitBookedEvents_def)
  next
    case (Inr es)
    with v visit_loop_ok [OF assms(1-3)] show ?thesis by (simp add: visitBookedEvents_def)
  qed
next
  case CloseOverdue
  with assms(4) show ?thesis by (simp add: calm_def)
qed

lemma daemon_ok_start: "small_host ifaces \<Longrightarrow> daemon_ok ifaces (NewDaemon ifaces hst)"
  using vpn_pool_ok_new [of ifaces] pool_ok_new [of ec_tag hst]
  by (simp add: daemon_ok_def NewDaemon_def nets_ok_def small_host_def) (simp add: NewEventPool_def)

lemma daemon_reachable_ok:
  "daemon_reachable calm ifaces hst d \<Longrightarrow> small_host ifaces \<Longrightarrow> daemon_ok ifaces d"
  by (induction rule: daemon_reachable.induct) (auto intro: daemon_ok_start run_op_ok)

text \<open>An environment in which everything succeeds, and whose random source is stuck.\<close>

definition easy_env :: daemon_env where
  "easy_env = \<lparr>de_order = in_order, de_rnd = (\<lambda>_. 0), de_host = [],
     de_frontends = \<lparr>fs_frontends = [], fs_conf = [], fs_file = None\<rparr>,
     de_parse = (\<lambda>s. Some (if s = ''now'' then 0 else 30 * day)), de_exercises = Inr \<circ> map (\<lambda>t. (t, False)),
     de_exists = (\<lambda>_. Inr False), de_user_events = (\<lambda>_. Inr []), de_series = Inr [], de_status = (\<lambda>_. Inr Running),
     de_booked = (\<lambda>_. Inr []), de_write = (\<lambda>_. None), de_create = (\<lambda>_. None), de_event = (\<lambda>_. None)\<rparr>"


subsection \<open>The days of a booking\<close>

lemma day_pos: "0 < day" by (simp add: day_def)

lemma getDates_eq:
  "getDates sT fT = map (\<lambda>k. (sT div day + int k) * day) [0..<nat (fT div day - sT div day + 1)]"
proof -
  have "zeroTime fT - zeroTime sT = (fT div day - sT div day) * day" by (simp add: zeroTime_def algebra_simps)
  moreover have "round_days (n * day) = n" for n
  proof -
    have half: "(2 * (k * day) + day) div (2 * day) = k" for k
    proof -
      have "(2 * (k * day) + day) div (2 * day) = (day + k * (2 * day)) div (2 * day)" by (simp add: algebra_simps)
      also have "\<dots> = k + day div (2 * day)" using day_pos by (intro div_mult_self1) simp
      also have "day div (2 * day) = 0" by (simp add: day_def)
      finally show ?thesis by simp
    qed
    have "(0 \<le> n * day) = (0 \<le> n)" using day_pos by (simp add: zero_le_mult_iff)
    then show ?thesis using half [of n] half [of "- n"] by (simp add: round_days_def)
  qed
  ultimately have days: "daysInDates (zeroTime sT) (zeroTime fT) = fT div day - sT div day" by (simp add: daysInDates_def)
  show ?thesis unfolding getDates_def days by (simp add: zeroTime_def algebra_simps)
qed

definition booked_on :: "(time, 32 word) gomap \<Rightarrow> time \<Rightarrow> 32 word" where
  "booked_on m t = (case map_get m t of None \<Rightarrow> 0 | Some w \<Rightarrow> w)"

lemma free_loop_spec:
  "m \<noteq> [] \<Longrightarrow> distinct ts \<Longrightarrow>
   free_loop ts capacity m = Ret (\<forall>t \<in> set ts. sint (booked_on m t + capacity) \<le> 90)"
proof (induction ts arbitrary: m)
  case (Cons t ts)
  let ?w = "booked_on m t + capacity"
  have w: "(case map_get m t of None \<Rightarrow> 0 | Some w \<Rightarrow> w) + capacity = ?w" by (simp add: booked_on_def)
  have "map_put t ?w m \<noteq> []" by (metis length_map_put length_0_conv Cons.prems(1) nat.distinct(1))
  from Cons.IH [OF this] Cons.prems(2)
  have rec: "free_loop ts capacity (map_put t ?w m) = Ret (\<forall>s \<in> set ts. sint (booked_on (map_put t ?w m) s + capacity) \<le> 90)"
    by simp
  have "booked_on (map_put t ?w m) s = booked_on m s" if "s \<in> set ts" for s
    using that Cons.prems(2) by (auto simp: booked_on_def)
  with rec Cons.prems(1) show ?case by (simp add: w Let_def)
qed simp



subsection \<open>Sample runs\<close>

definition admin_user :: user where
  "admin_user = \<lparr>u_username = ''ann'', u_name = ''Ann'', u_surname = [], u_email = [], u_hash = [], u_super = True,
     u_np = False, u_created = []\<rparr>"

definition sample_request :: "string \<Rightarrow> create_request" where
  "sample_request tag = \<lparr>rq_tag = tag, rq_name = ''CTF'', rq_available = 1, rq_capacity = 2, rq_frontends = [''kali''],
     rq_exercises = [''sql''], rq_disabled = [], rq_start = ''now'', rq_finish = ''later'', rq_secret = [], rq_vpn = 1\<rparr>"

definition sample_conf :: "string \<Rightarrow> string \<Rightarrow> event_conf" where
  "sample_conf tag a = \<lparr>ec_name = ''CTF'', ec_host = [], ec_tag = tag, ec_available = 1, ec_capacity = 2,
     ec_frontends = [default_frontend ''kali''], ec_exercises = [''sql''], ec_disabled = [], ec_started = 0,
     ec_finish = 30 * day, ec_status = Running, ec_created_by = ''ann'', ec_only_vpn = 1, ec_vpn_address = a, ec_secret = []\<rparr>"

lemma NewTag_sql: "NewTag ''sql'' = Inr ''sql''" by code_simp

lemma sample_create:
  assumes "NewTag tag = Inr tag" and "map to_lower tag \<notin> set ReservedSubDomains" and "GetEvent (d_pool d) tag = Inl x"
    and "take_network (easy_env\<lparr>de_rnd := r\<rparr>) d = Some (Ret (a, d'))"
  shows "CreateEvent (easy_env\<lparr>de_rnd := r\<rparr>) 0 (Some admin_user) (sample_request tag) d =
    Some (Ret ([], None, startEvent (sample_conf tag a) (d'\<lparr>d_calls := d_calls d' @ [DbAddEvent tag Running]\<rparr>)))"
proof -
  let ?env = "easy_env\<lparr>de_rnd := r\<rparr>"
  let ?req = "sample_request tag"
  have "tag \<noteq> []" using assms(1) by (auto simp: NewTag_def Tag_Validate_def)
  have pool: "d_pool d' = d_pool d" using assms(4) by (auto simp: take_network_def go_bind_Ret)
  have conf: "event_conf_of ?env admin_user ?req [''sql''] tag a = sample_conf tag a"
    by (simp add: event_conf_of_def sample_request_def sample_conf_def easy_env_def admin_user_def GetFrontends_def
        get_frontend_def parse_time_def TrimSpace_def)
  have "EventConfig_Validate (sample_conf tag a) = None" using \<open>tag \<noteq> []\<close>
    by (simp add: EventConfig_Validate_def sample_conf_def)
  moreover have "with_defaults 0 (sample_conf tag a) = sample_conf tag a"
    by (simp add: with_defaults_def sample_conf_def isInvalidDate_def zero_time_def day_def)
  ultimately have now: "create_now ?env 0 admin_user ?req [''sql''] tag a d' =
      Some (Ret ([], None, startEvent (sample_conf tag a) (d'\<lparr>d_calls := d_calls d' @ [DbAddEvent tag Running]\<rparr>)))"
    using assms(3) by (simp add: create_now_def conf pool Let_def) (simp add: easy_env_def sample_conf_def)
  have "round_days 0 = 0" by (simp add: round_days_def day_def)
  then have checked: "create_checked ?env 0 admin_user ?req [''sql''] d =
      Some (Ret ([], None, startEvent (sample_conf tag a) (d'\<lparr>d_calls := d_calls d' @ [DbAddEvent tag Running]\<rparr>)))"
    using assms(1,4) now
    by (simp add: create_checked_def Let_def sample_request_def is_vpn_def isInvalidDate_def zero_time_def parse_time_def)
       (simp add: easy_env_def)
  have unique: "removeDuplicates [''sql''] = [''sql'']" by (simp add: removeDuplicates_def)
  have req: "rq_exercises ?req = [''sql'']" "rq_tag ?req = tag" "rq_vpn ?req = 1" "rq_capacity ?req = 2"
    by (simp_all add: sample_request_def)
  have "checkUserQuota ?env admin_user = None" by (simp add: checkUserQuota_def easy_env_def admin_user_def)
  moreover have "de_exercises ?env [''sql''] = Inr [(''sql'', False)]" by (simp add: easy_env_def)
  moreover have "\<not> u_np admin_user" by (simp add: admin_user_def)
  ultimately show ?thesis
    by (simp add: CreateEvent_def req assms(2) unique checked NewTag_sql)
qed

lemma take_first:
  assumes "vpn_genIP in_order r (d_vpn d) (d_pos d) = Ret (ip, p)" and "map_get (pool_ips (d_vpn d)) ip = None"
    and "length (pool_ips (d_vpn d)) \<le> 60000"
  shows "take_network (easy_env\<lparr>de_rnd := r\<rparr>) d =
    Some (Ret (ip @ vpn_suffix, d\<lparr>d_vpn := (d_vpn d)\<lparr>pool_ips := map_put ip () (pool_ips (d_vpn d))\<rparr>, d_pos := p\<rparr>))"
proof -
  have "draw_loop (vpn_genIP in_order r (d_vpn d)) (pool_ips (d_vpn d)) (d_pos d) = Some (Ret (ip, p))"
    using assms(1,2) by (subst draw_loop.simps) simp
  with assms(3) show ?thesis
    by (simp add: take_network_def vpn_pool_get_def pool_get_def) (simp add: easy_env_def vpn_pool_get_def pool_get_def)
qed

text \<open>After the events \<open>alpha\<close> and \<open>beta\<close> were created in turn.\<close>

definition vpn_state :: "daemon \<Rightarrow> string list \<Rightarrow> nat \<Rightarrow> bool" where
  "vpn_state d ips pos \<longleftrightarrow> pool_ips (d_vpn d) = map (\<lambda>ip. (ip, ())) ips \<and> d_pos d = pos \<and>
     pool_weights (d_vpn d) = [(''35'', 255), (''25'', 65025)]"

lemma vpn_state_start: "vpn_state (NewDaemon None hst) [] 0"
  by (simp add: vpn_state_def NewDaemon_def vpn_pool_new_def take_interfaces_def)

lemma create_step:
  assumes "vpn_state d ips pos" and "length ips \<le> 60000" and "ip \<notin> set ips"
    and "vpn_genIP in_order r (d_vpn d) pos = Ret (ip, p)"
    and "NewTag tag = Inr tag" and "map to_lower tag \<notin> set ReservedSubDomains" and "GetEvent (d_pool d) tag = Inl x"
  shows "\<exists>d'. run_op (easy_env\<lparr>de_rnd := r\<rparr>) 0 (Create (Some admin_user) (sample_request tag)) d = Some (Ret d') \<and>
    vpn_state d' (ips @ [ip]) p \<and> d_pool d' = AddEvent ec_tag (sample_conf tag (ip @ vpn_suffix)) (d_pool d)"
proof -
  have none: "map_get (pool_ips (d_vpn d)) ip = None" using assms(1,3)
    by (intro map_get_fst) (auto simp: vpn_state_def)
  have take: "take_network (easy_env\<lparr>de_rnd := r\<rparr>) d =
      Some (Ret (ip @ vpn_suffix, d\<lparr>d_vpn := (d_vpn d)\<lparr>pool_ips := map_put ip () (pool_ips (d_vpn d))\<rparr>, d_pos := p\<rparr>))"
    using assms(1,2,4) none by (intro take_first) (simp_all add: vpn_state_def)
  show ?thesis
    using map_put_fresh [OF none] assms(1)
    by (simp add: run_op_def sample_create [OF assms(5-7) take] startEvent_def vpn_state_def sample_conf_def)
qed

lemma sample_tags: "NewTag ''alpha'' = Inr ''alpha''" "NewTag ''beta'' = Inr ''beta''"
    "map to_lower ''alpha'' \<notin> set ReservedSubDomains" "map to_lower ''beta'' \<notin> set ReservedSubDomains"
  by code_simp+

lemma GetEvent_AddEvent:
  "GetEvent (AddEvent ec_tag c ep) t = (if t = ec_tag c then Inr c else GetEvent ep t)"
  by (simp add: GetEvent_def AddEvent_def)

lemma sample_conf_fields [simp]:
  "ec_tag (sample_conf tag a) = tag" "ec_vpn_address (sample_conf tag a) = a" "ec_only_vpn (sample_conf tag a) = 1"
  "ec_finish (sample_conf tag a) = 30 * day"
  by (simp_all add: sample_conf_def)

lemma sample_orders [simp]: "orders (de_order easy_env)"
  using orders_in_order by (simp add: easy_env_def)

lemma small_host_None: "small_host None"
  by (simp add: small_host_def vpn_pool_new_def take_interfaces_def totalWeight_def)

lemma first_create:
  assumes "vpn_genIP in_order r (d_vpn (NewDaemon None hst)) 0 = Ret (ip, p)"
  shows "\<exists>d. run_op (easy_env\<lparr>de_rnd := r\<rparr>) 0 (Create (Some admin_user) (sample_request ''alpha'')) (NewDaemon None hst) = Some (Ret d) \<and>
    vpn_state d [ip] p \<and> d_pool d = AddEvent ec_tag (sample_conf ''alpha'' (ip @ vpn_suffix)) (NewEventPool hst)"
proof -
  have pool: "d_pool (NewDaemon None hst) = NewEventPool hst" by (simp add: NewDaemon_def)
  have none: "GetEvent (d_pool (NewDaemon None hst)) ''alpha'' = Inl UnknownEventErr"
    by (simp add: pool GetEvent_def NewEventPool_def)
  show ?thesis
    using create_step [OF vpn_state_start _ _ assms sample_tags(1,3) none] by (simp add: pool)
qed


text \<open>
  With the periodic job the networks do not stay apart: it releases the VPN network of every event it looks
  at, overdue or not. There is a run of one creation, one check at the time of the creation, and
  another creation, after which two events run with the same network.
\<close>
theorem overdue_check_shares_network:
  "\<exists>d c c'. daemon_reachable (\<lambda>_ _ _. True) None ''ntp.dk'' d \<and> GetEvent (d_pool d) ''alpha'' = Inr c \<and>
     GetEvent (d_pool d) ''beta'' = Inr c' \<and> is_vpn (ec_only_vpn c) \<and> is_vpn (ec_only_vpn c') \<and>
     \<not> isDelayed 0 (ec_finish c) \<and> ec_vpn_address c = ec_vpn_address c'"
proof -
  let ?env = "easy_env\<lparr>de_rnd := (\<lambda>_. 0)\<rparr>"
  let ?ip = "dotted ''35'' 0"
  let ?c = "sample_conf ''alpha'' (?ip @ vpn_suffix)"
  have gen: "vpn_genIP in_order (\<lambda>_. 0) (d_vpn d) p = Ret (?ip, p + 2)" if "vpn_state d ips pos" for d ips pos p
    using that by (simp add: vpn_state_def vpn_genIP_def randomPickWeighted_def totalWeight_def Intn_def in_order_def append_random_def)
  obtain d1 where d1: "run_op ?env 0 (Create (Some admin_user) (sample_request ''alpha'')) (NewDaemon None ''ntp.dk'') = Some (Ret d1)"
    "vpn_state d1 [?ip] 2" "d_pool d1 = AddEvent ec_tag ?c (NewEventPool ''ntp.dk'')"
    using first_create [of "\<lambda>_. 0" "''ntp.dk''"] gen [OF vpn_state_start, of _ 0] by (auto simp: numeral_2_eq_2)
  define d2 where "d2 = release_network ?c d1"
  have "?ip \<in> vpn_addresses" by (rule vpn_addressI) simp_all
  then have strip: "ReplaceAll (?ip @ vpn_suffix) vpn_suffix [] = ?ip" by (intro strip_suffix vpn_address_no_slash)
  have delay: "\<not> isDelayed 0 (30 * day)" by (simp add: isDelayed_def day_def)
  have "GetAllEvents (d_pool d1) = [?c]" by (simp add: d1(3) GetAllEvents_def AddEvent_def NewEventPool_def map_put_def)
  then have check: "run_op ?env 0 CloseOverdue d1 = Some (Ret d2)"
    using delay by (simp add: run_op_def closeEvents_def closer_def Let_def d2_def)
  have d2: "vpn_state d2 [] 2" "d_pool d2 = d_pool d1"
    using d1(2) by (simp_all add: d2_def release_network_def is_vpn_def strip ReleaseIP_def vpn_state_def map_del_def)
  have none: "GetEvent (d_pool d2) ''beta'' = Inl UnknownEventErr"
    by (simp add: d2(2) d1(3) GetEvent_AddEvent) (simp add: GetEvent_def NewEventPool_def)
  from create_step [OF d2(1) _ _ gen [OF d2(1)] sample_tags(2,4) none] obtain d3 where
    d3: "run_op ?env 0 (Create (Some admin_user) (sample_request ''beta'')) d2 = Some (Ret d3)"
    "d_pool d3 = AddEvent ec_tag (sample_conf ''beta'' (?ip @ vpn_suffix)) (d_pool d2)" by auto
  note step = daemon_reachable.step [of "\<lambda>_ _ _. True" None "''ntp.dk''" _ ?env]
  have "daemon_reachable (\<lambda>_ _ _. True) None ''ntp.dk'' d3"
    by (rule step [OF step [OF step [OF daemon_reachable.start _ _ d1(1)] _ _ check] _ _ d3(1)]) simp_all
  moreover have "GetEvent (d_pool d3) ''alpha'' = Inr ?c" "GetEvent (d_pool d3) ''beta'' = Inr (sample_conf ''beta'' (?ip @ vpn_suffix))"
    by (simp_all add: d3(2) d2(2) d1(3) GetEvent_AddEvent)
  ultimately show ?thesis using delay
    by (intro exI [of _ d3] exI [of _ ?c] exI [of _ "sample_conf ''beta'' (?ip @ vpn_suffix)"]) (simp add: is_vpn_def)
qed

text \<open>
  A user without privileges who tries to stop a running VPN event of somebody else is refused, and
  the event stays in the pool, but its network is free for the next event from then on.
\<close>
theorem refused_stop_frees_network:
  assumes "daemon_reachable calm ifaces hst d" and "small_host ifaces"
    and "NewTag tag = Inr tag" and "de_status env tag = Inr Running" and "GetEvent (d_pool d) tag = Inr ev"
    and "u_np u" and "u_username u \<noteq> ec_created_by ev" and "is_vpn (ec_only_vpn ev)"
  shows "case StopEvent env now (Some u) tag d of (e, d') \<Rightarrow>
    e = Some (NoPrivilege tag) \<and> GetEvent (d_pool d') tag = Inr ev \<and>
    (\<exists>ip. ec_vpn_address ev = ip @ vpn_suffix \<and> is_taken (d_vpn d) ip \<and> \<not> is_taken (d_vpn d') ip)"
proof -
  have nets: "nets_ok (d_pool d) (d_vpn d)" using daemon_reachable_ok [OF assms(1,2)] by (simp add: daemon_ok_def)
  then have "map_ok (pool_ips (d_vpn d))" unfolding nets_ok_def vpn_pool_ok_def by blast
  obtain ip where ip: "ip \<in> vpn_addresses" "ec_vpn_address ev = ip @ vpn_suffix" "is_taken (d_vpn d) ip"
    using nets_ok_net [OF nets, of tag ev] assms(5,8) by (auto simp: GetEvent_Inr)
  have "\<not> is_taken (d_vpn (release_network ev d)) ip"
    using \<open>map_ok _\<close> assms(8)
    by (simp add: release_network_def ip(2) strip_suffix [OF vpn_address_no_slash [OF ip(1)]] ReleaseIP_def is_taken_def)
  moreover have "d_pool (release_network ev d) = d_pool d" by (simp add: release_network_def)
  moreover have "StopEvent env now (Some u) tag d = (Some (NoPrivilege tag), release_network ev d)"
    using assms(3-7) by (simp add: StopEvent_def Let_def may_manage_def)
  ultimately show ?thesis using ip assms(5) by auto
qed

text \<open>
  Whose booking it is does not matter for dropping it: a user with privileges drops any booked
  event, and a user without drops it exactly if there is some booked event of the user's own.
\<close>
theorem booked_event_dropped_iff:
  assumes "NewTag tag = Inr tag" and "de_status env tag = Inr Booked" and "de_booked env (u_username u) = Inr owners"
    and "\<And>call. de_write env call = None" and "DbDrop tag \<notin> set (d_calls d)"
  shows "DbDrop tag \<in> set (d_calls (snd (StopEvent env now (Some u) tag d))) \<longleftrightarrow> \<not> u_np u \<or> u_username u \<in> set owners"
proof -
  have loop: "DbDrop tag \<in> set (d_calls (snd (drop_loop env u es tag d))) \<longleftrightarrow>
      DbDrop tag \<in> set (d_calls d) \<or> u_username u \<in> set es" for es d
    by (induction es arbitrary: d) (auto simp: dropEvent_def db_write_def assms(4))
  have "StopEvent env now (Some u) tag d = stop_booked env u tag d"
    using assms(1,2) by (simp add: StopEvent_def Let_def Booked_def Running_def Suspended_def)
  with assms(3-5) loop show ?thesis by (simp add: stop_booked_def dropEvent_def db_write_def)
qed

text \<open>Two sample daemons: one event of Ann's runs, or an event is booked.\<close>

definition plain_user :: "string \<Rightarrow> user" where
  "plain_user name = admin_user\<lparr>u_username := name, u_super := False, u_np := True\<rparr>"

lemma refused_stop_frees_network_witness:
  "\<exists>d ev. GetEvent (d_pool d) ''alpha'' = Inr ev \<and>
    (case StopEvent easy_env 0 (Some (plain_user ''bob'')) ''alpha'' d of (e, d') \<Rightarrow>
      e = Some (NoPrivilege ''alpha'') \<and> GetEvent (d_pool d') ''alpha'' = Inr ev \<and>
      (\<exists>ip. ec_vpn_address ev = ip @ vpn_suffix \<and> is_taken (d_vpn d) ip \<and> \<not> is_taken (d_vpn d') ip))"
proof -
  let ?env = "easy_env\<lparr>de_rnd := sweep\<rparr>"
  let ?c = "sample_conf ''alpha'' (dotted ''35'' 0 @ vpn_suffix)"
  have "vpn_genIP in_order sweep (d_vpn (NewDaemon None ''ntp.dk'')) 0 = Ret (dotted ''35'' 0, 2)"
    using vpn_genIP_sweep [of "d_vpn (NewDaemon None ''ntp.dk'')" 0] vpn_state_start
    by (simp add: vpn_state_def numeral_2_eq_2)
  from first_create [OF this] obtain d where
    d: "run_op ?env 0 (Create (Some admin_user) (sample_request ''alpha'')) (NewDaemon None ''ntp.dk'') = Some (Ret d)"
    "d_pool d = AddEvent ec_tag ?c (NewEventPool ''ntp.dk'')" by blast
  have reach: "daemon_reachable calm None ''ntp.dk'' d"
    by (rule daemon_reachable.step [OF daemon_reachable.start _ _ d(1)]) (simp_all add: calm_def)
  have ev: "GetEvent (d_pool d) ''alpha'' = Inr ?c" by (simp add: d(2) GetEvent_AddEvent)
  have status: "de_status easy_env ''alpha'' = Inr Running" by (simp add: easy_env_def)
  have "u_np (plain_user ''bob'')" "u_username (plain_user ''bob'') \<noteq> ec_created_by ?c" "is_vpn (ec_only_vpn ?c)"
    by (simp_all add: plain_user_def sample_conf_def is_vpn_def)
  from refused_stop_frees_network [OF reach small_host_None sample_tags(1) status ev this, of 0] ev
  show ?thesis by (intro exI [of _ d] exI [of _ ?c] conjI)
qed

lemma booked_event_dropped_iff_witness:
  "DbDrop ''alpha'' \<in> set (d_calls (snd (StopEvent
      (easy_env\<lparr>de_status := (\<lambda>_. Inr Booked), de_booked := (\<lambda>_. Inr [''bob''])\<rparr>) 0 (Some (plain_user ''bob'')) ''alpha''
      (NewDaemon None ''ntp.dk'')))) \<longleftrightarrow> \<not> u_np (plain_user ''bob'') \<or> u_username (plain_user ''bob'') \<in> set [''bob'']"
  by (rule booked_event_dropped_iff [OF sample_tags(1)]) (simp_all add: easy_env_def NewDaemon_def)

subsection \<open>What a created event has passed\<close>

lemma create_now_starts:
  assumes "create_now env now u req tags evtag a d = Some (Ret (s, None, d'))"
  shows "EventConfig_Validate (event_conf_of env u req tags evtag a) = None \<and> GetEvent (d_pool d) evtag = Inl UnknownEventErr \<and>
    s = [] \<and> d_pool d' = AddEvent ec_tag (with_defaults now (event_conf_of env u req tags evtag a)) (d_pool d)"
  using assms
  by (auto simp: create_now_def Let_def refuse_def fail_def startEvent_def GetEvent_def split: option.splits sum.splits)

lemma tag_loop_secret:
  "tag_loop u exs i tags = Ret (Inr tags') \<Longrightarrow> (s, True) \<in> set exs \<Longrightarrow> u_super u"
  by (induction u exs i tags rule: tag_loop.induct) (auto split: if_splits sum.splits)

lemma take_network_pool: "take_network env d = Some (Ret (a, d')) \<Longrightarrow> d_pool d' = d_pool d"
  by (auto simp: take_network_def go_bind_Ret)

lemma create_checked_starts:
  assumes "create_checked env now u req tags d = Some (Ret (s, None, d'))" and "d_pool d' \<noteq> d_pool d"
  shows "\<exists>a d1. create_now env now u req tags (rq_tag req) a d1 = Some (Ret (s, None, d')) \<and> d_pool d1 = d_pool d \<and>
    NewTag (rq_tag req) = Inr (rq_tag req) \<and> de_exists env (rq_tag req) = Inr False"
proof -
  let ?evtag = "case NewTag (rq_tag req) of Inl _ \<Rightarrow> [] | Inr t \<Rightarrow> t"
  have exists: "de_exists env (rq_tag req) = Inr False"
    using assms(1) by (auto simp: create_checked_def Let_def refuse_def split: sum.splits bool.splits if_splits)
  have later: "\<not> 1 \<le> round_days (parse_time env (rq_start req) - now)"
  proof
    assume "1 \<le> round_days (parse_time env (rq_start req) - now)"
    with assms(1) exists have "\<exists>e. bookEvent env u req d = Ret (e, d')"
      by (auto simp: create_checked_def Let_def refuse_def go_bind_Ret split: if_splits)
    with bookEvent_same assms(2) show False by blast
  qed
  obtain a d1 where now: "create_now env now u req tags ?evtag a d1 = Some (Ret (s, None, d'))" "d_pool d1 = d_pool d"
  proof (cases "is_vpn (sint (rq_vpn req))")
    case True
    with assms(1) exists later obtain a d1 where "take_network env d = Some (Ret (a, d1))"
        "create_now env now u req tags ?evtag a d1 = Some (Ret (s, None, d'))"
      by (auto simp: create_checked_def Let_def refuse_def split: if_splits option.splits go.splits)
    with take_network_pool that show ?thesis by blast
  next
    case False
    with assms(1) exists later have "create_now env now u req tags ?evtag [] d = Some (Ret (s, None, d'))"
      by (auto simp: create_checked_def Let_def refuse_def split: if_splits)
    with that show ?thesis by blast
  qed
  have "?evtag \<noteq> []"
    using create_now_starts [OF now(1)] by (auto simp: EventConfig_Validate_def event_conf_of_def split: if_splits)
  then have "NewTag (rq_tag req) = Inr (rq_tag req)" by (auto simp: NewTag_def split: sum.splits option.splits)
  with now exists show ?thesis by auto
qed

lemma tag_chars: "Tag_Validate t = None \<Longrightarrow> CHR ''.'' \<notin> set t"
proof -
  assume "Tag_Validate t = None"
  then have "t \<in> lang tagRegex" by (simp add: Tag_Validate_def MatchString_lang split: if_splits)
  then have "set t \<subseteq> insert (CHR ''-'') (set tag_alnum)" unfolding tag_language by auto
  moreover have "CHR ''.'' \<notin> insert (CHR ''-'') (set tag_alnum)" by (simp add: tag_alnum_def)
  ultimately show ?thesis by blast
qed



end
