(* ===== verification/Lab_Env.thy ===== *)
theory Lab_Env
  imports Store_Exercise Lab_Hub
begin

text \<open>
  A lab: its exercises, the environment that holds them, and its frontends (exercise/exercise.go,
  exercise/environment.go, lab/lab.go, the network's addresses in virtual/docker/docker.go, and
  \<^verbatim>\<open>Suspend\<close> and \<^verbatim>\<open>Resume\<close> of lab/hub.go). Docker and VirtualBox are a \<open>host\<close>, a function that says which
  of the calls made to them fail; a machine is its identifier, image and state. The environment's
  map from tags points into its list of exercises, so \<open>en_tags\<close> maps a tag to a position. Loops that
  start one goroutine per machine and wait are loops over the list, with the first error. Flags of
  new exercises come from the streams of Store_Exercise; the position is part of the environment. Closing the old DNS
  server never fails, as its errors are only logged.
\<close>

subsection \<open>Machines and networks\<close>

datatype vm_state = VRunning | VStopped | VSuspended | VError

datatype lab_call =
    CreateContainer docker_conf
  | ConnectContainer string
  | CopyVm string
  | CreateMachine nat
  | StartMachine nat
  | StopMachine nat
  | SuspendMachine nat
  | CloseMachine nat
  | NewServer string
  | RunServer string
  | StopServer string
  | CloseServer string
  | HostIP

type_synonym host = "lab_call \<Rightarrow> string option"

datatype lab_error =
    MissingTagsErr
  | DuplicateTagErr
  | UnknownTagErr
  | TagErr config_error
  | HostErr string

record machine =
  mc_id :: nat
  mc_image :: string
  mc_state :: vm_state

definition call :: "host \<Rightarrow> lab_call \<Rightarrow> lab_error option" where
  "call h c = map_option HostErr (h c)"

definition machine_to :: "host \<Rightarrow> lab_call \<Rightarrow> vm_state \<Rightarrow> machine \<Rightarrow> lab_error option \<times> machine" where
  "machine_to h c st m = (case call h c of Some e \<Rightarrow> (Some e, m) | None \<Rightarrow> (None, m\<lparr>mc_state := st\<rparr>))"

definition start_machine where "start_machine h m = machine_to h (StartMachine (mc_id m)) VRunning m"
definition stop_machine where "stop_machine h m = machine_to h (StopMachine (mc_id m)) VStopped m"
definition suspend_machine where "suspend_machine h m = machine_to h (SuspendMachine (mc_id m)) VSuspended m"

text \<open>A loop that stops at the first error, and one that runs through and reports the first error.\<close>

fun until_error :: "('a \<Rightarrow> lab_error option \<times> 'a) \<Rightarrow> 'a list \<Rightarrow> lab_error option \<times> 'a list" where
  "until_error f [] = (None, [])"
| "until_error f (x # xs) =
     (case f x of
        (Some e, y) \<Rightarrow> (Some e, y # xs)
      | (None, y) \<Rightarrow> (case until_error f xs of (e, ys) \<Rightarrow> (e, y # ys)))"

fun run_all :: "('a \<Rightarrow> lab_error option \<times> 'a) \<Rightarrow> 'a list \<Rightarrow> lab_error option \<times> 'a list" where
  "run_all f [] = (None, [])"
| "run_all f (x # xs) =
     (case f x of (e, y) \<Rightarrow> (case run_all f xs of (e', ys) \<Rightarrow> (if e = None then e' else e, y # ys)))"

record network =
  nw_subnet :: string
  nw_free :: "nat list"
  nw_connected :: "nat list"

definition NewNetwork :: "string \<Rightarrow> network" where
  "NewNetwork subnet = \<lparr>nw_subnet = subnet, nw_free = [30..<255], nw_connected = []\<rparr>"

definition FormatIP :: "network \<Rightarrow> nat \<Rightarrow> string" where
  "FormatIP nw num = take (length (nw_subnet nw) - 5) (nw_subnet nw) @ CHR ''.'' # show_nat num"

definition getRandomIP :: "network \<Rightarrow> nat \<times> network" where
  "getRandomIP nw = (case nw_free nw of [] \<Rightarrow> (0, nw) | d # ds \<Rightarrow> (d, nw\<lparr>nw_free := ds\<rparr>))"

text \<open>\<^verbatim>\<open>releaseIP\<close> gets the address back from its last part.\<close>

definition releaseIP :: "nat \<Rightarrow> network \<Rightarrow> network" where
  "releaseIP d nw = nw\<lparr>nw_free := List.insert d (nw_free nw)\<rparr>"

definition Connect :: "host \<Rightarrow> nat \<Rightarrow> nat option \<Rightarrow> network \<Rightarrow> lab_error option \<times> nat \<times> network" where
  "Connect h c ip nw =
     (let (d, nw') = (case ip of Some d \<Rightarrow> (d, nw) | None \<Rightarrow> getRandomIP nw) in
      case call h (ConnectContainer (FormatIP nw' d)) of
        Some e \<Rightarrow> (Some e, d, if ip = None then releaseIP d nw' else nw')
      | None \<Rightarrow> (None, d, nw'\<lparr>nw_connected := nw_connected nw' @ [c]\<rparr>))"

subsection \<open>Exercises\<close>

record exercise =
  x_opts :: "container_options list"
  x_vbox :: "ex_instance list"
  x_tag :: string
  x_dns_addr :: string
  x_dns :: "record_config list"
  x_ips :: "nat list"
  x_machines :: "machine list"

definition Contains :: "string \<Rightarrow> string \<Rightarrow> bool" where
  "Contains s sub \<longleftrightarrow> list_ex (\<lambda>i. take (length sub) (drop i s) = sub) [0..<Suc (length s)]"

definition OvaSuffix :: string where "OvaSuffix = ''.ova''"

text \<open>
  The loop over the instances stops at the first one that is no VirtualBox image, and
  then takes the options of all of them.
\<close>

fun instance_loop :: "ex_instance list \<Rightarrow> ex_instance list \<Rightarrow> ex_instance list \<times> bool" where
  "instance_loop [] vbox = (vbox, False)"
| "instance_loop (c # cs) vbox =
     (if Contains (ei_image c) OvaSuffix then instance_loop cs (vbox @ [c]) else (vbox, True))"

type_synonym flag_src = "(nat \<Rightarrow> 63 word) \<times> (nat \<Rightarrow> nat)"

definition NewExercise :: "flag_src \<Rightarrow> exercise_conf \<Rightarrow> string \<Rightarrow> rng \<Rightarrow> (exercise \<times> rng) option" where
  "NewExercise fs conf dnsAddr st =
     (let (vbox, docker) = instance_loop (ex_instances conf) [];
          make = (\<lambda>opts. \<lparr>x_opts = opts, x_vbox = (if ex_static conf then [] else vbox), x_tag = ex_tag conf,
                        x_dns_addr = (if ex_static conf then [] else dnsAddr), x_dns = [], x_ips = [], x_machines = []\<rparr>)
      in if docker
         then map_option (\<lambda>(opts, st'). (make opts, st')) (ContainerOpts (fst fs) (snd fs) conf st)
         else Some (make [], st))"

text \<open>What \<^verbatim>\<open>Create\<close> builds up: an error leaves the machines so far behind, and the records in place.\<close>

record create_state =
  cs_dns :: "record_config list"
  cs_machines :: "machine list"
  cs_new_ips :: "nat list"
  cs_net :: network
  cs_next :: nat

definition new_machine :: "string \<Rightarrow> create_state \<Rightarrow> machine" where
  "new_machine img s = \<lparr>mc_id = cs_next s, mc_image = img, mc_state = VStopped\<rparr>"

definition with_address :: "string \<Rightarrow> record_config \<Rightarrow> record_config" where
  "with_address ip r = (if r_data r = [] then r\<lparr>r_data := ip\<rparr> else r)"

definition lab_docker :: "string \<Rightarrow> docker_conf \<Rightarrow> docker_conf" where
  "lab_docker dnsAddr c = c\<lparr>dc_dns := [dnsAddr], dc_labels := [(''hkn'', ''lab_exercise'')]\<rparr>"

fun container_loop ::
  "host \<Rightarrow> string \<Rightarrow> nat list \<Rightarrow> nat \<Rightarrow> container_options list \<Rightarrow> create_state \<Rightarrow> (lab_error option \<times> create_state) go" where
  "container_loop h dnsAddr ips i [] s = Ret (None, s)"
| "container_loop h dnsAddr ips i (opt # opts) s =
     (let conf = lab_docker dnsAddr (co_docker opt); c = new_machine (dc_image conf) s in
      case call h (CreateContainer conf) of
        Some e \<Rightarrow> Ret (Some e, s)
      | None \<Rightarrow>
          if ips \<noteq> [] \<and> length ips \<le> i then Panic
          else (case Connect h (mc_id c) (if ips \<noteq> [] then Some (ips ! i) else None) (cs_net s) of
                  (Some e, d, nw) \<Rightarrow> Ret (Some e, s\<lparr>cs_net := nw, cs_next := Suc (cs_next s)\<rparr>)
                | (None, d, nw) \<Rightarrow>
                    container_loop h dnsAddr ips (Suc i) opts
                      (s\<lparr>cs_net := nw, cs_next := Suc (cs_next s), cs_machines := cs_machines s @ [c],
                         cs_dns := cs_dns s @ map (with_address (FormatIP nw d)) (co_records opt),
                         cs_new_ips := (if ips \<noteq> [] then cs_new_ips s else cs_new_ips s @ [d])\<rparr>)))"

fun vm_loop :: "host \<Rightarrow> ex_instance list \<Rightarrow> create_state \<Rightarrow> lab_error option \<times> create_state" where
  "vm_loop h [] s = (None, s)"
| "vm_loop h (c # cs) s =
     (case call h (CopyVm (ei_image c)) of
        Some e \<Rightarrow> (Some e, s)
      | None \<Rightarrow> vm_loop h cs (s\<lparr>cs_machines := cs_machines s @ [new_machine (ei_image c) s], cs_next := Suc (cs_next s)\<rparr>))"

definition exercise_Create ::
  "host \<Rightarrow> network \<Rightarrow> nat \<Rightarrow> exercise \<Rightarrow> (lab_error option \<times> exercise \<times> network \<times> nat) go" where
  "exercise_Create h nw next_id e =
     go_bind (container_loop h (x_dns_addr e) (x_ips e) 0 (x_opts e)
                \<lparr>cs_dns = x_dns e, cs_machines = [], cs_new_ips = [], cs_net = nw, cs_next = next_id\<rparr>) (\<lambda>(err, s).
       case err of
         Some err \<Rightarrow> Ret (Some err, e\<lparr>x_dns := cs_dns s\<rparr>, cs_net s, cs_next s)
       | None \<Rightarrow>
           (case vm_loop h (x_vbox e) s of
              (Some err, s) \<Rightarrow> Ret (Some err, e\<lparr>x_dns := cs_dns s\<rparr>, cs_net s, cs_next s)
            | (None, s) \<Rightarrow>
                Ret (None, e\<lparr>x_dns := cs_dns s, x_ips := (if x_ips e = [] then cs_new_ips s else x_ips e),
                             x_machines := cs_machines s\<rparr>, cs_net s, cs_next s)))"

definition exercise_Start :: "host \<Rightarrow> exercise \<Rightarrow> lab_error option \<times> exercise" where
  "exercise_Start h e =
     (case run_all (\<lambda>m. if mc_state m \<noteq> VRunning then start_machine h m else (None, m)) (x_machines e) of
        (err, ms) \<Rightarrow> (err, e\<lparr>x_machines := ms\<rparr>))"

definition exercise_Suspend :: "host \<Rightarrow> exercise \<Rightarrow> lab_error option \<times> exercise" where
  "exercise_Suspend h e =
     (case until_error (\<lambda>m. if mc_state m = VRunning then suspend_machine h m else (None, m)) (x_machines e) of
        (err, ms) \<Rightarrow> (err, e\<lparr>x_machines := ms\<rparr>))"

definition exercise_Stop :: "host \<Rightarrow> exercise \<Rightarrow> lab_error option \<times> exercise" where
  "exercise_Stop h e = (case until_error (stop_machine h) (x_machines e) of (err, ms) \<Rightarrow> (err, e\<lparr>x_machines := ms\<rparr>))"

text \<open>Errors of closing a machine only end up in the log.\<close>

definition exercise_Close :: "exercise \<Rightarrow> exercise" where
  "exercise_Close e = e\<lparr>x_machines := []\<rparr>"

definition exercise_Reset ::
  "host \<Rightarrow> network \<Rightarrow> nat \<Rightarrow> exercise \<Rightarrow> (lab_error option \<times> exercise \<times> network \<times> nat) go" where
  "exercise_Reset h nw next_id e =
     go_bind (exercise_Create h nw next_id (exercise_Close e)) (\<lambda>(err, e, nw, next_id).
       case err of
         Some err \<Rightarrow> Ret (Some err, e, nw, next_id)
       | None \<Rightarrow> (case exercise_Start h e of (err, e) \<Rightarrow> Ret (err, e, nw, next_id)))"

definition vm_challenge :: "child_chal \<Rightarrow> flag_challenge" where
  "vm_challenge f = \<lparr>ch_name = cc_name f, ch_tag = cc_tag f, ch_value = cc_static_flag f\<rparr>"

definition exercise_Challenges :: "exercise \<Rightarrow> flag_challenge list" where
  "exercise_Challenges e =
     foldl (\<lambda>cs opt. foldl (\<lambda>cs f. cs @ [vm_challenge f]) cs (ei_flags opt))
       (foldl (\<lambda>cs opt. cs @ co_challenges opt) [] (x_opts e)) (x_vbox e)"

subsection \<open>Environments\<close>

text \<open>
  \<open>en_dns\<close> is the zone of the running DNS server, \<open>en_dhcp\<close> whether a DHCP server was made. A
  record of \<^verbatim>\<open>dnsrecords\<close> is a map of one address to one name.
\<close>

record environment =
  en_tags :: "(string, nat) gomap"
  en_exercises :: "exercise list"
  en_disabled :: "string list"
  en_records :: "(string \<times> string) list"
  en_net :: network
  en_dns :: "record_config list option"
  en_dhcp :: bool
  en_dns_addr :: string
  en_next :: nat
  en_rng :: rng

definition PreferedIP :: nat where "PreferedIP = 3"

definition NewEnvironment :: "string \<Rightarrow> nat \<Rightarrow> rng \<Rightarrow> environment" where
  "NewEnvironment subnet next_id st =
     \<lparr>en_tags = [], en_exercises = [], en_disabled = [], en_records = [], en_net = NewNetwork subnet, en_dns = None,
      en_dhcp = False, en_dns_addr = FormatIP (NewNetwork subnet) PreferedIP, en_next = next_id, en_rng = st\<rparr>"

definition SetDisabledExercises :: "string list \<Rightarrow> environment \<Rightarrow> environment" where
  "SetDisabledExercises ds ee = ee\<lparr>en_disabled := ds\<rparr>"

text \<open>The address records of an exercise; the address needs three parts before the machine's.\<close>

definition record_address :: "string \<Rightarrow> nat \<Rightarrow> string go" where
  "record_address dnsAddr d =
     (case split_on CHR ''.'' dnsAddr of
        a # b # c # _ \<Rightarrow> Ret (a @ CHR ''.'' # b @ CHR ''.'' # c @ CHR ''.'' # show_nat d)
      | _ \<Rightarrow> Panic)"

fun records_loop :: "string \<Rightarrow> nat list \<Rightarrow> nat \<Rightarrow> container_options list \<Rightarrow> (string \<times> string) list go" where
  "records_loop dnsAddr ips i [] = Ret []"
| "records_loop dnsAddr ips i (c # cs) =
     (let here = (if Contains (dc_image (co_docker c)) ''client'' then []
                  else filter (\<lambda>r. r_type r = ''A'') (co_records c)) in
      if here \<noteq> [] \<and> length ips \<le> i then Panic
      else go_bind (if here = [] then Ret [] else record_address dnsAddr (ips ! i)) (\<lambda>ip.
             go_bind (records_loop dnsAddr ips (Suc i) cs) (\<lambda>rest. Ret (map (\<lambda>r. (ip, r_name r)) here @ rest))))"

definition push_exercise :: "exercise \<Rightarrow> environment \<Rightarrow> environment" where
  "push_exercise e ee =
     ee\<lparr>en_tags := map_put (x_tag e) (length (en_exercises ee)) (en_tags ee), en_exercises := en_exercises ee @ [e]\<rparr>"

text \<open>\<open>None\<close>: the random source of the flags never gives enough letters.\<close>

definition add_exercise :: "host \<Rightarrow> flag_src \<Rightarrow> exercise_conf \<Rightarrow> environment \<Rightarrow> (lab_error option \<times> environment) go option" where
  "add_exercise h fs conf ee =
     (case NewExercise fs conf (en_dns_addr ee) (en_rng ee) of
        None \<Rightarrow> None
      | Some (e, st) \<Rightarrow>
          let ee = ee\<lparr>en_rng := st\<rparr> in
          if ex_static conf then Some (Ret (None, push_exercise e ee))
          else Some (go_bind (exercise_Create h (en_net ee) (en_next ee) e) (\<lambda>(err, e, nw, next_id).
                 let ee = ee\<lparr>en_net := nw, en_next := next_id\<rparr> in
                 case err of
                   Some err \<Rightarrow> Ret (Some err, ee)
                 | None \<Rightarrow>
                     go_bind (records_loop (x_dns_addr e) (x_ips e) 0 (x_opts e)) (\<lambda>recs.
                       Ret (None, push_exercise e (ee\<lparr>en_records := en_records ee @ recs\<rparr>))))))"

fun Add :: "host \<Rightarrow> flag_src \<Rightarrow> exercise_conf list \<Rightarrow> environment \<Rightarrow> (lab_error option \<times> environment) go option" where
  "Add h fs [] ee = Some (Ret (None, ee))"
| "Add h fs (conf # confs) ee =
     (if ex_tag conf = [] then Some (Ret (Some MissingTagsErr, ee))
      else if map_get (en_tags ee) (ex_tag conf) \<noteq> None then Some (Ret (Some DuplicateTagErr, ee))
      else (case add_exercise h fs conf ee of
              Some (Ret (None, ee)) \<Rightarrow> Add h fs confs ee
            | r \<Rightarrow> r))"

definition refreshDNS :: "host \<Rightarrow> environment \<Rightarrow> lab_error option \<times> environment" where
  "refreshDNS h ee =
     (let rrSet = concat (map x_dns (en_exercises ee)) in
      case call h (NewServer ''dns'') of
        Some e \<Rightarrow> (Some e, ee)
      | None \<Rightarrow>
          let ee = ee\<lparr>en_dns := Some rrSet\<rparr> in
          (case call h (RunServer ''dns'') of
             Some e \<Rightarrow> (Some e, ee)
           | None \<Rightarrow> (call h (ConnectContainer (FormatIP (en_net ee) PreferedIP)), ee)))"

text \<open>A server that could not be made leaves \<open>old\<close>, nil when the environment starts.\<close>

definition start_dhcp :: "host \<Rightarrow> bool \<Rightarrow> environment \<Rightarrow> lab_error option \<times> environment" where
  "start_dhcp h old ee =
     (case call h (NewServer ''dhcp'') of
        Some e \<Rightarrow> (Some e, ee\<lparr>en_dhcp := old\<rparr>)
      | None \<Rightarrow>
          let ee = ee\<lparr>en_dhcp := True\<rparr> in
          (case call h (RunServer ''dhcp'') of
             Some e \<Rightarrow> (Some e, ee)
           | None \<Rightarrow> (call h (ConnectContainer (FormatIP (en_net ee) 2)), ee)))"

definition refreshDHCP :: "host \<Rightarrow> environment \<Rightarrow> lab_error option \<times> environment" where
  "refreshDHCP h ee =
     (case (if en_dhcp ee then call h (CloseServer ''dhcp'') else None) of
        Some e \<Rightarrow> (Some e, ee)
      | None \<Rightarrow> start_dhcp h (en_dhcp ee) ee)"

definition environment_Start :: "host \<Rightarrow> environment \<Rightarrow> lab_error option \<times> environment" where
  "environment_Start h ee =
     (case refreshDNS h ee of
        (Some e, ee) \<Rightarrow> (Some e, ee)
      | (None, ee) \<Rightarrow>
          (case start_dhcp h False ee of
             (Some e, ee) \<Rightarrow> (Some e, ee)
           | (None, ee) \<Rightarrow>
               (case run_all (\<lambda>e. if x_tag e \<in> set (en_disabled ee) then (None, e) else exercise_Start h e) (en_exercises ee) of
                  (err, es) \<Rightarrow> (err, ee\<lparr>en_exercises := es\<rparr>))))"

text \<open>Stopping before the servers exist is a nil dereference.\<close>

definition environment_Stop :: "host \<Rightarrow> environment \<Rightarrow> (lab_error option \<times> environment) go" where
  "environment_Stop h ee =
     (if en_dns ee = None then Panic
      else (case call h (StopServer ''dns'') of
              Some e \<Rightarrow> Ret (Some e, ee)
            | None \<Rightarrow>
                if \<not> en_dhcp ee then Panic
                else (case call h (StopServer ''dhcp'') of
                        Some e \<Rightarrow> Ret (Some e, ee)
                      | None \<Rightarrow> (case until_error (exercise_Stop h) (en_exercises ee) of
                                   (err, es) \<Rightarrow> Ret (err, ee\<lparr>en_exercises := es\<rparr>)))))"

fun reset_loop :: "host \<Rightarrow> exercise list \<Rightarrow> network \<Rightarrow> nat \<Rightarrow> (lab_error option \<times> exercise list \<times> network \<times> nat) go" where
  "reset_loop h [] nw next_id = Ret (None, [], nw, next_id)"
| "reset_loop h (e # es) nw next_id =
     go_bind (exercise_Reset h nw next_id e) (\<lambda>(err, e, nw, next_id).
       if err \<noteq> None then Ret (err, e # es, nw, next_id)
       else go_bind (reset_loop h es nw next_id) (\<lambda>(err, es, nw, next_id). Ret (err, e # es, nw, next_id)))"

definition environment_Reset :: "host \<Rightarrow> environment \<Rightarrow> (lab_error option \<times> environment) go" where
  "environment_Reset h ee =
     (case refreshDHCP h ee of
        (Some e, ee) \<Rightarrow> Ret (Some e, ee)
      | (None, ee) \<Rightarrow>
          (case refreshDNS h ee of
             (Some e, ee) \<Rightarrow> Ret (Some e, ee)
           | (None, ee) \<Rightarrow>
               go_bind (reset_loop h (en_exercises ee) (en_net ee) (en_next ee)) (\<lambda>(err, es, nw, next_id).
                 Ret (err, ee\<lparr>en_exercises := es, en_net := nw, en_next := next_id\<rparr>))))"

definition environment_Suspend :: "host \<Rightarrow> environment \<Rightarrow> lab_error option \<times> environment" where
  "environment_Suspend h ee =
     (case until_error (exercise_Suspend h) (en_exercises ee) of (err, es) \<Rightarrow> (err, ee\<lparr>en_exercises := es\<rparr>))"

text \<open>An exercise is started once per machine that was suspended when the loop came to it.\<close>

fun resume_loop :: "host \<Rightarrow> machine list \<Rightarrow> exercise \<Rightarrow> lab_error option \<times> exercise" where
  "resume_loop h [] e = (None, e)"
| "resume_loop h (ins # is) e =
     (if mc_state ins = VSuspended
      then (case exercise_Start h e of (Some err, e) \<Rightarrow> (Some err, e) | (None, e) \<Rightarrow> resume_loop h is e)
      else resume_loop h is e)"

definition environment_Resume :: "host \<Rightarrow> environment \<Rightarrow> lab_error option \<times> environment" where
  "environment_Resume h ee =
     (case until_error (\<lambda>e. resume_loop h (x_machines e) e) (en_exercises ee) of
        (err, es) \<Rightarrow> (err, ee\<lparr>en_exercises := es\<rparr>))"

text \<open>An operation on the exercise a tag points to.\<close>

definition by_tag :: "string \<Rightarrow> environment \<Rightarrow> lab_error + nat" where
  "by_tag s ee =
     (case NewTag s of
        Inl e \<Rightarrow> Inl (TagErr e)
      | Inr t \<Rightarrow> (case map_get (en_tags ee) t of None \<Rightarrow> Inl UnknownTagErr | Some i \<Rightarrow> Inr i))"

definition put_exercise :: "nat \<Rightarrow> exercise \<Rightarrow> environment \<Rightarrow> environment" where
  "put_exercise i e ee = ee\<lparr>en_exercises := (en_exercises ee)[i := e]\<rparr>"

definition ResetByTag :: "host \<Rightarrow> string \<Rightarrow> environment \<Rightarrow> (lab_error option \<times> environment) go" where
  "ResetByTag h s ee =
     (case by_tag s ee of
        Inl e \<Rightarrow> Ret (Some e, ee)
      | Inr i \<Rightarrow>
          go_bind (exercise_Reset h (en_net ee) (en_next ee) (en_exercises ee ! i)) (\<lambda>(err, e, nw, next_id).
            Ret (err, (put_exercise i e ee)\<lparr>en_net := nw, en_next := next_id\<rparr>)))"

definition StartByTag :: "host \<Rightarrow> string \<Rightarrow> environment \<Rightarrow> lab_error option \<times> environment" where
  "StartByTag h s ee =
     (case by_tag s ee of
        Inl e \<Rightarrow> (Some e, ee)
      | Inr i \<Rightarrow> (case exercise_Start h (en_exercises ee ! i) of (err, e) \<Rightarrow> (err, put_exercise i e ee)))"

definition StopByTag :: "host \<Rightarrow> string \<Rightarrow> environment \<Rightarrow> lab_error option \<times> environment" where
  "StopByTag h s ee =
     (case by_tag s ee of
        Inl e \<Rightarrow> (Some e, ee)
      | Inr i \<Rightarrow> (case exercise_Stop h (en_exercises ee ! i) of (err, e) \<Rightarrow> (err, put_exercise i e ee)))"

definition environment_Challenges :: "environment \<Rightarrow> flag_challenge list" where
  "environment_Challenges ee = foldl (\<lambda>cs e. cs @ exercise_Challenges e) [] (en_exercises ee)"

definition environment_InstanceInfo :: "environment \<Rightarrow> machine list" where
  "environment_InstanceInfo ee = foldl (\<lambda>is e. is @ x_machines e) [] (en_exercises ee)"

definition environment_Close :: "environment \<Rightarrow> environment" where
  "environment_Close ee = ee\<lparr>en_exercises := map exercise_Close (en_exercises ee)\<rparr>"

subsection \<open>Labs\<close>

record lab =
  lb_tag :: string
  lb_env :: environment
  lb_frontends :: "(nat, machine \<times> instance_config) gomap"

definition addFrontend :: "host \<Rightarrow> instance_config \<Rightarrow> nat \<Rightarrow> lab \<Rightarrow> (lab_error + machine) \<times> lab" where
  "addFrontend h conf port l =
     (case call h HostIP of
        Some e \<Rightarrow> (Inl e, l)
      | None \<Rightarrow>
          (case call h (CopyVm (ic_image conf)) of
             Some e \<Rightarrow> (Inl e, l)
           | None \<Rightarrow>
               let ee = lb_env l; vm = \<lparr>mc_id = en_next ee, mc_image = ic_image conf, mc_state = VStopped\<rparr>
               in (Inr vm, l\<lparr>lb_env := ee\<lparr>en_next := Suc (en_next ee)\<rparr>, lb_frontends := map_put port (vm, conf) (lb_frontends l)\<rparr>)))"

fun add_frontends :: "host \<Rightarrow> (nat \<times> instance_config) list \<Rightarrow> lab \<Rightarrow> lab_error + lab" where
  "add_frontends h [] l = Inr l"
| "add_frontends h ((port, f) # fs) l =
     (case addFrontend h f port l of (Inl e, _) \<Rightarrow> Inl e | (Inr vm, l) \<Rightarrow> add_frontends h fs l)"

text \<open>The environment has been created; \<open>ports\<close> are what the system offers, \<open>tag\<close> the generated name.\<close>

definition NewLab ::
  "host \<Rightarrow> flag_src \<Rightarrow> lab_config \<Rightarrow> string \<Rightarrow> nat list \<Rightarrow> environment \<Rightarrow> (lab_error + lab) go option" where
  "NewLab h fs conf tag ports ee =
     map_option (\<lambda>r. go_bind r (\<lambda>(err, ee).
         case err of
           Some e \<Rightarrow> Ret (Inl e)
         | None \<Rightarrow> Ret (add_frontends h (zip ports (lc_frontends conf))
                          \<lparr>lb_tag = tag, lb_env = SetDisabledExercises (lc_disabled conf) ee, lb_frontends = []\<rparr>)))
       (Add h fs (lc_exercises conf) ee)"

text \<open>The last error of starting is returned.\<close>

fun start_added :: "host \<Rightarrow> exercise_conf list \<Rightarrow> lab_error option \<Rightarrow> environment \<Rightarrow> lab_error option \<times> environment" where
  "start_added h [] err ee = (err, ee)"
| "start_added h (ch # confs) err ee =
     (if ex_static ch then start_added h confs err ee
      else (case StartByTag h (ex_tag ch) ee of (e, ee) \<Rightarrow> start_added h confs (if e = None then err else e) ee))"

definition lab_AddChallenge :: "host \<Rightarrow> flag_src \<Rightarrow> exercise_conf list \<Rightarrow> lab \<Rightarrow> (lab_error option \<times> lab) go option" where
  "lab_AddChallenge h fs confs l =
     map_option (\<lambda>r. go_bind r (\<lambda>(err, ee).
         case err of
           Some e \<Rightarrow> Ret (Some e, l\<lparr>lb_env := ee\<rparr>)
         | None \<Rightarrow> (case start_added h confs None ee of (e, ee) \<Rightarrow> Ret (e, l\<lparr>lb_env := ee\<rparr>))))
       (Add h fs confs (lb_env l))"

text \<open>Operations on every frontend in turn, up to the first error.\<close>

definition each_frontend :: "(machine \<Rightarrow> lab_error option \<times> machine) \<Rightarrow> lab \<Rightarrow> lab_error option \<times> lab" where
  "each_frontend f l =
     (case until_error (\<lambda>(p, vm, conf). case f vm of (e, vm) \<Rightarrow> (e, (p, vm, conf))) (lb_frontends l) of
        (e, fs) \<Rightarrow> (e, l\<lparr>lb_frontends := fs\<rparr>))"

definition lab_Start :: "host \<Rightarrow> lab \<Rightarrow> lab_error option \<times> lab" where
  "lab_Start h l =
     (case environment_Start h (lb_env l) of
        (Some e, ee) \<Rightarrow> (Some e, l\<lparr>lb_env := ee\<rparr>)
      | (None, ee) \<Rightarrow> each_frontend (start_machine h) (l\<lparr>lb_env := ee\<rparr>))"

definition lab_Stop :: "host \<Rightarrow> lab \<Rightarrow> (lab_error option \<times> lab) go" where
  "lab_Stop h l =
     go_bind (environment_Stop h (lb_env l)) (\<lambda>(err, ee).
       let l = l\<lparr>lb_env := ee\<rparr> in
       if err \<noteq> None then Ret (err, l) else Ret (each_frontend (stop_machine h) l))"

definition and_then ::
  "(machine \<Rightarrow> lab_error option \<times> machine) \<Rightarrow> (machine \<Rightarrow> lab_error option \<times> machine) \<Rightarrow> machine \<Rightarrow> lab_error option \<times> machine" where
  "and_then f g m = (case f m of (Some e, m) \<Rightarrow> (Some e, m) | (None, m) \<Rightarrow> g m)"

definition restart_vm :: "host \<Rightarrow> machine \<Rightarrow> lab_error option \<times> machine" where
  "restart_vm h m =
     (case mc_state m of
        VRunning \<Rightarrow> and_then (stop_machine h) (start_machine h) m
      | VStopped \<Rightarrow> start_machine h m
      | VSuspended \<Rightarrow> and_then (start_machine h) (and_then (stop_machine h) (start_machine h)) m
      | VError \<Rightarrow> and_then (\<lambda>m. machine_to h (CreateMachine (mc_id m)) VStopped m) (start_machine h) m)"

definition lab_Restart :: "host \<Rightarrow> lab \<Rightarrow> (lab_error option \<times> lab) go" where
  "lab_Restart h l =
     go_bind (environment_Reset h (lb_env l)) (\<lambda>(err, ee).
       let l = l\<lparr>lb_env := ee\<rparr> in
       if err \<noteq> None then Ret (err, l) else Ret (each_frontend (restart_vm h) l))"

definition lab_Suspend :: "host \<Rightarrow> lab \<Rightarrow> lab_error option \<times> lab" where
  "lab_Suspend h l =
     (case environment_Suspend h (lb_env l) of
        (Some e, ee) \<Rightarrow> (Some e, l\<lparr>lb_env := ee\<rparr>)
      | (None, ee) \<Rightarrow>
          each_frontend (\<lambda>m. if mc_state m = VRunning then suspend_machine h m else (None, m)) (l\<lparr>lb_env := ee\<rparr>))"

definition lab_Resume :: "host \<Rightarrow> lab \<Rightarrow> lab_error option \<times> lab" where
  "lab_Resume h l =
     (case environment_Resume h (lb_env l) of
        (Some e, ee) \<Rightarrow> (Some e, l\<lparr>lb_env := ee\<rparr>)
      | (None, ee) \<Rightarrow>
          each_frontend (\<lambda>m. if mc_state m = VSuspended then start_machine h m else (None, m)) (l\<lparr>lb_env := ee\<rparr>))"

text \<open>Every frontend is replaced by a fresh copy on the same port; the first error of all is returned.\<close>

fun reset_frontends :: "host \<Rightarrow> (nat \<times> machine \<times> instance_config) list \<Rightarrow> lab_error list \<Rightarrow> lab \<Rightarrow> lab_error list \<times> lab" where
  "reset_frontends h [] errs l = (errs, l)"
| "reset_frontends h ((p, vm, conf) # fs) errs l =
     (case call h (CloseMachine (mc_id vm)) of
        Some e \<Rightarrow> reset_frontends h fs (errs @ [e]) l
      | None \<Rightarrow>
          (case addFrontend h conf p l of
             (Inl e, l) \<Rightarrow> reset_frontends h fs (errs @ [e]) l
           | (Inr vm, l) \<Rightarrow>
               (case start_machine h vm of
                  (Some e, vm) \<Rightarrow> reset_frontends h fs (errs @ [e]) l
                | (None, vm) \<Rightarrow> reset_frontends h fs errs (l\<lparr>lb_frontends := map_put p (vm, conf) (lb_frontends l)\<rparr>))))"

definition ResetFrontends :: "host \<Rightarrow> lab \<Rightarrow> lab_error option \<times> lab" where
  "ResetFrontends h l =
     (case reset_frontends h (lb_frontends l) [] l of
        ([], l) \<Rightarrow> (None, l)
      | (e # _, l) \<Rightarrow> (Some e, l))"

definition RdpConnPorts :: "lab \<Rightarrow> nat list" where
  "RdpConnPorts l = map fst (lb_frontends l)"

definition lab_InstanceInfo :: "lab \<Rightarrow> machine list" where
  "lab_InstanceInfo l = map (\<lambda>(p, vm, conf). vm) (lb_frontends l) @ environment_InstanceInfo (lb_env l)"

definition lab_Close :: "lab \<Rightarrow> lab" where
  "lab_Close l = l\<lparr>lb_env := environment_Close (lb_env l)\<rparr>"

text \<open>The hub assigns its nil error to the local one, so it reports success whatever happens.\<close>

definition hub_Suspend :: "(string \<Rightarrow> host) \<Rightarrow> (string, lab) gomap \<Rightarrow> lab_error option \<times> (string, lab) gomap" where
  "hub_Suspend h labs = (None, map (\<lambda>(t, l). (t, snd (lab_Suspend (h t) l))) labs)"

definition hub_Resume :: "(string \<Rightarrow> host) \<Rightarrow> (string, lab) gomap \<Rightarrow> lab_error option \<times> (string, lab) gomap" where
  "hub_Resume h labs = (None, map (\<lambda>(t, l). (t, snd (lab_Resume (h t) l))) labs)"

subsection \<open>Loops over machines\<close>

lemma until_error_ok: "\<forall>x \<in> set xs. fst (f x) = None \<Longrightarrow> until_error f xs = (None, map (snd \<circ> f) xs)"
  by (induction xs) (auto split: prod.split option.split)

lemma run_all_ok: "\<forall>x \<in> set xs. fst (f x) = None \<Longrightarrow> run_all f xs = (None, map (snd \<circ> f) xs)"
  by (induction xs) (auto split: prod.split)

lemma until_error_keeps: "(\<And>x. g (snd (f x)) = g x) \<Longrightarrow> map g (snd (until_error f xs)) = map g xs"
  by (induction xs) (auto split: prod.split option.split, metis snd_conv, metis snd_conv)

lemma run_all_keeps: "(\<And>x. g (snd (f x)) = g x) \<Longrightarrow> map g (snd (run_all f xs)) = map g xs"
  by (induction xs) (auto split: prod.split, metis snd_conv)

subsection \<open>Tags and addresses of a lab\<close>

text \<open>
  Each tag points to the exercise that has it; no two containers share an address, except
  the address 0 that is given out when the others have run out.
\<close>

definition used_ips :: "environment \<Rightarrow> nat list" where
  "used_ips ee = concat (map x_ips (en_exercises ee))"

definition net_ok :: "network \<Rightarrow> nat list \<Rightarrow> bool" where
  "net_ok nw used \<longleftrightarrow> distinct (filter (\<lambda>d. d \<noteq> 0) (nw_free nw @ used)) \<and> set (nw_free nw @ used) \<subseteq> insert 0 {30..<255}"

definition env_ok :: "environment \<Rightarrow> bool" where
  "env_ok ee \<longleftrightarrow> map_ok (en_tags ee) \<and>
     (\<forall>t i. map_get (en_tags ee) t = Some i \<longleftrightarrow> i < length (en_exercises ee) \<and> x_tag (en_exercises ee ! i) = t) \<and>
     net_ok (en_net ee) (used_ips ee)"

definition same_face :: "exercise \<Rightarrow> string \<times> nat list" where
  "same_face e = (x_tag e, x_ips e)"

text \<open>An operation that keeps tags and addresses keeps the invariant.\<close>

lemma env_ok_faces:
  assumes "env_ok ee" and "map same_face (en_exercises ee') = map same_face (en_exercises ee)"
    and "en_tags ee' = en_tags ee" and "en_net ee' = en_net ee"
  shows "env_ok ee'"
proof -
  have tags: "map x_tag (en_exercises ee') = map x_tag (en_exercises ee)" "map x_ips (en_exercises ee') = map x_ips (en_exercises ee)"
    using arg_cong [OF assms(2), of "map fst"] arg_cong [OF assms(2), of "map snd"] by (simp_all add: same_face_def comp_def)
  then have len: "length (en_exercises ee') = length (en_exercises ee)" by (metis length_map)
  moreover have "x_tag (en_exercises ee' ! i) = x_tag (en_exercises ee ! i)" if "i < length (en_exercises ee)" for i
    using that tags(1) len by (metis nth_map)
  ultimately show ?thesis using assms(1,3,4) tags(2) by (auto simp: env_ok_def used_ips_def)
qed

lemma faces [simp]:
  "same_face (snd (exercise_Start h e)) = same_face e" "same_face (snd (exercise_Stop h e)) = same_face e"
  "same_face (snd (exercise_Suspend h e)) = same_face e" "same_face (exercise_Close e) = same_face e"
  by (auto simp: same_face_def exercise_Start_def exercise_Stop_def exercise_Suspend_def exercise_Close_def split: prod.split)

lemma resume_loop_face [simp]: "same_face (snd (resume_loop h is e)) = same_face e"
proof (induction "is" arbitrary: e)
  case (Cons i "is")
  obtain r e1 where start: "exercise_Start h e = (r, e1)" by fastforce
  then have "same_face e1 = same_face e" using faces(1) [of h e] by simp
  with start Cons.IH show ?case by (simp split: option.split)
qed simp

lemma net_ok_move: "net_ok nw used \<Longrightarrow> nw_free nw = d # ds \<Longrightarrow> net_ok (nw\<lparr>nw_free := ds, nw_connected := cs\<rparr>) (used @ [d])"
  by (auto simp: net_ok_def)

lemma net_ok_zero: "net_ok nw used \<Longrightarrow> net_ok (nw\<lparr>nw_connected := cs\<rparr>) (used @ [0])"
  by (auto simp: net_ok_def)

lemma net_ok_release:
  assumes "net_ok nw used" and "nw_free nw = d # ds"
  shows "net_ok (releaseIP d (nw\<lparr>nw_free := ds\<rparr>)) used"
proof (cases "d \<in> set ds")
  case True
  with assms show ?thesis by (auto simp: net_ok_def releaseIP_def List.insert_def)
next
  case False
  with assms have "releaseIP d (nw\<lparr>nw_free := ds\<rparr>) = nw" by (simp add: releaseIP_def List.insert_def)
  with assms(1) show ?thesis by simp
qed

lemma net_ok_release_zero: "net_ok nw used \<Longrightarrow> nw_free nw = [] \<Longrightarrow> net_ok (releaseIP 0 nw) used"
  by (auto simp: net_ok_def releaseIP_def)

lemma Connect_net_ok:
  assumes "net_ok nw used" and "Connect h c None nw = (err, d, nw')"
  shows "if err = None then net_ok nw' (used @ [d]) else net_ok nw' used"
proof (cases "nw_free nw")
  case Nil
  with assms net_ok_zero [OF assms(1)] net_ok_release_zero [OF assms(1)] show ?thesis
    by (auto simp: Connect_def getRandomIP_def split: option.splits)
next
  case (Cons a as)
  with assms net_ok_move [OF assms(1) Cons] net_ok_release [OF assms(1) Cons] show ?thesis
    by (auto simp: Connect_def getRandomIP_def split: option.splits)
qed

lemma Connect_given: "Connect h c (Some d) nw = (err, d', nw') \<Longrightarrow> nw_free nw' = nw_free nw"
  by (auto simp: Connect_def Let_def split: option.splits)

lemma container_loop_net:
  "net_ok (cs_net s) (used @ cs_new_ips s) \<Longrightarrow> container_loop h dnsAddr [] i opts s = Ret (err, s') \<Longrightarrow>
   net_ok (cs_net s') (used @ cs_new_ips s')"
proof (induction opts arbitrary: i s)
  case (Cons opt opts)
  let ?conf = "lab_docker dnsAddr (co_docker opt)"
  let ?c = "new_machine (dc_image ?conf) s"
  show ?case
  proof (cases "call h (CreateContainer ?conf)")
    case (Some e)
    with Cons.prems show ?thesis by (simp add: Let_def)
  next
    case None
    obtain e d nw where conn: "Connect h (mc_id ?c) None (cs_net s) = (e, d, nw)" by (metis prod_cases3)
    note ok = Connect_net_ok [OF Cons.prems(1) conn]
    show ?thesis
    proof (cases e)
      case (Some x)
      with Cons.prems None conn ok show ?thesis by (auto simp: Let_def)
    next
      case no: None
      let ?s = "s\<lparr>cs_net := nw, cs_next := Suc (cs_next s), cs_machines := cs_machines s @ [?c],
                 cs_dns := cs_dns s @ map (with_address (FormatIP nw d)) (co_records opt), cs_new_ips := cs_new_ips s @ [d]\<rparr>"
      from no ok have "net_ok (cs_net ?s) (used @ cs_new_ips ?s)" by simp
      moreover have "container_loop h dnsAddr [] (Suc i) opts ?s = Ret (err, s')"
        using Cons.prems(2) None conn no by (simp add: Let_def)
      ultimately show ?thesis by (rule Cons.IH)
    qed
  qed
qed simp

lemma container_loop_given:
  "ips \<noteq> [] \<Longrightarrow> container_loop h dnsAddr ips i opts s = Ret (err, s') \<Longrightarrow>
   nw_free (cs_net s') = nw_free (cs_net s)"
proof (induction opts arbitrary: i s)
  case (Cons opt opts)
  let ?conf = "lab_docker dnsAddr (co_docker opt)"
  let ?c = "new_machine (dc_image ?conf) s"
  show ?case
  proof (cases "call h (CreateContainer ?conf)")
    case (Some e)
    with Cons.prems show ?thesis by (simp add: Let_def)
  next
    case None
    with Cons.prems have i: "i < length ips" by (auto simp: Let_def split: if_splits)
    obtain e d nw where conn: "Connect h (mc_id ?c) (Some (ips ! i)) (cs_net s) = (e, d, nw)" by (metis prod_cases3)
    note free = Connect_given [OF conn]
    show ?thesis
    proof (cases e)
      case (Some x)
      with Cons.prems None conn i free show ?thesis by (auto simp: Let_def)
    next
      case no: None
      let ?s = "s\<lparr>cs_net := nw, cs_next := Suc (cs_next s), cs_machines := cs_machines s @ [?c],
                 cs_dns := cs_dns s @ map (with_address (FormatIP nw d)) (co_records opt)\<rparr>"
      have "container_loop h dnsAddr ips (Suc i) opts ?s = Ret (err, s')"
        using Cons.prems None conn i no by (simp add: Let_def)
      from Cons.IH [OF Cons.prems(1) this] free show ?thesis by simp
    qed
  qed
qed simp

lemma vm_loop_net: "vm_loop h vbox s = (err, s') \<Longrightarrow> cs_net s' = cs_net s \<and> cs_new_ips s' = cs_new_ips s"
  by (induction vbox arbitrary: s) (fastforce split: option.splits)+

lemma net_ok_free: "nw_free nw' = nw_free nw \<Longrightarrow> net_ok nw' used = net_ok nw used"
  by (simp add: net_ok_def)

lemma net_ok_less: "net_ok nw (used @ ips) \<Longrightarrow> net_ok nw used"
  by (auto simp: net_ok_def)

lemma net_ok_mset: "net_ok nw used \<Longrightarrow> mset used' = mset used \<Longrightarrow> net_ok nw used'"
proof -
  assume ok: "net_ok nw used" and same: "mset used' = mset used"
  then have "mset (filter (\<lambda>d. d \<noteq> 0) (nw_free nw @ used')) = mset (filter (\<lambda>d. d \<noteq> 0) (nw_free nw @ used))"
    by (simp add: same)
  then have "distinct (filter (\<lambda>d. d \<noteq> 0) (nw_free nw @ used')) = distinct (filter (\<lambda>d. d \<noteq> 0) (nw_free nw @ used))"
    by (rule mset_eq_imp_distinct_iff)
  with ok mset_eq_setD [OF same] show ?thesis by (simp add: net_ok_def)
qed

lemma exercise_Create_ok:
  assumes "net_ok nw (used @ x_ips e)" and "exercise_Create h nw n e = Ret (err, e', nw', n')"
  shows "net_ok nw' (used @ x_ips e') \<and> x_tag e' = x_tag e \<and> x_opts e' = x_opts e \<and> x_vbox e' = x_vbox e"
proof -
  let ?s = "\<lparr>cs_dns = x_dns e, cs_machines = [], cs_new_ips = [], cs_net = nw, cs_next = n\<rparr>"
  obtain err1 s1 where loop: "container_loop h (x_dns_addr e) (x_ips e) 0 (x_opts e) ?s = Ret (err1, s1)"
    using assms(2) by (auto simp: exercise_Create_def go_bind_Ret)
  obtain err2 s2 where vms: "vm_loop h (x_vbox e) s1 = (err2, s2)" by fastforce
  note vm = vm_loop_net [OF vms]
  have ips: "err = None \<and> nw' = cs_net s1 \<and> x_ips e' = (if x_ips e = [] then cs_new_ips s1 else x_ips e) \<or>
      nw' = cs_net s1 \<and> x_ips e' = x_ips e"
    and same: "x_tag e' = x_tag e \<and> x_opts e' = x_opts e \<and> x_vbox e' = x_vbox e"
    using assms(2) vms vm by (auto simp: exercise_Create_def loop split: option.splits)
  have new: "net_ok (cs_net s1) (used @ cs_new_ips s1)" if "x_ips e = []"
    using container_loop_net [of ?s used h "x_dns_addr e" 0 "x_opts e" err1 s1] assms(1) loop that by simp
  have old: "net_ok (cs_net s1) (used @ x_ips e)"
  proof (cases "x_ips e = []")
    case True
    with net_ok_less [OF new] show ?thesis by simp
  next
    case False
    from net_ok_free [OF container_loop_given [OF False loop]] assms(1) show ?thesis by simp
  qed
  have "net_ok nw' (used @ x_ips e')"
  proof (cases "x_ips e' = x_ips e")
    case True
    with ips old show ?thesis by metis
  next
    case False
    with ips have "x_ips e = []" "nw' = cs_net s1" "x_ips e' = cs_new_ips s1" by (metis, metis, metis)
    with new show ?thesis by simp
  qed
  with same show ?thesis by simp
qed

lemma exercise_Reset_ok:
  assumes "net_ok nw (used @ x_ips e)" and "exercise_Reset h nw n e = Ret (err, e', nw', n')"
  shows "net_ok nw' (used @ x_ips e') \<and> x_tag e' = x_tag e"
proof -
  have close: "x_ips (exercise_Close e) = x_ips e" "x_tag (exercise_Close e) = x_tag e" by (simp_all add: exercise_Close_def)
  from assms(2) obtain err1 e1 nw1 n1 where c: "exercise_Create h nw n (exercise_Close e) = Ret (err1, e1, nw1, n1)"
    by (auto simp: exercise_Reset_def go_bind_Ret)
  with assms(2) have "nw' = nw1 \<and> (e' = e1 \<or> e' = snd (exercise_Start h e1))"
    by (auto simp: exercise_Reset_def split: option.splits prod.splits)
  then have r: "nw' = nw1" "same_face e' = same_face e1" by auto
  from exercise_Create_ok [OF _ c] assms(1) close r show ?thesis by (simp add: same_face_def)
qed

lemma reset_loop_ok:
  "net_ok nw (used @ concat (map x_ips es)) \<Longrightarrow> reset_loop h es nw n = Ret (err, es', nw', n') \<Longrightarrow>
   net_ok nw' (used @ concat (map x_ips es')) \<and> map x_tag es' = map x_tag es"
proof (induction es arbitrary: used nw n es' err)
  case (Cons e es)
  let ?rest = "concat (map x_ips es)"
  from Cons.prems(2) obtain err1 e1 nw1 n1 where r: "exercise_Reset h nw n e = Ret (err1, e1, nw1, n1)"
    by (auto simp: go_bind_Ret)
  have "net_ok nw ((used @ ?rest) @ x_ips e)" using Cons.prems(1) by (rule net_ok_mset) simp
  from exercise_Reset_ok [OF this r] have nw1: "net_ok nw1 ((used @ ?rest) @ x_ips e1)" and tag: "x_tag e1 = x_tag e" by simp_all
  from nw1 have nw1': "net_ok nw1 ((used @ x_ips e1) @ ?rest)" by (rule net_ok_mset) simp
  show ?case
  proof (cases err1)
    case None
    with Cons.prems(2) r obtain es2 where "reset_loop h es nw1 n1 = Ret (err, es2, nw', n')" "es' = e1 # es2"
      by (auto simp: go_bind_Ret)
    with Cons.IH [OF nw1'] tag show ?thesis by simp
  next
    case (Some x)
    with Cons.prems(2) r have "es' = e1 # es" "nw' = nw1" by auto
    with nw1' tag show ?thesis by simp
  qed
qed simp

lemma env_ok_simps:
  "env_ok ee \<Longrightarrow> env_ok (ee\<lparr>en_records := rs\<rparr>)" "env_ok ee \<Longrightarrow> env_ok (ee\<lparr>en_rng := st\<rparr>)"
  "env_ok ee \<Longrightarrow> env_ok (ee\<lparr>en_dns := z\<rparr>)" "env_ok ee \<Longrightarrow> env_ok (ee\<lparr>en_dhcp := b\<rparr>)" "env_ok ee \<Longrightarrow> env_ok (ee\<lparr>en_disabled := ds\<rparr>)"
  by (simp_all add: env_ok_def used_ips_def)

lemma push_exercise_ok:
  assumes "env_ok ee" and "map_get (en_tags ee) (x_tag e) = None" and "net_ok (en_net ee) (used_ips ee @ x_ips e)"
  shows "env_ok (push_exercise e ee)"
proof -
  have "map_get (map_put (x_tag e) (length (en_exercises ee)) (en_tags ee)) t = Some i \<longleftrightarrow>
      i < Suc (length (en_exercises ee)) \<and> x_tag ((en_exercises ee @ [e]) ! i) = t" for t i
  proof -
    have tags: "map_get (en_tags ee) t = Some i \<longleftrightarrow> i < length (en_exercises ee) \<and> x_tag (en_exercises ee ! i) = t" for t i
      using assms(1) unfolding env_ok_def by blast
    then have "x_tag (en_exercises ee ! i) \<noteq> x_tag e" if "i < length (en_exercises ee)"
      using that assms(2) by (metis option.distinct(1))
    with tags show ?thesis by (cases "i = length (en_exercises ee)") (auto simp: nth_append)
  qed
  with assms(1,3) show ?thesis by (simp add: env_ok_def push_exercise_def used_ips_def)
qed

lemma NewExercise_fields: "NewExercise fs conf a st = Some (e, st') \<Longrightarrow> x_tag e = ex_tag conf \<and> x_ips e = []"
  by (auto simp: NewExercise_def Let_def split: prod.splits if_splits)

lemma add_exercise_ok:
  assumes "env_ok ee" and "map_get (en_tags ee) (ex_tag conf) = None"
    and "add_exercise h fs conf ee = Some (Ret (err, ee'))"
  shows "env_ok ee'"
proof -
  from assms(3) obtain e st where new: "NewExercise fs conf (en_dns_addr ee) (en_rng ee) = Some (e, st)"
    by (auto simp: add_exercise_def split: option.splits)
  note e = NewExercise_fields [OF new]
  have net: "net_ok (en_net ee) (used_ips ee @ x_ips e)" using assms(1) e by (simp add: env_ok_def)
  show ?thesis
  proof (cases "ex_static conf")
    case True
    with assms(3) new have "ee' = push_exercise e (ee\<lparr>en_rng := st\<rparr>)" by (simp add: add_exercise_def)
    moreover have "env_ok (push_exercise e (ee\<lparr>en_rng := st\<rparr>))"
      using assms(1,2) e net by (intro push_exercise_ok env_ok_simps) (simp_all add: used_ips_def)
    ultimately show ?thesis by simp
  next
    case False
    with assms(3) new obtain err1 e1 nw1 n1 where c: "exercise_Create h (en_net ee) (en_next ee) e = Ret (err1, e1, nw1, n1)"
      by (auto simp: add_exercise_def Let_def go_bind_Ret)
    let ?ee = "ee\<lparr>en_rng := st, en_net := nw1, en_next := n1\<rparr>"
    from exercise_Create_ok [OF net c] e have e1: "net_ok nw1 (used_ips ee @ x_ips e1)" "x_tag e1 = ex_tag conf" by simp_all
    have mid: "env_ok ?ee" using assms(1) net_ok_less [OF e1(1)] by (simp add: env_ok_def used_ips_def)
    have "env_ok (push_exercise e1 (?ee\<lparr>en_records := rs\<rparr>))" for rs
      using mid assms(2) e1 by (intro push_exercise_ok env_ok_simps) (simp_all add: used_ips_def)
    with mid assms(3) new False c show ?thesis
      by (auto simp: add_exercise_def Let_def go_bind_Ret split: option.splits)
  qed
qed

lemma Add_ok: "env_ok ee \<Longrightarrow> Add h fs confs ee = Some (Ret (err, ee')) \<Longrightarrow> env_ok ee'"
proof (induction confs arbitrary: ee)
  case (Cons conf confs)
  show ?case
  proof (cases "ex_tag conf = [] \<or> map_get (en_tags ee) (ex_tag conf) \<noteq> None")
    case True
    with Cons.prems show ?thesis by (auto split: if_splits)
  next
    case False
    with Cons.prems(2) obtain err1 ee1 where a: "add_exercise h fs conf ee = Some (Ret (err1, ee1))"
      by (auto split: option.splits go.splits)
    from False have "map_get (en_tags ee) (ex_tag conf) = None" by simp
    from add_exercise_ok [OF Cons.prems(1) this a] have "env_ok ee1" .
    with Cons.IH Cons.prems(2) a False show ?thesis by (auto split: option.splits)
  qed
qed simp

subsection \<open>Reachable environments\<close>

datatype env_op =
    OpAdd "exercise_conf list"
  | OpDisable "string list"
  | OpStart
  | OpStop
  | OpReset
  | OpSuspend
  | OpResume
  | OpResetTag string
  | OpStartTag string
  | OpStopTag string
  | OpClose

definition run_env :: "host \<Rightarrow> flag_src \<Rightarrow> env_op \<Rightarrow> environment \<Rightarrow> (lab_error option \<times> environment) go option" where
  "run_env h fs op ee =
     (case op of
        OpAdd confs \<Rightarrow> Add h fs confs ee
      | OpDisable ds \<Rightarrow> Some (Ret (None, SetDisabledExercises ds ee))
      | OpStart \<Rightarrow> Some (Ret (environment_Start h ee))
      | OpStop \<Rightarrow> Some (environment_Stop h ee)
      | OpReset \<Rightarrow> Some (environment_Reset h ee)
      | OpSuspend \<Rightarrow> Some (Ret (environment_Suspend h ee))
      | OpResume \<Rightarrow> Some (Ret (environment_Resume h ee))
      | OpResetTag s \<Rightarrow> Some (ResetByTag h s ee)
      | OpStartTag s \<Rightarrow> Some (Ret (StartByTag h s ee))
      | OpStopTag s \<Rightarrow> Some (Ret (StopByTag h s ee))
      | OpClose \<Rightarrow> Some (Ret (None, environment_Close ee)))"

inductive env_reachable :: "string \<Rightarrow> environment \<Rightarrow> bool" for subnet where
  new: "env_reachable subnet (NewEnvironment subnet n st)"
| step: "env_reachable subnet ee \<Longrightarrow> run_env h fs op ee = Some (Ret (err, ee')) \<Longrightarrow> env_reachable subnet ee'"

lemma refreshDNS_ok: "env_ok ee \<Longrightarrow> env_ok (snd (refreshDNS h ee))"
  by (auto simp: refreshDNS_def Let_def intro: env_ok_simps split: option.split)

lemma start_dhcp_ok: "env_ok ee \<Longrightarrow> env_ok (snd (start_dhcp h b ee))"
  by (auto simp: start_dhcp_def Let_def intro: env_ok_simps split: option.split)

lemma refreshDHCP_ok: "env_ok ee \<Longrightarrow> env_ok (snd (refreshDHCP h ee))"
  by (auto simp: refreshDHCP_def intro: start_dhcp_ok split: option.split)

lemma env_ok_map:
  assumes "env_ok ee" and "map same_face es = map same_face (en_exercises ee)"
  shows "env_ok (ee\<lparr>en_exercises := es\<rparr>)"
  using env_ok_faces [OF assms(1)] assms(2) by simp

lemma put_exercise_ok:
  assumes "env_ok ee" and "same_face e = same_face (en_exercises ee ! i)" and "i < length (en_exercises ee)"
  shows "env_ok (put_exercise i e ee)"
proof -
  have "map same_face ((en_exercises ee)[i := e]) = map same_face (en_exercises ee)"
    using assms(2,3) by (simp add: map_update list_update_same_conv)
  with assms(1) show ?thesis unfolding put_exercise_def by (rule env_ok_map)
qed

lemma by_tag_bound: "env_ok ee \<Longrightarrow> by_tag s ee = Inr i \<Longrightarrow> i < length (en_exercises ee)"
  unfolding by_tag_def env_ok_def by (simp split: sum.splits option.splits)

lemma environment_Start_ok: "env_ok ee \<Longrightarrow> env_ok (snd (environment_Start h ee))"
proof -
  assume ok: "env_ok ee"
  obtain r1 ee1 where a: "refreshDNS h ee = (r1, ee1)" by fastforce
  obtain r2 ee2 where b: "start_dhcp h False ee1 = (r2, ee2)" by fastforce
  have ok1: "env_ok ee1" using refreshDNS_ok [OF ok, of h] a by simp
  have ok2: "env_ok ee2" using start_dhcp_ok [OF ok1, of h False] b by simp
  let ?f = "\<lambda>e. if x_tag e \<in> set (en_disabled ee2) then (None, e) else exercise_Start h e"
  have "map same_face (snd (run_all ?f (en_exercises ee2))) = map same_face (en_exercises ee2)"
    by (rule run_all_keeps) simp
  from env_ok_map [OF ok2 this] ok1 ok2 show ?thesis
    by (auto simp: environment_Start_def a b split: option.split prod.split)
qed

lemma until_error_env_ok:
  assumes "env_ok ee" and "\<And>e. same_face (snd (f e)) = same_face e"
  shows "env_ok (ee\<lparr>en_exercises := snd (until_error f (en_exercises ee))\<rparr>)"
  by (rule env_ok_map [OF assms(1)]) (rule until_error_keeps, rule assms(2))

lemma ResetByTag_ok:
  assumes "env_ok ee" and "ResetByTag h s ee = Ret (err, ee')"
  shows "env_ok ee'"
proof (cases "by_tag s ee")
  case (Inl x)
  with assms show ?thesis by (simp add: ResetByTag_def)
next
  case (Inr i)
  let ?es = "en_exercises ee"
  from Inr assms(2) obtain e nw n where r: "exercise_Reset h (en_net ee) (en_next ee) (?es ! i) = Ret (err, e, nw, n)"
    and ee': "ee' = (put_exercise i e ee)\<lparr>en_net := nw, en_next := n\<rparr>"
    by (auto simp: ResetByTag_def go_bind_Ret)
  have i: "i < length ?es" by (rule by_tag_bound [OF assms(1) Inr])
  let ?rest = "concat (map x_ips (take i ?es)) @ concat (map x_ips (drop (Suc i) ?es))"
  have "mset (used_ips ee) = mset (?rest @ x_ips (?es ! i))"
    using arg_cong [OF id_take_nth_drop [OF i], of "\<lambda>es. mset (concat (map x_ips es))"] by (simp add: used_ips_def)
  with assms(1) have "net_ok (en_net ee) (?rest @ x_ips (?es ! i))" unfolding env_ok_def by (metis net_ok_mset)
  from exercise_Reset_ok [OF this r] have net: "net_ok nw (?rest @ x_ips e)" and tag: "x_tag e = x_tag (?es ! i)" by simp_all
  have "net_ok nw (concat (map x_ips (?es[i := e])))"
    by (rule net_ok_mset [OF net]) (simp add: upd_conv_take_nth_drop [OF i])
  moreover have "x_tag (?es[i := e] ! j) = x_tag (?es ! j)" if "j < length ?es" for j
    using that tag by (cases "j = i") auto
  ultimately show ?thesis using assms(1) by (auto simp: ee' put_exercise_def env_ok_def used_ips_def)
qed

lemma environment_Reset_ok:
  assumes "env_ok ee" and "environment_Reset h ee = Ret (err, ee')"
  shows "env_ok ee'"
proof -
  obtain r1 ee1 where a: "refreshDHCP h ee = (r1, ee1)" by fastforce
  obtain r2 ee2 where b: "refreshDNS h ee1 = (r2, ee2)" by fastforce
  have ok1: "env_ok ee1" using refreshDHCP_ok [OF assms(1), of h] a by simp
  have ok2: "env_ok ee2" using refreshDNS_ok [OF ok1, of h] b by simp
  show ?thesis
  proof (cases "r1 = None \<and> r2 = None")
    case True
    with assms(2) a b obtain es nw n where r: "reset_loop h (en_exercises ee2) (en_net ee2) (en_next ee2) = Ret (err, es, nw, n)"
      and ee': "ee' = ee2\<lparr>en_exercises := es, en_net := nw, en_next := n\<rparr>"
      by (auto simp: environment_Reset_def go_bind_Ret)
    have "net_ok (en_net ee2) ([] @ concat (map x_ips (en_exercises ee2)))" using ok2 by (simp add: env_ok_def used_ips_def)
    from reset_loop_ok [OF this r] have net: "net_ok nw (concat (map x_ips es))" and tags: "map x_tag es = map x_tag (en_exercises ee2)" by simp_all
    then have len: "length es = length (en_exercises ee2)" by (metis length_map)
    with tags have "x_tag (es ! j) = x_tag (en_exercises ee2 ! j)" if "j < length es" for j
      using that by (metis nth_map)
    with ok2 net len show ?thesis by (auto simp: ee' env_ok_def used_ips_def)
  next
    case False
    with assms(2) a b ok1 ok2 show ?thesis by (auto simp: environment_Reset_def split: option.splits)
  qed
qed

lemma run_env_ok:
  assumes "env_ok ee" and "run_env h fs op ee = Some (Ret (err, ee'))"
  shows "env_ok ee'"
proof (cases op)
  case (OpAdd confs)
  with assms show ?thesis using Add_ok by (simp add: run_env_def)
next
  case (OpDisable ds)
  with assms show ?thesis by (auto simp: run_env_def SetDisabledExercises_def intro: env_ok_simps)
next
  case OpStart
  with assms(2) have "ee' = snd (environment_Start h ee)" by (simp add: run_env_def)
  with assms(1) show ?thesis by (simp add: environment_Start_ok)
next
  case OpStop
  have "env_ok (ee\<lparr>en_exercises := snd (until_error (exercise_Stop h) (en_exercises ee))\<rparr>)"
    by (rule until_error_env_ok [OF assms(1)]) simp
  with OpStop assms show ?thesis
    by (auto simp: run_env_def environment_Stop_def split: if_splits option.splits prod.splits)
next
  case OpReset
  with assms environment_Reset_ok show ?thesis by (simp add: run_env_def)
next
  case OpSuspend
  have "env_ok (ee\<lparr>en_exercises := snd (until_error (exercise_Suspend h) (en_exercises ee))\<rparr>)"
    by (rule until_error_env_ok [OF assms(1)]) simp
  with OpSuspend assms show ?thesis
    by (auto simp: run_env_def environment_Suspend_def split: prod.splits)
next
  case OpResume
  have "env_ok (ee\<lparr>en_exercises := snd (until_error (\<lambda>e. resume_loop h (x_machines e) e) (en_exercises ee))\<rparr>)"
    by (rule until_error_env_ok [OF assms(1)]) simp
  with OpResume assms show ?thesis
    by (auto simp: run_env_def environment_Resume_def split: prod.splits)
next
  case (OpResetTag s)
  with assms ResetByTag_ok show ?thesis by (simp add: run_env_def)
next
  case (OpStartTag s)
  have "env_ok (put_exercise i (snd (exercise_Start h (en_exercises ee ! i))) ee)" if "by_tag s ee = Inr i" for i
    using put_exercise_ok [OF assms(1) _ by_tag_bound [OF assms(1) that]] by simp
  with OpStartTag assms show ?thesis
    by (auto simp: run_env_def StartByTag_def split: sum.splits prod.splits)
next
  case (OpStopTag s)
  have "env_ok (put_exercise i (snd (exercise_Stop h (en_exercises ee ! i))) ee)" if "by_tag s ee = Inr i" for i
    using put_exercise_ok [OF assms(1) _ by_tag_bound [OF assms(1) that]] by simp
  with OpStopTag assms show ?thesis
    by (auto simp: run_env_def StopByTag_def split: sum.splits prod.splits)
next
  case OpClose
  with assms env_ok_map [OF assms(1), of "map exercise_Close (en_exercises ee)"] show ?thesis
    by (simp add: run_env_def environment_Close_def)
qed

lemma env_reachable_ok: "env_reachable subnet ee \<Longrightarrow> env_ok ee"
proof (induction rule: env_reachable.induct)
  case (new n st)
  show ?case by (auto simp: env_ok_def NewEnvironment_def NewNetwork_def net_ok_def used_ips_def)
next
  case (step ee h fs op err ee')
  then show ?case using run_env_ok by blast
qed

subsection \<open>Properties\<close>

text \<open>
  C15. In a lab, whatever was added, started, stopped, reset or suspended and whatever failed on the way, every
  tag leads to the one exercise that has it, and no two containers have the same address, which
  lies between 30 and 254; only when all of these are used up is the address 0 given out.
\<close>
theorem lab_well_formed:
  assumes "env_reachable subnet ee"
  shows "(\<forall>t i. map_get (en_tags ee) t = Some i \<longleftrightarrow> i < length (en_exercises ee) \<and> x_tag (en_exercises ee ! i) = t) \<and>
    distinct (map x_tag (en_exercises ee)) \<and>
    (let used = concat (map x_ips (en_exercises ee)) in distinct (filter (\<lambda>d. d \<noteq> 0) used) \<and> set used \<subseteq> insert 0 {30..<255})"
proof -
  note ok = env_reachable_ok [OF assms]
  then have tags: "map_get (en_tags ee) t = Some i \<longleftrightarrow> i < length (en_exercises ee) \<and> x_tag (en_exercises ee ! i) = t" for t i
    unfolding env_ok_def by blast
  have "distinct (map x_tag (en_exercises ee))"
    unfolding distinct_conv_nth length_map
  proof (intro allI impI)
    fix i j assume "i < length (en_exercises ee)" "j < length (en_exercises ee)" "i \<noteq> j"
    with tags [of "x_tag (en_exercises ee ! i)" i] tags [of "x_tag (en_exercises ee ! i)" j]
    show "map x_tag (en_exercises ee) ! i \<noteq> map x_tag (en_exercises ee) ! j" by auto
  qed
  with tags ok show ?thesis by (auto simp: env_ok_def net_ok_def used_ips_def Let_def)
qed

text \<open>A lab of two exercises with a container each, and one with a machine.\<close>

definition quiet_host :: host where "quiet_host = (\<lambda>_. None)"

definition lab_exercise :: "string \<Rightarrow> string \<Rightarrow> exercise_conf" where
  "lab_exercise tag img = \<lparr>ex_tag = tag, ex_name = tag, ex_category = ''Web'', ex_secret = False, ex_static = False,
     ex_instances = [\<lparr>ei_image = img, ei_memory = 50, ei_cpu = 1, ei_envs = [],
       ei_flags = [\<lparr>cc_tag = tag @ ''-1'', cc_name = tag, cc_env = ''FLAG'', cc_static_flag = ''flag'', cc_points = 5,
          cc_category = ''Web'', cc_description = [], cc_prereqs = [], cc_outcomes = [], cc_static = False\<rparr>],
       ei_records = [\<lparr>r_type = ''A'', r_name = tag @ ''.com'', r_data = []\<rparr>]\<rparr>], ex_description = []\<rparr>"

definition sample_lab_env :: environment where
  "sample_lab_env = NewEnvironment ''77.1.2.0/24'' 0 (0, 0)"

lemmas run_lab = call_def machine_to_def Let_def Connect_def getRandomIP_def NewExercise_def ContainerOpts_def container_opt_def
  exercise_Create_def new_machine_def lab_docker_def with_address_def add_exercise_def push_exercise_def record_address_def
  OvaSuffix_def zero_docker_def

lemma no_ova: "\<not> Contains ''sql:1'' ''.ova''" "Contains ''vm.ova'' ''.ova''" "\<not> Contains ''sql:1'' ''client''"
  by code_simp+

lemma sample_add:
  "\<exists>ee. Add quiet_host fs [lab_exercise ''sql'' ''sql:1'', lab_exercise ''vm'' ''vm.ova''] sample_lab_env = Some (Ret (None, ee)) \<and>
     map x_tag (en_exercises ee) = [''sql'', ''vm''] \<and> concat (map x_ips (en_exercises ee)) = [30]"
  by (simp add: run_lab quiet_host_def lab_exercise_def sample_lab_env_def NewEnvironment_def NewNetwork_def FormatIP_def
      no_ova map_get_def map_put_def upt_rec)

lemma lab_well_formed_witness:
  "\<exists>ee. env_reachable ''77.1.2.0/24'' ee \<and> map x_tag (en_exercises ee) = [''sql'', ''vm''] \<and>
     distinct (map x_tag (en_exercises ee)) \<and>
     (let used = concat (map x_ips (en_exercises ee)) in used = [30] \<and> distinct (filter (\<lambda>d. d \<noteq> 0) used))"
proof -
  obtain ee where ee: "Add quiet_host (\<lambda>_. 0, \<lambda>_. 0) [lab_exercise ''sql'' ''sql:1'', lab_exercise ''vm'' ''vm.ova''] sample_lab_env =
      Some (Ret (None, ee))" "map x_tag (en_exercises ee) = [''sql'', ''vm'']" "concat (map x_ips (en_exercises ee)) = [30]"
    using sample_add [of "(\<lambda>_. 0, \<lambda>_. 0)"] by (elim exE conjE)
  have reach: "env_reachable ''77.1.2.0/24'' ee"
    by (rule env_reachable.step [OF env_reachable.new [of _ 0 "(0, 0)"],
          where h = quiet_host and fs = "(\<lambda>_. 0, \<lambda>_. 0)" and err = None and
            op = "OpAdd [lab_exercise ''sql'' ''sql:1'', lab_exercise ''vm'' ''vm.ova'']"])
       (use ee(1) in \<open>simp add: run_env_def sample_lab_env_def\<close>)
  have "distinct (map x_tag (en_exercises ee))" using lab_well_formed [OF reach] by blast
  with reach ee(2,3) show ?thesis by (intro exI [of _ ee]) simp
qed

subsection \<open>The challenges of a lab\<close>

lemma foldl_snoc: "foldl (\<lambda>cs x. cs @ g x) acc xs = acc @ concat (map g xs)"
  by (rule foldl_append_map)

lemma exercise_Challenges_eq:
  "exercise_Challenges e = concat (map co_challenges (x_opts e)) @ map vm_challenge (concat (map ei_flags (x_vbox e)))"
  by (simp add: exercise_Challenges_def foldl_snoc foldl_snoc_map map_concat comp_def)

lemma opts_loop_tags:
  "opts_loop src rnd static is st = Some (opts, st') \<Longrightarrow>
   map ch_tag (concat (map co_challenges opts)) = map cc_tag (concat (map ei_flags is))"
proof (induction "is" arbitrary: st opts)
  case (Cons i "is")
  from Cons.prems obtain opt st1 opts1 where o: "container_opt src rnd static i st = Some (opt, st1)"
    "opts_loop src rnd static is st1 = Some (opts1, st')" "opts = opt # opts1"
    by (auto split: option.splits)
  from o(1) obtain env cs where "flag_loop src rnd (ei_flags i) [] [] st = Some (env, cs, st1)" "co_challenges opt = cs"
    by (auto simp: container_opt_def Let_def split: option.splits)
  then have "map ch_tag (co_challenges opt) = map cc_tag (ei_flags i)" using flag_loop_result by fastforce
  with o Cons.IH show ?case by simp
qed simp

lemma instance_loop_result:
  "instance_loop is acc = (vbox, docker) \<Longrightarrow>
   (\<exists>pre. vbox = acc @ pre \<and> set pre \<subseteq> set is \<and> (\<not> docker \<longrightarrow> pre = is)) \<and>
   (docker \<longleftrightarrow> list_ex (\<lambda>i. \<not> Contains (ei_image i) OvaSuffix) is)"
proof (induction "is" acc arbitrary: vbox docker rule: instance_loop.induct)
  case (2 c cs vbox0)
  then show ?case by (cases "Contains (ei_image c) OvaSuffix") fastforce+
qed simp

text \<open>A static exercise of VirtualBox images only loses its flags.\<close>

definition keeps_flags :: "exercise_conf \<Rightarrow> bool" where
  "keeps_flags conf \<longleftrightarrow> ex_static conf \<longrightarrow> list_ex (\<lambda>i. \<not> Contains (ei_image i) OvaSuffix) (ex_instances conf) \<or> Exercise_Flags conf = []"

lemma NewExercise_tags:
  assumes "NewExercise fs conf a st = Some (e, st')" and "keeps_flags conf"
  shows "ch_tag ` set (exercise_Challenges e) = set (Exercise_ChildTags conf)"
proof -
  let ?is = "ex_instances conf"
  obtain vbox docker where loop: "instance_loop ?is [] = (vbox, docker)" by fastforce
  from instance_loop_result [OF loop] have vb: "set vbox \<subseteq> set ?is" "\<not> docker \<Longrightarrow> vbox = ?is"
    "docker \<longleftrightarrow> list_ex (\<lambda>i. \<not> Contains (ei_image i) OvaSuffix) ?is" by auto
  have tags: "set (Exercise_ChildTags conf) = cc_tag ` set (concat (map ei_flags ?is))"
    by (auto simp: Exercise_ChildTags_def Exercise_Flags_eq image_image)
  have vm: "ch_tag ` vm_challenge ` A = cc_tag ` A" for A by (simp add: image_image vm_challenge_def)
  show ?thesis
  proof (cases docker)
    case True
    with assms(1) loop obtain opts where opts: "ContainerOpts (fst fs) (snd fs) conf st = Some (opts, st')"
      "x_opts e = opts" "x_vbox e = (if ex_static conf then [] else vbox)"
      by (auto simp: NewExercise_def)
    from opts_loop_tags [OF opts(1) [unfolded ContainerOpts_def]]
    have "ch_tag ` set (concat (map co_challenges opts)) = cc_tag ` set (concat (map ei_flags ?is))" by (metis set_map)
    moreover have "cc_tag ` set (concat (map ei_flags (x_vbox e))) \<subseteq> cc_tag ` set (concat (map ei_flags ?is))"
      using vb(1) by (auto simp: opts(3))
    ultimately show ?thesis by (auto simp: exercise_Challenges_eq tags opts(2) image_Un vm simp del: set_concat)
  next
    case False
    with assms(1) loop have e: "x_opts e = []" "x_vbox e = (if ex_static conf then [] else ?is)"
      using vb(2) by (auto simp: NewExercise_def)
    show ?thesis
    proof (cases "ex_static conf")
      case True
      with assms(2) vb(3) False have "Exercise_Flags conf = []" by (simp add: keeps_flags_def)
      with True e show ?thesis by (simp add: exercise_Challenges_eq Exercise_ChildTags_def)
    next
      case no: False
      with e show ?thesis by (simp add: exercise_Challenges_eq tags vm del: set_concat)
    qed
  qed
qed

lemma exercise_Create_same:
  "exercise_Create h nw n e = Ret (err, e', nw', n') \<Longrightarrow> exercise_Challenges e' = exercise_Challenges e"
  by (auto simp: exercise_Create_def go_bind_Ret exercise_Challenges_def split: option.splits prod.splits)

lemma environment_Challenges_push:
  "environment_Challenges (push_exercise e ee) = environment_Challenges ee @ exercise_Challenges e"
  by (simp add: environment_Challenges_def push_exercise_def)

lemma add_exercise_tags:
  assumes "add_exercise h fs conf ee = Some (Ret (None, ee'))" and "keeps_flags conf"
  shows "ch_tag ` set (environment_Challenges ee') = ch_tag ` set (environment_Challenges ee) \<union> set (Exercise_ChildTags conf)"
proof -
  from assms(1) obtain e st where new: "NewExercise fs conf (en_dns_addr ee) (en_rng ee) = Some (e, st)"
    by (auto simp: add_exercise_def split: option.splits)
  have "\<exists>e1 ee1. ee' = push_exercise e1 ee1 \<and> exercise_Challenges e1 = exercise_Challenges e \<and> en_exercises ee1 = en_exercises ee"
  proof (cases "ex_static conf")
    case True
    with assms(1) new show ?thesis
      by (intro exI [of _ e] exI [of _ "ee\<lparr>en_rng := st\<rparr>"]) (simp add: add_exercise_def)
  next
    case False
    with assms(1) new obtain e1 nw1 n1 recs where "exercise_Create h (en_net ee) (en_next ee) e = Ret (None, e1, nw1, n1)"
      "ee' = push_exercise e1 (ee\<lparr>en_rng := st, en_net := nw1, en_next := n1, en_records := en_records ee @ recs\<rparr>)"
      by (auto simp: add_exercise_def Let_def go_bind_Ret split: option.splits)
    with exercise_Create_same show ?thesis by (intro exI conjI) (assumption, blast, simp)
  qed
  then obtain e1 ee1 where r: "ee' = push_exercise e1 ee1" "exercise_Challenges e1 = exercise_Challenges e" "en_exercises ee1 = en_exercises ee"
    by blast
  from r(3) have "environment_Challenges ee1 = environment_Challenges ee" by (simp add: environment_Challenges_def)
  then show ?thesis using NewExercise_tags [OF new assms(2)] by (simp add: r environment_Challenges_push image_Un)
qed

lemma Add_Cons:
  assumes "Add h fs (conf # confs) ee = Some (Ret (None, ee'))"
  obtains ee1 where "ex_tag conf \<noteq> []" "map_get (en_tags ee) (ex_tag conf) = None"
    "add_exercise h fs conf ee = Some (Ret (None, ee1))" "Add h fs confs ee1 = Some (Ret (None, ee'))"
  using assms by (auto split: if_splits option.splits go.splits)

lemma Add_tags:
  "Add h fs confs ee = Some (Ret (None, ee')) \<Longrightarrow> list_all keeps_flags confs \<Longrightarrow>
   ch_tag ` set (environment_Challenges ee') =
     ch_tag ` set (environment_Challenges ee) \<union> set (concat (map Exercise_ChildTags confs))"
proof (induction confs arbitrary: ee)
  case (Cons conf confs)
  from Cons.prems(1) obtain ee1 where "add_exercise h fs conf ee = Some (Ret (None, ee1))" "Add h fs confs ee1 = Some (Ret (None, ee'))"
    by (rule Add_Cons)
  with Cons.IH add_exercise_tags Cons.prems(2) show ?case by (simp add: Un_assoc)
qed simp

lemma new_lab_tags:
  assumes "NewLab h fs conf tag ports (NewEnvironment subnet n st) = Some (Ret (Inr l))"
    and "list_all keeps_flags (lc_exercises conf)"
  shows "ch_tag ` set (environment_Challenges (lb_env l)) = cc_tag ` set (Config_Flags conf)"
proof -
  from assms(1) obtain ee where add: "Add h fs (lc_exercises conf) (NewEnvironment subnet n st) = Some (Ret (None, ee))"
    and front: "add_frontends h (zip ports (lc_frontends conf))
       \<lparr>lb_tag = tag, lb_env = SetDisabledExercises (lc_disabled conf) ee, lb_frontends = []\<rparr> = Inr l"
    by (auto simp: NewLab_def go_bind_Ret split: option.splits)
  have "en_exercises (lb_env l') = en_exercises (lb_env l)" if "add_frontends h ps l = Inr l'" for ps l l'
    using that
    by (induction h ps l rule: add_frontends.induct)
       (auto simp: addFrontend_def Let_def split: option.splits)
  from this [OF front] have "en_exercises (lb_env l) = en_exercises ee" by (simp add: SetDisabledExercises_def)
  then have "environment_Challenges (lb_env l) = environment_Challenges ee" by (simp add: environment_Challenges_def)
  moreover have "environment_Challenges (NewEnvironment subnet n st) = []" by (simp add: environment_Challenges_def NewEnvironment_def)
  moreover have "set (concat (map Exercise_ChildTags cs)) = cc_tag ` set (concat (map Exercise_Flags cs))" for cs
    by (auto simp: Exercise_ChildTags_def)
  ultimately show ?thesis using Add_tags [OF add assms(2)] by (simp add: Config_Flags_eq del: set_concat)
qed

text \<open>
  The challenges of a new lab are exactly those the event's site shows: the tags of all flags of
  the event's exercises, whichever mixture of containers and machines they are made of. The
  exception is a static exercise of machines only, whose flags the lab does not have.
\<close>
theorem new_lab_has_all_flags:
  assumes "NewLab h fs conf tag ports (NewEnvironment subnet n st) = Some (Ret (Inr l))"
    and "list_all keeps_flags (lc_exercises conf)"
  shows "ch_tag ` set (environment_Challenges (lb_env l)) = cc_tag ` set (Config_Flags conf)"
  using assms by (rule new_lab_tags)

lemma new_lab_has_all_flags_witness:
  "\<exists>l. NewLab quiet_host (\<lambda>_. 0, \<lambda>_. 0)
       \<lparr>lc_frontends = [], lc_exercises = [lab_exercise ''sql'' ''sql:1'', lab_exercise ''vm'' ''vm.ova''], lc_disabled = []\<rparr>
       ''angry_turing'' [] sample_lab_env = Some (Ret (Inr l)) \<and>
     ch_tag ` set (environment_Challenges (lb_env l)) = {''sql-1'', ''vm-1''}"
proof -
  let ?exs = "[lab_exercise ''sql'' ''sql:1'', lab_exercise ''vm'' ''vm.ova'']"
  let ?conf = "\<lparr>lc_frontends = [], lc_exercises = ?exs, lc_disabled = []\<rparr>"
  obtain ee where ee: "Add quiet_host (\<lambda>_. 0, \<lambda>_. 0) ?exs sample_lab_env = Some (Ret (None, ee))"
    using sample_add [of "(\<lambda>_. 0, \<lambda>_. 0)"] by (elim exE conjE)
  let ?l = "\<lparr>lb_tag = ''angry_turing'', lb_env = SetDisabledExercises [] ee, lb_frontends = []\<rparr>"
  have lab: "NewLab quiet_host (\<lambda>_. 0, \<lambda>_. 0) ?conf ''angry_turing'' [] sample_lab_env = Some (Ret (Inr ?l))"
    by (simp add: NewLab_def ee del: Add.simps)
  have "list_all keeps_flags (lc_exercises ?conf)" by (simp add: keeps_flags_def lab_exercise_def)
  from new_lab_has_all_flags [OF lab [unfolded sample_lab_env_def] this]
  have "ch_tag ` set (environment_Challenges (lb_env ?l)) = {''sql-1'', ''vm-1''}"
    by (simp add: Config_Flags_eq Exercise_Flags_eq lab_exercise_def)
  with lab show ?thesis by blast
qed

text \<open>Starting a lab does not touch its challenges.\<close>

lemma exercise_Start_Challenges: "exercise_Challenges (snd (exercise_Start h e)) = exercise_Challenges e"
  by (simp add: exercise_Start_def exercise_Challenges_def split: prod.split)

lemma lab_Start_Challenges:
  "environment_Challenges (lb_env (snd (lab_Start h l))) = environment_Challenges (lb_env l)"
proof -
  have eq: "environment_Challenges ee = concat (map exercise_Challenges (en_exercises ee))" for ee
    by (simp add: environment_Challenges_def foldl_append_map)
  have "map exercise_Challenges (snd (run_all f es)) = map exercise_Challenges es"
    if "\<And>e. exercise_Challenges (snd (f e)) = exercise_Challenges e" for f es
    using that by (rule run_all_keeps)
  then have start: "map exercise_Challenges (snd (run_all (\<lambda>e. if P e then (None, e) else exercise_Start h e) es)) = map exercise_Challenges es"
    for P es by (simp add: exercise_Start_Challenges)
  have dns: "en_exercises (snd (refreshDNS h ee)) = en_exercises ee" for ee
    by (auto simp: refreshDNS_def Let_def split: option.split)
  have dhcp: "en_exercises (snd (start_dhcp h b ee)) = en_exercises ee" for ee b
    by (auto simp: start_dhcp_def Let_def split: option.split)
  have env: "map exercise_Challenges (en_exercises (snd (environment_Start h ee))) = map exercise_Challenges (en_exercises ee)" for ee
  proof -
    obtain r1 e1 where 1: "refreshDNS h ee = (r1, e1)" by fastforce
    obtain r2 e2 where 2: "start_dhcp h False e1 = (r2, e2)" by fastforce
    obtain r3 es where 3: "run_all (\<lambda>e. if x_tag e \<in> set (en_disabled e2) then (None, e) else exercise_Start h e) (en_exercises e2) = (r3, es)"
      by fastforce
    have q1: "en_exercises e1 = en_exercises ee" using dns [of ee] 1 by simp
    have q2: "en_exercises e2 = en_exercises e1" using dhcp [of False e1] 2 by simp
    have "map exercise_Challenges es = map exercise_Challenges (en_exercises e2)"
      using start [of "\<lambda>e. x_tag e \<in> set (en_disabled e2)" "en_exercises e2"] 3 by simp
    with q1 q2 show ?thesis by (cases r1; cases r2) (simp_all add: environment_Start_def 1 2 3 [unfolded q2 q1])
  qed
  obtain r ee where s: "environment_Start h (lb_env l) = (r, ee)" by fastforce
  have "map exercise_Challenges (en_exercises ee) = map exercise_Challenges (en_exercises (lb_env l))"
    using env [of "lb_env l"] s by simp
  then show ?thesis by (cases r) (simp_all add: eq lab_Start_def s each_frontend_def split: prod.split)
qed

subsection \<open>Adding twice, resetting, suspending\<close>

lemma Add_keeps_tag: "Add h fs confs ee = Some (Ret (err, ee')) \<Longrightarrow> map_get (en_tags ee) t \<noteq> None \<Longrightarrow> map_get (en_tags ee') t \<noteq> None"
proof (induction confs arbitrary: ee)
  case (Cons conf confs)
  have step: "map_get (en_tags ee1) t \<noteq> None" if "add_exercise h fs conf ee = Some (Ret (e, ee1))" for e ee1
    using that Cons.prems(2)
    by (auto simp: add_exercise_def Let_def go_bind_Ret push_exercise_def split: option.splits if_splits)
  with Cons show ?case by (auto split: if_splits option.splits go.splits)
qed simp

lemma add_exercise_tag:
  "add_exercise h fs conf ee = Some (Ret (None, ee')) \<Longrightarrow> map_get (en_tags ee') (ex_tag conf) \<noteq> None"
  using NewExercise_fields
  by (auto simp: add_exercise_def Let_def go_bind_Ret push_exercise_def exercise_Create_def split: option.splits if_splits prod.splits)

lemma start_added_tags: "en_tags (snd (start_added h confs e ee)) = en_tags ee"
proof (induction confs arbitrary: e ee)
  case (Cons ch confs)
  obtain r ee1 where s: "StartByTag h (ex_tag ch) ee = (r, ee1)" by fastforce
  then have "en_tags ee1 = en_tags ee" by (auto simp: StartByTag_def put_exercise_def split: sum.splits prod.splits)
  with Cons s show ?case by simp
qed simp

text \<open>
  Adding the same challenges to a lab a second time is refused and changes nothing. The daemon does just
  this for every lab that is assigned to a team, as the hub's labs, which get the
  challenges first, include the assigned ones.
\<close>
theorem challenges_added_once:
  assumes "Add h fs confs (lb_env l) = Some (Ret (None, ee))" and "confs \<noteq> []"
    and "lab_AddChallenge h fs confs l = Some (Ret (e, l'))"
  shows "lab_AddChallenge h' fs' confs l' = Some (Ret (Some DuplicateTagErr, l'))"
proof -
  obtain conf rest where confs: "confs = conf # rest" using assms(2) by (cases confs) auto
  from assms(1) obtain ee1 where "ex_tag conf \<noteq> []" and first: "add_exercise h fs conf (lb_env l) = Some (Ret (None, ee1))"
      "Add h fs rest ee1 = Some (Ret (None, ee))"
    unfolding confs by (rule Add_Cons)
  then have "map_get (en_tags ee) (ex_tag conf) \<noteq> None" using add_exercise_tag Add_keeps_tag by blast
  moreover from assms(1,3) have "lb_env l' = snd (start_added h confs None ee)"
    by (auto simp: lab_AddChallenge_def split: prod.splits)
  ultimately have "map_get (en_tags (lb_env l')) (ex_tag conf) \<noteq> None" by (simp add: start_added_tags)
  with \<open>ex_tag conf \<noteq> []\<close> have "Add h' fs' confs (lb_env l') = Some (Ret (Some DuplicateTagErr, lb_env l'))"
    by (auto simp: confs)
  then show ?thesis by (simp add: lab_AddChallenge_def)
qed

lemma challenges_added_once_witness:
  "\<exists>l'. lab_AddChallenge quiet_host (\<lambda>_. 0, \<lambda>_. 0) [lab_exercise ''sql'' ''sql:1'', lab_exercise ''vm'' ''vm.ova'']
       \<lparr>lb_tag = ''a'', lb_env = sample_lab_env, lb_frontends = []\<rparr> = Some (Ret l') \<and>
     lab_AddChallenge quiet_host (\<lambda>_. 0, \<lambda>_. 0) [lab_exercise ''sql'' ''sql:1'', lab_exercise ''vm'' ''vm.ova''] (snd l') =
       Some (Ret (Some DuplicateTagErr, snd l'))"
proof -
  let ?exs = "[lab_exercise ''sql'' ''sql:1'', lab_exercise ''vm'' ''vm.ova'']"
  let ?l = "\<lparr>lb_tag = ''a'', lb_env = sample_lab_env, lb_frontends = []\<rparr>"
  obtain ee where "Add quiet_host (\<lambda>_. 0, \<lambda>_. 0) ?exs sample_lab_env = Some (Ret (None, ee))"
    using sample_add [of "(\<lambda>_. 0, \<lambda>_. 0)"] by (elim exE conjE)
  then have add: "Add quiet_host (\<lambda>_. 0, \<lambda>_. 0) ?exs (lb_env ?l) = Some (Ret (None, ee))" by (simp del: Add.simps)
  obtain e ee1 where "start_added quiet_host ?exs None ee = (e, ee1)" by fastforce
  with add have run: "lab_AddChallenge quiet_host (\<lambda>_. 0, \<lambda>_. 0) ?exs ?l = Some (Ret (e, ?l\<lparr>lb_env := ee1\<rparr>))"
    by (simp add: lab_AddChallenge_def del: Add.simps start_added.simps)
  show ?thesis
    using challenges_added_once [OF add _ run, of quiet_host "(\<lambda>_. 0, \<lambda>_. 0)"] run
    by (intro exI [of _ "(e, ?l\<lparr>lb_env := ee1\<rparr>)"]) (simp del: Add.simps start_added.simps)
qed

lemma container_loop_records:
  "container_loop h a ips i opts s = Ret (None, s') \<Longrightarrow>
   map r_name (cs_dns s') = map r_name (cs_dns s) @ concat (map (\<lambda>opt. map r_name (co_records opt)) opts)"
proof (induction opts arbitrary: i s)
  case (Cons opt opts)
  have names: "map r_name (map (with_address x) rs) = map r_name rs" for x rs by (simp add: with_address_def)
  let ?conf = "lab_docker a (co_docker opt)"
  let ?c = "new_machine (dc_image ?conf) s"
  let ?ip = "if ips \<noteq> [] then Some (ips ! i) else None"
  obtain e d nw where conn: "Connect h (mc_id ?c) ?ip (cs_net s) = (e, d, nw)" by (metis prod_cases3)
  let ?s1 = "s\<lparr>cs_net := nw, cs_next := Suc (cs_next s), cs_machines := cs_machines s @ [?c],
      cs_dns := cs_dns s @ map (with_address (FormatIP nw d)) (co_records opt),
      cs_new_ips := (if ips \<noteq> [] then cs_new_ips s else cs_new_ips s @ [d])\<rparr>"
  have ok: "call h (CreateContainer ?conf) = None" "\<not> (ips \<noteq> [] \<and> length ips \<le> i)" "e = None"
    using Cons.prems conn by (auto simp: Let_def split: option.splits if_splits)
  with Cons.prems conn have "container_loop h a ips (Suc i) opts ?s1 = Ret (None, s')" by (simp only: container_loop.simps Let_def) simp
  from Cons.IH [OF this] names show ?case by simp
qed simp

lemma vm_loop_records: "vm_loop h vs s = (err, s') \<Longrightarrow> cs_dns s' = cs_dns s"
  by (induction vs arbitrary: s) (fastforce split: option.splits)+

definition own_records :: "exercise \<Rightarrow> string list" where
  "own_records e = concat (map (\<lambda>opt. map r_name (co_records opt)) (x_opts e))"

text \<open>
  Every successful reset of an exercise adds its DNS records once more: creating it fills the
  list that the environment's DNS server is built from, and closing it does not empty the list.
\<close>
theorem reset_repeats_records:
  assumes "ResetByTag h s ee = Ret (None, ee')" and "by_tag s ee = Inr i" and "env_reachable subnet ee"
  shows "map r_name (x_dns (en_exercises ee' ! i)) = map r_name (x_dns (en_exercises ee ! i)) @ own_records (en_exercises ee ! i)"
proof -
  let ?e = "en_exercises ee ! i"
  have i: "i < length (en_exercises ee)" by (rule by_tag_bound [OF env_reachable_ok [OF assms(3)] assms(2)])
  from assms(1,2) obtain e1 nw n where r: "exercise_Reset h (en_net ee) (en_next ee) ?e = Ret (None, e1, nw, n)"
    "ee' = (put_exercise i e1 ee)\<lparr>en_net := nw, en_next := n\<rparr>"
    by (auto simp: ResetByTag_def go_bind_Ret)
  from r(1) obtain e2 where c: "exercise_Create h (en_net ee) (en_next ee) (exercise_Close ?e) = Ret (None, e2, nw, n)"
    and start: "exercise_Start h e2 = (None, e1)"
    by (auto simp: exercise_Reset_def go_bind_Ret split: option.splits prod.splits)
  let ?s = "\<lparr>cs_dns = x_dns ?e, cs_machines = [], cs_new_ips = [], cs_net = en_net ee, cs_next = en_next ee\<rparr>"
  from c obtain s1 where loop: "container_loop h (x_dns_addr ?e) (x_ips ?e) 0 (x_opts ?e) ?s = Ret (None, s1)"
    and vms: "\<exists>s2. vm_loop h (x_vbox ?e) s1 = (None, s2) \<and> x_dns e2 = cs_dns s2"
    by (auto simp: exercise_Create_def exercise_Close_def go_bind_Ret split: option.splits prod.splits)
  from start have "x_dns e1 = x_dns e2" by (auto simp: exercise_Start_def split: prod.splits)
  moreover from vms vm_loop_records have "x_dns e2 = cs_dns s1" by metis
  moreover have "en_exercises ee' ! i = e1" using i by (simp add: r(2) put_exercise_def)
  ultimately show ?thesis using container_loop_records [OF loop] by (simp add: own_records_def)
qed

text \<open>The machines of an exercise run together or not at all, and none is suspended.\<close>

definition uniform :: "machine list \<Rightarrow> bool" where
  "uniform ms \<longleftrightarrow> list_all (\<lambda>m. mc_state m = VRunning) ms \<or> list_all (\<lambda>m. mc_state m \<notin> {VRunning, VSuspended}) ms"

lemma quiet [simp]: "call quiet_host c = None"
  by (simp add: call_def quiet_host_def)

lemma quiet_steps [simp]:
  "start_machine quiet_host m = (None, m\<lparr>mc_state := VRunning\<rparr>)" "suspend_machine quiet_host m = (None, m\<lparr>mc_state := VSuspended\<rparr>)"
  by (simp_all add: start_machine_def suspend_machine_def machine_to_def)

definition to_suspended :: "machine \<Rightarrow> machine" where
  "to_suspended m = (if mc_state m = VRunning then m\<lparr>mc_state := VSuspended\<rparr> else m)"

lemma exercise_Suspend_quiet:
  "exercise_Suspend quiet_host e = (None, e\<lparr>x_machines := map to_suspended (x_machines e)\<rparr>)"
proof -
  have "until_error (\<lambda>m. if mc_state m = VRunning then suspend_machine quiet_host m else (None, m)) (x_machines e) =
      (None, map to_suspended (x_machines e))"
    by (subst until_error_ok) (auto simp: to_suspended_def)
  then show ?thesis by (simp add: exercise_Suspend_def)
qed

lemma exercise_Start_quiet:
  "exercise_Start quiet_host e = (None, e\<lparr>x_machines := map (\<lambda>m. m\<lparr>mc_state := VRunning\<rparr>) (x_machines e)\<rparr>)"
proof -
  have "run_all (\<lambda>m. if mc_state m \<noteq> VRunning then start_machine quiet_host m else (None, m)) (x_machines e) =
      (None, map (\<lambda>m. m\<lparr>mc_state := VRunning\<rparr>) (x_machines e))"
    by (subst run_all_ok) auto
  then show ?thesis by (simp add: exercise_Start_def)
qed

lemma machine_running [simp]: "mc_state m = VRunning \<Longrightarrow> m\<lparr>mc_state := VRunning\<rparr> = m"
  by simp

lemma resume_loop_running:
  "list_all (\<lambda>m. mc_state m = VRunning) (x_machines e) \<Longrightarrow> resume_loop quiet_host is e = (None, e)"
proof (induction "is")
  case (Cons i "is")
  then have "map (\<lambda>m. m\<lparr>mc_state := VRunning\<rparr>) (x_machines e) = x_machines e" by (auto simp: list_all_iff intro: map_idI)
  with Cons show ?case by (simp add: exercise_Start_quiet)
qed simp

lemma resume_loop_none: "list_all (\<lambda>m. mc_state m \<noteq> VSuspended) is \<Longrightarrow> resume_loop h is e = (None, e)"
  by (induction "is") auto

lemma exercise_roundtrip:
  assumes "uniform (x_machines e)"
  shows "resume_loop quiet_host (map to_suspended (x_machines e)) (e\<lparr>x_machines := map to_suspended (x_machines e)\<rparr>) = (None, e)"
proof (cases "list_all (\<lambda>m. mc_state m = VRunning) (x_machines e)")
  case True
  then have same: "map (\<lambda>m. (to_suspended m)\<lparr>mc_state := VRunning\<rparr>) (x_machines e) = x_machines e"
    by (auto simp: list_all_iff to_suspended_def intro!: map_idI)
  show ?thesis
  proof (cases "x_machines e")
    case Nil
    then show ?thesis by simp
  next
    case (Cons m ms)
    with True have first: "mc_state (to_suspended m) = VSuspended" by (simp add: to_suspended_def)
    have "exercise_Start quiet_host (e\<lparr>x_machines := map to_suspended (x_machines e)\<rparr>) = (None, e)"
      using same by (simp add: exercise_Start_quiet comp_def)
    then show ?thesis using first resume_loop_running [OF True] by (simp add: Cons)
  qed
next
  case False
  with assms have "list_all (\<lambda>m. mc_state m \<notin> {VRunning, VSuspended}) (x_machines e)" by (simp add: uniform_def)
  moreover from this have "map to_suspended (x_machines e) = x_machines e"
    by (auto simp: list_all_iff to_suspended_def intro!: map_idI)
  ultimately show ?thesis using resume_loop_none [of "x_machines e"] by (simp add: list_all_iff)
qed

lemma environment_roundtrip:
  assumes "list_all (\<lambda>e. uniform (x_machines e)) (en_exercises ee)"
  shows "\<exists>ee'. environment_Suspend quiet_host ee = (None, ee') \<and> environment_Resume quiet_host ee' = (None, ee) \<and>
    (\<forall>e \<in> set (en_exercises ee'). \<forall>m \<in> set (x_machines e). mc_state m \<noteq> VRunning)"
proof -
  let ?susp = "\<lambda>e. e\<lparr>x_machines := map to_suspended (x_machines e)\<rparr>"
  let ?ee = "ee\<lparr>en_exercises := map ?susp (en_exercises ee)\<rparr>"
  have "until_error (exercise_Suspend quiet_host) (en_exercises ee) = (None, map ?susp (en_exercises ee))"
    by (subst until_error_ok) (auto simp: exercise_Suspend_quiet)
  then have "environment_Suspend quiet_host ee = (None, ?ee)" by (simp add: environment_Suspend_def)
  moreover have "until_error (\<lambda>e. resume_loop quiet_host (x_machines e) e) (map ?susp (en_exercises ee)) = (None, en_exercises ee)"
  proof -
    have "resume_loop quiet_host (x_machines (?susp e)) (?susp e) = (None, e)" if "e \<in> set (en_exercises ee)" for e
      using exercise_roundtrip [of e] assms that by (simp add: list_all_iff)
    then show ?thesis by (subst until_error_ok) (auto simp: comp_def intro!: map_idI)
  qed
  then have "environment_Resume quiet_host ?ee = (None, ee)" by (simp add: environment_Resume_def)
  ultimately show ?thesis by (intro exI [of _ ?ee]) (auto simp: to_suspended_def)
qed

definition steady :: "lab \<Rightarrow> bool" where
  "steady l \<longleftrightarrow> list_all (\<lambda>e. uniform (x_machines e)) (en_exercises (lb_env l)) \<and>
     list_all (\<lambda>(p, vm, conf). mc_state vm \<noteq> VSuspended) (lb_frontends l)"

text \<open>
  Suspending a lab stops every running machine of it, and resuming it brings back exactly the lab from
  before, if the host refuses nothing, no machine was suspended already, and the machines of each exercise
  were running together or not at all. (Otherwise resuming starts the machines that were not running as well.)
\<close>
theorem suspend_resume:
  assumes "steady l"
  shows "\<exists>l'. lab_Suspend quiet_host l = (None, l') \<and> lab_Resume quiet_host l' = (None, l) \<and>
    (\<forall>m \<in> set (lab_InstanceInfo l'). mc_state m \<noteq> VRunning)"
proof -
  let ?f = "\<lambda>(p :: nat, vm, conf :: instance_config). (p, to_suspended vm, conf)"
  have env: "list_all (\<lambda>e. uniform (x_machines e)) (en_exercises (lb_env l))"
    and front: "list_all (\<lambda>(p, vm, conf). mc_state vm \<noteq> VSuspended) (lb_frontends l)"
    using assms by (simp_all add: steady_def)
  from environment_roundtrip [OF env] obtain ee' where ee': "environment_Suspend quiet_host (lb_env l) = (None, ee')"
    "environment_Resume quiet_host ee' = (None, lb_env l)"
    "\<forall>e \<in> set (en_exercises ee'). \<forall>m \<in> set (x_machines e). mc_state m \<noteq> VRunning" by blast
  let ?l = "\<lparr>lb_tag = lb_tag l, lb_env = ee', lb_frontends = map ?f (lb_frontends l)\<rparr>"
  let ?s = "\<lambda>m. if mc_state m = VRunning then suspend_machine quiet_host m else (None, m)"
  let ?r = "\<lambda>m. if mc_state m = VSuspended then start_machine quiet_host m else (None, m)"
  have "until_error (\<lambda>(p, vm, conf). case ?s vm of (e, vm) \<Rightarrow> (e, (p, vm, conf))) (lb_frontends l) = (None, map ?f (lb_frontends l))"
    by (subst until_error_ok) (auto simp: to_suspended_def split: if_splits)
  with ee'(1) have "lab_Suspend quiet_host l = (None, ?l)" by (simp add: lab_Suspend_def each_frontend_def)
  moreover have "until_error (\<lambda>(p, vm, conf). case ?r vm of (e, vm) \<Rightarrow> (e, (p, vm, conf))) (map ?f (lb_frontends l)) =
      (None, lb_frontends l)"
  proof -
    have "snd ((\<lambda>(p, vm, conf). case ?r vm of (e, vm) \<Rightarrow> (e, (p, vm, conf))) (?f x)) = x" if "x \<in> set (lb_frontends l)" for x
      using front that by (auto simp: list_all_iff to_suspended_def)
    then show ?thesis by (subst until_error_ok) (auto simp: comp_def split: if_splits intro!: map_idI)
  qed
  with ee'(2) have "lab_Resume quiet_host ?l = (None, l)" by (simp add: lab_Resume_def each_frontend_def)
  moreover have "mc_state m \<noteq> VRunning" if "m \<in> set (environment_InstanceInfo ee')" for m
    using that ee'(3) by (auto simp: environment_InstanceInfo_def foldl_snoc)
  then have "\<forall>m \<in> set (lab_InstanceInfo ?l). mc_state m \<noteq> VRunning"
    by (auto simp: lab_InstanceInfo_def to_suspended_def split: if_splits)
  ultimately show ?thesis by blast
qed

lemma suspend_resume_witness:
  "\<exists>l'. lab_Suspend quiet_host \<lparr>lb_tag = ''a'', lb_env = sample_lab_env\<lparr>en_exercises := [\<lparr>x_opts = [], x_vbox = [], x_tag = ''sql'',
        x_dns_addr = [], x_dns = [], x_ips = [30], x_machines = [\<lparr>mc_id = 0, mc_image = ''sql'', mc_state = VRunning\<rparr>]\<rparr>]\<rparr>,
      lb_frontends = [(3389, \<lparr>mc_id = 1, mc_image = ''kali'', mc_state = VStopped\<rparr>, default_frontend ''kali'')]\<rparr> = (None, l') \<and>
    lab_Resume quiet_host l' = (None, \<lparr>lb_tag = ''a'', lb_env = sample_lab_env\<lparr>en_exercises := [\<lparr>x_opts = [], x_vbox = [], x_tag = ''sql'',
        x_dns_addr = [], x_dns = [], x_ips = [30], x_machines = [\<lparr>mc_id = 0, mc_image = ''sql'', mc_state = VRunning\<rparr>]\<rparr>]\<rparr>,
      lb_frontends = [(3389, \<lparr>mc_id = 1, mc_image = ''kali'', mc_state = VStopped\<rparr>, default_frontend ''kali'')]\<rparr>) \<and>
    (\<forall>m \<in> set (lab_InstanceInfo l'). mc_state m \<noteq> VRunning)"
  by (rule suspend_resume) (simp add: steady_def uniform_def)

lemma sql_tag: "NewTag ''sql'' = Inr ''sql''"
  by code_simp

lemma sample_reset:
  "\<exists>ee ee'. Add quiet_host fs [lab_exercise ''sql'' ''sql:1''] sample_lab_env = Some (Ret (None, ee)) \<and> by_tag ''sql'' ee = Inr 0 \<and>
     ResetByTag quiet_host ''sql'' ee = Ret (None, ee') \<and> own_records (en_exercises ee ! 0) = [''sql.com'']"
  by (simp add: run_lab quiet_host_def lab_exercise_def sample_lab_env_def NewEnvironment_def NewNetwork_def FormatIP_def
      no_ova map_get_def map_put_def upt_rec by_tag_def sql_tag ResetByTag_def exercise_Reset_def exercise_Close_def
      exercise_Start_def start_machine_def own_records_def)

lemma reset_repeats_records_witness:
  "\<exists>ee ee'. ResetByTag quiet_host ''sql'' ee = Ret (None, ee') \<and>
     map r_name (x_dns (en_exercises ee' ! 0)) = map r_name (x_dns (en_exercises ee ! 0)) @ [''sql.com'']"
proof -
  obtain ee ee' where ee: "Add quiet_host (\<lambda>_. 0, \<lambda>_. 0) [lab_exercise ''sql'' ''sql:1''] sample_lab_env = Some (Ret (None, ee))"
    "by_tag ''sql'' ee = Inr 0" "ResetByTag quiet_host ''sql'' ee = Ret (None, ee')" "own_records (en_exercises ee ! 0) = [''sql.com'']"
    using sample_reset [of "(\<lambda>_. 0, \<lambda>_. 0)"] by (elim exE conjE)
  have "env_reachable ''77.1.2.0/24'' ee"
    by (rule env_reachable.step [OF env_reachable.new [of _ 0 "(0, 0)"], where h = quiet_host and fs = "(\<lambda>_. 0, \<lambda>_. 0)" and
            err = None and op = "OpAdd [lab_exercise ''sql'' ''sql:1'']"])
       (use ee(1) in \<open>simp add: run_env_def sample_lab_env_def\<close>)
  from reset_repeats_records [OF ee(3,2) this] ee(3,4) show ?thesis by (intro exI [of _ ee] exI [of _ ee']) simp
qed

end
