(* ===== verification/Guac_Event.thy ===== *)
theory Guac_Event
  imports Lab_Env Amigo_Actions Daemon_Pool
begin

text \<open>
  A running event (svcs/guacamole/event.go, iptables.go, intercept.go): giving labs to teams, the VPN
  connections and firewall rules of a team, its user of the remote desktop, and the hooks that the
  site calls. The record \<open>guac_event\<close> is the state of the Go struct with the firewall commands executed, the peers
  added to the VPN server and the files in the VPN directory. What the VPN service,
  Guacamole and the file system answer are fields of \<open>event_env\<close>; answers may differ from call to call, as
  every operation takes its own. The labs' operations are those of Lab_Env, the team's those of Store_Team. Closing the event's
  Guacamole, hub and key logger is outside, and so is what the VPN service answers about a network interface.
\<close>

subsection \<open>Data\<close>

datatype event_error =
    RdpConfErr
  | StartingGuacErr
  | ErrMaxLabs
  | ErrNoAvailableLabs
  | VpnErr string
  | GuacErr string
  | NoTeamLab string
  | HookErr lab_error
  | UnknownTeamIdErr

record ip_rules =
  ir_labsubnet :: string
  ir_vpn_ips :: string

record guac_user =
  gu_username :: string
  gu_password :: string

record guac_event =
  ge_tag :: string
  ge_only_vpn :: int
  ge_vpn_address :: string
  ge_host :: string
  ge_port :: nat
  ge_addrs :: "nat list"
  ge_labs :: "(string, lab) gomap"
  ge_rules :: "(string, ip_rules) gomap"
  ge_users :: "(string, guac_user) gomap"
  ge_commands :: "string list list"
  ge_peers :: "(string \<times> string) list"
  ge_files :: "(string, string) gomap"

text \<open>
  \<open>ee_page\<close> is the page of instructions, \<open>None\<close> when it cannot be fetched; \<open>ee_private\<close> and
  \<open>ee_public\<close> read a key, the \<open>gen\<close> fields create one.
\<close>

record event_env =
  ee_page :: "string option"
  ee_dir :: string
  ee_public :: "string \<Rightarrow> string + string"
  ee_private :: "string \<Rightarrow> string + string"
  ee_gen_private :: "string \<Rightarrow> string option"
  ee_gen_public :: "string \<Rightarrow> string option"
  ee_add_peer :: "string \<Rightarrow> string \<Rightarrow> string \<Rightarrow> string option"
  ee_write_ok :: "string \<Rightarrow> bool"
  ee_create_user :: "string \<Rightarrow> string \<Rightarrow> string option"
  ee_host_ip :: "string + string"
  ee_create_rdp :: "string \<Rightarrow> nat \<Rightarrow> string \<Rightarrow> string \<Rightarrow> string option"

definition uses_vpn :: "guac_event \<Rightarrow> bool" where
  "uses_vpn e \<longleftrightarrow> ge_only_vpn e = 1 \<or> ge_only_vpn e = 2"

subsection \<open>Addresses\<close>

definition makeRange :: "nat \<Rightarrow> nat \<Rightarrow> nat list" where
  "makeRange lo hi = map (\<lambda>i. lo + i) [0..<hi - lo + 1]"

definition event_ips :: "nat list" where
  "event_ips = foldl (\<lambda>ips _. ips @ makeRange 2 254) [] [0..<4]"

text \<open>Popping from an empty slice is an index out of range.\<close>

definition pop :: "nat list \<Rightarrow> (nat \<times> nat list) go" where
  "pop xs = (if xs = [] then Panic else Ret (last xs, butlast xs))"

text \<open>\<^verbatim>\<open>strings.Replace\<close> of the first \<open>n\<close> occurrences of a text that is not empty.\<close>

function Replace :: "string \<Rightarrow> string \<Rightarrow> string \<Rightarrow> nat \<Rightarrow> string" where
  "Replace [] old new n = []"
| "Replace (c # s) old new n =
     (if n = 0 then c # s
      else if old \<noteq> [] \<and> HasPrefix (c # s) old then new @ Replace (drop (length old) (c # s)) old new (n - 1)
      else c # Replace s old new n)"
  by pat_completeness auto
termination
  by (relation "measure (\<lambda>(s, _). length s)") (auto simp: neq_Nil_conv)

definition NewEvent :: "string \<Rightarrow> int \<Rightarrow> string \<Rightarrow> string \<Rightarrow> (string, string) gomap \<Rightarrow> guac_event" where
  "NewEvent tag only_vpn address hst files =
     \<lparr>ge_tag = tag, ge_only_vpn = only_vpn, ge_vpn_address = address, ge_host = hst, ge_port = 0,
      ge_addrs = event_ips, ge_labs = [], ge_rules = [], ge_users = [], ge_commands = [], ge_peers = [], ge_files = files\<rparr>"

subsection \<open>Firewall rules\<close>

text \<open>The errors of these commands are ignored by their callers.\<close>

definition iptables_exec :: "string list \<Rightarrow> guac_event \<Rightarrow> guac_event" where
  "iptables_exec args e = e\<lparr>ge_commands := ge_commands e @ [''sudo'' # ''iptables'' # args]\<rparr>"

definition reject_rule :: "string \<Rightarrow> string list" where
  "reject_rule subnet24 =
     [''DOCKER-USER'', ''-s'', subnet24, ''-j'', ''REJECT'', ''--reject-with'', ''icmp-port-unreachable'']"

definition state_rule :: "string \<Rightarrow> string list" where
  "state_rule subnet24 =
     [''DOCKER-USER'', ''-s'', subnet24, ''-m'', ''state'', ''--state'', ''RELATED,ESTABLISHED'', ''-j'', ''RETURN'']"

definition accept_rule :: "string \<Rightarrow> string \<Rightarrow> string list" where
  "accept_rule subnet24 vpnIPs = [''DOCKER-USER'', ''-s'', subnet24, ''-d'', vpnIPs, ''-j'', ''ACCEPT'']"

definition createRejectRule where "createRejectRule s = iptables_exec (''--insert'' # reject_rule s)"
definition createStateRule where "createStateRule s = iptables_exec (''--insert'' # state_rule s)"
definition createAcceptRule where "createAcceptRule s ips = iptables_exec (''--insert'' # accept_rule s ips)"
definition removeRejectRule where "removeRejectRule s = iptables_exec (''-D'' # reject_rule s)"
definition removeStateRule where "removeStateRule s = iptables_exec (''-D'' # state_rule s)"
definition removeAcceptRule where "removeAcceptRule s ips = iptables_exec (''-D'' # accept_rule s ips)"

definition removeIPTableRules :: "guac_event \<Rightarrow> guac_event" where
  "removeIPTableRules e =
     foldl (\<lambda>e (tid, r). removeAcceptRule (ir_labsubnet r) (ir_vpn_ips r)
              (removeStateRule (ir_labsubnet r) (removeRejectRule (ir_labsubnet r) e))) e (ge_rules e)"

subsection \<open>VPN connections\<close>

definition tab_text :: string where "tab_text = [tab]"

definition dns_line :: "string \<times> string \<Rightarrow> string" where
  "dns_line r = fst r @ '' '' @ tab_text @ '' '' @ snd r"

definition getDNSRecords :: "(string \<times> string) list \<Rightarrow> string list" where
  "getDNSRecords rs = foldl (\<lambda>hosts r. hosts @ [dns_line r]) [] rs"

definition vpn_hosts :: "(string \<times> string) list \<Rightarrow> string" where
  "vpn_hosts rs = foldl (\<lambda>hosts r. hosts @ ''# '' @ dns_line r @ '' '' @ [newline]) [] rs"

text \<open>The configuration file of one connection.\<close>

definition clientConfig ::
  "string \<Rightarrow> string \<Rightarrow> string \<Rightarrow> string \<Rightarrow> string \<Rightarrow> string \<Rightarrow> string \<Rightarrow> string \<Rightarrow> string" where
  "clientConfig peerIP privKey serverKey subnet24 gwIP endpoint hosts instructions =
     join_with newline
      [''[Interface]'', ''Address = '' @ peerIP, ''PrivateKey = '' @ privKey, ''DNS = 1.1.1.1'', ''MTU = 1420'',
       ''[Peer]'', ''PublicKey = '' @ serverKey, ''AllowedIps = '' @ subnet24 @ '','' @ gwIP,
       ''Endpoint =  '' @ endpoint, ''PersistentKeepalive = 25'', [],
       ''# --------------------------------------------------------------------------'',
       ''#  YOUR LAB SUBNET IS:  '' @ subnet24 @ '' '' @ concat (replicate 13 tab_text),
       ''# --------------------------------------------------------------------------'', [],
       ''######### << USER SCRIPTS >> #####'', ''#  '',
       ''#'' @ tab_text @ ''Use following scripts to install wireguard and connect to lab. '', ''#'',
       ''#   Install Wireguard: https://gitlab.com/-/snippets/2102002/raw/master/install_wireguard.sh '', ''#  '' @ tab_text,
       ''#'' @ tab_text @ ''Connect Event:  https://gitlab.com/-/snippets/2102000/raw/master/connectwireguard.py'', ''#'',
       ''#   The scripts are automating steps which you do manually. Use them with your responsibility.'',
       ''#   If you notice outdated information, help us to update it :) '', ''#'',
       ''####################'', [], ''##### HOSTS INFORMATION #############'',
       ''#   Append given IP Address(es) with Domain(s) to your /etc/hosts file'',
       ''#   It enables you to browse domain of challenge through VPN '', ''#   when you connected to internet. '',
       ''#   (* If you used the script given above, your /etc/hosts file is updated already, you can skip this.)'',
       ''###################################'', [], hosts, [],
       ''####### SETTING VPN CONFIGURATION #########'', [], instructions, [], []]"

definition key_name :: "string \<Rightarrow> string \<Rightarrow> nat \<Rightarrow> string" where
  "key_name evTag teamID ip = evTag @ ''_'' @ teamID @ ''_'' @ show_nat ip"

definition peer_ip :: "string \<Rightarrow> nat \<Rightarrow> nat \<Rightarrow> string" where
  "peer_ip subnet i ip = Replace subnet ''240.1/22'' (show_nat i @ ''.'' @ show_nat ip @ ''/32'') 2"

text \<open>
  One connection, numbered \<open>i\<close>: the error, or the peer's address and its configuration file. An address once
  popped is gone, also when a later call fails.
\<close>

definition vpn_conn ::
  "event_env \<Rightarrow> string \<Rightarrow> string \<Rightarrow> string \<Rightarrow> string \<Rightarrow> nat \<Rightarrow> guac_event \<times> team \<Rightarrow>
   ((event_error + string \<times> string) \<times> guac_event \<times> team) go" where
  "vpn_conn env serverKey subnet24 hosts page i s =
     (case s of (e, t) \<Rightarrow>
      go_bind (pop (ge_addrs e)) (\<lambda>(ip, addrs).
        let e = e\<lparr>ge_addrs := addrs\<rparr>; name = key_name (ge_tag e) (t_id t) ip in
        case ee_gen_private env name of
          Some x \<Rightarrow> Ret (Inl (VpnErr x), e, t)
        | None \<Rightarrow>
         (case ee_gen_public env name of
            Some x \<Rightarrow> Ret (Inl (VpnErr x), e, t)
          | None \<Rightarrow>
           (case ee_public env name of
              Inl x \<Rightarrow> Ret (Inl (VpnErr x), e, t)
            | Inr pub \<Rightarrow>
                let peerIP = peer_ip (ge_vpn_address e) i ip; gwIP = Replace (ge_vpn_address e) ''1/22'' ''1/32'' 1 in
                (case ee_add_peer env (ge_tag e) peerIP pub of
                   Some x \<Rightarrow> Ret (Inl (VpnErr x), e, t)
                 | None \<Rightarrow>
                     let e = e\<lparr>ge_peers := ge_peers e @ [(pub, peerIP)]\<rparr> in
                     (case ee_private env name of
                        Inl x \<Rightarrow> Ret (Inl (VpnErr x), e, t)
                      | Inr priv \<Rightarrow>
                          Ret (Inr (peerIP, clientConfig peerIP priv serverKey subnet24 gwIP
                                 (ge_tag e @ ''.'' @ ge_host e @ '':'' @ show_nat (ge_port e)) hosts page),
                               e, SetVPNKeys (int i) pub t)))))))"

fun conn_loop ::
  "event_env \<Rightarrow> string \<Rightarrow> string \<Rightarrow> string \<Rightarrow> string \<Rightarrow> nat list \<Rightarrow> (string \<times> string) list \<Rightarrow> guac_event \<times> team \<Rightarrow>
   ((event_error + (string \<times> string) list) \<times> guac_event \<times> team) go" where
  "conn_loop env serverKey subnet24 hosts page [] conns s = Ret (Inr conns, s)"
| "conn_loop env serverKey subnet24 hosts page (i # is) conns s =
     go_bind (vpn_conn env serverKey subnet24 hosts page i s) (\<lambda>(r, s).
       case r of
         Inl x \<Rightarrow> Ret (Inl x, s)
       | Inr c \<Rightarrow> conn_loop env serverKey subnet24 hosts page is (conns @ [c]) s)"

text \<open>The network of a lab: \<^verbatim>\<open>labNetInfo\<close>. The DHCP server is nil until the lab has been started.\<close>

record lab_net =
  ln_dns :: string
  ln_subnet :: string
  ln_records :: "(string \<times> string) list"

definition lab_net_info :: "lab \<Rightarrow> lab_net go" where
  "lab_net_info l =
     (let ee = lb_env l in
      if \<not> en_dhcp ee then Panic
      else Ret \<lparr>ln_dns = FormatIP (en_net ee) PreferedIP, ln_subnet = FormatIP (en_net ee) 0, ln_records = en_records ee\<rparr>)"

text \<open>A page that cannot be fetched is a nil response, which is then read.\<close>

definition CreateVPNConn ::
  "event_env \<Rightarrow> lab_net \<Rightarrow> guac_event \<Rightarrow> team \<Rightarrow> ((event_error + string list) \<times> guac_event \<times> team) go" where
  "CreateVPNConn env info e t =
     (case ee_page env of
        None \<Rightarrow> Panic
      | Some page \<Rightarrow>
          let subnet24 = ln_subnet info @ ''/24'' in
          (case ee_public env (ge_tag e) of
             Inl x \<Rightarrow> Ret (Inl (VpnErr x), e, t)
           | Inr serverKey \<Rightarrow>
               go_bind (conn_loop env serverKey subnet24 (vpn_hosts (ln_records info)) page [240..<244] [] (e, t)) (\<lambda>(r, e, t).
                 case r of
                   Inl x \<Rightarrow> Ret (Inl x, e, t)
                 | Inr conns \<Rightarrow>
                     let vpnIPs = join_with CHR '','' (map fst conns @ [subnet24]);
                         e = createAcceptRule subnet24 vpnIPs (createStateRule subnet24 (createRejectRule subnet24 e));
                         e = e\<lparr>ge_rules := map_put (t_id t) \<lparr>ir_labsubnet = subnet24, ir_vpn_ips = vpnIPs\<rparr> (ge_rules e)\<rparr>
                     in Ret (Inr (map snd conns), e, t))))"

definition writeToFile :: "event_env \<Rightarrow> string \<Rightarrow> string \<Rightarrow> guac_event \<Rightarrow> guac_event" where
  "writeToFile env filename data e =
     (if ee_write_ok env filename then e\<lparr>ge_files := map_put filename data (ge_files e)\<rparr> else e)"

subsection \<open>Remote desktops\<close>

definition CreateUserForTeam :: "string \<Rightarrow> guac_user \<Rightarrow> guac_event \<Rightarrow> guac_event" where
  "CreateUserForTeam tid u e = e\<lparr>ge_users := map_put tid u (ge_users e)\<rparr>"

definition GetUserForTeam :: "string \<Rightarrow> guac_event \<Rightarrow> event_error + guac_user" where
  "GetUserForTeam tid e = (case map_get (ge_users e) tid of None \<Rightarrow> Inl UnknownTeamIdErr | Some u \<Rightarrow> Inr u)"

fun rdp_loop :: "event_env \<Rightarrow> string \<Rightarrow> string \<Rightarrow> string \<Rightarrow> nat \<Rightarrow> nat list \<Rightarrow> event_error option" where
  "rdp_loop env hostIp tid username num [] = None"
| "rdp_loop env hostIp tid username num (port # ports) =
     (case ee_create_rdp env hostIp port (tid @ ''-client'' @ show_nat num) username of
        Some x \<Rightarrow> Some (GuacErr x)
      | None \<Rightarrow> rdp_loop env hostIp tid username (num + 1) ports)"

text \<open>The shared folders at the end are outside the model; their errors are ignored.\<close>

definition createGuacConn :: "event_env \<Rightarrow> team \<Rightarrow> lab \<Rightarrow> guac_event \<Rightarrow> event_error option \<times> guac_event" where
  "createGuacConn env t l e =
     (if length (RdpConnPorts l) = 0 then (Some RdpConfErr, e)
      else
        let u = \<lparr>gu_username = t_name t, gu_password = hashedPassword t\<rparr> in
        (case ee_create_user env (gu_username u) (gu_password u) of
           Some x \<Rightarrow> (Some (GuacErr x), e)
         | None \<Rightarrow>
             let e = CreateUserForTeam (t_id t) u e in
             (case ee_host_ip env of
                Inl x \<Rightarrow> (Some (GuacErr x), e)
              | Inr hostIp \<Rightarrow> (rdp_loop env hostIp (t_id t) (gu_username u) 1 (RdpConnPorts l), e))))"

subsection \<open>Assigning a lab\<close>

text \<open>The errors of \<^verbatim>\<open>AddChallenge\<close> and \<^verbatim>\<open>NewTag\<close> are ignored; a bad tag is the empty one.\<close>

fun add_flags :: "flag_challenge list \<Rightarrow> team \<Rightarrow> team go" where
  "add_flags [] t = Ret t"
| "add_flags (c # cs) t =
     go_bind (AddChallenge (case NewTag (ch_tag c) of Inl _ \<Rightarrow> [] | Inr tag \<Rightarrow> tag) (ch_value c) t) (\<lambda>(_, t).
       add_flags cs t)"

definition finish_assign :: "team \<Rightarrow> lab \<Rightarrow> guac_event \<Rightarrow> (event_error option \<times> guac_event \<times> team) go" where
  "finish_assign t l e =
     go_bind (add_flags (environment_Challenges (lb_env l)) t) (\<lambda>t.
       Ret (None, e\<lparr>ge_labs := map_put (t_id t) l (ge_labs e)\<rparr>, CorrectedAssignedLab t))"

definition AssignLab :: "event_env \<Rightarrow> lab \<Rightarrow> guac_event \<Rightarrow> team \<Rightarrow> (event_error option \<times> guac_event \<times> team) go" where
  "AssignLab env l e t =
     go_bind (lab_net_info l) (\<lambda>info.
       let hosts = getDNSRecords (ln_records info) in
       if ge_only_vpn e = 0
       then (case createGuacConn env t l e of
               (Some x, e) \<Rightarrow> Ret (Some x, e, t)
             | (None, e) \<Rightarrow> finish_assign (SetHostsInfo hosts t) l e)
       else (case (if ge_only_vpn e = 2 then createGuacConn env t l e else (None, e)) of
               (Some x, e) \<Rightarrow> Ret (Some x, e, t)
             | (None, e) \<Rightarrow>
                 go_bind (CreateVPNConn env info e t) (\<lambda>(r, e, t).
                   case r of
                     Inl x \<Rightarrow> Ret (Some x, e, t)
                   | Inr conf \<Rightarrow>
                       let e = foldl (\<lambda>e c. writeToFile env (ee_dir env @ ge_tag e @ ''_'' @ t_id t @ ''.conf'') c e) e conf
                       in finish_assign (SetHostsInfo hosts (SetVPNConn conf (SetLabInfo (ln_subnet info) t))) l e)))"

subsection \<open>Hooks of the site\<close>

definition GetLabByTeam :: "string \<Rightarrow> guac_event \<Rightarrow> lab option" where
  "GetLabByTeam tid e = map_get (ge_labs e) tid"

text \<open>The labs waiting in the hub's queue, and whether the queue is closed. A lab taken out stays out.\<close>

definition reghook ::
  "event_env \<Rightarrow> bool \<Rightarrow> lab list \<Rightarrow> guac_event \<Rightarrow> team \<Rightarrow> (event_error option \<times> lab list \<times> guac_event \<times> team) go" where
  "reghook env no_more q e t =
     (case q of
        [] \<Rightarrow> Ret (Some (if no_more then ErrMaxLabs else ErrNoAvailableLabs), [], e, t)
      | l # q \<Rightarrow> go_bind (AssignLab env l e t) (\<lambda>(err, e, t). Ret (err, q, e, t)))"

definition put_lab :: "string \<Rightarrow> lab \<Rightarrow> guac_event \<Rightarrow> guac_event" where
  "put_lab tid l e = e\<lparr>ge_labs := map_put tid l (ge_labs e)\<rparr>"

definition resetHook ::
  "host \<Rightarrow> string \<Rightarrow> guac_event \<Rightarrow> team \<Rightarrow> (event_error option \<times> guac_event \<times> team) go" where
  "resetHook h tag e t =
     (case GetLabByTeam (t_id t) e of
        None \<Rightarrow> Ret (Some (NoTeamLab (t_id t)), e, t)
      | Some l \<Rightarrow>
          go_bind (ResetByTag h tag (lb_env l)) (\<lambda>(err, ee).
            let e = put_lab (t_id t) (l\<lparr>lb_env := ee\<rparr>) e in
            case err of
              Some x \<Rightarrow> Ret (Some (HookErr x), e, t)
            | None \<Rightarrow>
                Ret (None, e, if map_get (disabledChallenges t) tag \<noteq> None then snd (ManageDisabledChals tag t) else t)))"

text \<open>Without a lab the error is built and dropped, and the goroutine dereferences nil: nothing recovers it.\<close>

definition startStopHook ::
  "host \<Rightarrow> string \<Rightarrow> bool \<Rightarrow> guac_event \<Rightarrow> team \<Rightarrow> (event_error option \<times> guac_event \<times> team) go" where
  "startStopHook h tag stopped e t =
     (case GetLabByTeam (t_id t) e of
        None \<Rightarrow> Fatal
      | Some l \<Rightarrow>
          (case (if stopped then StartByTag h tag (lb_env l) else StopByTag h tag (lb_env l)) of
             (err, ee) \<Rightarrow> Ret (map_option HookErr err, put_lab (t_id t) (l\<lparr>lb_env := ee\<rparr>) e, t)))"

definition resumeTeamLab :: "host \<Rightarrow> guac_event \<Rightarrow> team \<Rightarrow> event_error option \<times> guac_event \<times> team" where
  "resumeTeamLab h e t =
     (case GetLabByTeam (t_id t) e of
        None \<Rightarrow> (Some (NoTeamLab (t_id t)), e, t)
      | Some l \<Rightarrow> (None, put_lab (t_id t) (snd (lab_Resume h l)) e, t))"

definition resetFrontendHook :: "host \<Rightarrow> guac_event \<Rightarrow> team \<Rightarrow> event_error option \<times> guac_event \<times> team" where
  "resetFrontendHook h e t =
     (case GetLabByTeam (t_id t) e of
        None \<Rightarrow> (Some (NoTeamLab (t_id t)), e, t)
      | Some l \<Rightarrow>
          (case ResetFrontends h l of (err, l) \<Rightarrow> (map_option HookErr err, put_lab (t_id t) l e, t)))"

text \<open>The end of an event. \<^verbatim>\<open>filepath.Glob\<close> of the tag and a star finds every file whose name starts so.\<close>

definition removeVPNConfs :: "event_env \<Rightarrow> guac_event \<Rightarrow> guac_event" where
  "removeVPNConfs env e =
     e\<lparr>ge_files := filter (\<lambda>(f, _). \<not> HasPrefix f (ee_dir env @ ge_tag e)) (ge_files e)\<rparr>"

definition event_Close :: "event_env \<Rightarrow> guac_event \<Rightarrow> guac_event" where
  "event_Close env e = (if uses_vpn e then removeIPTableRules (removeVPNConfs env e) else e)"

subsection \<open>Starting\<close>

text \<open>The labs received from the queue, one per team, until the queue is closed.\<close>

fun start_teams :: "event_env \<Rightarrow> lab list \<Rightarrow> team list \<Rightarrow> guac_event \<Rightarrow> (event_error option \<times> guac_event \<times> team list) go" where
  "start_teams env q [] e = Ret (None, e, [])"
| "start_teams env [] (t # ts) e = Ret (Some ErrMaxLabs, e, t # ts)"
| "start_teams env (l # q) (t # ts) e =
     go_bind (AssignLab env l e t) (\<lambda>(err, e, t).
       if err \<noteq> None then Ret (err, e, t # ts)
       else go_bind (start_teams env q ts e) (\<lambda>(err, e, ts). Ret (err, e, t # ts)))"

text \<open>\<open>None\<close>: no free port is ever drawn.\<close>

partial_function (option) port_loop :: "(nat \<Rightarrow> nat) \<Rightarrow> (nat \<Rightarrow> bool) \<Rightarrow> nat \<Rightarrow> (nat \<times> nat) option" where
  "port_loop rnd busy pos =
     (let port = rnd pos mod 1000 + 5000 in if busy port then port_loop rnd busy (pos + 1) else Some (port, pos + 1))"

definition event_Start ::
  "event_env \<Rightarrow> (nat \<Rightarrow> nat) \<Rightarrow> (nat \<Rightarrow> bool) \<Rightarrow> nat \<Rightarrow> string option \<Rightarrow> bool \<Rightarrow> lab list \<Rightarrow> team list \<Rightarrow> guac_event \<Rightarrow>
   (event_error option \<times> guac_event \<times> team list) go option" where
  "event_Start env rnd busy pos init guac_ok q ts e =
     (if uses_vpn e
      then map_option (\<lambda>(port, pos).
             let e = e\<lparr>ge_port := port\<rparr> in
             if \<not> guac_ok then Ret (Some StartingGuacErr, e, ts)
             else (case init of Some x \<Rightarrow> Ret (Some (VpnErr x), e, ts) | None \<Rightarrow> start_teams env q ts e))
           (port_loop rnd busy pos)
      else Some (if \<not> guac_ok then Ret (Some StartingGuacErr, e, ts) else start_teams env q ts e))"

subsection \<open>Logging in to the remote desktop\<close>

datatype login_reply = LoginError string | Waiting | LoggedIn string

text \<open>Without a session cookie the handler logs the value of a nil cookie.\<close>

definition guac_login ::
  "(string \<Rightarrow> string \<Rightarrow> string + string) \<Rightarrow> string option \<Rightarrow> teamstore \<Rightarrow> guac_event \<Rightarrow> login_reply go" where
  "guac_login loginFunc session ts e =
     (case session of
        None \<Rightarrow> Panic
      | Some tok \<Rightarrow>
          (case GetTeamByToken tok ts of
             Inl _ \<Rightarrow> Ret (LoginError ''Unable to connect to lab teamStore.GetTeamByToken: '')
           | Inr t \<Rightarrow>
               (case GetUserForTeam (t_id t) e of
                  Inl _ \<Rightarrow> Ret Waiting
                | Inr u \<Rightarrow>
                    (case loginFunc (gu_username u) (gu_password u) of
                       Inl x \<Rightarrow> Ret (LoginError ''Unable to connect to lab: '')
                     | Inr token \<Rightarrow> Ret (LoggedIn token)))))"

subsection \<open>Which addresses are given out\<close>

lemma makeRange_eq: "makeRange 2 254 = map (\<lambda>i. 2 + i) [0..<253]"
  by (simp add: makeRange_def)

lemma length_event_ips: "length event_ips = 1012"
  by (simp add: event_ips_def makeRange_eq upt_rec del: upt.simps)

lemma nth_four: "length R = m \<Longrightarrow> q < 4 * m \<Longrightarrow> (R @ R @ R @ R) ! q = R ! (q mod m)"
  by (auto simp: nth_append le_mod_geq)

lemma event_ips_nth:
  assumes "q < 1012"
  shows "event_ips ! q = 2 + q mod 253"
proof -
  let ?R = "map (\<lambda>i. 2 + i) [0..<253] :: nat list"
  have four: "[0..<4] = [0, 1, 2, 3 :: nat]" by (simp add: upt_rec)
  have "event_ips = ?R @ ?R @ ?R @ ?R" by (simp add: event_ips_def makeRange_eq four)
  moreover have "(?R @ ?R @ ?R @ ?R) ! q = ?R ! (q mod 253)" using assms by (intro nth_four) simp_all
  moreover have "?R ! (q mod 253) = 2 + q mod 253" by (subst nth_map) simp_all
  ultimately show ?thesis by simp
qed

text \<open>The address of the connection that starts with \<open>n\<close> addresses left.\<close>

lemma pop_left: "0 < n \<Longrightarrow> n \<le> 1012 \<Longrightarrow> pop (take n event_ips) = Ret (2 + (n - 1) mod 253, take (n - 1) event_ips)"
  using event_ips_nth [of "n - 1"] length_event_ips
  by (cases "event_ips = []") (simp_all add: pop_def butlast_take last_conv_nth)

lemma pop_none: "pop (take 0 event_ips) = Panic"
  by (simp add: pop_def)

text \<open>What a connection changes of an event: the addresses left and the peers.\<close>

definition rest_same :: "guac_event \<Rightarrow> guac_event \<Rightarrow> bool" where
  "rest_same e e' \<longleftrightarrow> ge_tag e' = ge_tag e \<and> ge_only_vpn e' = ge_only_vpn e \<and> ge_vpn_address e' = ge_vpn_address e"

lemma rest_same_refl [simp]: "rest_same e e"
  by (simp add: rest_same_def)

lemma rest_same_trans: "rest_same e e1 \<Longrightarrow> rest_same e1 e2 \<Longrightarrow> rest_same e e2"
  by (simp add: rest_same_def)

lemma vpn_conn_done:
  assumes "vpn_conn env serverKey sn hosts page i (e, t) = Ret (Inr c, e', t')"
    and "ge_addrs e = take n event_ips" and "n \<le> 1012"
  obtains pub where "0 < n" and "fst c = peer_ip (ge_vpn_address e) i (2 + (n - 1) mod 253)"
    and "e' = e\<lparr>ge_addrs := take (n - 1) event_ips, ge_peers := ge_peers e @ [(pub, fst c)]\<rparr>"
    and "t' = SetVPNKeys (int i) pub t"
proof (cases "n = 0")
  case True
  with assms show ?thesis by (simp add: vpn_conn_def pop_def)
next
  case False
  with pop_left assms(3) have "pop (ge_addrs e) = Ret (2 + (n - 1) mod 253, take (n - 1) event_ips)" by (simp add: assms(2))
  with assms(1) False that show ?thesis
    by (auto simp: vpn_conn_def Let_def split: option.splits sum.splits)
qed

lemma four_connections: "[240..<244] = [240, 241, 242, 243 :: nat]"
  by (simp add: upt_rec)

text \<open>The four addresses of a team whose connections are made with \<open>n\<close> addresses left.\<close>

definition peers_at :: "string \<Rightarrow> nat \<Rightarrow> string list" where
  "peers_at subnet n = map (\<lambda>k. peer_ip subnet (240 + k) (2 + (n - 1 - k) mod 253)) [0..<4]"

lemma conn_loop_Cons:
  assumes "conn_loop env sk sn hosts page (i # is) conns (e, t) = Ret (Inr conns', s')"
  obtains c e1 t1 where "vpn_conn env sk sn hosts page i (e, t) = Ret (Inr c, e1, t1)"
    and "conn_loop env sk sn hosts page is (conns @ [c]) (e1, t1) = Ret (Inr conns', s')"
proof -
  from assms obtain r e1 t1 where 1: "vpn_conn env sk sn hosts page i (e, t) = Ret (r, e1, t1)"
    and 2: "(case r of Inl x \<Rightarrow> Ret (Inl x, (e1, t1)) | Inr c \<Rightarrow> conn_loop env sk sn hosts page is (conns @ [c]) (e1, t1)) =
      Ret (Inr conns', s')"
    by (force simp: go_bind_Ret)
  show thesis
  proof (cases r)
    case (Inl x)
    with 2 show ?thesis by simp
  next
    case (Inr c)
    with 1 2 show ?thesis by (intro that) simp_all
  qed
qed

definition with_keys :: "string list \<Rightarrow> team \<Rightarrow> team" where
  "with_keys pubs t = foldl (\<lambda>t (k, pub). SetVPNKeys (240 + int k) pub t) t (enumerate 0 pubs)"

lemma conn_loop_done:
  assumes "conn_loop env sk sn hosts page [240..<244] [] (e, t) = Ret (Inr conns, e', t')"
    and "ge_addrs e = take n event_ips" and "n \<le> 1012"
  shows "4 \<le> n \<and> map fst conns = peers_at (ge_vpn_address e) n \<and>
    (\<exists>pubs. length pubs = 4 \<and> t' = with_keys pubs t \<and>
      e' = e\<lparr>ge_addrs := take (n - 4) event_ips, ge_peers := ge_peers e @ zip pubs (map fst conns)\<rparr>)"
proof -
  obtain c0 e0 t0 where 0: "vpn_conn env sk sn hosts page 240 (e, t) = Ret (Inr c0, e0, t0)"
    and r0: "conn_loop env sk sn hosts page [241, 242, 243] ([] @ [c0]) (e0, t0) = Ret (Inr conns, e', t')"
    by (rule conn_loop_Cons [OF assms(1) [unfolded four_connections]])
  obtain c1 e1 t1 where 1: "vpn_conn env sk sn hosts page 241 (e0, t0) = Ret (Inr c1, e1, t1)"
    and r1: "conn_loop env sk sn hosts page [242, 243] (([] @ [c0]) @ [c1]) (e1, t1) = Ret (Inr conns, e', t')"
    by (rule conn_loop_Cons [OF r0])
  obtain c2 e2 t2 where 2: "vpn_conn env sk sn hosts page 242 (e1, t1) = Ret (Inr c2, e2, t2)"
    and r2: "conn_loop env sk sn hosts page [243] ((([] @ [c0]) @ [c1]) @ [c2]) (e2, t2) = Ret (Inr conns, e', t')"
    by (rule conn_loop_Cons [OF r1])
  obtain c3 e3 t3 where 3: "vpn_conn env sk sn hosts page 243 (e2, t2) = Ret (Inr c3, e3, t3)"
    and r3: "conn_loop env sk sn hosts page [] (((([] @ [c0]) @ [c1]) @ [c2]) @ [c3]) (e3, t3) = Ret (Inr conns, e', t')"
    by (rule conn_loop_Cons [OF r2])
  obtain p0 where p0: "0 < n" "fst c0 = peer_ip (ge_vpn_address e) 240 (2 + (n - 1) mod 253)"
      "e0 = e\<lparr>ge_addrs := take (n - 1) event_ips, ge_peers := ge_peers e @ [(p0, fst c0)]\<rparr>" "t0 = SetVPNKeys (int 240) p0 t"
    by (rule vpn_conn_done [OF 0 assms(2,3)])
  have a0: "ge_addrs e0 = take (n - 1) event_ips" "n - 1 \<le> 1012" using p0 assms(3) by simp_all
  obtain p1 where p1: "0 < n - 1" "fst c1 = peer_ip (ge_vpn_address e0) 241 (2 + (n - 1 - 1) mod 253)"
      "e1 = e0\<lparr>ge_addrs := take (n - 1 - 1) event_ips, ge_peers := ge_peers e0 @ [(p1, fst c1)]\<rparr>" "t1 = SetVPNKeys (int 241) p1 t0"
    by (rule vpn_conn_done [OF 1 a0])
  have a1: "ge_addrs e1 = take (n - 1 - 1) event_ips" "n - 1 - 1 \<le> 1012" using p1 assms(3) by simp_all
  obtain p2 where p2: "0 < n - 1 - 1" "fst c2 = peer_ip (ge_vpn_address e1) 242 (2 + (n - 1 - 1 - 1) mod 253)"
      "e2 = e1\<lparr>ge_addrs := take (n - 1 - 1 - 1) event_ips, ge_peers := ge_peers e1 @ [(p2, fst c2)]\<rparr>" "t2 = SetVPNKeys (int 242) p2 t1"
    by (rule vpn_conn_done [OF 2 a1])
  have a2: "ge_addrs e2 = take (n - 1 - 1 - 1) event_ips" "n - 1 - 1 - 1 \<le> 1012" using p2 assms(3) by simp_all
  obtain p3 where p3: "0 < n - 1 - 1 - 1" "fst c3 = peer_ip (ge_vpn_address e2) 243 (2 + (n - 1 - 1 - 1 - 1) mod 253)"
      "e3 = e2\<lparr>ge_addrs := take (n - 1 - 1 - 1 - 1) event_ips, ge_peers := ge_peers e2 @ [(p3, fst c3)]\<rparr>" "t3 = SetVPNKeys (int 243) p3 t2"
    by (rule vpn_conn_done [OF 3 a2])
  have left: "4 \<le> n" using p3(1) by simp
  have minus: "n - Suc (Suc 0) = n - 2" "n - Suc (Suc (Suc 0)) = n - 3" "n - Suc (Suc (Suc (Suc 0))) = n - 4" by simp_all
  have four: "[0..<4] = [0, 1, 2, 3 :: nat]" by (simp add: upt_rec)
  have c: "conns = [c0, c1, c2, c3]" "e' = e3" "t' = t3" using r3 by simp_all
  have "map fst conns = peers_at (ge_vpn_address e) n"
    using p0 p1 p2 p3 by (simp add: c peers_at_def four minus)
  moreover have "t' = with_keys [p0, p1, p2, p3] t"
    using p0 p1 p2 p3 by (simp add: c with_keys_def)
  moreover have "e' = e\<lparr>ge_addrs := take (n - 4) event_ips, ge_peers := ge_peers e @ zip [p0, p1, p2, p3] (map fst conns)\<rparr>"
    using p0(3) p1(3) p2(3) p3(3) by (simp add: c minus)
  moreover have "length [p0, p1, p2, p3] = 4" by simp
  ultimately show ?thesis using left by blast
qed

lemma Replace_end:
  assumes "CHR ''/'' \<notin> set pre" and "CHR ''/'' \<in> set p" and "0 < n"
  shows "Replace (pre @ p) p new n = pre @ new"
  using assms(1)
proof (induction pre)
  case Nil
  from assms(2) obtain c q where p: "p = c # q" by (cases p) auto
  with assms(3) show ?case by (simp add: HasPrefix_def)
next
  case (Cons c pre)
  have "\<not> HasPrefix ((c # pre) @ p) p" using Cons.prems assms(2) by (intro no_early_prefix) auto
  with Cons assms(3) show ?case by simp
qed

lemma peer_ip_eq:
  assumes "CHR ''/'' \<notin> set ip"
  shows "peer_ip (ip @ ''.240.1/22'') i a = ip @ ''.'' @ show_nat i @ ''.'' @ show_nat a @ ''/32''"
proof -
  have "ip @ ''.240.1/22'' = (ip @ ''.'') @ ''240.1/22''" by simp
  then show ?thesis using assms Replace_end [of "ip @ ''.''" "''240.1/22''" 2] by (simp add: peer_ip_def)
qed

lemma dot_no_digit: "CHR ''.'' \<notin> set (show_nat n)" "CHR ''/'' \<notin> set (show_nat n)"
  using show_nat_digits [of "CHR ''.''" n] show_nat_digits [of "CHR ''/''" n] by (auto simp: is_digit_def char_digit_def)

lemma peer_ip_inject:
  assumes "CHR ''/'' \<notin> set ip" and "peer_ip (ip @ ''.240.1/22'') i a = peer_ip (ip @ ''.240.1/22'') j b"
  shows "i = j \<and> a = b"
proof -
  from assms(2) have eq: "show_nat i @ CHR ''.'' # show_nat a @ ''/32'' = show_nat j @ CHR ''.'' # show_nat b @ ''/32''"
    by (simp add: peer_ip_eq assms(1))
  from arg_cong [OF eq, of "split_on CHR ''.''"] have "show_nat i = show_nat j" by (simp add: split_on_append dot_no_digit)
  moreover from eq this have "show_nat a = show_nat b" by simp
  ultimately show ?thesis by simp
qed

definition given :: "string \<Rightarrow> nat \<Rightarrow> string" where
  "given subnet q = peer_ip subnet (240 + q mod 4) (2 + (1011 - q) mod 253)"

lemma given_inj:
  assumes "CHR ''/'' \<notin> set ip"
  shows "inj_on (given (ip @ ''.240.1/22'')) {..<1012}"
proof (rule inj_onI)
  fix q r :: nat
  assume q: "q \<in> {..<1012}" "r \<in> {..<1012}" and eq: "given (ip @ ''.240.1/22'') q = given (ip @ ''.240.1/22'') r"
  from peer_ip_inject [OF assms eq [unfolded given_def]]
  have m4: "q mod 4 = r mod 4" and m253: "(1011 - q) mod 253 = (1011 - r) mod 253" by (simp_all only: add_left_cancel)
  have "int q mod 4 = int r mod 4" using arg_cong [OF m4, of int] by (simp only: zmod_int of_nat_numeral)
  then have d4: "4 dvd int q - int r" by (simp only: mod_eq_dvd_iff)
  have "int (1011 - q) mod 253 = int (1011 - r) mod 253" using arg_cong [OF m253, of int] by (simp only: zmod_int of_nat_numeral)
  then have "253 dvd int (1011 - q) - int (1011 - r)" by (simp only: mod_eq_dvd_iff)
  moreover have "int (1011 - q) - int (1011 - r) = - (int q - int r)" using q by (simp add: of_nat_diff)
  ultimately have d253: "253 dvd int q - int r" by (simp only: dvd_minus_iff)
  have "coprime (4 :: int) 253"
  proof (rule coprimeI)
    fix c :: int
    assume "c dvd 4" and "c dvd 253"
    then have "c dvd 253 - 63 * 4" by (intro dvd_diff dvd_mult)
    then show "is_unit c" by simp
  qed
  with d4 d253 have "4 * 253 dvd int q - int r" by (intro divides_mult)
  then have "int q mod 1012 = int r mod 1012" by (subst mod_eq_dvd_iff) simp
  moreover have "int q mod 1012 = int q" "int r mod 1012 = int r" using q by (intro mod_pos_pos_trivial; simp)+
  ultimately show "q = r" by simp
qed

lemma peers_at_given: "4 * j + 4 \<le> 1012 \<Longrightarrow> peers_at subnet (1012 - 4 * j) = map (given subnet) [4 * j..<4 * j + 4]"
proof -
  assume "4 * j + 4 \<le> 1012"
  have "[4 * j..<4 * j + 4] = map (\<lambda>k. 4 * j + k) [0..<4]" using map_add_upt [of "4 * j" 4] by (simp add: add.commute)
  moreover have "(4 * j + k) mod 4 = k" if "k < 4" for k using that by simp
  moreover have "1012 - 4 * j - 1 - k = 1011 - (4 * j + k)" for k by simp
  ultimately show ?thesis by (simp add: peers_at_def given_def)
qed

lemma given_distinct:
  "CHR ''/'' \<notin> set ip \<Longrightarrow> n \<le> 1012 \<Longrightarrow> distinct (map (given (ip @ ''.240.1/22'')) [0..<n])"
  by (simp add: distinct_map inj_on_subset [OF given_inj] subset_iff)

subsection \<open>What an assignment does\<close>

lemma set_keys_fold:
  "foldl (\<lambda>t (k, pub). SetVPNKeys (240 + int k) pub t) t ks =
   t\<lparr>vpnKeys := foldl (\<lambda>m (k, pub). map_put (240 + int k) pub m) (vpnKeys t) ks\<rparr>"
  by (induction ks arbitrary: t) (auto simp: SetVPNKeys_def)

lemma with_keys_same: "with_keys pubs t = t\<lparr>vpnKeys := vpnKeys (with_keys pubs t)\<rparr>"
  by (simp add: with_keys_def set_keys_fold)

lemma with_keys_low:
  assumes "i < 240"
  shows "map_get (vpnKeys (with_keys pubs t)) i = map_get (vpnKeys t) i"
proof -
  have "map_get (foldl (\<lambda>m (k, pub). map_put (240 + int k) pub m) m ks) i = map_get m i" for m and ks :: "(nat \<times> string) list"
    using assms by (induction ks arbitrary: m) auto
  then show ?thesis by (simp add: with_keys_def set_keys_fold)
qed

text \<open>The three rules of a team, with the action that inserts or deletes them.\<close>

definition rule_commands :: "string \<Rightarrow> ip_rules \<Rightarrow> string list list" where
  "rule_commands action r =
     map (\<lambda>args. ''sudo'' # ''iptables'' # action # args)
       [reject_rule (ir_labsubnet r), state_rule (ir_labsubnet r), accept_rule (ir_labsubnet r) (ir_vpn_ips r)]"

lemma insert_rules:
  "createAcceptRule sn ips (createStateRule sn (createRejectRule sn e)) =
   e\<lparr>ge_commands := ge_commands e @ rule_commands ''--insert'' \<lparr>ir_labsubnet = sn, ir_vpn_ips = ips\<rparr>\<rparr>"
  by (simp add: createAcceptRule_def createStateRule_def createRejectRule_def iptables_exec_def rule_commands_def)

lemma delete_rules:
  "removeAcceptRule (ir_labsubnet r) (ir_vpn_ips r) (removeStateRule (ir_labsubnet r) (removeRejectRule (ir_labsubnet r) e)) =
   e\<lparr>ge_commands := ge_commands e @ rule_commands ''-D'' r\<rparr>"
  by (simp add: removeAcceptRule_def removeStateRule_def removeRejectRule_def iptables_exec_def rule_commands_def)

lemma removeIPTableRules_eq:
  "removeIPTableRules e = e\<lparr>ge_commands := ge_commands e @ concat (map (rule_commands ''-D'' \<circ> snd) (ge_rules e))\<rparr>"
proof -
  have "foldl (\<lambda>e (tid, r). removeAcceptRule (ir_labsubnet r) (ir_vpn_ips r)
          (removeStateRule (ir_labsubnet r) (removeRejectRule (ir_labsubnet r) e))) e rs =
        e\<lparr>ge_commands := ge_commands e @ concat (map (rule_commands ''-D'' \<circ> snd) rs)\<rparr>" for rs :: "(string \<times> ip_rules) list" and e
    by (induction rs arbitrary: e) (auto simp: delete_rules)
  then show ?thesis by (simp add: removeIPTableRules_def)
qed

text \<open>What a successful \<^verbatim>\<open>CreateVPNConn\<close> leaves.\<close>

lemma CreateVPNConn_done:
  assumes "CreateVPNConn env info e t = Ret (Inr confs, e', t')"
    and "ge_addrs e = take n event_ips" and "n \<le> 1012"
  obtains pubs r where "4 \<le> n" and "length pubs = 4" and "length confs = 4" and "t' = with_keys pubs t"
    and "e' = e\<lparr>ge_addrs := take (n - 4) event_ips, ge_peers := ge_peers e @ zip pubs (peers_at (ge_vpn_address e) n),
             ge_commands := ge_commands e @ rule_commands ''--insert'' r, ge_rules := map_put (t_id t) r (ge_rules e)\<rparr>"
proof -
  from assms(1) obtain page serverKey where "ee_page env = Some page" "ee_public env (ge_tag e) = Inr serverKey"
    by (auto simp: CreateVPNConn_def Let_def split: option.splits sum.splits)
  then have run: "go_bind (conn_loop env serverKey (ln_subnet info @ ''/24'') (vpn_hosts (ln_records info)) page [240..<244] [] (e, t)) (\<lambda>(r, e, t).
      case r of
        Inl x \<Rightarrow> Ret (Inl x, e, t)
      | Inr conns \<Rightarrow>
          let r = \<lparr>ir_labsubnet = ln_subnet info @ ''/24'', ir_vpn_ips = join_with CHR '','' (map fst conns @ [ln_subnet info @ ''/24''])\<rparr>
          in Ret (Inr (map snd conns), e\<lparr>ge_commands := ge_commands e @ rule_commands ''--insert'' r,
               ge_rules := map_put (t_id t) r (ge_rules e)\<rparr>, t)) = Ret (Inr confs, e', t')"
    using assms(1) by (simp add: CreateVPNConn_def Let_def insert_rules del: conn_loop.simps cong del: sum.case_cong_weak)
  then obtain res e1 t1 where
    step: "conn_loop env serverKey (ln_subnet info @ ''/24'') (vpn_hosts (ln_records info)) page [240..<244] [] (e, t) = Ret (res, e1, t1)"
    unfolding go_bind_Ret by (metis prod_cases3)
  note run = run [unfolded this go_bind.simps prod.case]
  from run obtain conns where conns: "res = Inr conns" by (cases res) simp_all
  note loop = step [unfolded conns]
  have rest: "confs = map snd conns" "t' = t1"
      "e' = (let r = \<lparr>ir_labsubnet = ln_subnet info @ ''/24'', ir_vpn_ips = join_with CHR '','' (map fst conns @ [ln_subnet info @ ''/24''])\<rparr>
             in e1\<lparr>ge_commands := ge_commands e1 @ rule_commands ''--insert'' r, ge_rules := map_put (t_id t1) r (ge_rules e1)\<rparr>)"
    using run unfolding conns by (auto simp: Let_def)
  from conn_loop_done [OF loop assms(2,3)] obtain pubs where
    c: "4 \<le> n" "map fst conns = peers_at (ge_vpn_address e) n" "length pubs = 4" "t1 = with_keys pubs t"
      "e1 = e\<lparr>ge_addrs := take (n - 4) event_ips, ge_peers := ge_peers e @ zip pubs (map fst conns)\<rparr>" by blast
  have "length conns = 4" using arg_cong [OF c(2), of length] by (simp add: peers_at_def)
  moreover have "t_id t1 = t_id t" by (subst c(4), subst with_keys_same) simp
  ultimately show thesis using c rest by (intro that [of pubs]) (simp_all add: Let_def)
qed

text \<open>Adding the flags only touches the team's challenges and its mutex.\<close>

lemma AddChallenge_same: "AddChallenge tag f t = Ret (r, t') \<Longrightarrow> t' = t\<lparr>t_locked := False, challenges := challenges t'\<rparr>"
  by (auto simp: AddChallenge_def Let_def return_unlocked_def lock_def unlock_def split: if_splits)

lemma add_flags_same: "add_flags cs t = Ret t' \<Longrightarrow> t' = t\<lparr>t_locked := t_locked t', challenges := challenges t'\<rparr>"
proof (induction cs arbitrary: t)
  case (Cons c cs)
  then obtain r t1 where 1: "AddChallenge (case NewTag (ch_tag c) of Inl _ \<Rightarrow> [] | Inr tag \<Rightarrow> tag) (ch_value c) t = Ret (r, t1)"
    and 2: "add_flags cs t1 = Ret t'" by (auto simp: go_bind_Ret)
  obtain a b where t1: "t1 = t\<lparr>t_locked := a, challenges := b\<rparr>" using AddChallenge_same [OF 1] by blast
  show ?case by (subst Cons.IH [OF 2]) (simp add: t1)
qed simp

text \<open>
  The team that \<^verbatim>\<open>AssignLab\<close> hands the flags to differs from the given one in what it knows of
  its network only.
\<close>

definition networked :: "team \<Rightarrow> team \<Rightarrow> bool" where
  "networked t t' \<longleftrightarrow> t' = t\<lparr>vpnKeys := vpnKeys t', vpnConf := vpnConf t', labSubnet := labSubnet t', hostsInfo := hostsInfo t'\<rparr>"

lemma createGuacConn_users: "createGuacConn env t l e = (r, e') \<Longrightarrow> e' = e\<lparr>ge_users := ge_users e'\<rparr>"
  by (auto simp: createGuacConn_def Let_def CreateUserForTeam_def split: if_splits option.splits sum.splits)

lemma write_files: "\<exists>fs. foldl (\<lambda>e c. writeToFile env (f (ge_tag e)) c e) e conf = e\<lparr>ge_files := fs\<rparr>"
proof (induction conf arbitrary: e)
  case Nil
  show ?case by (intro exI [of _ "ge_files e"]) simp
next
  case (Cons c conf)
  have "\<exists>fs. writeToFile env (f (ge_tag e)) c e = e\<lparr>ge_files := fs\<rparr>"
    by (cases "ee_write_ok env (f (ge_tag e))") (auto simp: writeToFile_def intro: exI [of _ "ge_files e"])
  then obtain fs where 1: "writeToFile env (f (ge_tag e)) c e = e\<lparr>ge_files := fs\<rparr>" by blast
  from Cons.IH [of "writeToFile env (f (ge_tag e)) c e"] show ?case by (auto simp: 1)
qed

text \<open>What a successful assignment leaves, with and without a VPN connection.\<close>

lemma finish_assign_done:
  assumes "finish_assign t l e = Ret (err, e', t')"
  obtains t1 where "err = None" and "add_flags (environment_Challenges (lb_env l)) t = Ret t1" and "t' = CorrectedAssignedLab t1"
    and "e' = e\<lparr>ge_labs := map_put (t_id t) l (ge_labs e)\<rparr>"
proof -
  from assms obtain t1 where 1: "add_flags (environment_Challenges (lb_env l)) t = Ret t1" and
    2: "err = None" "e' = e\<lparr>ge_labs := map_put (t_id t1) l (ge_labs e)\<rparr>" "t' = CorrectedAssignedLab t1"
    by (auto simp: finish_assign_def go_bind_Ret)
  obtain a b where "t1 = t\<lparr>t_locked := a, challenges := b\<rparr>" using add_flags_same [OF 1] by blast
  with 1 2 show thesis by (intro that) simp_all
qed

definition vpn_connected :: "guac_event \<Rightarrow> string \<Rightarrow> nat \<Rightarrow> string list \<Rightarrow> ip_rules \<Rightarrow> guac_event \<Rightarrow> bool" where
  "vpn_connected e tid n pubs r e' \<longleftrightarrow> 4 \<le> n \<and> length pubs = 4 \<and> ge_addrs e' = take (n - 4) event_ips \<and>
     ge_peers e' = ge_peers e @ zip pubs (peers_at (ge_vpn_address e) n) \<and>
     ge_commands e' = ge_commands e @ rule_commands ''--insert'' r \<and> ge_rules e' = map_put tid r (ge_rules e)"

definition unconnected :: "guac_event \<Rightarrow> guac_event \<Rightarrow> bool" where
  "unconnected e e' \<longleftrightarrow> ge_addrs e' = ge_addrs e \<and> ge_peers e' = ge_peers e \<and> ge_commands e' = ge_commands e \<and> ge_rules e' = ge_rules e"

lemma AssignLab_done:
  assumes "AssignLab env l e t = Ret (None, e', t')" and "ge_addrs e = take n event_ips" and "n \<le> 1012"
  obtains t0 t1 where "rest_same e e'" and "ge_labs e' = map_put (t_id t) l (ge_labs e)" and "networked t t0"
    and "add_flags (environment_Challenges (lb_env l)) t0 = Ret t1" and "t' = CorrectedAssignedLab t1"
    and "if ge_only_vpn e = 0 then unconnected e e' \<and> vpnConf t0 = vpnConf t \<and> vpnKeys t0 = vpnKeys t
         else \<exists>pubs r. vpn_connected e (t_id t) n pubs r e' \<and> length (vpnConf t0) = 4 \<and> vpnKeys t0 = vpnKeys (with_keys pubs t)"
proof -
  from assms(1) obtain info where info: "lab_net_info l = Ret info" by (auto simp: AssignLab_def go_bind_Ret)
  let ?hosts = "getDNSRecords (ln_records info)"
  show thesis
  proof (cases "ge_only_vpn e = 0")
    case True
    obtain x e1 where g: "createGuacConn env t l e = (x, e1)" by fastforce
    with assms(1) True have "finish_assign (SetHostsInfo ?hosts t) l e1 = Ret (None, e', t')"
      by (auto simp: AssignLab_def info split: option.splits)
    then obtain t1 where t1: "add_flags (environment_Challenges (lb_env l)) (SetHostsInfo ?hosts t) = Ret t1"
        "t' = CorrectedAssignedLab t1" "e' = e1\<lparr>ge_labs := map_put (t_id t) l (ge_labs e1)\<rparr>"
      by (rule finish_assign_done) (simp add: SetHostsInfo_def)
    obtain us where "e1 = e\<lparr>ge_users := us\<rparr>" using createGuacConn_users [OF g] by blast
    with t1 True show ?thesis
      by (intro that [OF _ _ _ t1(1)]) (simp_all add: rest_same_def networked_def SetHostsInfo_def unconnected_def)
  next
    case False
    obtain x e1 where g: "(if ge_only_vpn e = 2 then createGuacConn env t l e else (None, e)) = (x, e1)" by fastforce
    obtain us where e1: "e1 = e\<lparr>ge_users := us\<rparr>"
    proof (cases "ge_only_vpn e = 2")
      case True
      with g createGuacConn_users that show ?thesis by metis
    next
      case False
      with g that [of "ge_users e"] show ?thesis by simp
    qed
    from assms(1) False g obtain res e2 t2 where v: "CreateVPNConn env info e1 t = Ret (res, e2, t2)"
      by (auto simp: AssignLab_def info go_bind_Ret simp del: CreateVPNConn_def split: option.splits)
    with assms(1) False g obtain conf where conf: "res = Inr conf"
      by (cases res) (auto simp: AssignLab_def info split: option.splits)
    obtain pubs r where c: "4 \<le> n" "length pubs = 4" "length conf = 4" "t2 = with_keys pubs t"
      "e2 = e1\<lparr>ge_addrs := take (n - 4) event_ips, ge_peers := ge_peers e1 @ zip pubs (peers_at (ge_vpn_address e1) n),
             ge_commands := ge_commands e1 @ rule_commands ''--insert'' r, ge_rules := map_put (t_id t) r (ge_rules e1)\<rparr>"
      using CreateVPNConn_done [OF v [unfolded conf], of n] assms(2,3) by (auto simp: e1)
    let ?t = "SetHostsInfo ?hosts (SetVPNConn conf (SetLabInfo (ln_subnet info) t2))"
    obtain fs where fs: "foldl (\<lambda>e c. writeToFile env (ee_dir env @ ge_tag e @ ''_'' @ t_id t2 @ ''.conf'') c e) e2 conf = e2\<lparr>ge_files := fs\<rparr>"
      using write_files [of env "\<lambda>tag. ee_dir env @ tag @ ''_'' @ t_id t2 @ ''.conf''" e2 conf] by blast
    have "finish_assign ?t l (e2\<lparr>ge_files := fs\<rparr>) = Ret (None, e', t')"
      using assms(1) False g by (auto simp: AssignLab_def info v conf fs [simplified] split: option.splits)
    then obtain t1 where t1: "add_flags (environment_Challenges (lb_env l)) ?t = Ret t1"
        "t' = CorrectedAssignedLab t1" "e' = e2\<lparr>ge_files := fs, ge_labs := map_put (t_id t2) l (ge_labs e2)\<rparr>"
      by (rule finish_assign_done) (simp add: SetHostsInfo_def SetVPNConn_def SetLabInfo_def)
    obtain ks where t2: "t2 = t\<lparr>vpnKeys := ks\<rparr>" using c(4) with_keys_same by metis
    have net: "networked t ?t" by (simp add: networked_def t2 SetHostsInfo_def SetVPNConn_def SetLabInfo_def)
    from t1 c False show ?thesis
      by (intro that [OF _ _ net t1(1)])
         (auto simp: rest_same_def SetHostsInfo_def SetVPNConn_def SetLabInfo_def vpn_connected_def e1 t2 intro!: exI [of _ pubs] exI [of _ r])
  qed
qed

text \<open>A refused assignment uses up addresses and may leave peers behind, but no rule and no lab.\<close>

definition only_used :: "guac_event \<Rightarrow> guac_event \<Rightarrow> bool" where
  "only_used e e' \<longleftrightarrow> rest_same e e' \<and> ge_labs e' = ge_labs e \<and> ge_rules e' = ge_rules e \<and> ge_commands e' = ge_commands e \<and>
     (\<forall>n \<le> 1012. ge_addrs e = take n event_ips \<longrightarrow> (\<exists>n' \<le> n. ge_addrs e' = take n' event_ips))"

lemma only_used_refl [simp]: "only_used e e"
  by (auto simp: only_used_def)

lemma only_used_trans: "only_used e e1 \<Longrightarrow> only_used e1 e2 \<Longrightarrow> only_used e e2"
proof -
  assume 1: "only_used e e1" and 2: "only_used e1 e2"
  have "\<exists>n' \<le> n. ge_addrs e2 = take n' event_ips" if n: "n \<le> 1012" "ge_addrs e = take n event_ips" for n
  proof -
    from 1 n obtain n1 where n1: "n1 \<le> n" "ge_addrs e1 = take n1 event_ips" unfolding only_used_def by blast
    with n(1) have "n1 \<le> 1012" by simp
    with 2 n1(2) obtain n2 where "n2 \<le> n1" "ge_addrs e2 = take n2 event_ips" unfolding only_used_def by blast
    with n1(1) show ?thesis by (intro exI [of _ n2]) simp
  qed
  with 1 2 show ?thesis by (simp add: only_used_def rest_same_def)
qed

lemma only_used_users: "only_used e (e\<lparr>ge_users := us\<rparr>)"
  by (auto simp: only_used_def rest_same_def)

lemma vpn_conn_used:
  assumes "vpn_conn env sk sn hosts page i (e, t) = Ret (r, e', t')"
  shows "only_used e e'"
proof -
  from assms obtain ip addrs where pop: "pop (ge_addrs e) = Ret (ip, addrs)" by (auto simp: vpn_conn_def go_bind_Ret)
  have left: "\<exists>n' \<le> n. addrs = take n' event_ips" if "ge_addrs e = take n event_ips" "n \<le> 1012" for n
    using pop that pop_left [of n] by (cases "n = 0") (auto simp: pop_def intro!: exI [of _ "n - 1"])
  show ?thesis using assms left
    by (auto simp: vpn_conn_def pop only_used_def rest_same_def Let_def split: option.splits sum.splits)
qed

lemma conn_loop_used: "conn_loop env sk sn hosts page is conns (e, t) = Ret (r, e', t') \<Longrightarrow> only_used e e'"
proof (induction "is" arbitrary: conns e t)
  case (Cons i "is")
  from Cons.prems obtain r1 e1 t1 where 1: "vpn_conn env sk sn hosts page i (e, t) = Ret (r1, e1, t1)"
    by (force simp: go_bind_Ret)
  with Cons have "only_used e1 e'" by (cases r1) auto
  with vpn_conn_used [OF 1] show ?case by (rule only_used_trans)
qed simp

lemma CreateVPNConn_refused:
  assumes "CreateVPNConn env info e t = Ret (Inl x, e', t')"
  shows "only_used e e'"
proof (cases "ee_public env (ge_tag e)")
  case (Inl y)
  with assms show ?thesis by (auto simp: CreateVPNConn_def split: option.splits)
next
  case (Inr serverKey)
  from assms obtain page where page: "ee_page env = Some page" by (auto simp: CreateVPNConn_def split: option.splits)
  let ?loop = "conn_loop env serverKey (ln_subnet info @ ''/24'') (vpn_hosts (ln_records info)) page [240..<244] [] (e, t)"
  from assms obtain r e1 t1 where loop: "?loop = Ret (r, e1, t1)"
    by (cases ?loop) (auto simp: CreateVPNConn_def page Inr simp del: conn_loop.simps upt.simps)
  with assms have "e1 = e'"
    by (cases r) (auto simp: CreateVPNConn_def page Inr Let_def simp del: conn_loop.simps upt.simps)
  with conn_loop_used [OF loop] show ?thesis by simp
qed

lemma AssignLab_refused:
  assumes "AssignLab env l e t = Ret (Some x, e', t')"
  shows "only_used e e'"
proof -
  from assms obtain info where info: "lab_net_info l = Ret info" by (auto simp: AssignLab_def go_bind_Ret)
  have no: "finish_assign t2 l2 e2 \<noteq> Ret (Some x, e', t')" for t2 l2 e2 by (auto elim: finish_assign_done)
  obtain y e1 where g: "createGuacConn env t l e = (y, e1)" by fastforce
  then have e1: "only_used e e1" using createGuacConn_users only_used_users by metis
  let ?g = "if ge_only_vpn e = 0 \<or> ge_only_vpn e = 2 then (y, e1) else (None, e)"
  obtain z e2 where z: "?g = (z, e2)" and e2: "only_used e e2" using e1 by (cases "ge_only_vpn e = 0 \<or> ge_only_vpn e = 2") auto
  show ?thesis
  proof (cases z)
    case (Some w)
    with assms z e2 show ?thesis by (auto simp: AssignLab_def info g split: if_splits)
  next
    case None
    with assms z no have "ge_only_vpn e \<noteq> 0" by (auto simp: AssignLab_def info g split: if_splits)
    with assms z None obtain r e3 t3 where v: "CreateVPNConn env info e2 t = Ret (r, e3, t3)"
      by (auto simp: AssignLab_def info g go_bind_Ret Let_def split: if_splits)
    with \<open>ge_only_vpn e \<noteq> 0\<close> assms z None have "r = Inl x \<and> e3 = e'"
      by (cases r) (auto simp: AssignLab_def info g no Let_def split: if_splits)
    note v = v [unfolded this [THEN conjunct1] this [THEN conjunct2]]
    from CreateVPNConn_refused [OF v] have "only_used e2 e'" .
    with e2 show ?thesis by (rule only_used_trans)
  qed
qed

subsection \<open>Runs of an event\<close>

text \<open>\<open>allowed\<close> restricts the assignments of a run, by the event before, the team and the error.\<close>

inductive event_reachable ::
  "(guac_event \<Rightarrow> team \<Rightarrow> event_error option \<Rightarrow> bool) \<Rightarrow> guac_event \<Rightarrow> guac_event \<Rightarrow> bool" for allowed e0 where
  start: "event_reachable allowed e0 e0"
| port: "event_reachable allowed e0 e \<Longrightarrow> event_reachable allowed e0 (e\<lparr>ge_port := p\<rparr>)"
| assign: "event_reachable allowed e0 e \<Longrightarrow> AssignLab env l e t = Ret (err, e', t') \<Longrightarrow> allowed e t err \<Longrightarrow>
     event_reachable allowed e0 e'"
| reset: "event_reachable allowed e0 e \<Longrightarrow> resetHook h tag e t = Ret (err, e', t') \<Longrightarrow> event_reachable allowed e0 e'"
| start_stop: "event_reachable allowed e0 e \<Longrightarrow> startStopHook h tag b e t = Ret (err, e', t') \<Longrightarrow> event_reachable allowed e0 e'"
| resume: "event_reachable allowed e0 e \<Longrightarrow> resumeTeamLab h e t = (err, e', t') \<Longrightarrow> event_reachable allowed e0 e'"
| frontend: "event_reachable allowed e0 e \<Longrightarrow> resetFrontendHook h e t = (err, e', t') \<Longrightarrow> event_reachable allowed e0 e'"

text \<open>The hooks that work on an assigned lab put it back under the same team.\<close>

definition relabbed :: "guac_event \<Rightarrow> guac_event \<Rightarrow> bool" where
  "relabbed e e' \<longleftrightarrow> (\<exists>ls. e' = e\<lparr>ge_labs := ls\<rparr> \<and> (\<forall>i. map_get ls i = None \<longleftrightarrow> map_get (ge_labs e) i = None))"

lemma relabbed_refl [simp]: "relabbed e e"
  by (auto simp: relabbed_def intro: exI [of _ "ge_labs e"])

lemma relabbed_put: "GetLabByTeam i e = Some l0 \<Longrightarrow> relabbed e (put_lab i l e)"
  unfolding relabbed_def put_lab_def GetLabByTeam_def by (intro exI [of _ "map_put i l (ge_labs e)"]) simp

lemma hooks_relabbed:
  "resetHook h tag e t = Ret (err, e', t') \<Longrightarrow> relabbed e e'"
  "startStopHook h tag b e t = Ret (err, e', t') \<Longrightarrow> relabbed e e'"
  "resumeTeamLab h e t = (err, e', t') \<Longrightarrow> relabbed e e'"
  "resetFrontendHook h e t = (err, e', t') \<Longrightarrow> relabbed e e'"
proof -
  show "relabbed e e'" if "resetHook h tag e t = Ret (err, e', t')"
    using that by (auto simp: resetHook_def go_bind_Ret Let_def intro: relabbed_put split: option.splits)
  show "relabbed e e'" if "startStopHook h tag b e t = Ret (err, e', t')"
    using that by (auto simp: startStopHook_def intro: relabbed_put split: option.splits prod.splits)
  show "relabbed e e'" if "resumeTeamLab h e t = (err, e', t')"
    using that by (auto simp: resumeTeamLab_def intro: relabbed_put split: option.splits)
  show "relabbed e e'" if "resetFrontendHook h e t = (err, e', t')"
    using that by (auto simp: resetFrontendHook_def intro: relabbed_put split: option.splits prod.splits)
qed

text \<open>An invariant holds in every reachable event if the start has it, and ports, hooks and assignments keep it.\<close>

lemma event_invariant:
  assumes "event_reachable allowed e0 e" and "P e0"
    and port: "\<And>e p. P e \<Longrightarrow> P (e\<lparr>ge_port := p\<rparr>)"
    and hooks: "\<And>e e'. P e \<Longrightarrow> relabbed e e' \<Longrightarrow> P e'"
    and given_lab: "\<And>env l e t e' t'. P e \<Longrightarrow> AssignLab env l e t = Ret (None, e', t') \<Longrightarrow> allowed e t None \<Longrightarrow> P e'"
    and refused: "\<And>x e e' t. P e \<Longrightarrow> only_used e e' \<Longrightarrow> allowed e t (Some x) \<Longrightarrow> P e'"
  shows "P e"
  using assms(1)
proof induction
  case start
  show ?case by (rule assms(2))
next
  case (port e p)
  show ?case by (rule assms(3) [OF port.IH])
next
  case (assign e env l t err e' t')
  show ?case
  proof (cases err)
    case None
    with assign show ?thesis using given_lab by blast
  next
    case (Some x)
    with assign AssignLab_refused refused show ?thesis by blast
  qed
next
  case (reset e h tag t err e' t')
  from hooks_relabbed(1) [OF reset.hyps(2)] show ?case by (rule hooks [OF reset.IH])
next
  case (start_stop e h tag b t err e' t')
  from hooks_relabbed(2) [OF start_stop.hyps(2)] show ?case by (rule hooks [OF start_stop.IH])
next
  case (resume e h t err e' t')
  from hooks_relabbed(3) [OF resume.hyps(2)] show ?case by (rule hooks [OF resume.IH])
next
  case (frontend e h t err e' t')
  from hooks_relabbed(4) [OF frontend.hyps(2)] show ?case by (rule hooks [OF frontend.IH])
qed

subsection \<open>Addresses of the teams\<close>

lemma upto_four: "[0..<4 * Suc m] = [0..<4 * m] @ [4 * m..<4 * m + 4]"
  using upt_add_eq_append [of 0 "4 * m" 4] by (simp add: add.commute)

definition peers_ok :: "guac_event \<Rightarrow> guac_event \<Rightarrow> bool" where
  "peers_ok e0 e \<longleftrightarrow> rest_same e0 e \<and>
     (\<exists>m. 4 * m \<le> 1012 \<and> ge_addrs e = take (1012 - 4 * m) event_ips \<and> map snd (ge_peers e) = map (given (ge_vpn_address e0)) [0..<4 * m])"

lemma peers_ok_assign:
  assumes "peers_ok e0 e" and "AssignLab env l e t = Ret (None, e', t')"
  shows "peers_ok e0 e'"
proof -
  from assms(1) obtain m where m: "4 * m \<le> 1012" "ge_addrs e = take (1012 - 4 * m) event_ips"
      "map snd (ge_peers e) = map (given (ge_vpn_address e0)) [0..<4 * m]" and rest: "rest_same e0 e"
    unfolding peers_ok_def by blast
  obtain t0 t1 where rest': "rest_same e e'" and "ge_labs e' = map_put (t_id t) l (ge_labs e)" "networked t t0"
    "add_flags (environment_Challenges (lb_env l)) t0 = Ret t1" "t' = CorrectedAssignedLab t1" and
    c: "if ge_only_vpn e = 0 then unconnected e e' \<and> vpnConf t0 = vpnConf t \<and> vpnKeys t0 = vpnKeys t
        else \<exists>pubs r. vpn_connected e (t_id t) (1012 - 4 * m) pubs r e' \<and> length (vpnConf t0) = 4 \<and> vpnKeys t0 = vpnKeys (with_keys pubs t)"
    by (rule AssignLab_done [OF assms(2) m(2) diff_le_self])
  have rest0: "rest_same e0 e'" using rest rest' by (rule rest_same_trans)
  show ?thesis
  proof (cases "ge_only_vpn e = 0")
    case True
    with c m rest0 show ?thesis unfolding peers_ok_def unconnected_def by (intro conjI exI [of _ m]) simp_all
  next
    case False
    with c obtain pubs r where con: "vpn_connected e (t_id t) (1012 - 4 * m) pubs r e'" by auto
    have four: "length (peers_at (ge_vpn_address e) (1012 - 4 * m)) = 4" by (simp add: peers_at_def)
    have addr: "ge_vpn_address e = ge_vpn_address e0" using rest by (simp add: rest_same_def)
    have "4 \<le> 1012 - 4 * m" using con by (simp add: vpn_connected_def)
    then have left: "4 * m + 4 \<le> 1012" by arith
    have "map snd (ge_peers e') = map snd (ge_peers e) @ peers_at (ge_vpn_address e) (1012 - 4 * m)"
      using con four by (simp add: vpn_connected_def map_snd_zip)
    also have "\<dots> = map (given (ge_vpn_address e0)) [0..<4 * Suc m]"
      unfolding m(3) upto_four map_append peers_at_given [OF left] addr by simp
    finally have "map snd (ge_peers e') = map (given (ge_vpn_address e0)) [0..<4 * Suc m]" .
    moreover have "ge_addrs e' = take (1012 - 4 * Suc m) event_ips" using con by (simp add: vpn_connected_def)
    ultimately show ?thesis using left rest0 unfolding peers_ok_def by (intro conjI exI [of _ "Suc m"]) simp_all
  qed
qed

text \<open>
  C29. As long as no assignment of a lab fails, all peers ever added to an event's VPN have different addresses, each
  one in its network's last four parts 240 to 243 and between 2 and 254. There are 1012 of
  them, four for each of 253 teams, which is the capacity up to which the daemon accepts VPN events.
\<close>
theorem vpn_addresses_distinct:
  assumes "event_reachable (\<lambda>e t err. err = None) (NewEvent tag v (ip @ ''.240.1/22'') hst files) e"
    and "CHR ''/'' \<notin> set ip"
  shows "distinct (map snd (ge_peers e)) \<and> length (ge_peers e) + length (ge_addrs e) = 1012 \<and>
    (\<forall>a \<in> snd ` set (ge_peers e). \<exists>i \<in> {240..243}. \<exists>k \<in> {2..254}. a = ip @ ''.'' @ show_nat i @ ''.'' @ show_nat k @ ''/32'')"
proof -
  let ?e0 = "NewEvent tag v (ip @ ''.240.1/22'') hst files"
  have "peers_ok ?e0 e"
  proof (rule event_invariant [OF assms(1)])
    show "peers_ok ?e0 ?e0"
      unfolding peers_ok_def by (intro conjI exI [of _ 0]) (simp_all add: NewEvent_def length_event_ips)
  next
    fix e e' and p :: nat
    show "peers_ok ?e0 e \<Longrightarrow> peers_ok ?e0 (e\<lparr>ge_port := p\<rparr>)" by (simp add: peers_ok_def rest_same_def)
    show "peers_ok ?e0 e \<Longrightarrow> relabbed e e' \<Longrightarrow> peers_ok ?e0 e'" by (auto simp: peers_ok_def rest_same_def relabbed_def)
  qed (blast intro: peers_ok_assign, simp)
  then obtain m where m: "4 * m \<le> 1012" "ge_addrs e = take (1012 - 4 * m) event_ips"
      "map snd (ge_peers e) = map (given (ip @ ''.240.1/22'')) [0..<4 * m]"
    unfolding peers_ok_def by (auto simp: NewEvent_def)
  have "length (ge_peers e) = 4 * m" using arg_cong [OF m(3), of length] by simp
  moreover have "\<exists>i \<in> {240..243}. \<exists>k \<in> {2..254}. a = ip @ ''.'' @ show_nat i @ ''.'' @ show_nat k @ ''/32''"
    if a: "a \<in> snd ` set (ge_peers e)" for a
  proof -
    from a have "a \<in> set (map snd (ge_peers e))" by simp
    then obtain q where "a = given (ip @ ''.240.1/22'') q" unfolding m(3) by auto
    then have "a = ip @ ''.'' @ show_nat (240 + q mod 4) @ ''.'' @ show_nat (2 + (1011 - q) mod 253) @ ''/32''"
      by (simp add: given_def peer_ip_eq [OF assms(2)])
    moreover have "240 + r mod 4 \<in> {240..243}" for r :: nat using mod_less_divisor [of 4 r] by (simp only: atLeastAtMost_iff) linarith
    moreover have "2 + r mod 253 \<in> {2..254}" for r :: nat using mod_less_divisor [of 253 r] by (simp only: atLeastAtMost_iff) linarith
    ultimately show ?thesis by blast
  qed
  ultimately show ?thesis using m given_distinct [OF assms(2) m(1)] by (simp add: length_event_ips)
qed

subsection \<open>A service that answers everything\<close>

definition open_env :: event_env where
  "open_env = \<lparr>ee_page = Some [], ee_dir = [], ee_public = (\<lambda>_. Inr ''key''), ee_private = (\<lambda>_. Inr ''secret''),
     ee_gen_private = (\<lambda>_. None), ee_gen_public = (\<lambda>_. None), ee_add_peer = (\<lambda>_ _ _. None), ee_write_ok = (\<lambda>_. True),
     ee_create_user = (\<lambda>_ _. None), ee_host_ip = Inr ''10.0.0.1'', ee_create_rdp = (\<lambda>_ _ _ _. None)\<rparr>"

lemma open_conn:
  "ge_addrs e \<noteq> [] \<Longrightarrow> \<exists>c e' t'. vpn_conn open_env sk sn hosts page i (e, t) = Ret (Inr c, e', t') \<and> ge_addrs e' = butlast (ge_addrs e)"
  by (simp add: vpn_conn_def pop_def open_env_def Let_def)

lemma open_loop:
  "length is \<le> length (ge_addrs e) \<Longrightarrow> \<exists>cs e' t'. conn_loop open_env sk sn hosts page is conns (e, t) = Ret (Inr cs, e', t')"
proof (induction "is" arbitrary: conns e t)
  case (Cons i "is")
  then have "ge_addrs e \<noteq> []" by auto
  then obtain c e1 t1 where 1: "vpn_conn open_env sk sn hosts page i (e, t) = Ret (Inr c, e1, t1)"
      "ge_addrs e1 = butlast (ge_addrs e)" using open_conn by blast
  with Cons.prems have "length is \<le> length (ge_addrs e1)" by simp
  from Cons.IH [OF this] 1 show ?case by simp
qed simp

lemma add_flags_returns: "\<exists>t'. add_flags cs t = Ret t'"
proof (induction cs arbitrary: t)
  case (Cons c cs)
  have "\<exists>r t'. AddChallenge tag f t = Ret (r, t')" for tag f
    by (simp add: AddChallenge_def Let_def return_unlocked_def lock_def unlock_def)
  then obtain r t1 where "AddChallenge (case NewTag (ch_tag c) of Inl _ \<Rightarrow> [] | Inr tag \<Rightarrow> tag) (ch_value c) t = Ret (r, t1)" by blast
  with Cons.IH [of t1] show ?case by simp
qed simp

lemma open_assign:
  assumes "ge_only_vpn e = 1" and "4 \<le> length (ge_addrs e)" and "en_dhcp (lb_env l)"
  shows "\<exists>e' t'. AssignLab open_env l e t = Ret (None, e', t')"
proof -
  obtain info where info: "lab_net_info l = Ret info" using assms(3) by (simp add: lab_net_info_def Let_def)
  have "length [240..<244] \<le> length (ge_addrs e)" using assms(2) by simp
  from open_loop [OF this] obtain cs e1 t1 where
    "conn_loop open_env ''key'' (ln_subnet info @ ''/24'') (vpn_hosts (ln_records info)) [] [240..<244] [] (e, t) = Ret (Inr cs, e1, t1)" by blast
  then obtain conf e2 where v: "CreateVPNConn open_env info e t = Ret (Inr conf, e2, t1)"
    by (simp add: CreateVPNConn_def Let_def open_env_def del: conn_loop.simps upt.simps)
  have "\<exists>e' t'. finish_assign t l e = Ret (None, e', t')" for t e
    using add_flags_returns [of "environment_Challenges (lb_env l)" t] by (auto simp: finish_assign_def)
  then show ?thesis using assms(1) by (simp add: AssignLab_def info v Let_def)
qed

text \<open>A team per number, a started lab without exercises, and a service that cannot make a key.\<close>

definition nth_team :: "nat \<Rightarrow> team" where
  "nth_team j = \<lparr>t_locked = False, has_dbc = True, t_id = show_nat j, t_email = [], t_name = show_nat j, hashedPassword = [],
     lastAccess = [], challenges = [], solvedChalsDB = [], vpnKeys = [], vpnConf = [], labSubnet = [], isLabAssigned = False,
     hostsInfo = [], disabledChallenges = [], allChallenges = []\<rparr>"

definition bare_lab :: lab where
  "bare_lab = \<lparr>lb_tag = ''angry_turing'', lb_env = sample_lab_env\<lparr>en_dhcp := True\<rparr>, lb_frontends = []\<rparr>"

definition broken_env :: event_env where
  "broken_env = open_env\<lparr>ee_gen_private := (\<lambda>_. Some ''no space left'')\<rparr>"

text \<open>Each team is assigned a lab at most once, and the only errors are those of the VPN service.\<close>

definition once :: "guac_event \<Rightarrow> team \<Rightarrow> event_error option \<Rightarrow> bool" where
  "once e t err \<longleftrightarrow> map_get (ge_labs e) (t_id t) = None \<and> (err = None \<or> (\<exists>x. err = Some (VpnErr x)))"

lemma bare_lab_dhcp: "en_dhcp (lb_env bare_lab)"
  by (simp add: bare_lab_def)

lemma broken_assign:
  assumes "ge_only_vpn e = 1" and "ge_addrs e \<noteq> []"
  shows "AssignLab broken_env bare_lab e t = Ret (Some (VpnErr ''no space left''), e\<lparr>ge_addrs := butlast (ge_addrs e)\<rparr>, t)"
proof -
  obtain info where info: "lab_net_info bare_lab = Ret info" using bare_lab_dhcp by (simp add: lab_net_info_def Let_def)
  have "vpn_conn broken_env sk sn hosts page 240 (e, t) = Ret (Inl (VpnErr ''no space left''), e\<lparr>ge_addrs := butlast (ge_addrs e)\<rparr>, t)"
    for sk sn hosts page using assms(2) by (simp add: vpn_conn_def pop_def broken_env_def Let_def)
  then have "conn_loop broken_env sk sn hosts page [240..<244] [] (e, t) =
      Ret (Inl (VpnErr ''no space left''), e\<lparr>ge_addrs := butlast (ge_addrs e)\<rparr>, t)" for sk sn hosts page
    by (simp add: four_connections del: upt.simps)
  moreover have "ee_page broken_env = Some []" "ee_public broken_env (ge_tag e) = Inr ''key''"
    by (simp_all add: broken_env_def open_env_def)
  ultimately have "CreateVPNConn broken_env info e t = Ret (Inl (VpnErr ''no space left''), e\<lparr>ge_addrs := butlast (ge_addrs e)\<rparr>, t)"
    by (simp add: CreateVPNConn_def Let_def del: conn_loop.simps upt.simps)
  with assms(1) show ?thesis by (simp add: AssignLab_def info)
qed

text \<open>A run of an event with \<open>n\<close> addresses left, in which the teams from number \<open>j\<close> on have no lab.\<close>

definition running_with :: "guac_event \<Rightarrow> nat \<Rightarrow> nat \<Rightarrow> guac_event \<Rightarrow> bool" where
  "running_with e0 n j e \<longleftrightarrow> event_reachable once e0 e \<and> rest_same e0 e \<and> ge_addrs e = take n event_ips \<and>
     (\<forall>i \<ge> j. map_get (ge_labs e) (show_nat i) = None)"

lemma next_assignment:
  assumes "running_with e0 n j e" and "ge_only_vpn e0 = 1" and "4 \<le> n" and "n \<le> 1012"
  shows "\<exists>e' pubs. length pubs = 4 \<and> running_with e0 (n - 4) (Suc j) e' \<and>
    ge_peers e' = ge_peers e @ zip pubs (peers_at (ge_vpn_address e0) n)"
proof -
  have addrs: "ge_addrs e = take n event_ips" and rest: "rest_same e0 e" and reach: "event_reachable once e0 e"
    and fresh: "\<forall>i \<ge> j. map_get (ge_labs e) (show_nat i) = None"
    using assms(1) by (simp_all add: running_with_def)
  have vpn: "ge_only_vpn e = 1" "ge_vpn_address e = ge_vpn_address e0" using rest assms(2) by (simp_all add: rest_same_def)
  have "4 \<le> length (ge_addrs e)" using assms(3,4) by (simp add: addrs length_event_ips)
  from open_assign [OF vpn(1) this bare_lab_dhcp] obtain e' t' where a: "AssignLab open_env bare_lab e (nth_team j) = Ret (None, e', t')"
    by blast
  then obtain t0 t1 where d: "rest_same e e'" "ge_labs e' = map_put (t_id (nth_team j)) bare_lab (ge_labs e)" "networked (nth_team j) t0"
    "add_flags (environment_Challenges (lb_env bare_lab)) t0 = Ret t1" "t' = CorrectedAssignedLab t1"
    "if ge_only_vpn e = 0 then unconnected e e' \<and> vpnConf t0 = vpnConf (nth_team j) \<and> vpnKeys t0 = vpnKeys (nth_team j)
     else \<exists>pubs r. vpn_connected e (t_id (nth_team j)) n pubs r e' \<and> length (vpnConf t0) = 4 \<and>
       vpnKeys t0 = vpnKeys (with_keys pubs (nth_team j))"
    by (rule AssignLab_done [OF _ addrs assms(4)])
  then obtain pubs r where c: "vpn_connected e (t_id (nth_team j)) n pubs r e'" using vpn(1) by auto
  have "once e (nth_team j) None" using fresh by (simp add: once_def nth_team_def)
  then have "event_reachable once e0 e'" by (rule event_reachable.assign [OF reach a])
  moreover have "\<forall>i \<ge> Suc j. map_get (ge_labs e') (show_nat i) = None" using fresh by (simp add: d(2) nth_team_def)
  ultimately have "running_with e0 (n - 4) (Suc j) e'"
    using rest_same_trans [OF rest d(1)] c by (simp add: running_with_def vpn_connected_def)
  with c vpn(2) show ?thesis by (auto simp: vpn_connected_def)
qed

lemma many_assignments:
  assumes "running_with e0 n j e" and "ge_only_vpn e0 = 1" and "4 * k \<le> n" and "n \<le> 1012"
  shows "\<exists>e' ps. running_with e0 (n - 4 * k) (j + k) e' \<and> length ps = 4 * k \<and> ge_peers e' = ge_peers e @ ps"
  using assms(3)
proof (induction k)
  case 0
  with assms(1) show ?case by (intro exI [of _ e] exI [of _ "[]"]) simp
next
  case (Suc k)
  then obtain e1 ps where 1: "running_with e0 (n - 4 * k) (j + k) e1" "length ps = 4 * k" "ge_peers e1 = ge_peers e @ ps" by auto
  have "4 \<le> n - 4 * k" "n - 4 * k \<le> 1012" using Suc.prems assms(4) by arith+
  from next_assignment [OF 1(1) assms(2) this] obtain e' pubs where 2: "length pubs = 4" "running_with e0 (n - 4 * k - 4) (Suc (j + k)) e'"
      "ge_peers e' = ge_peers e1 @ zip pubs (peers_at (ge_vpn_address e0) (n - 4 * k))" by blast
  then show ?case using 1 by (intro exI [of _ e'] exI [of _ "ps @ zip pubs (peers_at (ge_vpn_address e0) (n - 4 * k))"])
    (simp add: peers_at_def add.commute)
qed

text \<open>
  One failed call of the VPN service spoils this: an address is used up, the numbers of addresses and of
  interfaces get out of step, and 63 teams later a team gets the four peer addresses of an
  earlier one. In the run, no team is assigned a lab twice, and the VPN has 256 peers, of 64 teams.
\<close>
theorem failed_call_shares_addresses:
  "\<exists>e. event_reachable once (NewEvent tag 1 address hst files) e \<and> length (ge_peers e) = 256 \<and>
     map snd (take 4 (ge_peers e)) = map snd (drop 252 (ge_peers e))"
proof -
  let ?e0 = "NewEvent tag 1 address hst files"
  have vpn: "ge_only_vpn ?e0 = 1" by (simp add: NewEvent_def)
  have start: "running_with ?e0 1012 0 ?e0"
    by (simp add: running_with_def event_reachable.start) (simp add: NewEvent_def length_event_ips)
  from next_assignment [OF start vpn] obtain e1 p1 where 1: "length p1 = 4" "running_with ?e0 (1012 - 4) (Suc 0) e1"
      "ge_peers e1 = ge_peers ?e0 @ zip p1 (peers_at (ge_vpn_address ?e0) 1012)" by auto
  let ?e2 = "e1\<lparr>ge_addrs := butlast (ge_addrs e1)\<rparr>"
  have r1: "event_reachable once ?e0 e1" "rest_same ?e0 e1" "ge_addrs e1 = take 1008 event_ips"
      "\<forall>i \<ge> 1. map_get (ge_labs e1) (show_nat i) = None" using 1(2) by (simp_all add: running_with_def)
  have e1: "ge_only_vpn e1 = 1" "ge_addrs e1 \<noteq> []" using r1(2,3) vpn length_event_ips by (auto simp: rest_same_def)
  have "event_reachable once ?e0 ?e2"
    by (rule event_reachable.assign [OF r1(1) broken_assign [OF e1, of "nth_team 1"]])
       (use r1(4) in \<open>simp add: once_def nth_team_def\<close>)
  then have "running_with ?e0 1007 1 ?e2"
    using r1 by (simp add: running_with_def rest_same_def butlast_take length_event_ips)
  from many_assignments [OF this vpn, of 62] obtain e3 ps where 3: "running_with ?e0 759 63 e3" "length ps = 248"
      "ge_peers e3 = ge_peers e1 @ ps" by auto
  from next_assignment [OF 3(1) vpn] obtain e4 p4 where 4: "length p4 = 4" "running_with ?e0 (759 - 4) (Suc 63) e4"
      "ge_peers e4 = ge_peers e3 @ zip p4 (peers_at (ge_vpn_address ?e0) 759)" by auto
  have four: "[0..<4] = [0, 1, 2, 3 :: nat]" by (simp add: upt_rec)
  have again: "peers_at s 759 = peers_at s 1012" for s by (simp add: peers_at_def four)
  have len: "length (peers_at s n) = 4" for s n by (simp add: peers_at_def)
  have peers: "ge_peers e4 = zip p1 (peers_at address 1012) @ ps @ zip p4 (peers_at address 1012)"
    using 1(3) 3(3) 4(3) by (simp add: again) (simp add: NewEvent_def)
  have "map snd (take 4 (ge_peers e4)) = peers_at address 1012" "map snd (drop 252 (ge_peers e4)) = peers_at address 1012"
    by (simp_all add: peers 1(1) 4(1) 3(2) len map_snd_zip)
  moreover have "length (ge_peers e4) = 256" by (simp add: peers 1(1) 4(1) 3(2) len)
  ultimately show ?thesis using 4(2) unfolding running_with_def by metis
qed

lemma assigned_connection:
  assumes "AssignLab env l e t = Ret (None, e', t')" and "ge_addrs e = take n event_ips" and "n \<le> 1012" and "ge_only_vpn e \<noteq> 0"
  shows "\<exists>pubs r. vpn_connected e (t_id t) n pubs r e'"
  by (rule AssignLab_done [OF assms(1-3)]) (use assms(4) in auto)

lemma vpn_addresses_distinct_witness:
  "\<exists>e. event_reachable (\<lambda>e t err. err = None) (NewEvent ''ctf'' 1 (''25.17'' @ ''.240.1/22'') ''haaukins.dk'' []) e \<and>
     length (ge_peers e) = 4 \<and> distinct (map snd (ge_peers e))"
proof -
  let ?e0 = "NewEvent ''ctf'' 1 (''25.17'' @ ''.240.1/22'') ''haaukins.dk'' []"
  have e0: "ge_only_vpn ?e0 = 1" "4 \<le> length (ge_addrs ?e0)" "ge_addrs ?e0 = take 1012 event_ips"
    by (simp_all add: NewEvent_def length_event_ips)
  from open_assign [OF e0(1,2) bare_lab_dhcp] obtain e t' where a: "AssignLab open_env bare_lab ?e0 (nth_team 0) = Ret (None, e, t')" by blast
  have "ge_only_vpn ?e0 \<noteq> 0" using e0(1) by simp
  from assigned_connection [OF a e0(3) order_refl this] have "length (ge_peers e) = 4" by (auto simp: vpn_connected_def NewEvent_def peers_at_def)
  moreover have reach: "event_reachable (\<lambda>e t err. err = None) ?e0 e"
    by (rule event_reachable.assign [OF event_reachable.start a]) simp
  moreover have "CHR ''/'' \<notin> set ''25.17''" by simp
  ultimately show ?thesis using vpn_addresses_distinct [OF reach] by blast
qed

subsection \<open>Keys of a connection and the VPN page\<close>

lemma networked_flags:
  assumes "networked t t0" and "add_flags cs t0 = Ret t1"
  shows "t_id t1 = t_id t" "t_name t1 = t_name t" "vpnKeys t1 = vpnKeys t0" "vpnConf t1 = vpnConf t0" "has_dbc t1 = has_dbc t"
    "solvedChalsDB t1 = solvedChalsDB t"
proof -
  obtain a b where t1: "t1 = t0\<lparr>t_locked := a, challenges := b\<rparr>" using add_flags_same [OF assms(2)] by blast
  obtain k c s h where "t0 = t\<lparr>vpnKeys := k, vpnConf := c, labSubnet := s, hostsInfo := h\<rparr>"
    using assms(1) unfolding networked_def by blast
  with t1 show "t_id t1 = t_id t" "t_name t1 = t_name t" "vpnKeys t1 = vpnKeys t0" "vpnConf t1 = vpnConf t0" "has_dbc t1 = has_dbc t"
    "solvedChalsDB t1 = solvedChalsDB t" by simp_all
qed

lemma vpn_loop_unknown:
  assumes "\<And>k. i \<le> k \<Longrightarrow> k < i + n \<Longrightarrow> map_get keys (int k) = None"
  shows "vpn_loop peer keys i n =
    (case peer [] of
       Inl e \<Rightarrow> if n = 0 then Inr [] else Inl e
     | Inr used \<Rightarrow> Inr (map (\<lambda>k. json_vpn k (if used then ''USED'' else ''N/U'')) [i..<i + n]))"
  using assms
proof (induction n arbitrary: i)
  case (Suc n)
  have "map_get keys (int i) = None" using Suc.prems by simp
  moreover have "vpn_loop peer keys (i + 1) n =
      (case peer [] of
         Inl e \<Rightarrow> if n = 0 then Inr [] else Inl e
       | Inr used \<Rightarrow> Inr (map (\<lambda>k. json_vpn k (if used then ''USED'' else ''N/U'')) [i + 1..<i + 1 + n]))"
    using Suc.prems by (intro Suc.IH) simp
  moreover have "[i..<i + Suc n] = i # [i + 1..<i + 1 + n]" by (simp add: upt_rec)
  ultimately show ?case by (simp split: sum.split del: upt_Suc)
qed (simp split: sum.split)

text \<open>Every address list an event can be in.\<close>

lemma reachable_addrs:
  assumes "event_reachable allowed (NewEvent tag v address hst files) e"
  shows "\<exists>n \<le> 1012. ge_addrs e = take n event_ips"
proof (rule event_invariant [OF assms])
  show "\<exists>n \<le> 1012. ge_addrs (NewEvent tag v address hst files) = take n event_ips"
    by (intro exI [of _ 1012]) (simp add: NewEvent_def length_event_ips)
next
  fix env l e t e' t'
  assume "\<exists>n \<le> 1012. ge_addrs e = take n event_ips" and a: "AssignLab env l e t = Ret (None, e', t')"
  then obtain n where n: "n \<le> 1012" "ge_addrs e = take n event_ips" by blast
  show "\<exists>n \<le> 1012. ge_addrs e' = take n event_ips"
  proof (rule AssignLab_done [OF a n(2,1)])
    fix t0
    assume c: "if ge_only_vpn e = 0 then unconnected e e' \<and> vpnConf t0 = vpnConf t \<and> vpnKeys t0 = vpnKeys t
      else \<exists>pubs r. vpn_connected e (t_id t) n pubs r e' \<and> length (vpnConf t0) = 4 \<and> vpnKeys t0 = vpnKeys (with_keys pubs t)"
    show ?thesis
    proof (cases "ge_only_vpn e = 0")
      case True
      with c n show ?thesis by (auto simp: unconnected_def)
    next
      case False
      with c n show ?thesis by (auto simp: vpn_connected_def intro!: exI [of _ "n - 4"])
    qed
  qed
next
  fix x e e' t
  assume "\<exists>n \<le> 1012. ge_addrs e = take n event_ips" and "only_used e e'"
  then show "\<exists>n \<le> 1012. ge_addrs e' = take n event_ips" unfolding only_used_def by (metis le_trans)
qed (auto simp: relabbed_def)

text \<open>
  The event stores a team's keys under the numbers 240 to 243 and the site looks them up under 0 to 3. So
  the VPN page of a team that has just got its lab does not depend on whether its own
  connections are in use: all four show what the service says of the empty key.
\<close>
theorem vpn_status_blind:
  assumes "event_reachable allowed (NewEvent tag v address hst files) e" and "AssignLab env l e t = Ret (None, e', t')"
    and "ge_only_vpn e \<noteq> 0" and "vpnKeys t = []" and "peer [] = Inr used"
  shows "vpn_replies peer t' = [ReplyJson 200 (JArr (map (\<lambda>k. json_vpn k (if used then ''USED'' else ''N/U'')) [0, 1, 2, 3]))]"
proof -
  obtain n where n: "n \<le> 1012" "ge_addrs e = take n event_ips" using reachable_addrs [OF assms(1)] by blast
  obtain t0 t1 where d: "rest_same e e'" "ge_labs e' = map_put (t_id t) l (ge_labs e)" "networked t t0"
    "add_flags (environment_Challenges (lb_env l)) t0 = Ret t1" "t' = CorrectedAssignedLab t1"
    "if ge_only_vpn e = 0 then unconnected e e' \<and> vpnConf t0 = vpnConf t \<and> vpnKeys t0 = vpnKeys t
     else \<exists>pubs r. vpn_connected e (t_id t) n pubs r e' \<and> length (vpnConf t0) = 4 \<and> vpnKeys t0 = vpnKeys (with_keys pubs t)"
    by (rule AssignLab_done [OF assms(2) n(2,1)])
  then obtain pubs where p: "length (vpnConf t0) = 4" "vpnKeys t0 = vpnKeys (with_keys pubs t)" using assms(3) by auto
  note same = networked_flags [OF d(3,4)]
  have t': "vpnKeys t' = vpnKeys (with_keys pubs t)" "length (vpnConf t') = 4"
    using same p by (simp_all add: d(5) CorrectedAssignedLab_def)
  have "map_get (vpnKeys t') (int k) = None" if "k < 4" for k
    using that with_keys_low [of "int k" pubs t] assms(4) by (simp add: t'(1))
  then have "vpn_loop peer (vpnKeys t') 0 4 = Inr (map (\<lambda>k. json_vpn k (if used then ''USED'' else ''N/U'')) [0..<4])"
    using vpn_loop_unknown [of 0 4 "vpnKeys t'" peer] assms(5) by simp
  moreover have "[0..<4] = [0, 1, 2, 3 :: nat]" by (simp add: upt_rec)
  ultimately show ?thesis by (simp add: vpn_replies_def t'(2) json_slice_def)
qed

lemma vpn_status_blind_witness:
  "\<exists>e' t'. AssignLab open_env bare_lab (NewEvent ''ctf'' 1 ''25.17.240.1/22'' ''haaukins.dk'' []) (nth_team 0) = Ret (None, e', t') \<and>
     vpn_replies (\<lambda>k. Inr (k = ''key'')) t' =
       [ReplyJson 200 (JArr (map (\<lambda>k. json_vpn k ''N/U'') [0, 1, 2, 3]))]"
proof -
  let ?e0 = "NewEvent ''ctf'' 1 ''25.17.240.1/22'' ''haaukins.dk'' []"
  have e0: "ge_only_vpn ?e0 = 1" "4 \<le> length (ge_addrs ?e0)" by (simp_all add: NewEvent_def length_event_ips)
  from open_assign [OF e0 bare_lab_dhcp] obtain e t' where a: "AssignLab open_env bare_lab ?e0 (nth_team 0) = Ret (None, e, t')" by blast
  have "ge_only_vpn ?e0 \<noteq> 0" "vpnKeys (nth_team 0) = []" by (simp_all add: NewEvent_def nth_team_def)
  from vpn_status_blind [OF event_reachable.start a this, of "\<lambda>k. Inr (k = ''key'')" False] a show ?thesis by simp
qed

subsection \<open>From an event's exercises to the flags a team can hand in\<close>

definition open_flag :: "team \<Rightarrow> flag_challenge \<Rightarrow> string \<times> team_challenge" where
  "open_flag t c = (ch_value c, \<lparr>tc_tag = ch_tag c, completed_at = completed_at (solved_one (solvedChalsDB t) (ch_tag c))\<rparr>)"

lemma add_flags_fresh:
  assumes "\<not> t_locked t" and "\<forall>c \<in> set cs. Tag_Validate (ch_tag c) = None"
    and "distinct (map (tc_tag \<circ> snd) (challenges t) @ map ch_tag cs)" and "distinct (map fst (challenges t) @ map ch_value cs)"
  shows "add_flags cs t = Ret (t\<lparr>challenges := challenges t @ map (open_flag t) cs\<rparr>)"
  using assms
proof (induction cs arbitrary: t)
  case (Cons c cs)
  let ?t = "t\<lparr>challenges := challenges t @ [open_flag t c]\<rparr>"
  have tag: "NewTag (ch_tag c) = Inr (ch_tag c)" using Cons.prems(2) by (simp add: NewTag_def)
  have "ch_tag c \<notin> (tc_tag \<circ> snd) ` set (challenges t)" using Cons.prems(3) by auto
  then have "\<not> list_ex (\<lambda>(k, chal). tc_tag chal = ch_tag c) (challenges t)" by (force simp: list_ex_iff)
  moreover have "map_get (challenges t) (ch_value c) = None" using Cons.prems(4) by (intro map_get_fst) auto
  ultimately have add: "AddChallenge (ch_tag c) (ch_value c) t = Ret (Inr (ch_value c), ?t)"
    using Cons.prems(1) by (simp add: AddChallenge_cases map_put_fresh open_flag_def)
  have "add_flags cs ?t = Ret (?t\<lparr>challenges := challenges ?t @ map (open_flag ?t) cs\<rparr>)"
    using Cons.prems by (intro Cons.IH) (simp_all add: open_flag_def)
  moreover have "map (open_flag ?t) cs = map (open_flag t) cs" by (simp add: open_flag_def)
  ultimately show ?case by (simp add: tag add)
qed simp

lemma assigned_flags:
  assumes "event_reachable allowed (NewEvent tag v address hst files) e" and "AssignLab env l e t = Ret (None, e', t')"
    and "\<not> t_locked t" and "challenges t = []" and "\<forall>c \<in> set (environment_Challenges (lb_env l)). Tag_Validate (ch_tag c) = None"
    and "distinct (map ch_tag (environment_Challenges (lb_env l)))" and "distinct (map ch_value (environment_Challenges (lb_env l)))"
  shows "challenges t' = map (open_flag t) (environment_Challenges (lb_env l))" "has_dbc t' = has_dbc t"
proof -
  let ?cs = "environment_Challenges (lb_env l)"
  obtain n where n: "n \<le> 1012" "ge_addrs e = take n event_ips" using reachable_addrs [OF assms(1)] by blast
  obtain t0 t1 where d: "rest_same e e'" "ge_labs e' = map_put (t_id t) l (ge_labs e)" "networked t t0"
    "add_flags ?cs t0 = Ret t1" "t' = CorrectedAssignedLab t1"
    "if ge_only_vpn e = 0 then unconnected e e' \<and> vpnConf t0 = vpnConf t \<and> vpnKeys t0 = vpnKeys t
     else \<exists>pubs r. vpn_connected e (t_id t) n pubs r e' \<and> length (vpnConf t0) = 4 \<and> vpnKeys t0 = vpnKeys (with_keys pubs t)"
    by (rule AssignLab_done [OF assms(2) n(2,1)])
  obtain ks c s hi where t0: "t0 = t\<lparr>vpnKeys := ks, vpnConf := c, labSubnet := s, hostsInfo := hi\<rparr>"
    using d(3) unfolding networked_def by blast
  have "add_flags ?cs t0 = Ret (t0\<lparr>challenges := challenges t0 @ map (open_flag t0) ?cs\<rparr>)"
    by (rule add_flags_fresh) (use assms(3-7) in \<open>simp_all add: t0\<close>)
  moreover have "open_flag t0 = open_flag t" by (simp add: open_flag_def t0 fun_eq_iff)
  ultimately show "challenges t' = map (open_flag t) ?cs" "has_dbc t' = has_dbc t"
    using d(4,5) assms(4) by (auto simp: t0 CorrectedAssignedLab_def)
qed

lemma verify_open:
  assumes "distinct (map ch_tag cs)" and "distinct (map ch_value cs)" and "c \<in> set cs" and "has_dbc t"
    and "challenges t = map (open_flag t0) cs" and "solvedChalsDB t0 = []"
  shows "(\<exists>t'. VerifyFlag (ch_tag c) f tm True t = Ret (None, t')) \<longleftrightarrow> f = ch_value c"
proof -
  have ok: "map_ok (challenges t)" using assms(2) by (simp add: assms(5) map_ok_def open_flag_def comp_def)
  have none: "completed_at (solved_one [] g) = None" for g by (simp add: solved_one_def)
  show ?thesis
  proof
    assume "f = ch_value c"
    then have "(f, \<lparr>tc_tag = ch_tag c, completed_at = None\<rparr>) \<in> set (challenges t)"
      using assms(3,6) by (force simp: assms(5) open_flag_def none)
    then have "map_get (challenges t) f = Some \<lparr>tc_tag = ch_tag c, completed_at = None\<rparr>" using in_map_get [OF ok] by simp
    then show "\<exists>t'. VerifyFlag (ch_tag c) f tm True t = Ret (None, t')"
      using assms(4) by (simp add: VerifyFlag_def lock_def Let_def return_unlocked_def unlock_def)
  next
    assume "\<exists>t'. VerifyFlag (ch_tag c) f tm True t = Ret (None, t')"
    then obtain chal where "map_get (challenges t) f = Some chal" and tag: "tc_tag chal = ch_tag c"
      by (auto simp: VerifyFlag_def lock_def Let_def return_unlocked_def unlock_def split: option.splits if_splits)
    then have "(f, chal) \<in> set (challenges t)" using in_map_get [OF ok] by simp
    then obtain d where d: "d \<in> set cs" "f = ch_value d" "tc_tag chal = ch_tag d" by (auto simp: assms(5) open_flag_def)
    with tag assms(1,3) have "d = c" by (metis distinct_map inj_onD)
    with d show "f = ch_value c" by simp
  qed
qed


text \<open>A lab with one machine.\<close>

definition vm_conf :: lab_config where
  "vm_conf = \<lparr>lc_frontends = [], lc_exercises = [lab_exercise ''vm'' ''vm.ova''], lc_disabled = []\<rparr>"

lemma one_machine:
  "\<exists>l. NewLab quiet_host fs vm_conf ''angry_turing'' [] sample_lab_env = Some (Ret (Inr l)) \<and>
     map ch_tag (environment_Challenges (lb_env l)) = [''vm-1''] \<and> map ch_value (environment_Challenges (lb_env l)) = [''flag''] \<and>
     lb_frontends l = []"
  by (simp add: NewLab_def vm_conf_def run_lab quiet_host_def lab_exercise_def sample_lab_env_def NewEnvironment_def NewNetwork_def
      FormatIP_def no_ova map_get_def map_put_def SetDisabledExercises_def environment_Challenges_def exercise_Challenges_def vm_challenge_def)

lemma quiet_start:
  assumes "lb_frontends l = []"
  shows "\<exists>l'. lab_Start quiet_host l = (None, l') \<and> en_dhcp (lb_env l')"
proof -
  have run: "run_all (\<lambda>e. if P e then (None, e) else exercise_Start quiet_host e) es =
      (None, map (snd \<circ> (\<lambda>e. if P e then (None, e) else exercise_Start quiet_host e)) es)" for P es
    by (rule run_all_ok) (simp add: exercise_Start_quiet)
  obtain ee where "environment_Start quiet_host (lb_env l) = (None, ee)" "en_dhcp ee"
    by (simp add: environment_Start_def refreshDNS_def start_dhcp_def run)
  with assms show ?thesis by (simp add: lab_Start_def each_frontend_def)
qed


subsection \<open>Firewall rules\<close>

text \<open>The command that takes back what another has inserted.\<close>

definition as_delete :: "string list \<Rightarrow> string list" where
  "as_delete c = c[2 := ''-D'']"

lemma as_delete_rules: "map as_delete (rule_commands ''--insert'' r) = rule_commands ''-D'' r"
  by (simp add: rule_commands_def as_delete_def numeral_2_eq_2)

definition rules_ok :: "guac_event \<Rightarrow> bool" where
  "rules_ok e \<longleftrightarrow> mset (map as_delete (ge_commands e)) = mset (concat (map (rule_commands ''-D'' \<circ> snd) (ge_rules e))) \<and>
     (\<forall>i. map_get (ge_labs e) i = None \<longrightarrow> map_get (ge_rules e) i = None)"

lemma rules_ok_assign:
  assumes "rules_ok e" and "ge_addrs e = take n event_ips" and "n \<le> 1012" and "map_get (ge_labs e) (t_id t) = None"
    and "AssignLab env l e t = Ret (None, e', t')"
  shows "rules_ok e'"
proof -
  obtain t0 t1 where d: "rest_same e e'" "ge_labs e' = map_put (t_id t) l (ge_labs e)" "networked t t0"
    "add_flags (environment_Challenges (lb_env l)) t0 = Ret t1" "t' = CorrectedAssignedLab t1"
    "if ge_only_vpn e = 0 then unconnected e e' \<and> vpnConf t0 = vpnConf t \<and> vpnKeys t0 = vpnKeys t
     else \<exists>pubs r. vpn_connected e (t_id t) n pubs r e' \<and> length (vpnConf t0) = 4 \<and> vpnKeys t0 = vpnKeys (with_keys pubs t)"
    by (rule AssignLab_done [OF assms(5,2,3)])
  show ?thesis
  proof (cases "ge_only_vpn e = 0")
    case True
    then have "unconnected e e'" using d(6) by simp
    with d(2) assms(1) show ?thesis by (simp add: rules_ok_def unconnected_def map_get_put)
  next
    case False
    with d obtain pubs r where c: "vpn_connected e (t_id t) n pubs r e'" by auto
    have "map_get (ge_rules e) (t_id t) = None" using assms(1,4) by (simp add: rules_ok_def)
    then have put: "map_put (t_id t) r (ge_rules e) = ge_rules e @ [(t_id t, r)]" by (rule map_put_fresh)
    have rules: "ge_commands e' = ge_commands e @ rule_commands ''--insert'' r" "ge_rules e' = map_put (t_id t) r (ge_rules e)"
      using c by (simp_all add: vpn_connected_def)
    have "\<forall>i. map_get (ge_labs e') i = None \<longrightarrow> map_get (ge_rules e') i = None"
      using assms(1) by (simp add: rules_ok_def rules(2) d(2) map_get_put)
    moreover have "mset (map as_delete (ge_commands e')) = mset (concat (map (rule_commands ''-D'' \<circ> snd) (ge_rules e')))"
      using assms(1) by (simp add: rules_ok_def rules put as_delete_rules)
    ultimately show ?thesis by (simp add: rules_ok_def)
  qed
qed

lemma close_commands:
  "uses_vpn e \<Longrightarrow> ge_commands (event_Close env e) = ge_commands e @ concat (map (rule_commands ''-D'' \<circ> snd) (ge_rules e))"
  by (simp add: event_Close_def removeIPTableRules_eq removeVPNConfs_def)

text \<open>
  C30. Closing a VPN event deletes exactly the firewall rules that were inserted for its teams: for each
  command that inserted a rule there is one that deletes the same rule, and there is no other, if
  no team is assigned a second lab. Assignments that fail insert nothing.
\<close>
theorem firewall_rules_removed:
  assumes "event_reachable (\<lambda>e t err. map_get (ge_labs e) (t_id t) = None) (NewEvent tag v address hst files) e" and "uses_vpn e"
  shows "\<exists>deleted. ge_commands (event_Close env e) = ge_commands e @ deleted \<and> mset deleted = mset (map as_delete (ge_commands e))"
proof -
  let ?e0 = "NewEvent tag v address hst files"
  let ?P = "\<lambda>e. rules_ok e \<and> (\<exists>n \<le> 1012. ge_addrs e = take n event_ips)"
  have "rules_ok e"
  proof (rule conjunct1 [OF event_invariant [where P = ?P, OF assms(1)]])
    have "rules_ok ?e0" by (simp add: rules_ok_def NewEvent_def)
    with reachable_addrs [OF event_reachable.start] show "?P ?e0" by blast
  next
    fix env l e t e' t'
    assume p: "?P e" and a: "AssignLab env l e t = Ret (None, e', t')" and new: "map_get (ge_labs e) (t_id t) = None"
    from p obtain n where n: "ge_addrs e = take n event_ips" "n \<le> 1012" by blast
    have "rules_ok e'" by (rule rules_ok_assign [OF conjunct1 [OF p] n new a])
    moreover have "\<exists>m \<le> 1012. ge_addrs e' = take m event_ips"
      by (rule AssignLab_done [OF a n]) (use n in \<open>auto simp: unconnected_def vpn_connected_def intro: exI [of _ "n - 4"] split: if_splits\<close>)
    ultimately show "?P e'" by blast
  next
    fix e e' :: guac_event
    assume "?P e" and "relabbed e e'"
    then show "?P e'" by (auto simp: rules_ok_def relabbed_def)
  next
    fix x e e' t
    assume p: "?P e" and u: "only_used e e'"
    then have "rules_ok e'" by (simp add: rules_ok_def only_used_def)
    moreover have "\<exists>m \<le> 1012. ge_addrs e' = take m event_ips" using p u unfolding only_used_def by (metis le_trans)
    ultimately show "?P e'" by blast
  qed (simp add: rules_ok_def)
  then show ?thesis by (simp add: close_commands [OF assms(2)] rules_ok_def)
qed

lemma firewall_rules_removed_witness:
  "\<exists>e deleted. event_reachable (\<lambda>e t err. map_get (ge_labs e) (t_id t) = None) (NewEvent ''ctf'' 1 ''25.17.240.1/22'' ''haaukins.dk'' []) e \<and>
     ge_commands e \<noteq> [] \<and> ge_commands (event_Close open_env e) = ge_commands e @ deleted \<and>
     mset deleted = mset (map as_delete (ge_commands e))"
proof -
  let ?e0 = "NewEvent ''ctf'' 1 ''25.17.240.1/22'' ''haaukins.dk'' []"
  have e0: "ge_only_vpn ?e0 = 1" "4 \<le> length (ge_addrs ?e0)" "ge_addrs ?e0 = take 1012 event_ips"
    by (simp_all add: NewEvent_def length_event_ips)
  from open_assign [OF e0(1,2) bare_lab_dhcp] obtain e t' where a: "AssignLab open_env bare_lab ?e0 (nth_team 0) = Ret (None, e, t')" by blast
  have vpn: "ge_only_vpn ?e0 \<noteq> 0" and new: "map_get (ge_labs ?e0) (t_id (nth_team 0)) = None" by (simp_all add: NewEvent_def map_get_def)
  from assigned_connection [OF a e0(3) order_refl vpn] have some: "ge_commands e \<noteq> []" by (auto simp: vpn_connected_def rule_commands_def)
  have "rest_same ?e0 e" by (rule AssignLab_done [OF a e0(3) order_refl])
  then have "uses_vpn e" using e0(1) by (simp add: rest_same_def uses_vpn_def)
  moreover have reach: "event_reachable (\<lambda>e t err. map_get (ge_labs e) (t_id t) = None) ?e0 e"
    by (rule event_reachable.assign [OF event_reachable.start a]) (rule new)
  ultimately show ?thesis using firewall_rules_removed [OF reach, of open_env] some reach by blast
qed

end
