(* ===== verification/Event_Host.thy ===== *)
theory Event_Host
  imports Guac_Event Daemon_Events
begin

text \<open>
  Creating an event and restoring it after a restart (store/event.go, the event host and the remaining operations
  of svcs/guacamole/event.go). \<open>event_store\<close> is the Go struct \<^verbatim>\<open>store.Event\<close> with its team store; the two maps that
  the host adds to the configuration are fields of their own. What the database, the exercise service, the file
  system and the constructors of the service clients answer are fields of \<open>host_env\<close>. Its field \<open>he_site\<close> holds the
  libraries of the site: the key \<^verbatim>\<open>token_key\<close> and the key of \<^verbatim>\<open>NewAmigo\<close> are the same constant, so both sign alike.
\<close>

subsection \<open>Data\<close>

datatype host_error =
    ServiceFail string
  | DirFail string
  | TeamFail store_error
  | LabFail lab_error

record db_team =
  dt_id :: string
  dt_email :: string
  dt_name :: string
  dt_hash :: string
  dt_solved :: string
  dt_access :: string

record host_env =
  he_site :: env
  he_uuid :: "nat \<Rightarrow> string"
  he_access :: "string \<Rightarrow> string"
  he_teams :: "string \<Rightarrow> string + db_team list"
  he_exists :: "string \<Rightarrow> string \<Rightarrow> bool"
  he_mkdir :: "string \<Rightarrow> string option"
  he_exercises :: "string list \<Rightarrow> string + exercise_conf list"
  he_add_event :: "event_conf \<Rightarrow> string option"
  he_guac :: "string option"
  he_wg :: "string option"
  he_logger :: "string option"
  he_files :: "(string, string) gomap"

record event_store =
  es_dir :: string
  es_conf :: event_conf
  es_disabled :: "(string, string list) gomap"
  es_all :: "(string, string list) gomap"
  es_teams :: teamstore

subsection \<open>The teams of the database\<close>

text \<open>The error of the signer is only logged; the token is then empty.\<close>

definition restored_token :: "env \<Rightarrow> team \<Rightarrow> string" where
  "restored_token ev t = (case jwt_sign ev (t_id t) (t_name t) of None \<Rightarrow> [] | Some tok \<Rightarrow> tok)"

definition load_team ::
  "host_env \<Rightarrow> (string, string list) gomap \<Rightarrow> (string, string list) gomap \<Rightarrow> nat \<Rightarrow> db_team \<Rightarrow> team" where
  "load_team env disabled allChals k r =
     NewTeam (crypt (he_site env)) (he_uuid env k) (dt_email r) (dt_name r) [] (dt_id r) (dt_hash r) (dt_solved r)
       (he_access env (dt_access r)) disabled allChals True"

definition enter_team :: "env \<Rightarrow> team \<Rightarrow> teamstore \<Rightarrow> teamstore" where
  "enter_team ev t ts =
     ts\<lparr>tokens := map_put (restored_token ev t) (t_id t) (tokens ts),
        names := map_put (t_name t) (t_id t) (names ts),
        teams := map_put (t_id t) t (teams ts)\<rparr>"

fun restore_loop ::
  "host_env \<Rightarrow> (string, string list) gomap \<Rightarrow> (string, string list) gomap \<Rightarrow> nat \<Rightarrow> db_team list \<Rightarrow> teamstore \<Rightarrow> teamstore" where
  "restore_loop env disabled allChals k [] ts = ts"
| "restore_loop env disabled allChals k (r # rs) ts =
     restore_loop env disabled allChals (k + 1) rs (enter_team (he_site env) (load_team env disabled allChals k r) ts)"

definition NewEventStore ::
  "host_env \<Rightarrow> string \<Rightarrow> event_conf \<Rightarrow> (string, string list) gomap \<Rightarrow> (string, string list) gomap \<Rightarrow>
   host_error + event_store" where
  "NewEventStore env eDir conf disabled allChals =
     (case he_teams env (ec_tag conf) of
        Inl x \<Rightarrow> Inl (ServiceFail x)
      | Inr rows \<Rightarrow>
          let ts = restore_loop env disabled allChals 0 rows NewTeamStore;
              es = \<lparr>es_dir = eDir, es_conf = conf, es_disabled = disabled, es_all = allChals, es_teams = ts\<rparr>
          in if \<not> he_exists env eDir []
             then (case he_mkdir env eDir of Some x \<Rightarrow> Inl (DirFail x) | None \<Rightarrow> Inr es)
             else Inr es)"

text \<open>
  \<open>he_exists env path name\<close> is whether \<^verbatim>\<open>os.Stat\<close> finds the joined path; \<open>day_text\<close> is the formatted date. The
  loop returns the name without its number.
\<close>

fun free_number :: "host_env \<Rightarrow> string \<Rightarrow> string \<Rightarrow> nat list \<Rightarrow> bool" where
  "free_number env path dirName [] = False"
| "free_number env path dirName (i # is) =
     (if \<not> he_exists env path (dirName @ ''-'' @ show_nat i) then True else free_number env path dirName is)"

definition GetDirNameForEvent :: "host_env \<Rightarrow> string \<Rightarrow> string \<Rightarrow> string \<Rightarrow> host_error + string" where
  "GetDirNameForEvent env path tag day_text =
     (let dirName = tag @ ''-'' @ day_text in
      if \<not> he_exists env path dirName then Inr dirName
      else if free_number env path dirName [1..<999] then Inr dirName
      else if \<not> he_exists env [] dirName
      then (case he_mkdir env dirName of Some x \<Rightarrow> Inl (DirFail x) | None \<Rightarrow> Inr dirName)
      else Inr dirName)"

subsection \<open>The event host\<close>

definition child_map :: "lab_config \<Rightarrow> string list \<Rightarrow> (string, string list) gomap" where
  "child_map conf tags = foldl (\<lambda>m e. map_put e (GetChildrenChallenges conf e) m) [] tags"

text \<open>The configuration of the event's labs: frontends only where there is a browser.\<close>

definition lab_conf_of :: "event_conf \<Rightarrow> exercise_conf list \<Rightarrow> lab_config" where
  "lab_conf_of conf exers =
     \<lparr>lc_frontends = (if is_vpn (ec_only_vpn conf) then (if ec_only_vpn conf = 2 then ec_frontends conf else [])
                      else ec_frontends conf),
      lc_exercises = exers, lc_disabled = ec_disabled conf\<rparr>"

text \<open>The constructor of a running event, with the errors of its parts in their order.\<close>

definition make_event :: "host_env \<Rightarrow> string \<Rightarrow> event_store \<Rightarrow> host_error + guac_event" where
  "make_event env day_text es =
     (case he_guac env of
        Some x \<Rightarrow> Inl (ServiceFail x)
      | None \<Rightarrow>
       (case he_wg env of
          Some x \<Rightarrow> Inl (ServiceFail x)
        | None \<Rightarrow>
         (case GetDirNameForEvent env (es_dir es) (ec_tag (es_conf es)) day_text of
            Inl x \<Rightarrow> Inl x
          | Inr dirname \<Rightarrow>
              (case he_logger env of
                 Some x \<Rightarrow> Inl (ServiceFail x)
               | None \<Rightarrow>
                   let conf = es_conf es
                   in Inr (NewEvent (ec_tag conf) (ec_only_vpn conf) (ec_vpn_address conf) (ec_host conf) (he_files env))))))"

definition CreateEventFromEventDB ::
  "host_env \<Rightarrow> string \<Rightarrow> string \<Rightarrow> event_conf \<Rightarrow> host_error + event_store \<times> lab_config \<times> guac_event" where
  "CreateEventFromEventDB env eDir day_text conf =
     (case he_exercises env (ec_exercises conf) of
        Inl x \<Rightarrow> Inl (ServiceFail x)
      | Inr exers \<Rightarrow>
          let labConf = lab_conf_of conf exers;
              disabled = child_map labConf (ec_disabled conf); allChals = child_map labConf (ec_exercises conf)
          in (case NewEventStore env eDir conf disabled allChals of
                Inl x \<Rightarrow> Inl x
              | Inr es \<Rightarrow> (case make_event env day_text es of Inl x \<Rightarrow> Inl x | Inr e \<Rightarrow> Inr (es, labConf, e))))"

text \<open>The first frontend is read before anything is checked.\<close>

definition CreateEventFromConfig ::
  "host_env \<Rightarrow> string \<Rightarrow> string \<Rightarrow> event_conf \<Rightarrow> (host_error + event_store \<times> lab_config \<times> guac_event) go" where
  "CreateEventFromConfig env eDir day_text conf =
     (if ec_frontends conf = [] then Panic
      else (case he_add_event env conf of
              Some x \<Rightarrow> Ret (Inl (ServiceFail x))
            | None \<Rightarrow> Ret (CreateEventFromEventDB env eDir day_text conf)))"

subsection \<open>Operations on the teams and labs of an event\<close>

definition event_UpdateTeamPassword ::
  "team_host \<Rightarrow> string \<Rightarrow> string \<Rightarrow> string \<Rightarrow> bool \<Rightarrow> bool \<Rightarrow> event_store \<Rightarrow> (host_error option \<times> event_store) go" where
  "event_UpdateTeamPassword h tid pass passRepeat event_ok db_ok es =
     (case GetTeamByID tid (es_teams es) of
        Inl x \<Rightarrow> Ret (Some (TeamFail x), es)
      | Inr t \<Rightarrow>
          go_bind (UpdatePass h pass passRepeat event_ok db_ok t) (\<lambda>(err, t).
            Ret (map_option TeamFail err, es\<lparr>es_teams := write_team t (es_teams es)\<rparr>)))"

definition event_DeleteTeam :: "string \<Rightarrow> bool \<Rightarrow> event_store \<Rightarrow> (host_error option \<times> event_store) go" where
  "event_DeleteTeam tid db_ok es =
     (case GetTeamByID tid (es_teams es) of
        Inl x \<Rightarrow> Ret (Some (TeamFail x), es)
      | Inr t \<Rightarrow>
          go_bind (DeleteTeam (t_id t) db_ok (es_teams es)) (\<lambda>(err, ts).
            Ret (map_option TeamFail err, es\<lparr>es_teams := ts\<rparr>)))"

text \<open>\<^verbatim>\<open>store.Event.SetStatus\<close> has a value receiver: the status it sets is that of a copy.\<close>

definition store_SetStatus :: "string option \<Rightarrow> int \<Rightarrow> event_store \<Rightarrow> host_error option \<times> event_store" where
  "store_SetStatus db_err status es = (map_option ServiceFail db_err, es)"

definition event_SetStatus :: "int \<Rightarrow> event_store \<Rightarrow> event_store" where
  "event_SetStatus state es = es\<lparr>es_conf := (es_conf es)\<lparr>ec_status := state\<rparr>\<rparr>"

definition event_Suspend ::
  "(string \<Rightarrow> host) \<Rightarrow> string option \<Rightarrow> (string, lab) gomap \<Rightarrow> event_store \<Rightarrow>
   host_error option \<times> (string, lab) gomap \<times> event_store" where
  "event_Suspend h db_err labs es =
     (case hub_Suspend h labs of
        (Some x, labs) \<Rightarrow> (Some (LabFail x), labs, es)
      | (None, labs) \<Rightarrow> (case store_SetStatus db_err 1 es of (err, es) \<Rightarrow> (err, labs, es)))"

definition event_Resume ::
  "(string \<Rightarrow> host) \<Rightarrow> string option \<Rightarrow> (string, lab) gomap \<Rightarrow> event_store \<Rightarrow>
   host_error option \<times> (string, lab) gomap \<times> event_store" where
  "event_Resume h db_err labs es =
     (case hub_Resume h labs of
        (Some x, labs) \<Rightarrow> (Some (LabFail x), labs, es)
      | (None, labs) \<Rightarrow> (case store_SetStatus db_err 0 es of (err, es) \<Rightarrow> (err, labs, es)))"

text \<open>What \<^verbatim>\<open>SaveTeam\<close> sends to the database: identifier, name and password hash.\<close>

definition AddTeamRequest :: "team \<Rightarrow> string \<times> string \<times> string" where
  "AddTeamRequest t = (TrimSpace (t_id t), TrimSpace (t_name t), hashedPassword t)"

subsection \<open>No panic behind the guards\<close>

text \<open>The store's \<^verbatim>\<open>DeleteTeam\<close> panics for an unknown team; the event looks the team up first.\<close>

lemma event_DeleteTeam_total:
  assumes "store_ok (es_teams es)"
  shows "\<exists>err es'. event_DeleteTeam tid db_ok es = Ret (err, es') \<and> store_ok (es_teams es') \<and>
    (err = None \<longrightarrow> GetTeamByID tid (es_teams es') = Inl UnknownTeamErr)"
proof (cases "map_get (teams (es_teams es)) tid")
  case None
  with assms show ?thesis by (simp add: event_DeleteTeam_def GetTeamByID_def)
next
  case (Some t)
  then have id: "t_id t = tid" using assms by (simp add: store_ok_def)
  obtain ts where "DeleteTeam tid db_ok (es_teams es) = Ret (if db_ok then None else Some DbErr, ts)" "store_ok ts"
    "GetTeamByID tid ts = Inl UnknownTeamErr"
    using DeleteTeam_ok [OF assms Some] by blast
  then show ?thesis using Some by (auto simp: event_DeleteTeam_def GetTeamByID_def id split: if_splits)
qed

text \<open>The daemon validates a configuration before it is handed to the host.\<close>

lemma validated_no_panic: "EventConfig_Validate conf = None \<Longrightarrow> CreateEventFromConfig env eDir day_text conf \<noteq> Panic"
  by (auto simp: EventConfig_Validate_def CreateEventFromConfig_def split: if_splits option.splits)

lemma updated_password:
  assumes "event_UpdateTeamPassword h tid pass again ok db es = Ret (None, es')" and "store_ok (es_teams es)"
    and "\<And>p q. bcrypt_ok h (bcrypt_gen h p) q \<longleftrightarrow> p = q"
  shows "\<exists>t'. GetTeamByID tid (es_teams es') = Inr t' \<and> (\<forall>q. IsPasswordEqual h t' q \<longleftrightarrow> q = pass)"
proof -
  obtain t where t: "map_get (teams (es_teams es)) tid = Some t"
    using assms(1) by (auto simp: event_UpdateTeamPassword_def GetTeamByID_def split: option.splits)
  then have "t_id t = tid" using assms(2) by (simp add: store_ok_def)
  with assms(1) t show ?thesis
    by (auto simp: event_UpdateTeamPassword_def GetTeamByID_def UpdatePass_def write_team_def go_bind_Ret IsPasswordEqual_def assms(3)
        split: if_splits)
qed

text \<open>Whatever directories exist, the plain name is returned: the number that was found free is not used.\<close>

lemma dir_name_plain: "GetDirNameForEvent env path tag day_text = Inr n \<Longrightarrow> n = tag @ ''-'' @ day_text"
  by (auto simp: GetDirNameForEvent_def Let_def split: if_splits option.splits)

subsection \<open>Teams after a restart\<close>

primrec loaded ::
  "host_env \<Rightarrow> (string, string list) gomap \<Rightarrow> (string, string list) gomap \<Rightarrow> nat \<Rightarrow> db_team list \<Rightarrow> team list" where
  "loaded env disabled allChals k [] = []"
| "loaded env disabled allChals k (r # rs) =
     load_team env disabled allChals k r # loaded env disabled allChals (k + 1) rs"

text \<open>What of a team the database keeps.\<close>

definition team_face :: "team \<Rightarrow> string \<times> string \<times> string" where
  "team_face t = (t_id t, t_name t, hashedPassword t)"

definition db_face :: "db_team \<Rightarrow> string \<times> string \<times> string" where
  "db_face r = (dt_id r, dt_name r, dt_hash r)"

text \<open>Identifiers and names without spaces around them, and a password.\<close>

definition plain_face :: "string \<times> string \<times> string \<Rightarrow> bool" where
  "plain_face f = (case f of (i, n, p) \<Rightarrow> i \<noteq> [] \<and> p \<noteq> [] \<and> TrimSpace i = i \<and> TrimSpace n = n)"

lemma load_team_face: "plain_face (db_face r) \<Longrightarrow> team_face (load_team env d a k r) = db_face r"
  by (simp add: plain_face_def db_face_def team_face_def load_team_def NewTeam_def)

lemma loaded_faces: "\<forall>r \<in> set rs. plain_face (db_face r) \<Longrightarrow> map team_face (loaded env d a k rs) = map db_face rs"
  by (induction rs arbitrary: k) (simp_all add: load_team_face)

lemma AddTeamRequest_plain: "plain_face (team_face t) \<Longrightarrow> AddTeamRequest t = team_face t"
  by (simp add: plain_face_def team_face_def AddTeamRequest_def)

lemma enter_team_ok:
  assumes "store_ok ts" and "map_get (teams ts) (t_id t) = None" and "store_abs ts (t_name t) = None"
  shows "store_ok (enter_team ev t ts)" and "store_abs (enter_team ev t ts) = (store_abs ts)(t_name t := Some t)"
    and "map_get (teams (enter_team ev t ts)) i = (if i = t_id t then Some t else map_get (teams ts) i)"
proof -
  have agree: "store_index.agree (teams ts) (names ts)" using assms(1) by (simp add: store_ok_def)
  have free: "map_get (names ts) (t_name t) = None" using store_name_taken [OF assms(1)] assms(3) by simp
  show "store_ok (enter_team ev t ts)"
    using store_index.agree_add [OF agree assms(2) free] assms(1) by (simp add: store_ok_def enter_team_def)
  show "store_abs (enter_team ev t ts) = (store_abs ts)(t_name t := Some t)"
    using store_index.by_name_add [OF agree assms(2), of t] by (simp add: store_abs_by_name enter_team_def)
qed (simp add: enter_team_def)

lemma load_loop_result:
  assumes "store_ok ts" and "distinct (map t_id (loaded env d a k rs))" and "distinct (map t_name (loaded env d a k rs))"
    and "\<forall>t \<in> set (loaded env d a k rs). map_get (teams ts) (t_id t) = None \<and> store_abs ts (t_name t) = None"
  shows "store_ok (restore_loop env d a k rs ts) \<and>
    (\<forall>n t. store_abs (restore_loop env d a k rs ts) n = Some t \<longleftrightarrow>
       store_abs ts n = Some t \<or> (t \<in> set (loaded env d a k rs) \<and> t_name t = n))"
  using assms
proof (induction rs arbitrary: k ts)
  case (Cons r rs)
  let ?t = "load_team env d a k r"
  let ?ts = "enter_team (he_site env) ?t ts"
  have new: "map_get (teams ts) (t_id ?t) = None" "store_abs ts (t_name ?t) = None" using Cons.prems(4) by simp_all
  note entered = enter_team_ok [OF Cons.prems(1) new]
  have "\<forall>u \<in> set (loaded env d a (k + 1) rs). map_get (teams ?ts) (t_id u) = None \<and> store_abs ?ts (t_name u) = None"
  proof
    fix u assume u: "u \<in> set (loaded env d a (k + 1) rs)"
    have "t_id ?t \<notin> t_id ` set (loaded env d a (k + 1) rs)" "t_name ?t \<notin> t_name ` set (loaded env d a (k + 1) rs)"
      using Cons.prems(2,3) by simp_all
    then have "t_id u \<noteq> t_id ?t" "t_name u \<noteq> t_name ?t" using imageI [OF u, of t_id] imageI [OF u, of t_name] by metis+
    then show "map_get (teams ?ts) (t_id u) = None \<and> store_abs ?ts (t_name u) = None"
      using Cons.prems(4) u by (simp add: entered)
  qed
  moreover have "distinct (map t_id (loaded env d a (k + 1) rs))" "distinct (map t_name (loaded env d a (k + 1) rs))"
    using Cons.prems(2,3) by simp_all
  ultimately have ih: "store_ok (restore_loop env d a (k + 1) rs ?ts)"
    "\<And>n t. store_abs (restore_loop env d a (k + 1) rs ?ts) n = Some t \<longleftrightarrow>
       store_abs ?ts n = Some t \<or> (t \<in> set (loaded env d a (k + 1) rs) \<and> t_name t = n)"
    using Cons.IH [OF entered(1)] by blast+
  have "store_abs ?ts n = Some u \<longleftrightarrow> store_abs ts n = Some u \<or> (u = ?t \<and> t_name u = n)" for n u
    using new(2) by (auto simp: entered(2))
  then show ?case using ih by auto
qed simp

lemma load_loop_tokens:
  assumes "\<forall>u \<in> set (loaded env d a k rs). restored_token (he_site env) u = tok \<longrightarrow> t_id u = i"
    and "map_get (tokens ts) tok = Some i \<or> (\<exists>u \<in> set (loaded env d a k rs). restored_token (he_site env) u = tok)"
  shows "map_get (tokens (restore_loop env d a k rs ts)) tok = Some i"
  using assms
proof (induction rs arbitrary: k ts)
  case (Cons r rs)
  let ?t = "load_team env d a k r"
  let ?ts = "enter_team (he_site env) ?t ts"
  have "map_get (tokens ?ts) tok = Some i \<or> (\<exists>u \<in> set (loaded env d a (k + 1) rs). restored_token (he_site env) u = tok)"
    using Cons.prems by (auto simp: enter_team_def)
  then show ?case using Cons.IH [of "k + 1" ?ts] Cons.prems(1) by simp
qed simp

text \<open>A restart: the database returns what \<^verbatim>\<open>SaveTeam\<close> has sent for the teams of the store, in any order.\<close>

definition restarted :: "host_env \<Rightarrow> teamstore \<Rightarrow> event_conf \<Rightarrow> event_store \<Rightarrow> bool" where
  "restarted env es conf st \<longleftrightarrow> store_ok es \<and> (\<forall>t \<in> set (GetTeams es). plain_face (team_face t)) \<and>
     (\<exists>rows eDir disabled allChals. he_teams env (ec_tag conf) = Inr rows \<and>
        mset (map db_face rows) = mset (map AddTeamRequest (GetTeams es)) \<and>
        NewEventStore env eDir conf disabled allChals = Inr st)"

lemma restarted_teams:
  assumes "restarted env es conf st"
  obtains rows d a where "es_teams st = restore_loop env d a 0 rows NewTeamStore"
    and "mset (map team_face (loaded env d a 0 rows)) = mset (map team_face (GetTeams es))"
    and "distinct (map t_id (loaded env d a 0 rows))" and "distinct (map t_name (loaded env d a 0 rows))"
proof -
  from assms obtain rows eDir d a where ok: "store_ok es" and plain: "\<forall>t \<in> set (GetTeams es). plain_face (team_face t)"
    and rows: "he_teams env (ec_tag conf) = Inr rows"
    and same: "mset (map db_face rows) = mset (map AddTeamRequest (GetTeams es))"
    and st: "NewEventStore env eDir conf d a = Inr st"
    unfolding restarted_def by blast
  let ?l = "loaded env d a 0 rows"
  have req: "map AddTeamRequest (GetTeams es) = map team_face (GetTeams es)" using plain by (simp add: AddTeamRequest_plain)
  then have "db_face ` set rows = team_face ` set (GetTeams es)" using same by (metis mset_eq_setD set_map)
  then have "\<forall>r \<in> set rows. plain_face (db_face r)" using plain by (metis (no_types, lifting) image_iff)
  then have faces: "mset (map team_face ?l) = mset (map team_face (GetTeams es))" using same req by (simp add: loaded_faces)
  have comp: "map t_id xs = map fst (map team_face xs)" "map t_name xs = map (fst \<circ> snd) (map team_face xs)" for xs
    by (simp_all add: team_face_def)
  have "mset (map t_id ?l) = mset (map t_id (GetTeams es))" "mset (map t_name ?l) = mset (map t_name (GetTeams es))"
    using faces by (simp_all only: comp mset_map)
  then have "distinct (map t_id ?l)" "distinct (map t_name ?l)"
    using store_ids_distinct [OF ok] store_teams [OF ok] by (metis mset_eq_imp_distinct_iff)+
  moreover have "es_teams st = restore_loop env d a 0 rows NewTeamStore"
    using st rows by (auto simp: NewEventStore_def Let_def split: if_splits option.splits)
  ultimately show ?thesis using that faces by blast
qed

lemma restarted_store:
  assumes "restarted env es conf st"
  shows "store_ok (es_teams st)" and "mset (map team_face (GetTeams (es_teams st))) = mset (map team_face (GetTeams es))"
proof -
  obtain rows d a where l: "es_teams st = restore_loop env d a 0 rows NewTeamStore"
    "mset (map team_face (loaded env d a 0 rows)) = mset (map team_face (GetTeams es))"
    "distinct (map t_id (loaded env d a 0 rows))" "distinct (map t_name (loaded env d a 0 rows))"
    by (rule restarted_teams [OF assms])
  have empty: "store_abs NewTeamStore n = None" for n by (simp add: store_abs_def GetTeamByUsername_def NewTeamStore_def)
  have r: "store_ok (es_teams st)" "store_abs (es_teams st) n = Some t \<longleftrightarrow> t \<in> set (loaded env d a 0 rows) \<and> t_name t = n" for n t
    using load_loop_result [OF store_ok_new l(3,4)] by (simp_all add: l(1) empty) (simp add: NewTeamStore_def)+
  show "store_ok (es_teams st)" by (rule r)
  have "set (GetTeams (es_teams st)) = set (loaded env d a 0 rows)" using store_abs_iff [OF r(1)] r(2) by blast
  moreover have "distinct (GetTeams (es_teams st))" "distinct (loaded env d a 0 rows)"
    using store_ids_distinct [OF r(1)] l(3) by (auto simp: distinct_map)
  ultimately have "mset (GetTeams (es_teams st)) = mset (loaded env d a 0 rows)" by (simp add: set_eq_iff_mset_eq_distinct)
  then show "mset (map team_face (GetTeams (es_teams st))) = mset (map team_face (GetTeams es))" using l(2) by simp
qed

lemma restarted_team:
  assumes "restarted env es conf st" and "t \<in> set (GetTeams es)"
  obtains t' where "t' \<in> set (GetTeams (es_teams st))" and "team_face t' = team_face t"
proof -
  have "team_face t \<in> team_face ` set (GetTeams (es_teams st))"
    using mset_eq_setD [OF restarted_store(2) [OF assms(1)]] assms(2) by simp
  then show ?thesis using that by (metis imageE)
qed

text \<open>
  C20. A restart refines doing nothing: the store that is loaded from the database finds the same names, each with
  the same identifier and the same password check, and no other name.
\<close>
theorem restart_keeps_teams:
  assumes "restarted env es conf st"
  shows "store_ok (es_teams st) \<and>
    rel_option (\<lambda>t t'. t_id t' = t_id t \<and> t_name t' = t_name t \<and> IsPasswordEqual h t' p = IsPasswordEqual h t p)
      (store_abs es n) (store_abs (es_teams st) n)"
proof -
  have ok: "store_ok es" "store_ok (es_teams st)" using assms restarted_store(1) by (auto simp: restarted_def)
  note iff = store_abs_iff [OF ok(1)] store_abs_iff [OF ok(2)]
  show ?thesis
  proof (cases "store_abs es n")
    case None
    have "store_abs (es_teams st) n = None"
    proof (rule ccontr)
      assume "store_abs (es_teams st) n \<noteq> None"
      then obtain t' where t': "t' \<in> set (GetTeams (es_teams st))" "t_name t' = n" using iff(2) by auto
      then have "team_face t' \<in> team_face ` set (GetTeams es)"
        using mset_eq_setD [OF restarted_store(2) [OF assms]] by (metis image_eqI set_map)
      then obtain t where "t \<in> set (GetTeams es)" "team_face t' = team_face t" by blast
      then have "store_abs es n = Some t" using t'(2) by (simp add: iff(1) team_face_def)
      with None show False by simp
    qed
    with None ok show ?thesis by simp
  next
    case (Some t)
    then have t: "t \<in> set (GetTeams es)" "t_name t = n" using iff(1) by auto
    obtain t' where t': "t' \<in> set (GetTeams (es_teams st))" "team_face t' = team_face t" by (rule restarted_team [OF assms t(1)])
    then have "store_abs (es_teams st) n = Some t'" using iff(2) t(2) by (simp add: team_face_def)
    with Some t' ok show ?thesis by (simp add: team_face_def IsPasswordEqual_def)
  qed
qed

lemma loaded_token:
  assumes "jwt_sign (he_site env) (t_id t) (t_name t) = Some tok"
  shows "restored_token (he_site env) t = tok"
  using assms by (simp add: restored_token_def)

text \<open>
  C21. A session survives a restart: the token that was signed for a team before it is served afterwards
  as the team with the same identifier and name, on the site and at the login to the remote desktop.
\<close>
theorem restart_keeps_sessions:
  assumes "restarted env es conf st" and "t \<in> set (GetTeams es)"
    and "jwt_sign (he_site env) (t_id t) (t_name t) = Some tok" and "tok \<noteq> []"
    and "\<And>i n tok. jwt_sign (he_site env) i n = Some tok \<Longrightarrow>
           jwt_parse (he_site env) tok = Inr (True, JObj [(''I'', JStr i), (''TN'', JStr n)])"
  shows "\<exists>t'. t_id t' = t_id t \<and> t_name t' = t_name t \<and> GetTeamByToken tok (es_teams st) = Inr t' \<and>
     getTeamFromRequest (he_site env) (am\<lparr>am_store := es_teams st\<rparr>) (r\<lparr>rq_session := Some tok\<rparr>) = (Inr t', [])"
proof -
  note ok = restarted_store(1) [OF assms(1)]
  obtain t' where t': "t' \<in> set (GetTeams (es_teams st))" "team_face t' = team_face t" by (rule restarted_team [OF assms(1,2)])
  then have same: "t_id t' = t_id t" "t_name t' = t_name t" by (simp_all add: team_face_def)
  have byid: "GetTeamByID (t_id t) (es_teams st) = Inr t'" using store_teams [OF ok] t'(1) same(1) by metis
  obtain rows d a where l: "es_teams st = restore_loop env d a 0 rows NewTeamStore"
    "mset (map team_face (loaded env d a 0 rows)) = mset (map team_face (GetTeams es))"
    by (rule restarted_teams [OF assms(1)])
  have "team_face t \<in> team_face ` set (loaded env d a 0 rows)" using mset_eq_setD [OF l(2)] assms(2) by simp
  then obtain u where u: "u \<in> set (loaded env d a 0 rows)" "t_id u = t_id t" "t_name u = t_name t"
    by (auto simp: team_face_def)
  have one: "i = t_id t" if "jwt_sign (he_site env) i n = Some tok" for i n
    using assms(5) [OF that] assms(5) [OF assms(3)] by simp
  have "t_id v = t_id t" if "restored_token (he_site env) v = tok" for v
    using that assms(4) by (auto simp: restored_token_def split: option.splits intro: one)
  moreover have "restored_token (he_site env) u = tok" using assms(3) u by (simp add: loaded_token)
  ultimately have "map_get (tokens (es_teams st)) tok = Some (t_id t)"
    unfolding l(1) by (intro load_loop_tokens) (use u in auto)
  then have "GetTeamByToken tok (es_teams st) = Inr t'"
    using byid by (simp add: GetTeamByToken_def GetTeamByID_def split: option.splits)
  moreover have "getTeamFromRequest (he_site env) (am\<lparr>am_store := es_teams st\<rparr>) (r\<lparr>rq_session := Some tok\<rparr>) = (Inr t', [])"
    using byid by (simp add: getTeamFromRequest_def getTeamInfoFromToken_def assms(5) [OF assms(3)])
  ultimately show ?thesis using same by blast
qed

text \<open>One team, and a database that has kept it.\<close>

definition one_team :: teamstore where
  "one_team = \<lparr>teams = [(''a1'', sample_team_state)], tokens = [], names = [(''red'', ''a1'')]\<rparr>"

definition red_row :: "string \<Rightarrow> db_team" where
  "red_row solved = \<lparr>dt_id = ''a1'', dt_email = [], dt_name = ''red'', dt_hash = ''hash'', dt_solved = solved, dt_access = ''t0''\<rparr>"

definition sample_host_env :: host_env where
  "sample_host_env =
     \<lparr>he_site = sample_env, he_uuid = (\<lambda>_. []), he_access = id, he_teams = (\<lambda>_. Inr [red_row []]), he_exists = (\<lambda>_ _. False),
      he_mkdir = (\<lambda>_. None), he_exercises = (\<lambda>_. Inr []), he_add_event = (\<lambda>_. None), he_guac = None, he_wg = None,
      he_logger = None, he_files = []\<rparr>"

lemma one_team_ok: "store_ok one_team"
proof -
  have "SaveTeam True sample_team_state NewTeamStore = (None, one_team)"
    by (simp add: SaveTeam_def NewTeamStore_def map_put_def one_team_def sample_team_state_def)
  moreover have "map_get (teams NewTeamStore) (t_id sample_team_state) = None" by (simp add: NewTeamStore_def)
  ultimately show ?thesis using SaveTeam_ok [OF store_ok_new] by blast
qed

lemma sample_restart: "\<exists>st. restarted sample_host_env one_team (sample_conf ''ctf'' ''25.17.240.1/22'') st"
proof -
  have trim: "TrimSpace ''a1'' = ''a1''" "TrimSpace ''red'' = ''red''" by (simp_all add: TrimSpace_def is_space_def)
  have "plain_face (team_face t)" if "t \<in> set (GetTeams one_team)" for t
    using that by (simp add: GetTeams_def one_team_def team_face_def plain_face_def sample_team_state_def trim)
  moreover have "map db_face [red_row []] = map AddTeamRequest (GetTeams one_team)"
    by (simp add: GetTeams_def one_team_def AddTeamRequest_def db_face_def red_row_def sample_team_state_def trim)
  moreover obtain st where "NewEventStore sample_host_env ''dir'' (sample_conf ''ctf'' ''25.17.240.1/22'') [] [] = Inr st"
    by (simp add: NewEventStore_def sample_host_env_def)
  ultimately show ?thesis
    unfolding restarted_def by (intro exI conjI) (use one_team_ok in \<open>auto simp: sample_host_env_def\<close>)
qed

lemma restart_keeps_teams_witness:
  "\<exists>st t'. restarted sample_host_env one_team (sample_conf ''ctf'' ''25.17.240.1/22'') st \<and>
     store_abs (es_teams st) ''red'' = Some t' \<and> t_id t' = ''a1'' \<and> store_abs (es_teams st) ''blue'' = None"
proof -
  obtain st where r: "restarted sample_host_env one_team (sample_conf ''ctf'' ''25.17.240.1/22'') st" using sample_restart by blast
  have "store_abs one_team ''red'' = Some sample_team_state" "store_abs one_team ''blue'' = None"
    by (simp_all add: store_abs_def GetTeamByUsername_def one_team_def map_get_Cons)
  then show ?thesis
    using restart_keeps_teams [OF r, of undefined undefined "''red''"] restart_keeps_teams [OF r, of undefined undefined "''blue''"] r
    by (auto simp: option_rel_Some1 sample_team_state_def)
qed

lemma restart_keeps_sessions_witness:
  "\<exists>st t'. restarted sample_host_env one_team (sample_conf ''ctf'' ''25.17.240.1/22'') st \<and>
     getTeamFromRequest sample_env (sample_site\<lparr>am_store := es_teams st\<rparr>) (sample_login\<lparr>rq_session := Some ''a1|red''\<rparr>) = (Inr t', []) \<and>
     GetTeamByToken ''a1|red'' (es_teams st) = Inr t' \<and> t_id t' = ''a1''"
proof -
  obtain st where r: "restarted sample_host_env one_team (sample_conf ''ctf'' ''25.17.240.1/22'') st" using sample_restart by blast
  have env: "he_site sample_host_env = sample_env" by (simp add: sample_host_env_def)
  have "sample_team_state \<in> set (GetTeams one_team)" by (simp add: GetTeams_def one_team_def)
  moreover have "jwt_sign (he_site sample_host_env) (t_id sample_team_state) (t_name sample_team_state) = Some ''a1|red''"
    unfolding env by (simp add: sample_env_def sample_team_state_def)
  ultimately show ?thesis
    using restart_keeps_sessions [OF r, of sample_team_state "''a1|red''" sample_site sample_login] sample_env_tokens r
    by (auto simp: env sample_team_state_def)
qed

subsection \<open>Solved challenges after a restart\<close>

lemma solved_one_last:
  "completed_at (solved_one db tag) = (case find (\<lambda>c. tc_tag c = tag) (rev db) of None \<Rightarrow> None | Some c \<Rightarrow> completed_at c)"
proof -
  have "foldl (\<lambda>s c. if tc_tag c = tag then c else s) z db = (case find (\<lambda>c. tc_tag c = tag) (rev db) of None \<Rightarrow> z | Some c \<Rightarrow> c)" for z
    by (induction db rule: rev_induct) simp_all
  then show ?thesis by (simp add: solved_one_def split: option.split)
qed

definition solved_json :: "string \<times> string \<Rightarrow> json" where
  "solved_json p = JObj [(''tag'', JStr (fst p)), (''completed-at'', JStr (snd p))]"

lemma unmarshal_solved_json:
  "unmarshal_solved parse (map solved_json ps) = Some (map (\<lambda>(tag, tm). \<lparr>tc_tag = tag, completed_at = Some (parse tm)\<rparr>) ps)"
  by (induction ps) (simp_all add: solved_json_def split: prod.split)

lemma load_team_solved:
  assumes "dt_solved r = json_marshal (JArr (map solved_json ps))"
  shows "solvedChalsDB (load_team env d a k r) =
    map (\<lambda>(tag, tm). \<lparr>tc_tag = tag, completed_at = Some (time_parse (crypt (he_site env)) tm)\<rparr>) ps"
proof -
  have "json_marshal (JArr js) \<noteq> []" for js using json_roundtrip [of "JArr js"] by auto
  then show ?thesis
    by (simp add: load_team_def NewTeam_def ParseSolvedChallenges_def assms json_roundtrip unmarshal_solved_json del: json_marshal.simps)
qed

lemma find_solved:
  "find (\<lambda>c. tc_tag c = tag) (map (\<lambda>(tag, tm). \<lparr>tc_tag = tag, completed_at = Some (parse tm)\<rparr>) ps) =
   map_option (\<lambda>tm. \<lparr>tc_tag = tag, completed_at = Some (parse tm)\<rparr>) (map_of ps tag)"
  by (induction ps) (auto split: prod.split)

lemma open_flag_solved:
  assumes "distinct (map ch_tag cs)" and "c \<in> set cs" and "challenges t' = map (open_flag t) cs"
  shows "IsTeamSolvedChallenge t' (ch_tag c) = completed_at (solved_one (solvedChalsDB t) (ch_tag c))"
proof -
  let ?ms = "map snd (map (open_flag t) cs)"
  have d: "distinct (map tc_tag ?ms)" using assms(1) by (simp add: open_flag_def comp_def)
  have "IsTeamSolvedChallenge t' (ch_tag c) = Some v \<longleftrightarrow> completed_at (solved_one (solvedChalsDB t) (ch_tag c)) = Some v" for v
  proof -
    have "IsTeamSolvedChallenge t' (ch_tag c) = Some v \<longleftrightarrow> (\<exists>chal \<in> set ?ms. tc_tag chal = ch_tag c \<and> completed_at chal = Some v)"
      using solved_in_iff [OF d] by (simp add: IsTeamSolvedChallenge_def assms(3))
    also have "\<dots> \<longleftrightarrow> completed_at (solved_one (solvedChalsDB t) (ch_tag c)) = Some v"
      using assms(2) by (force simp: open_flag_def)
    finally show ?thesis .
  qed
  then show ?thesis by (metis option.exhaust)
qed

text \<open>
  C22. Solved challenges survive a restart: a team is loaded with the column of its solved challenges and
  assigned a lab; then each challenge of the lab is solved exactly if the column has its tag, at
  the time of its last entry.
\<close>
theorem restart_keeps_solves:
  assumes "dt_solved r = json_marshal (JArr (map solved_json ps))"
    and "event_reachable allowed (NewEvent tag v address hst files) e"
    and "AssignLab env' l e (load_team env d a k r) = Ret (None, e', t')"
    and "\<forall>c \<in> set (environment_Challenges (lb_env l)). Tag_Validate (ch_tag c) = None"
    and "distinct (map ch_tag (environment_Challenges (lb_env l)))" and "distinct (map ch_value (environment_Challenges (lb_env l)))"
    and "c \<in> set (environment_Challenges (lb_env l))"
  shows "IsTeamSolvedChallenge t' (ch_tag c) = map_option (time_parse (crypt (he_site env))) (map_of (rev ps) (ch_tag c))"
proof -
  let ?t = "load_team env d a k r"
  have "\<not> t_locked ?t" "challenges ?t = []" by (simp_all add: load_team_def NewTeam_def)
  note flags = assigned_flags(1) [OF assms(2,3) this assms(4-6)]
  have "IsTeamSolvedChallenge t' (ch_tag c) = completed_at (solved_one (solvedChalsDB ?t) (ch_tag c))"
    by (rule open_flag_solved [OF assms(5,7) flags])
  then show ?thesis
    by (simp add: solved_one_last load_team_solved [OF assms(1)] rev_map find_solved option.case_eq_if map_option_case)
qed

lemma running_machine:
  "\<exists>l :: lab. en_dhcp (lb_env l) \<and> map ch_tag (environment_Challenges (lb_env l)) = [''vm-1''] \<and>
     map ch_value (environment_Challenges (lb_env l)) = [''flag'']"
proof -
  obtain l where "NewLab quiet_host (\<lambda>_. 0, \<lambda>_. 0) vm_conf ''angry_turing'' [] sample_lab_env = Some (Ret (Inr l))"
      and l: "map ch_tag (environment_Challenges (lb_env l)) = [''vm-1'']"
        "map ch_value (environment_Challenges (lb_env l)) = [''flag'']" "lb_frontends l = []"
    using one_machine [of "(\<lambda>_. 0, \<lambda>_. 0)"] by (elim exE conjE) (rule that)
  obtain l' where "lab_Start quiet_host l = (None, l')" "en_dhcp (lb_env l')" using quiet_start [OF l(3)] by blast
  with l lab_Start_Challenges [of quiet_host l] show ?thesis by (intro exI [of _ l'] conjI) simp_all
qed

lemma restart_keeps_solves_witness:
  "\<exists>l e' t'. AssignLab open_env l (NewEvent ''ctf'' 1 ''25.17.240.1/22'' ''haaukins.dk'' [])
       (load_team sample_host_env [] [] 0 (red_row (json_marshal (JArr [solved_json (''vm-1'', ''noon'')])))) = Ret (None, e', t') \<and>
     IsTeamSolvedChallenge t' ''vm-1'' = Some ''noon''"
proof -
  let ?e0 = "NewEvent ''ctf'' 1 ''25.17.240.1/22'' ''haaukins.dk'' []"
  let ?r = "red_row (json_marshal (JArr (map solved_json [(''vm-1'', ''noon'')])))"
  let ?t = "load_team sample_host_env [] [] 0 ?r"
  obtain l :: lab where l: "en_dhcp (lb_env l)" "map ch_tag (environment_Challenges (lb_env l)) = [''vm-1'']"
      "map ch_value (environment_Challenges (lb_env l)) = [''flag'']"
    using running_machine by (elim exE conjE) (rule that)
  have e0: "ge_only_vpn ?e0 = 1" "4 \<le> length (ge_addrs ?e0)" by (simp_all add: NewEvent_def length_event_ips)
  from open_assign [OF e0 l(1)] obtain e' t' where a: "AssignLab open_env l ?e0 ?t = Ret (None, e', t')" by blast
  obtain c where c: "environment_Challenges (lb_env l) = [c]" "ch_tag c = ''vm-1''" using l(2) by (auto simp: map_eq_Cons_conv)
  have "Tag_Validate ''vm-1'' = None" by code_simp
  then have "IsTeamSolvedChallenge t' ''vm-1'' = map_option (time_parse (crypt (he_site sample_host_env))) (map_of (rev [(''vm-1'', ''noon'')]) ''vm-1'')"
    using restart_keeps_solves [OF _ event_reachable.start a, of "[(''vm-1'', ''noon'')]" c] c by (simp add: red_row_def del: json_marshal.simps)
  then have "IsTeamSolvedChallenge t' ''vm-1'' = Some ''noon''" by (simp add: sample_host_env_def sample_env_def)
  with a show ?thesis by (simp del: json_marshal.simps) blast
qed

end
