(* ===== verification/Daemon_Users.thy ===== *)
theory Daemon_Users
  imports Store_Users Amigo_Session
begin

text \<open>
  Who may do what on the daemon's management interface (daemon/auth.go, daemon/user.go, the interceptors of
  daemon/util.go): tokens, signup with a key, invitations, and the calls that change accounts. The state is the file of users and
  keys of Store_Users. \<open>auth_env\<close> holds the libraries and the clock of one call: bcrypt, the signer and
  the parser of tokens with the daemon's key, the time in seconds, whether the two writes of the users' file succeed, and a new
  key. A context is the user found by the token, if any.
\<close>

subsection \<open>Data\<close>

datatype api_error =
    EmptyUserErr
  | EmptyPasswdErr
  | InvalidUsernameOrPassErr
  | MissingTokenErr
  | TokenLibErr string
  | InvalidTokenFormatErr
  | UnknownUserErr
  | TokenExpiredErr
  | UserErr user_error
  | NeedsSuperUser
  | NoUserInformation
  | NoPrivilegeToList
  | NoPrivilegeToDelete
  | NoPrivilegeToChangePass

record auth_env =
  ae_compare :: "string \<Rightarrow> string \<Rightarrow> bool"
  ae_bcrypt :: "string \<Rightarrow> string option"
  ae_sign :: "json \<Rightarrow> string + string"
  ae_parse :: "string \<Rightarrow> string + (bool \<times> json)"
  ae_now :: int
  ae_created :: string
  ae_write_users :: bool
  ae_write_keys :: bool
  ae_uuid :: string

record user_info =
  ui_username :: string
  ui_name :: string
  ui_surname :: string
  ui_email :: string
  ui_created :: string
  ui_super :: bool
  ui_np :: bool

subsection \<open>Tokens\<close>

definition token_life :: int where "token_life = 31 * 24 * 3600"

definition token_claims :: "auth_env \<Rightarrow> user \<Rightarrow> json" where
  "token_claims env u =
     JObj [(''un'', JStr (u_username u)), (''su'', JBool (u_super u)), (''vu'', JNum (ae_now env + token_life))]"

definition TokenForUser :: "auth_env \<Rightarrow> string \<Rightarrow> string \<Rightarrow> users_file \<Rightarrow> api_error + string" where
  "TokenForUser env username password s =
     (let username = map to_lower username in
      if username = [] then Inl EmptyUserErr
      else if password = [] then Inl EmptyPasswdErr
      else (case GetUserByUsername username s of
              Inl e \<Rightarrow> Inl InvalidUsernameOrPassErr
            | Inr u \<Rightarrow>
                if \<not> IsCorrectPassword (ae_compare env) u password then Inl InvalidUsernameOrPassErr
                else (case ae_sign env (token_claims env u) of Inl x \<Rightarrow> Inl (TokenLibErr x) | Inr tok \<Rightarrow> Inr tok)))"

fun num_claim :: "string \<Rightarrow> json \<Rightarrow> int option" where
  "num_claim k (JObj fs) = (case map_of (rev fs) k of Some (JNum n) \<Rightarrow> Some n | _ \<Rightarrow> None)"
| "num_claim k _ = None"

text \<open>\<open>md\<close>: the values of the metadata's \<^verbatim>\<open>token\<close>, if there is metadata.\<close>

definition AuthenticateContext :: "auth_env \<Rightarrow> string list option \<Rightarrow> users_file \<Rightarrow> api_error + user" where
  "AuthenticateContext env md s =
     (case md of
        None \<Rightarrow> Inl MissingTokenErr
      | Some [] \<Rightarrow> Inl MissingTokenErr
      | Some (token # _) \<Rightarrow>
          if token = [] then Inl MissingTokenErr
          else (case ae_parse env token of
                  Inl x \<Rightarrow> Inl (TokenLibErr x)
                | Inr (valid, claims) \<Rightarrow>
                    if \<not> valid then Inl InvalidTokenFormatErr
                    else (case claim ''un'' claims of
                            None \<Rightarrow> Inl InvalidTokenFormatErr
                          | Some username \<Rightarrow>
                              (case GetUserByUsername username s of
                                 Inl e \<Rightarrow> Inl UnknownUserErr
                               | Inr u \<Rightarrow>
                                   (case num_claim ''vu'' claims of
                                      None \<Rightarrow> Inl InvalidTokenFormatErr
                                    | Some validUntil \<Rightarrow>
                                        if validUntil < ae_now env then Inl TokenExpiredErr else Inr u)))))"

definition HasSuffix :: "string \<Rightarrow> string \<Rightarrow> bool" where
  "HasSuffix s t \<longleftrightarrow> length t \<le> length s \<and> drop (length s - length t) s = t"

definition nonAuth :: "string list" where "nonAuth = [''LoginUser'', ''SignupUser'']"

text \<open>
  The interceptor of a call: the error it answers itself, or the context it hands to the handler. A context
  without a user is handed on for the two calls that need none.
\<close>

definition interceptor :: "auth_env \<Rightarrow> string list option \<Rightarrow> string \<Rightarrow> users_file \<Rightarrow> api_error + user option" where
  "interceptor env md fullMethod s =
     (let auth = AuthenticateContext env md s;
          ctx = (case auth of Inl e \<Rightarrow> None | Inr u \<Rightarrow> Some u)
      in if list_ex (HasSuffix fullMethod) nonAuth then Inr ctx
         else (case auth of Inl e \<Rightarrow> Inl e | Inr u \<Rightarrow> Inr (Some u)))"

subsection \<open>Handlers\<close>

definition LoginUser :: "auth_env \<Rightarrow> string \<Rightarrow> string \<Rightarrow> users_file \<Rightarrow> api_error + string" where
  "LoginUser env username password s = TokenForUser env username password s"

record signup_request =
  sr_username :: string
  sr_name :: string
  sr_surname :: string
  sr_email :: string
  sr_password :: string
  sr_key :: string

definition SignupUser :: "auth_env \<Rightarrow> signup_request \<Rightarrow> users_file \<Rightarrow> (api_error + string) \<times> users_file" where
  "SignupUser env req s =
     (case NewUser (ae_bcrypt env) (sr_username req) (sr_name req) (sr_surname req) (sr_email req) (sr_password req) of
        Inl e \<Rightarrow> (Inl (UserErr e), s)
      | Inr u \<Rightarrow>
          (case GetSignupKey (sr_key req) s of
             Inl e \<Rightarrow> (Inl (UserErr e), s)
           | Inr k \<Rightarrow>
               let u = (if sk_super k then u\<lparr>u_super := True\<rparr> else u);
                   u = (if sk_np k then u\<lparr>u_np := True\<rparr> else u)
               in (case CreateUser (ae_write_users env) (ae_created env) u s of
                     (Some e, s) \<Rightarrow> (Inl (UserErr e), s)
                   | (None, s) \<Rightarrow>
                       (case DeleteSignupKey (ae_write_keys env) k s of
                          (Some e, s) \<Rightarrow> (Inl (UserErr e), s)
                        | (None, s) \<Rightarrow> (TokenForUser env (sr_username req) (sr_password req) s, s)))))"

text \<open>A context without a user is the zero user, who is no super user.\<close>

definition InviteUser ::
  "auth_env \<Rightarrow> user option \<Rightarrow> bool \<Rightarrow> bool \<Rightarrow> users_file \<Rightarrow> (api_error + string) \<times> users_file" where
  "InviteUser env ctx superUser npUser s =
     (if \<not> (case ctx of None \<Rightarrow> False | Some u \<Rightarrow> u_super u) then (Inl NeedsSuperUser, s)
      else
        let k = NewSignupKey (ae_uuid env);
            k = (if superUser then k\<lparr>sk_super := True\<rparr> else k);
            k = (if npUser then k\<lparr>sk_np := True\<rparr> else k)
        in (case CreateSignupKey (ae_write_keys env) k s of
              (Some e, s) \<Rightarrow> (Inl (UserErr e), s)
            | (None, s) \<Rightarrow> (Inr (sk_value k), s)))"

text \<open>The surname in the listing is the user name.\<close>

definition user_info_of :: "user \<Rightarrow> user_info" where
  "user_info_of usr =
     \<lparr>ui_username = u_username usr, ui_name = u_name usr, ui_surname = u_username usr, ui_email = u_email usr,
      ui_created = u_created usr, ui_super = u_super usr, ui_np = u_np usr\<rparr>"

definition api_ListUsers :: "user option \<Rightarrow> users_file \<Rightarrow> api_error + user_info list" where
  "api_ListUsers ctx s =
     (case ctx of
        None \<Rightarrow> Inl NoUserInformation
      | Some requester \<Rightarrow>
          if \<not> u_super requester then Inl NoPrivilegeToList else Inr (map user_info_of (ListUsers s)))"

definition DestroyUser :: "auth_env \<Rightarrow> user option \<Rightarrow> string \<Rightarrow> users_file \<Rightarrow> api_error option \<times> users_file" where
  "DestroyUser env ctx username s =
     (case ctx of
        None \<Rightarrow> (Some NoUserInformation, s)
      | Some requester \<Rightarrow>
          if u_super requester
          then (case DeleteUserByUsername (ae_write_users env) username s of (e, s) \<Rightarrow> (map_option UserErr e, s))
          else (Some NoPrivilegeToDelete, s))"

definition ChangeUserPasswd ::
  "auth_env \<Rightarrow> user option \<Rightarrow> string \<Rightarrow> string \<Rightarrow> users_file \<Rightarrow> api_error option \<times> users_file" where
  "ChangeUserPasswd env ctx username password s =
     (case ctx of
        None \<Rightarrow> (Some NoUserInformation, s)
      | Some requester \<Rightarrow>
          if \<not> u_super requester \<or> u_np requester then (Some NoPrivilegeToChangePass, s)
          else if username = u_username requester \<or> u_super requester \<or> \<not> u_np requester
          then (case UpdatePasswd (ae_bcrypt env) (ae_write_users env) username password s of
                  (e, s) \<Rightarrow> (map_option UserErr e, s))
          else (Some NoPrivilegeToChangePass, s))"

subsection \<open>Calls\<close>

datatype api_call =
    CallLogin string string
  | CallSignup signup_request
  | CallInvite bool bool
  | CallList
  | CallDestroy string
  | CallPasswd string string

fun method_name :: "api_call \<Rightarrow> string" where
  "method_name (CallLogin _ _) = ''/daemon.Daemon/LoginUser''"
| "method_name (CallSignup _) = ''/daemon.Daemon/SignupUser''"
| "method_name (CallInvite _ _) = ''/daemon.Daemon/InviteUser''"
| "method_name CallList = ''/daemon.Daemon/ListUsers''"
| "method_name (CallDestroy _) = ''/daemon.Daemon/DestroyUser''"
| "method_name (CallPasswd _ _) = ''/daemon.Daemon/ChangeUserPasswd''"

text \<open>The users' file after a call; the replies are those of the handlers.\<close>

fun handle_call :: "auth_env \<Rightarrow> user option \<Rightarrow> api_call \<Rightarrow> users_file \<Rightarrow> users_file" where
  "handle_call env ctx (CallLogin _ _) s = s"
| "handle_call env ctx (CallSignup req) s = snd (SignupUser env req s)"
| "handle_call env ctx (CallInvite superUser npUser) s = snd (InviteUser env ctx superUser npUser s)"
| "handle_call env ctx CallList s = s"
| "handle_call env ctx (CallDestroy username) s = snd (DestroyUser env ctx username s)"
| "handle_call env ctx (CallPasswd username password) s = snd (ChangeUserPasswd env ctx username password s)"

definition api_serve :: "auth_env \<Rightarrow> string list option \<Rightarrow> api_call \<Rightarrow> users_file \<Rightarrow> users_file" where
  "api_serve env md c s =
     (case interceptor env md (method_name c) s of Inl e \<Rightarrow> s | Inr ctx \<Rightarrow> handle_call env ctx c s)"

inductive api_reachable ::
  "(auth_env \<Rightarrow> string list option \<Rightarrow> api_call \<Rightarrow> users_file \<Rightarrow> bool) \<Rightarrow> users_file \<Rightarrow> users_file \<Rightarrow> bool"
  for allowed s0 where
  start: "api_reachable allowed s0 s0"
| call: "api_reachable allowed s0 s \<Longrightarrow> allowed env md c s \<Longrightarrow> api_reachable allowed s0 (api_serve env md c s)"

subsection \<open>Tokens of users\<close>

lemma users_ok_name:
  assumes "users_ok s" and "map_get (uf_map s) n = Some u"
  shows "u_username u = n"
proof -
  obtain v where v: "listed (uf_users s) n = Some v" "but_hash v = but_hash u"
    using assms by (metis (no_types, lifting) map_option_eq_Some option.map(2) users_ok_def)
  have "u_username v = n" using v(1) by (auto simp: listed_def dest: map_of_SomeD)
  moreover have "u_username v = u_username (but_hash v)" "u_username u = u_username (but_hash u)" by (simp_all add: but_hash_def)
  ultimately show ?thesis using v(2) by simp
qed

lemma TokenForUser_Inr:
  assumes "TokenForUser env name pass s = Inr tok"
  obtains u where "map_get (uf_map s) (map to_lower name) = Some u" and "IsCorrectPassword (ae_compare env) u pass"
    and "ae_sign env (token_claims env u) = Inr tok"
  using assms by (auto simp: TokenForUser_def GetUserByUsername_def Let_def split: if_splits option.splits sum.splits)

text \<open>
  C23. A token that a login has given out was asked for with the user's password, and in every later state of the
  daemon it stands for the user of that name as the user is then: it is refused once the user is deleted, and
  31 days after the login.
\<close>
theorem login_authenticates:
  assumes "users_ok s" and "LoginUser env name pass s = Inr tok" and "tok \<noteq> []"
    and "\<And>c tok. ae_sign env c = Inr tok \<Longrightarrow> ae_parse env' tok = Inr (True, c)"
  shows "(\<exists>u. GetUserByUsername (map to_lower name) s = Inr u \<and> IsCorrectPassword (ae_compare env) u pass) \<and>
    AuthenticateContext env' (Some (tok # others)) s' =
      (case GetUserByUsername (map to_lower name) s' of
         Inl e \<Rightarrow> Inl UnknownUserErr
       | Inr u \<Rightarrow> if ae_now env + 31 * 24 * 3600 < ae_now env' then Inl TokenExpiredErr else Inr u)"
proof -
  obtain u where u: "map_get (uf_map s) (map to_lower name) = Some u" "IsCorrectPassword (ae_compare env) u pass"
    "ae_sign env (token_claims env u) = Inr tok"
    using assms(2) unfolding LoginUser_def by (rule TokenForUser_Inr)
  have "u_username u = map to_lower name" by (rule users_ok_name [OF assms(1) u(1)])
  then have "claim ''un'' (token_claims env u) = Some (map to_lower name)"
    "num_claim ''vu'' (token_claims env u) = Some (ae_now env + 31 * 24 * 3600)"
    by (simp_all add: token_claims_def token_life_def)
  with assms(3) assms(4) [OF u(3)] u(1,2) show ?thesis
    by (auto simp: AuthenticateContext_def GetUserByUsername_def split: option.split sum.split)
qed

subsection \<open>What a caller without privileges can do\<close>

definition by_super :: "auth_env \<Rightarrow> string list option \<Rightarrow> users_file \<Rightarrow> bool" where
  "by_super env md s \<longleftrightarrow> (case AuthenticateContext env md s of Inl e \<Rightarrow> False | Inr u \<Rightarrow> u_super u)"

lemma suffixes:
  "list_ex (HasSuffix (method_name c)) nonAuth \<longleftrightarrow> (case c of CallLogin _ _ \<Rightarrow> True | CallSignup _ \<Rightarrow> True | _ \<Rightarrow> False)"
  by (cases c) (simp_all add: nonAuth_def HasSuffix_def)

lemma interceptor_call:
  "interceptor env md (method_name c) s =
     (let auth = AuthenticateContext env md s; ctx = (case auth of Inl e \<Rightarrow> None | Inr u \<Rightarrow> Some u) in
      case c of CallLogin _ _ \<Rightarrow> Inr ctx | CallSignup _ \<Rightarrow> Inr ctx
      | _ \<Rightarrow> (case auth of Inl e \<Rightarrow> Inl e | Inr u \<Rightarrow> Inr (Some u)))"
  unfolding interceptor_def suffixes by (cases c) simp_all

lemma serve_not_super:
  assumes "\<not> by_super env md s"
  shows "api_serve env md c s = (case c of CallSignup req \<Rightarrow> snd (SignupUser env req s) | _ \<Rightarrow> s)"
  using assms unfolding api_serve_def interceptor_call
  by (cases c; cases "AuthenticateContext env md s")
     (simp_all add: by_super_def InviteUser_def DestroyUser_def ChangeUserPasswd_def)

text \<open>A signup changes nothing, or it adds an account for a key.\<close>

definition admitted :: "auth_env \<Rightarrow> users_file \<Rightarrow> signup_key \<Rightarrow> user \<Rightarrow> users_file \<Rightarrow> bool" where
  "admitted env s k u s' \<longleftrightarrow> map_get (uf_keys s) (sk_value k) = Some k \<and> map_get (uf_map s) (u_username u) = None \<and>
     u_super u = sk_super k \<and> uf_map s' = map_put (u_username u) u (uf_map s) \<and> uf_users s' = uf_users s @ [u] \<and>
     uf_keys s' = (if ae_write_users env then map_del (sk_value k) (uf_keys s) else uf_keys s)"

lemma hook_fields [simp]:
  "uf_map (snd (user_hooks w s)) = uf_map s" "uf_users (snd (user_hooks w s)) = uf_users s" "uf_keys (snd (user_hooks w s)) = uf_keys s"
  "uf_map (snd (key_hooks w s)) = uf_map s" "uf_users (snd (key_hooks w s)) = uf_users s" "uf_keys (snd (key_hooks w s)) = uf_keys s"
  "fst (user_hooks w s) = None \<longleftrightarrow> w" "fst (key_hooks w s) = None \<longleftrightarrow> w"
  by (simp_all add: user_hooks_def key_hooks_def save_def)

lemma CreateUser_new:
  assumes "CreateUser w tm u s = (e, s')"
  shows "if map_get (uf_map s) (u_username u) \<noteq> None then e \<noteq> None \<and> s' = s
    else (e = None \<longleftrightarrow> w) \<and> uf_map s' = map_put (u_username u) (u\<lparr>u_created := tm\<rparr>) (uf_map s) \<and>
      uf_users s' = uf_users s @ [u\<lparr>u_created := tm\<rparr>] \<and> uf_keys s' = uf_keys s"
proof (cases "map_get (uf_map s) (u_username u) = None")
  case True
  let ?h = "user_hooks w (s\<lparr>uf_map := map_put (u_username u) (u\<lparr>u_created := tm\<rparr>) (uf_map s), uf_users := uf_users s @ [u\<lparr>u_created := tm\<rparr>]\<rparr>)"
  have "?h = (e, s')" using assms True by (simp add: CreateUser_def Let_def)
  then have "e = fst ?h" "s' = snd ?h" by simp_all
  with True show ?thesis by simp
qed (use assms in \<open>auto simp: CreateUser_def\<close>)

lemma DeleteSignupKey_gone:
  assumes "map_get (uf_keys s) (sk_value k) \<noteq> None"
  shows "uf_keys (snd (DeleteSignupKey w k s)) = map_del (sk_value k) (uf_keys s)"
    "uf_map (snd (DeleteSignupKey w k s)) = uf_map s" "uf_users (snd (DeleteSignupKey w k s)) = uf_users s"
  using assms by (simp_all add: DeleteSignupKey_def del: not_None_eq)

lemma SignupUser_run:
  obtains "snd (SignupUser env req s) = s"
  | k v e s1 where "GetSignupKey (sr_key req) s = Inr k" and "u_super v = sk_super k"
    and "CreateUser (ae_write_users env) (ae_created env) v s = (e, s1)"
    and "snd (SignupUser env req s) = (if e = None then snd (DeleteSignupKey (ae_write_keys env) k s1) else s1)"
proof (cases "NewUser (ae_bcrypt env) (sr_username req) (sr_name req) (sr_surname req) (sr_email req) (sr_password req)")
  case (Inr u)
  show ?thesis
  proof (cases "GetSignupKey (sr_key req) s")
    case (Inr k)
    define v where "v = (let u = (if sk_super k then u\<lparr>u_super := True\<rparr> else u) in if sk_np k then u\<lparr>u_np := True\<rparr> else u)"
    have "\<not> u_super u" using \<open>NewUser _ _ _ _ _ _ = Inr u\<close> by (auto simp: NewUser_def split: sum.splits)
    then have super: "u_super v = sk_super k" by (simp add: v_def Let_def)
    obtain e s1 where c: "CreateUser (ae_write_users env) (ae_created env) v s = (e, s1)" by fastforce
    have "snd (SignupUser env req s) = (if e = None then snd (DeleteSignupKey (ae_write_keys env) k s1) else s1)"
      using \<open>NewUser _ _ _ _ _ _ = Inr u\<close> Inr c
      by (simp add: SignupUser_def v_def Let_def split: option.split prod.split)
    with Inr super c show ?thesis by (rule that(2))
  qed (use that(1) Inr in \<open>simp add: SignupUser_def\<close>)
qed (use that(1) in \<open>simp add: SignupUser_def\<close>)

lemma SignupUser_cases:
  assumes "keys_ok (uf_keys s)"
  obtains "snd (SignupUser env req s) = s" | k u where "admitted env s k u (snd (SignupUser env req s))"
proof (cases rule: SignupUser_run [of env req s])
  case 1
  then show ?thesis by (rule that(1))
next
  case (2 k v e s1)
  then have "map_get (uf_keys s) (sr_key req) = Some k" by (simp add: GetSignupKey_def split: option.splits)
  then have k: "map_get (uf_keys s) (sk_value k) = Some k" using assms by (auto simp: keys_ok_def)
  note new = CreateUser_new [OF 2(3)]
  show ?thesis
  proof (cases "map_get (uf_map s) (u_username v) = None")
    case True
    with new have n: "e = None \<longleftrightarrow> ae_write_users env" "uf_map s1 = map_put (u_username v) (v\<lparr>u_created := ae_created env\<rparr>) (uf_map s)"
      "uf_users s1 = uf_users s @ [v\<lparr>u_created := ae_created env\<rparr>]" "uf_keys s1 = uf_keys s" by simp_all
    have "map_get (uf_keys s1) (sk_value k) \<noteq> None" using k n(4) by simp
    note gone = DeleteSignupKey_gone [OF this]
    have "admitted env s k (v\<lparr>u_created := ae_created env\<rparr>) (snd (SignupUser env req s))"
      using True n 2(2) by (simp add: admitted_def 2(4) gone k)
    then show ?thesis by (rule that(2))
  next
    case False
    with new have "s1 = s" and some: "e \<noteq> None" by simp_all
    with 2(4) have "snd (SignupUser env req s) = s" by (simp only: if_False)
    then show ?thesis by (rule that(1))
  qed
qed

lemma signup_ok:
  assumes "users_ok s"
  shows "users_ok (snd (SignupUser env req s))"
proof (cases rule: SignupUser_run [of env req s])
  case (2 k v e s1)
  have "users_ok s1" using users_step_ok [OF users_step.create assms] 2(3) by (metis snd_conv)
  with users_step_ok [OF users_step.del_key] 2(4) show ?thesis by simp
qed (use assms in simp)

definition accounts_kept :: "users_file \<Rightarrow> users_file \<Rightarrow> bool" where
  "accounts_kept s0 s \<longleftrightarrow> (\<forall>n u. map_get (uf_map s0) n = Some u \<longrightarrow> map_get (uf_map s) n = Some u) \<and>
     (\<forall>n u. map_get (uf_map s) n = Some u \<longrightarrow> u_super u \<longrightarrow>
        map_get (uf_map s0) n = Some u \<or> (\<exists>v k. map_get (uf_keys s0) v = Some k \<and> sk_super k)) \<and>
     (\<forall>v k. map_get (uf_keys s) v = Some k \<longrightarrow> map_get (uf_keys s0) v = Some k)"

lemma accounts_kept_admit:
  assumes "accounts_kept s0 s" and "admitted env s k u s'" and "map_ok (uf_keys s)"
  shows "accounts_kept s0 s'"
proof -
  have k0: "map_get (uf_keys s0) (sk_value k) = Some k" using assms(1,2) by (simp add: accounts_kept_def admitted_def)
  have m: "map_get (uf_map s') n = (if n = u_username u then Some u else map_get (uf_map s) n)"
    and new: "map_get (uf_map s) (u_username u) = None" and sup: "u_super u = sk_super k" for n
    using assms(2) by (simp_all add: admitted_def)
  have keys: "map_get (uf_keys s') v = Some k' \<Longrightarrow> map_get (uf_keys s) v = Some k'" for v k'
    using assms(2,3) by (simp add: admitted_def split: if_splits)
  show ?thesis
    unfolding accounts_kept_def m
    using assms(1) k0 new sup keys by (simp add: accounts_kept_def) (metis option.distinct(1))
qed

lemma without_super:
  assumes "users_ok s0" and "api_reachable (\<lambda>env md c s. \<not> by_super env md s) s0 s"
  shows "users_ok s \<and> accounts_kept s0 s"
  using assms(2)
proof induction
  case start
  then show ?case using assms(1) by (simp add: accounts_kept_def)
next
  case (call s env md c)
  show ?case
  proof (cases c)
    case (CallSignup req)
    then have run: "api_serve env md c s = snd (SignupUser env req s)" using serve_not_super [OF call.hyps(2)] by simp
    have keys: "keys_ok (uf_keys s)" using call.IH by (simp add: users_ok_def)
    then have "accounts_kept s0 (snd (SignupUser env req s))"
      by (cases rule: SignupUser_cases [of s env req])
         (use call.IH accounts_kept_admit keys in \<open>auto simp: keys_ok_def\<close>)
    then show ?thesis using signup_ok call.IH by (simp add: run)
  qed (use call.IH serve_not_super [OF call.hyps(2), of c] in simp_all)
qed


text \<open>
  C25. Accounts need invitations: as long as no request is one of a super user and the users' file can be written, the
  number of accounts together with the number of keys does not grow, so that each key admits one user.
\<close>
theorem keys_bound_accounts:
  assumes "users_ok s0" and "api_reachable (\<lambda>env md c s. \<not> by_super env md s \<and> ae_write_users env) s0 s"
  shows "length (ListUsers s) + length (ListSignupKeys s) \<le> length (ListUsers s0) + length (ListSignupKeys s0)"
proof -
  have "users_ok s \<and> length (uf_users s) + length (uf_keys s) \<le> length (uf_users s0) + length (uf_keys s0)"
    using assms(2)
  proof induction
    case (call s env md c)
    then have no: "\<not> by_super env md s" by simp
    show ?case
    proof (cases c)
      case (CallSignup req)
      then have run: "api_serve env md c s = snd (SignupUser env req s)" using serve_not_super [OF no] by simp
      have keys: "keys_ok (uf_keys s)" using call.IH by (simp add: users_ok_def)
      then have "length (uf_users (snd (SignupUser env req s))) + length (uf_keys (snd (SignupUser env req s)))
          \<le> length (uf_users s) + length (uf_keys s)"
      proof (cases rule: SignupUser_cases [of s env req])
        case (2 k u)
        then have "(sk_value k, k) \<in> set (uf_keys s)" by (simp add: admitted_def map_get_in)
        then have "length (map_del (sk_value k) (uf_keys s)) < length (uf_keys s)"
          by (auto simp: map_del_def AList.delete_eq intro!: length_filter_less)
        with 2 call.hyps(2) show ?thesis by (simp add: admitted_def)
      qed simp
      then show ?thesis using signup_ok call.IH by (simp add: run)
    qed (use call.IH serve_not_super [OF no, of c] in simp_all)
  qed (use assms(1) in simp)
  then show ?thesis by (simp add: ListUsers_def ListSignupKeys_def)
qed

text \<open>A daemon with one administrator and one key.\<close>

definition plain_auth :: auth_env where
  "plain_auth =
     \<lparr>ae_compare = (=), ae_bcrypt = Some, ae_sign = (\<lambda>c. Inr (json_marshal c)),
      ae_parse = (\<lambda>tok. case json_parse tok of None \<Rightarrow> Inl ''malformed'' | Some c \<Rightarrow> Inr (True, c)),
      ae_now = 0, ae_created = ''t1'', ae_write_users = True, ae_write_keys = True, ae_uuid = ''k2''\<rparr>"

definition one_key :: users_file where
  "one_key = NewUserFile (Some ([sample_user], [\<lparr>sk_np = True, sk_super = False, sk_value = ''k1''\<rparr>]))"

definition signup_as :: "string \<Rightarrow> signup_request" where
  "signup_as name = \<lparr>sr_username = name, sr_name = name, sr_surname = [], sr_email = [], sr_password = ''secret1'', sr_key = ''k1''\<rparr>"

lemma one_key_ok: "users_ok one_key"
  unfolding one_key_def by (rule users_ok_NewUserFile) (simp add: saved_users_def)

lemma one_key_maps:
  "uf_map one_key = [(''ann'', sample_user)]" "uf_users one_key = [sample_user]"
  "uf_keys one_key = [(''k1'', \<lparr>sk_np = True, sk_super = False, sk_value = ''k1''\<rparr>)]"
  by (simp_all add: one_key_def NewUserFile_def NewUserStore_def NewSignupKeyStore_def map_put_def sample_user_def Let_def)

lemma no_token: "\<not> by_super env None s"
  by (simp add: by_super_def AuthenticateContext_def)

lemma signup_serve: "api_serve env None (CallSignup req) s = snd (SignupUser env req s)"
  using serve_not_super [OF no_token] by simp

lemma plain_tokens: "ae_sign plain_auth c = Inr tok \<Longrightarrow> ae_parse (plain_auth\<lparr>ae_now := t\<rparr>) tok = Inr (True, c)"
  by (auto simp: plain_auth_def json_roundtrip)

lemma login_authenticates_witness:
  "\<exists>tok. LoginUser plain_auth ''Ann'' ''old'' one_key = Inr tok \<and>
     AuthenticateContext (plain_auth\<lparr>ae_now := 86400\<rparr>) (Some [tok]) one_key = Inr sample_user \<and>
     AuthenticateContext (plain_auth\<lparr>ae_now := 3000000\<rparr>) (Some [tok]) one_key = Inl TokenExpiredErr"
proof -
  let ?tok = "json_marshal (token_claims plain_auth sample_user)"
  have low: "map to_lower ''Ann'' = ''ann''" by code_simp
  have get: "GetUserByUsername ''ann'' one_key = Inr sample_user" by (simp add: GetUserByUsername_def one_key_maps map_get_Cons)
  have "IsCorrectPassword (ae_compare plain_auth) sample_user ''old''" by (simp add: IsCorrectPassword_def plain_auth_def sample_user_def)
  moreover have "ae_sign plain_auth (token_claims plain_auth sample_user) = Inr ?tok" by (simp add: plain_auth_def del: json_marshal.simps)
  ultimately have login: "LoginUser plain_auth ''Ann'' ''old'' one_key = Inr ?tok"
    using low get by (simp add: LoginUser_def TokenForUser_def Let_def del: json_marshal.simps)
  have "?tok \<noteq> []" using json_roundtrip [of "token_claims plain_auth sample_user"] by (auto simp del: json_marshal.simps simp: json_parse_def)
  note auth = login_authenticates [OF one_key_ok login this plain_tokens, of _ "[]" one_key]
  have now: "ae_now plain_auth = 0" by (simp add: plain_auth_def)
  show ?thesis
    using login auth [of 86400] auth [of 3000000] unfolding low get by (intro exI [of _ ?tok]) (simp add: now del: json_marshal.simps)
qed

lemma plain_signup:
  assumes "map to_lower n = n" and "map_get (uf_map s) n = None" and "map_get (uf_keys s) ''k1'' = map_get (uf_keys one_key) ''k1''"
    and "s' = api_serve (plain_auth\<lparr>ae_write_users := w\<rparr>) None (CallSignup (signup_as n)) s"
  shows "\<exists>u. u_username u = n \<and> uf_map s' = map_put n u (uf_map s) \<and> uf_users s' = uf_users s @ [u] \<and>
    uf_keys s' = (if w then map_del ''k1'' (uf_keys s) else uf_keys s)"
proof -
  let ?env = "plain_auth\<lparr>ae_write_users := w\<rparr>" and ?k = "\<lparr>sk_np = True, sk_super = False, sk_value = ''k1''\<rparr>"
  let ?u = "\<lparr>u_username = n, u_name = TrimSpace n, u_surname = TrimSpace [], u_email = TrimSpace [], u_hash = ''secret1'', u_super = False,
    u_np = False, u_created = []\<rparr>"
  have env: "ae_bcrypt ?env = Some" "ae_write_users ?env = w" "ae_created ?env = ''t1''" by (simp_all add: plain_auth_def)
  have new: "NewUser Some n n [] [] ''secret1'' = Inr ?u" by (simp add: NewUser_def generateHashedPasswd_def assms(1))
  have k: "map_get (uf_keys s) ''k1'' = Some ?k" by (simp add: assms(3) one_key_maps map_get_Cons)
  then have key: "GetSignupKey ''k1'' s = Inr ?k" by (simp add: GetSignupKey_def)
  obtain e s1 where c: "CreateUser w ''t1'' (?u\<lparr>u_np := True\<rparr>) s = (e, s1)" by fastforce
  have s': "s' = (if e = None then snd (DeleteSignupKey (ae_write_keys ?env) ?k s1) else s1)"
    using new key c by (simp add: assms(4) signup_serve SignupUser_def env signup_as_def split: option.split prod.split)
  have n: "e = None \<longleftrightarrow> w" "uf_map s1 = map_put n (?u\<lparr>u_np := True, u_created := ''t1''\<rparr>) (uf_map s)"
    "uf_users s1 = uf_users s @ [?u\<lparr>u_np := True, u_created := ''t1''\<rparr>]" "uf_keys s1 = uf_keys s"
    using CreateUser_new [OF c] assms(2) by simp_all
  have "map_get (uf_keys s1) (sk_value ?k) \<noteq> None" using k n(4) by simp
  note gone = DeleteSignupKey_gone [OF this]
  show ?thesis unfolding s' using n gone
    by (intro exI [of _ "?u\<lparr>u_np := True, u_created := ''t1''\<rparr>"]) simp
qed

lemma eve_admitted:
  "\<exists>s. api_reachable (\<lambda>env md c s. \<not> by_super env md s \<and> ae_write_users env) one_key s \<and>
     map u_username (ListUsers s) = [''ann'', ''eve''] \<and> ListSignupKeys s = []"
proof -
  let ?env = "plain_auth\<lparr>ae_write_users := True\<rparr>"
  let ?s = "api_serve ?env None (CallSignup (signup_as ''eve'')) one_key"
  have "api_reachable (\<lambda>env md c s. \<not> by_super env md s \<and> ae_write_users env) one_key ?s"
    by (rule api_reachable.call [OF api_reachable.start]) (simp add: no_token)
  moreover have low: "map to_lower ''eve'' = ''eve''" by code_simp
  have free: "map_get (uf_map one_key) ''eve'' = None" by (simp add: one_key_maps map_get_Cons)
  from plain_signup [OF low free refl refl, of True] obtain u where "u_username u = ''eve''" "uf_users ?s = uf_users one_key @ [u]"
    "uf_keys ?s = map_del ''k1'' (uf_keys one_key)" by auto
  then have "map u_username (ListUsers ?s) = [''ann'', ''eve'']" "ListSignupKeys ?s = []"
    by (simp_all add: ListUsers_def ListSignupKeys_def one_key_maps map_del_def sample_user_def)
  ultimately show ?thesis by (intro exI conjI)
qed


lemma keys_bound_accounts_witness:
  "\<exists>s. api_reachable (\<lambda>env md c s. \<not> by_super env md s \<and> ae_write_users env) one_key s \<and>
     length (ListUsers s) = 2 \<and> length (ListUsers s) + length (ListSignupKeys s) \<le> 2"
proof -
  obtain s where s: "api_reachable (\<lambda>env md c s. \<not> by_super env md s \<and> ae_write_users env) one_key s"
    "map u_username (ListUsers s) = [''ann'', ''eve'']" using eve_admitted by (elim exE conjE) (rule that)
  have "length (ListUsers s) = length (map u_username (ListUsers s))" by simp
  then have "length (ListUsers s) = 2" by (simp only: s(2)) simp
  moreover have "length (ListUsers one_key) + length (ListSignupKeys one_key) = 2"
    by (simp add: ListUsers_def ListSignupKeys_def one_key_maps)
  ultimately show ?thesis using keys_bound_accounts [OF one_key_ok s(1)] s(1) by (intro exI [of _ s]) simp
qed

text \<open>
  When the users' file cannot be written, a key is not used up: the signup is answered with an error, but
  the account exists and the key stays, so that one key admits any number of users, here two.
\<close>
theorem failed_save_keeps_key:
  "\<exists>s. api_reachable (\<lambda>env md c s. md = None) one_key s \<and> map u_username (ListUsers s) = [''ann'', ''eve'', ''bob''] \<and>
     ListSignupKeys s = ListSignupKeys one_key"
proof -
  let ?env = "plain_auth\<lparr>ae_write_users := False\<rparr>"
  let ?s1 = "api_serve ?env None (CallSignup (signup_as ''eve'')) one_key"
  let ?s2 = "api_serve ?env None (CallSignup (signup_as ''bob'')) ?s1"
  have "api_reachable (\<lambda>env md c s. md = None) one_key ?s2"
    by (rule api_reachable.call [OF api_reachable.call [OF api_reachable.start]]) simp_all
  moreover have low: "map to_lower ''eve'' = ''eve''" "map to_lower ''bob'' = ''bob''" by code_simp+
  have free: "map_get (uf_map one_key) ''eve'' = None" by (simp add: one_key_maps map_get_Cons)
  from plain_signup [OF low(1) free refl refl, of False] obtain u where u: "u_username u = ''eve''" "uf_map ?s1 = map_put ''eve'' u (uf_map one_key)"
    "uf_users ?s1 = uf_users one_key @ [u]" "uf_keys ?s1 = uf_keys one_key" by auto
  then have "map_get (uf_map ?s1) ''bob'' = None" by (simp add: one_key_maps map_get_Cons)
  from plain_signup [OF low(2) this _ refl, of False] obtain v where "u_username v = ''bob''" "uf_users ?s2 = uf_users ?s1 @ [v]"
    "uf_keys ?s2 = uf_keys ?s1" using u(4) by auto
  with u have "map u_username (ListUsers ?s2) = [''ann'', ''eve'', ''bob'']" "ListSignupKeys ?s2 = ListSignupKeys one_key"
    by (simp_all add: ListUsers_def ListSignupKeys_def one_key_maps sample_user_def)
  ultimately show ?thesis by (intro exI conjI)
qed

end
