(* ===== verification/Daemon_Teams.thy ===== *)
theory Daemon_Teams
  imports Event_Host Daemon_Users Amigo_Hub
begin

text \<open>
  The daemon's operations on the teams and labs of running events (daemon/team.go, daemon/exercise.go). A
  \<open>live_event\<close> is a running event with its team store, the hub's labs that no team has (\<open>lv_spare\<close>), the labs handed back to the
  hub, the configuration from which the hub makes labs, and the site's list of challenges. The map of the hub points to the assigned labs
  as well, so an iteration over it visits the spare and the assigned ones. A call on a context gets the user, if
  there is one. Machines answer through one \<open>host\<close> per lab; \<open>None\<close> stands for a random source from which no
  flag comes.
\<close>

subsection \<open>State\<close>

datatype team_error =
    TagFail config_error
  | PoolFail pool_error
  | UnknownTeam
  | NoLabByTeamIdErr
  | NoUserInfo
  | NoFlagMngtPrivErr
  | LabIsNotAssignedErr
  | FlagFail store_error
  | LabError lab_error
  | EventNotFound string
  | NoDeletePriv
  | HostFail host_error
  | AlreadyOnEvent "string list"
  | DbFail string

record live_event =
  lv_event :: guac_event
  lv_store :: event_store
  lv_spare :: "(string, lab) gomap"
  lv_freed :: "lab list"
  lv_conf :: lab_config
  lv_front :: frontend

type_synonym live_pool = "live_event event_pool"

definition put_live :: "string \<Rightarrow> live_event \<Rightarrow> live_pool \<Rightarrow> live_pool" where
  "put_live tag ev ep = ep\<lparr>ep_events := map_put tag ev (ep_events ep)\<rparr>"

definition put_team_lab :: "string \<Rightarrow> lab \<Rightarrow> live_event \<Rightarrow> live_event" where
  "put_team_lab tid l ev = ev\<lparr>lv_event := put_lab tid l (lv_event ev)\<rparr>"

definition put_team :: "team \<Rightarrow> live_event \<Rightarrow> live_event" where
  "put_team t ev = ev\<lparr>lv_store := (lv_store ev)\<lparr>es_teams := write_team t (es_teams (lv_store ev))\<rparr>\<rparr>"

definition live_teams :: "live_event \<Rightarrow> team list" where
  "live_teams ev = GetTeams (es_teams (lv_store ev))"

definition created_by :: "live_event \<Rightarrow> string" where
  "created_by ev = ec_created_by (es_conf (lv_store ev))"

text \<open>A lookup by a tag that is checked first.\<close>

definition tagged_event :: "string \<Rightarrow> live_pool \<Rightarrow> team_error + string \<times> live_event" where
  "tagged_event eventTag ep =
     (case NewTag eventTag of
        Inl x \<Rightarrow> Inl (TagFail x)
      | Inr tag \<Rightarrow> (case GetEvent ep tag of Inl x \<Rightarrow> Inl (PoolFail x) | Inr ev \<Rightarrow> Inr (tag, ev)))"

subsection \<open>Labs of teams\<close>

definition GetTeamInfo :: "string \<Rightarrow> string \<Rightarrow> live_pool \<Rightarrow> team_error + machine list" where
  "GetTeamInfo eventTag tid ep =
     (case tagged_event eventTag ep of
        Inl x \<Rightarrow> Inl x
      | Inr (tag, ev) \<Rightarrow>
          (case GetLabByTeam tid (lv_event ev) of None \<Rightarrow> Inl UnknownTeam | Some l \<Rightarrow> Inr (lab_InstanceInfo l)))"

definition SetTeamSuspend :: "host \<Rightarrow> string \<Rightarrow> string \<Rightarrow> bool \<Rightarrow> live_pool \<Rightarrow> team_error option \<times> live_pool" where
  "SetTeamSuspend h eventTag tid suspend ep =
     (case tagged_event eventTag ep of
        Inl x \<Rightarrow> (Some x, ep)
      | Inr (tag, ev) \<Rightarrow>
          (case GetLabByTeam tid (lv_event ev) of
             None \<Rightarrow> (Some UnknownTeam, ep)
           | Some l \<Rightarrow>
               (case (if suspend then lab_Suspend h l else lab_Resume h l) of
                  (err, l) \<Rightarrow> (map_option LabError err, put_live tag (put_team_lab tid l ev) ep))))"

definition RestartTeamLab :: "host \<Rightarrow> string \<Rightarrow> string \<Rightarrow> live_pool \<Rightarrow> (team_error option \<times> live_pool) go" where
  "RestartTeamLab h eventTag tid ep =
     (case tagged_event eventTag ep of
        Inl x \<Rightarrow> Ret (Some x, ep)
      | Inr (tag, ev) \<Rightarrow>
          (case GetLabByTeam tid (lv_event ev) of
             None \<Rightarrow> Ret (Some NoLabByTeamIdErr, ep)
           | Some l \<Rightarrow>
               go_bind (lab_Restart h l) (\<lambda>(err, l).
                 Ret (map_option LabError err, put_live tag (put_team_lab tid l ev) ep))))"

text \<open>The time of a team's last access is the one its text stands for, in nanoseconds.\<close>

definition hour_ns :: int where "hour_ns = 3600 * 10 ^ 9"

definition rounded_hours :: "int \<Rightarrow> int" where
  "rounded_hours d = (2 * d + hour_ns) div (2 * hour_ns)"

definition suspend_once_per_machine :: "host \<Rightarrow> lab \<Rightarrow> lab" where
  "suspend_once_per_machine h l =
     foldl (\<lambda>l' m. if mc_state m \<noteq> VSuspended then snd (lab_Suspend h l') else l') l (lab_InstanceInfo l)"

definition checkTeamLab :: "(string \<Rightarrow> host) \<Rightarrow> (string \<Rightarrow> int) \<Rightarrow> int \<Rightarrow> live_event \<Rightarrow> live_event" where
  "checkTeamLab h access_time clock ev =
     foldl (\<lambda>ev t.
         if 8 < rounded_hours (clock - access_time (lastAccess t))
         then (case GetLabByTeam (t_id t) (lv_event ev) of
                 None \<Rightarrow> ev
               | Some l \<Rightarrow> put_team_lab (t_id t) (suspend_once_per_machine (h (t_id t)) l) ev)
         else ev) ev (live_teams ev)"

definition suspendTeams :: "(string \<Rightarrow> host) \<Rightarrow> (string \<Rightarrow> int) \<Rightarrow> int \<Rightarrow> live_pool \<Rightarrow> live_pool" where
  "suspendTeams h access_time clock ep =
     ep\<lparr>ep_events := map (\<lambda>(tag, ev). (tag, checkTeamLab h access_time clock ev)) (ep_events ep)\<rparr>"

subsection \<open>Flags\<close>

definition may_see_flags :: "user \<Rightarrow> live_event \<Rightarrow> bool" where
  "may_see_flags u ev \<longleftrightarrow> \<not> (u_np u \<and> created_by ev \<noteq> u_username u)"

definition find_challenge :: "string \<Rightarrow> flag_challenge list \<Rightarrow> flag_challenge" where
  "find_challenge tag chals =
     (case find (\<lambda>c. ch_tag c = tag) chals of Some c \<Rightarrow> c | None \<Rightarrow> \<lparr>ch_name = [], ch_tag = [], ch_value = []\<rparr>)"

text \<open>An unknown event is a nil interface whose method is called. A team that is not in the store is passed over.\<close>

definition SolveChallenge ::
  "user option \<Rightarrow> string \<Rightarrow> bool \<Rightarrow> string \<Rightarrow> string \<Rightarrow> string \<Rightarrow> live_pool \<Rightarrow> (team_error option \<times> live_pool) go" where
  "SolveChallenge ctx tm db_ok eventTag tid chalTag ep =
     (case ctx of
        None \<Rightarrow> Ret (Some NoUserInfo, ep)
      | Some u \<Rightarrow>
          (case map_get (ep_events ep) eventTag of
             None \<Rightarrow> Panic
           | Some ev \<Rightarrow>
               if \<not> may_see_flags u ev then Ret (Some NoFlagMngtPrivErr, ep)
               else (case GetLabByTeam tid (lv_event ev) of
                       None \<Rightarrow> Ret (Some LabIsNotAssignedErr, ep)
                     | Some l \<Rightarrow>
                         let challenge = find_challenge chalTag (environment_Challenges (lb_env l));
                             f = TrimSpace (ch_value challenge)
                         in (case find (\<lambda>t. t_id t = tid) (live_teams ev) of
                               None \<Rightarrow> Ret (None, ep)
                             | Some t \<Rightarrow>
                                 go_bind (VerifyFlag (ch_tag challenge) f tm db_ok t) (\<lambda>(err, t).
                                   Ret (map_option FlagFail err, put_live eventTag (put_team t ev) ep))))))"

definition GetTeamChals :: "user option \<Rightarrow> string \<Rightarrow> string \<Rightarrow> live_pool \<Rightarrow> (team_error + flag_challenge list) go" where
  "GetTeamChals ctx eventTag tid ep =
     (case ctx of
        None \<Rightarrow> Ret (Inl NoUserInfo)
      | Some u \<Rightarrow>
          (case map_get (ep_events ep) eventTag of
             None \<Rightarrow> Panic
           | Some ev \<Rightarrow>
               if \<not> may_see_flags u ev then Ret (Inl NoFlagMngtPrivErr)
               else (case GetLabByTeam tid (lv_event ev) of
                       None \<Rightarrow> Ret (Inl LabIsNotAssignedErr)
                     | Some l \<Rightarrow> Ret (Inr (environment_Challenges (lb_env l))))))"

subsection \<open>Passwords and removal\<close>

definition UpdateTeamPassword ::
  "team_host \<Rightarrow> bool \<Rightarrow> bool \<Rightarrow> user option \<Rightarrow> string \<Rightarrow> string \<Rightarrow> string \<Rightarrow> string \<Rightarrow> live_pool \<Rightarrow>
   (team_error option \<times> live_pool) go" where
  "UpdateTeamPassword h event_ok db_ok ctx eventTag tid pass passRepeat ep =
     (case ctx of
        None \<Rightarrow> Ret (Some NoUserInfo, ep)
      | Some u \<Rightarrow>
          (case map_get (ep_events ep) eventTag of
             None \<Rightarrow> Ret (Some (EventNotFound eventTag), ep)
           | Some ev \<Rightarrow>
               if \<not> may_see_flags u ev then Ret (Some NoFlagMngtPrivErr, ep)
               else go_bind (event_UpdateTeamPassword h tid pass passRepeat event_ok db_ok (lv_store ev)) (\<lambda>(err, es).
                      Ret (map_option HostFail err, put_live eventTag (ev\<lparr>lv_store := es\<rparr>) ep))))"

text \<open>The lab goes back to the hub; the entry that assigns it to the team stays.\<close>

definition api_DeleteTeam ::
  "host \<Rightarrow> bool \<Rightarrow> user option \<Rightarrow> string \<Rightarrow> string \<Rightarrow> live_pool \<Rightarrow> (team_error option \<times> live_pool) go" where
  "api_DeleteTeam h db_ok ctx evTag tid ep =
     (case ctx of
        None \<Rightarrow> Ret (Some NoUserInfo, ep)
      | Some u \<Rightarrow>
          (case map_get (ep_events ep) evTag of
             None \<Rightarrow> Ret (Some (EventNotFound evTag), ep)
           | Some ev \<Rightarrow>
               if \<not> u_super u \<and> created_by ev \<noteq> u_username u then Ret (Some NoDeletePriv, ep)
               else (case GetLabByTeam tid (lv_event ev) of
                       None \<Rightarrow> Ret (Some NoLabByTeamIdErr, ep)
                     | Some l \<Rightarrow>
                         go_bind (lab_Restart h l) (\<lambda>(restartErr, l).
                           let ev = put_team_lab tid l ev in
                           case restartErr of
                             Some x \<Rightarrow> Ret (Some (LabError x), put_live evTag ev ep)
                           | None \<Rightarrow>
                               let ev = ev\<lparr>lv_freed := lv_freed ev @ [l]\<rparr> in
                               go_bind (event_DeleteTeam tid db_ok (lv_store ev)) (\<lambda>(err, es).
                                 Ret (map_option HostFail err, put_live evTag (ev\<lparr>lv_store := es\<rparr>) ep))))))"

subsection \<open>Resetting an exercise\<close>

fun reset_teams ::
  "(string \<Rightarrow> host) \<Rightarrow> string \<Rightarrow> bool \<Rightarrow> string list \<Rightarrow> (string \<times> string) list \<Rightarrow> live_event \<Rightarrow>
   (team_error option \<times> (string \<times> string) list \<times> live_event) go" where
  "reset_teams h exTag named [] sent ev = Ret (None, sent, ev)"
| "reset_teams h exTag named (tid # tids) sent ev =
     (case GetLabByTeam tid (lv_event ev) of
        None \<Rightarrow> reset_teams h exTag named tids (sent @ [(tid, ''?'')]) ev
      | Some l \<Rightarrow>
          go_bind (ResetByTag (h tid) exTag (lb_env l)) (\<lambda>(err, ee).
            let ev = put_team_lab tid (l\<lparr>lb_env := ee\<rparr>) ev in
            case err of
              Some x \<Rightarrow> Ret (Some (LabError x), sent, ev)
            | None \<Rightarrow>
                let sent = sent @ [(tid, ''ok'')] in
                if \<not> named then reset_teams h exTag named tids sent ev
                else (case GetTeamByID tid (es_teams (lv_store ev)) of
                        Inl x \<Rightarrow> Panic
                      | Inr t \<Rightarrow>
                          reset_teams h exTag named tids sent
                            (if map_get (disabledChallenges t) exTag \<noteq> None
                             then put_team (snd (ManageDisabledChals exTag t)) ev else ev))))"

text \<open>For named teams the disabled challenges are enabled again; of a missing team nil is dereferenced.\<close>

definition ResetExercise ::
  "(string \<Rightarrow> host) \<Rightarrow> string \<Rightarrow> string \<Rightarrow> string list option \<Rightarrow> live_pool \<Rightarrow>
   (team_error option \<times> (string \<times> string) list \<times> live_pool) go" where
  "ResetExercise h eventTag exTag reqTeams ep =
     (case tagged_event eventTag ep of
        Inl x \<Rightarrow> Ret (Some x, [], ep)
      | Inr (tag, ev) \<Rightarrow>
          go_bind (case reqTeams of
                     Some tids \<Rightarrow> reset_teams h exTag True tids [] ev
                   | None \<Rightarrow> reset_teams h exTag False (map t_id (live_teams ev)) [] ev) (\<lambda>(err, sent, ev).
            Ret (err, sent, put_live tag ev ep)))"

subsection \<open>Adding challenges to a running event\<close>

definition run_bind :: "'a go option \<Rightarrow> ('a \<Rightarrow> 'b go option) \<Rightarrow> 'b go option" where
  "run_bind x f = (case x of None \<Rightarrow> None | Some Panic \<Rightarrow> Some Panic | Some Fatal \<Rightarrow> Some Fatal | Some (Ret a) \<Rightarrow> f a)"

text \<open>The last error wins.\<close>

definition later :: "lab_error option \<Rightarrow> lab_error option \<Rightarrow> lab_error option" where
  "later old new = (if new = None then old else new)"

fun hub_loop ::
  "(string \<Rightarrow> host) \<Rightarrow> flag_src \<Rightarrow> exercise_conf list \<Rightarrow> (string \<times> lab) list \<Rightarrow> lab_error option \<Rightarrow>
   (lab_error option \<times> (string \<times> lab) list) go option" where
  "hub_loop h fs exers [] err = Some (Ret (err, []))"
| "hub_loop h fs exers ((k, l) # ls) err =
     run_bind (lab_AddChallenge (h k) fs exers l) (\<lambda>(e, l).
       run_bind (hub_loop h fs exers ls (later err e)) (\<lambda>(err, ls). Some (Ret (err, (k, l) # ls))))"

text \<open>A team that is not in the store is nil, and its challenges are updated nevertheless.\<close>

fun assigned_loop ::
  "(string \<Rightarrow> host) \<Rightarrow> flag_src \<Rightarrow> exercise_conf list \<Rightarrow> (string, string list) gomap \<Rightarrow> (string \<times> lab) list \<Rightarrow>
   lab_error option \<Rightarrow> teamstore \<Rightarrow> (lab_error option \<times> (string \<times> lab) list \<times> teamstore) go option" where
  "assigned_loop h fs exers childTags [] err ts = Some (Ret (err, [], ts))"
| "assigned_loop h fs exers childTags ((tid, l) # ls) err ts =
     run_bind (lab_AddChallenge (h tid) fs exers l) (\<lambda>(e, l).
       case GetTeamByID tid ts of
         Inl x \<Rightarrow> Some Panic
       | Inr t \<Rightarrow>
           run_bind (Some (add_flags (environment_Challenges (lb_env l)) t)) (\<lambda>t.
             run_bind (assigned_loop h fs exers childTags ls (later err e) (write_team (UpdateAllChallenges childTags t) ts))
               (\<lambda>(err, ls, ts). Some (Ret (err, (tid, l) # ls, ts)))))"

definition children_of :: "exercise_conf list \<Rightarrow> string list \<Rightarrow> (string, string list) gomap" where
  "children_of exers tags =
     foldl (\<lambda>m i. foldl (\<lambda>m parentTag. if ex_tag i = parentTag then map_put parentTag (Exercise_ChildTags i) m else m) m tags) [] exers"

definition api_AddChallenge ::
  "(string \<Rightarrow> host) \<Rightarrow> flag_src \<Rightarrow> (string list \<Rightarrow> string + exercise_conf list) \<Rightarrow> string option \<Rightarrow> string \<Rightarrow> string list \<Rightarrow>
   live_pool \<Rightarrow> (team_error option \<times> live_pool) go option" where
  "api_AddChallenge h fs service db_err eventTag tags ep =
     (case GetEvent ep eventTag of
        Inl x \<Rightarrow> Some (Ret (Some (PoolFail x), ep))
      | Inr ev \<Rightarrow>
          if list_ex (\<lambda>i. map_get (es_all (lv_store ev)) i \<noteq> None) tags then Some (Ret (Some (AlreadyOnEvent tags), ep))
          else (case service tags of
                  Inl x \<Rightarrow> Some (Ret (Some (DbFail x), ep))
                | Inr exers \<Rightarrow>
                    run_bind (hub_loop h fs exers (lv_spare ev) None) (\<lambda>(err, spare).
                    run_bind (hub_loop h fs exers (ge_labs (lv_event ev)) err) (\<lambda>(err, assigned).
                    run_bind (assigned_loop h fs exers (children_of exers tags) assigned err (es_teams (lv_store ev)))
                      (\<lambda>(err, assigned, ts).
                        let ev = ev\<lparr>lv_spare := spare, lv_event := (lv_event ev)\<lparr>ge_labs := assigned\<rparr>,
                                    lv_store := (lv_store ev)\<lparr>es_teams := ts\<rparr>\<rparr>
                        in case db_err of
                             Some x \<Rightarrow> Some (Ret (Some (DbFail x), put_live eventTag ev ep))
                           | None \<Rightarrow>
                               let ev = ev\<lparr>lv_conf := UpdateExercises exers (lv_conf ev),
                                           lv_front := foldl (\<lambda>fd fl. UpdateChallenges (Exercise_Flags fl) fd) (lv_front ev) exers\<rparr>
                               in Some (Ret (map_option LabError err, put_live eventTag ev ep)))))))"

subsection \<open>Solving on behalf of a team\<close>

lemma put_live_get [simp]: "map_get (ep_events (put_live tag ev ep)) t = (if t = tag then Some ev else map_get (ep_events ep) t)"
  by (simp add: put_live_def)

lemma find_challenge_in:
  assumes "distinct (map ch_tag cs)" and "c \<in> set cs"
  shows "find_challenge (ch_tag c) cs = c"
proof -
  have "find (\<lambda>d. ch_tag d = ch_tag c) cs = Some c"
    using assms by (induction cs) auto
  then show ?thesis by (simp add: find_challenge_def)
qed

lemma find_team:
  assumes "store_ok es" and "GetTeamByID tid es = Inr t"
  shows "find (\<lambda>t. t_id t = tid) (GetTeams es) = Some t" and "t_id t = tid"
proof -
  have get: "map_get (teams es) tid = Some t" using assms(2) by (simp add: GetTeamByID_def split: option.splits)
  then show id: "t_id t = tid" using assms(1) by (simp add: store_ok_def)
  have "t \<in> set (GetTeams es)" using map_get_in [OF get] by (force simp: GetTeams_def)
  then obtain u where u: "find (\<lambda>t. t_id t = tid) (GetTeams es) = Some u"
    using id by (metis (mono_tags, lifting) find_None_iff2 not_None_eq)
  then have "u \<in> set (GetTeams es)" "t_id u = tid" by (auto simp: find_Some_iff)
  then have "u = t" using store_teams [OF assms(1)] assms(2) by (metis Inr_inject)
  with u show "find (\<lambda>t. t_id t = tid) (GetTeams es) = Some t" by simp
qed

text \<open>
  An organiser who may see the flags of an event solves an open challenge of a team through the daemon: the
  call hands in the flag of the team's lab, which is accepted; the challenge becomes solved at that
  time, and no other challenge of the team, no other team and no other event changes.
\<close>
theorem solve_challenge_solves:
  assumes "map_get (ep_events ep) eventTag = Some ev" and "may_see_flags u ev" and "GetLabByTeam tid (lv_event ev) = Some l"
    and "store_ok (es_teams (lv_store ev))" and "GetTeamByID tid (es_teams (lv_store ev)) = Inr t" and "team_ok t" and "has_dbc t"
    and "c \<in> set (environment_Challenges (lb_env l))" and "distinct (map ch_tag (environment_Challenges (lb_env l)))"
    and "TrimSpace (ch_value c) = ch_value c" and "map_get (challenges t) (ch_value c) = Some \<lparr>tc_tag = ch_tag c, completed_at = None\<rparr>"
  shows "\<exists>t'. SolveChallenge (Some u) tm True eventTag tid (ch_tag c) ep = Ret (None, put_live eventTag (put_team t' ev) ep) \<and>
     t_id t' = tid \<and> (\<forall>g. IsTeamSolvedChallenge t' g = (if g = ch_tag c then Some tm else IsTeamSolvedChallenge t g))"
proof -
  have free: "\<not> t_locked t" using assms(6) by (simp add: team_ok_def)
  let ?t = "t\<lparr>challenges := map_put (ch_value c) \<lparr>tc_tag = ch_tag c, completed_at = Some tm\<rparr> (challenges t)\<rparr>"
  have v: "VerifyFlag (ch_tag c) (ch_value c) tm True t = Ret (None, ?t)"
    by (simp add: VerifyFlag_cases [OF free assms(7)] assms(11))
  note found = find_team [OF assms(4,5)]
  have "SolveChallenge (Some u) tm True eventTag tid (ch_tag c) ep = Ret (None, put_live eventTag (put_team ?t ev) ep)"
    using assms(1-3) found(1) by (simp add: SolveChallenge_def live_teams_def Let_def find_challenge_in [OF assms(9,8)] assms(10) v)
  with VerifyFlag_result [OF assms(6,7) v] found(2) show ?thesis by (intro exI [of _ ?t]) simp
qed

subsection \<open>After a team was deleted\<close>

lemma run_bind_Ret: "run_bind x f = Some (Ret r) \<longleftrightarrow> (\<exists>a. x = Some (Ret a) \<and> f a = Some (Ret r))"
  by (auto simp: run_bind_def split: option.split go.split)

lemma hub_loop_keys: "hub_loop h fs exers ls err = Some (Ret (e, ls')) \<Longrightarrow> map fst ls' = map fst ls"
  by (induction ls arbitrary: err e ls') (auto simp: run_bind_Ret)

lemma add_flags_id: "add_flags cs t = Ret t' \<Longrightarrow> t_id t' = t_id t"
proof (induction cs arbitrary: t)
  case (Cons c cs)
  then obtain r u where u: "AddChallenge (case NewTag (ch_tag c) of Inl _ \<Rightarrow> [] | Inr tag \<Rightarrow> tag) (ch_value c) t = Ret (r, u)" "add_flags cs u = Ret t'"
    by (auto simp: go_bind_Ret)
  have "t_id u = t_id t" using u(1)
    by (auto simp: AddChallenge_def return_unlocked_def go_bind_Ret unlock_def lock_def Let_def split: if_splits)
  with Cons.IH [OF u(2)] show ?case by simp
qed simp

lemma assigned_loop_missing:
  assumes "tid \<in> set (map fst ls)" and "map_get (teams ts) tid = None" and "\<forall>i t. map_get (teams ts) i = Some t \<longrightarrow> t_id t = i"
  shows "assigned_loop h fs exers childTags ls err ts \<noteq> Some (Ret r)"
  using assms
proof (induction ls arbitrary: err ts r)
  case (Cons p ls)
  obtain i l where p: "p = (i, l)" by (cases p)
  show ?case
  proof
    assume run: "assigned_loop h fs exers childTags (p # ls) err ts = Some (Ret r)"
    then have "\<exists>t. GetTeamByID i ts = Inr t" by (cases "GetTeamByID i ts") (auto simp: p run_bind_Ret)
    then obtain t where t: "GetTeamByID i ts = Inr t" ..
    with run have "\<exists>e (l' :: lab) t' r'. add_flags (environment_Challenges (lb_env l')) t = Ret t' \<and>
        assigned_loop h fs exers childTags ls (later err e) (write_team (UpdateAllChallenges childTags t') ts) = Some (Ret r')"
      by (simp add: p run_bind_Ret) blast
    then obtain e t' r' and l' :: lab where "add_flags (environment_Challenges (lb_env l')) t = Ret t'"
      "assigned_loop h fs exers childTags ls (later err e) (write_team (UpdateAllChallenges childTags t') ts) = Some (Ret r')" by blast
    note a = t this
    from a(1) have get: "map_get (teams ts) i = Some t" by (simp add: GetTeamByID_def split: option.splits)
    with Cons.prems(2) have "tid \<noteq> i" by auto
    then have mem: "tid \<in> set (map fst ls)" using Cons.prems(1) p by simp
    have id: "t_id (UpdateAllChallenges childTags t') = i"
      using add_flags_id [OF a(2)] get Cons.prems(3) by (simp add: UpdateAllChallenges_def)
    let ?ts = "write_team (UpdateAllChallenges childTags t') ts"
    have "map_get (teams ?ts) tid = None" "\<forall>j u. map_get (teams ?ts) j = Some u \<longrightarrow> t_id u = j"
      using Cons.prems(2,3) \<open>tid \<noteq> i\<close> by (simp_all add: write_team_def id)
    from Cons.IH [OF mem this] a(3) show False by blast
  qed
qed simp

lemma deleted_team_gone:
  assumes "api_DeleteTeam h db_ok ctx tag tid ep = Ret (None, ep')" and "map_get (ep_events ep) tag = Some ev"
    and "store_ok (es_teams (lv_store ev))"
  obtains ev' l l' where "map_get (ep_events ep') tag = Some ev'" and "GetLabByTeam tid (lv_event ev) = Some l"
    and "lab_Restart h l = Ret (None, l')" and "GetLabByTeam tid (lv_event ev') = Some l'" and "lv_freed ev' = lv_freed ev @ [l']"
    and "store_ok (es_teams (lv_store ev'))" and "map_get (teams (es_teams (lv_store ev'))) tid = None"
    and "es_all (lv_store ev') = es_all (lv_store ev)"
proof -
  from assms(1,2) obtain l l' es where l: "GetLabByTeam tid (lv_event ev) = Some l" "lab_Restart h l = Ret (None, l')"
    "event_DeleteTeam tid db_ok (lv_store ev) = Ret (None, es)"
    and ep': "ep' = put_live tag ((put_team_lab tid l' ev)\<lparr>lv_freed := lv_freed ev @ [l'], lv_store := es\<rparr>) ep"
    by (auto simp: api_DeleteTeam_def go_bind_Ret Let_def put_team_lab_def split: option.splits if_splits)
  have "store_ok (es_teams es)" "map_get (teams (es_teams es)) tid = None"
    using event_DeleteTeam_total [OF assms(3), of tid db_ok] l(3) by (auto simp: GetTeamByID_def split: option.splits)
  moreover have "es_all es = es_all (lv_store ev)"
    using l(3) by (auto simp: event_DeleteTeam_def go_bind_Ret split: sum.splits)
  ultimately show ?thesis using l(1,2)
    by (intro that [of "(put_team_lab tid l' ev)\<lparr>lv_freed := lv_freed ev @ [l'], lv_store := es\<rparr>" l l'])
       (simp_all add: ep' put_team_lab_def put_lab_def GetLabByTeam_def)
qed

text \<open>
  The event keeps the lab of a deleted team under the team's identifier. From then on challenges cannot
  be added to the event any more: a call either refuses the request before it touches a lab, or it does not return, since the
  team's nil record is dereferenced.
\<close>
theorem deleted_team_blocks_additions:
  assumes "api_DeleteTeam h db_ok ctx tag tid ep = Ret (None, ep')" and "map_get (ep_events ep) tag = Some ev"
    and "store_ok (es_teams (lv_store ev))" and "api_AddChallenge h' fs service db_err tag tags ep' = Some (Ret (err, ep''))"
  shows "ep'' = ep' \<and> (err = Some (AlreadyOnEvent tags) \<or> (\<exists>x. service tags = Inl x \<and> err = Some (DbFail x)))"
proof -
  obtain ev' l l' where ev': "map_get (ep_events ep') tag = Some ev'" "GetLabByTeam tid (lv_event ev') = Some l'"
    "store_ok (es_teams (lv_store ev'))" "map_get (teams (es_teams (lv_store ev'))) tid = None"
    by (rule deleted_team_gone [OF assms(1-3)])
  have get: "GetEvent ep' tag = Inr ev'" using ev'(1) by (simp add: GetEvent_def)
  have ids: "\<forall>i t. map_get (teams (es_teams (lv_store ev'))) i = Some t \<longrightarrow> t_id t = i" using ev'(3) by (simp add: store_ok_def)
  have key: "tid \<in> set (map fst (ge_labs (lv_event ev')))"
    using map_get_in ev'(2) by (force simp: GetLabByTeam_def)
  show ?thesis
  proof (cases "list_ex (\<lambda>i. map_get (es_all (lv_store ev')) i \<noteq> None) tags")
    case True
    with assms(4) show ?thesis by (simp add: api_AddChallenge_def get)
  next
    case False
    show ?thesis
    proof (cases "service tags")
      case (Inl x)
      with False assms(4) show ?thesis by (simp add: api_AddChallenge_def get)
    next
      case (Inr exers)
      with False assms(4) obtain e1 spare e2 assigned r where loops:
        "hub_loop h' fs exers (ge_labs (lv_event ev')) e1 = Some (Ret (e2, assigned))"
        "assigned_loop h' fs exers (children_of exers tags) assigned e2 (es_teams (lv_store ev')) = Some (Ret r)"
        by (auto simp: api_AddChallenge_def get run_bind_Ret)
      have "tid \<in> set (map fst assigned)" using key hub_loop_keys [OF loops(1)] by simp
      from assigned_loop_missing [OF this ev'(4) ids] loops(2) show ?thesis by blast
    qed
  qed
qed

subsection \<open>The flags of a lab that is handed back\<close>

lemma exercise_Create_Challenges:
  assumes "exercise_Create h nw n e = Ret (err, e', nw', n')"
  shows "exercise_Challenges e' = exercise_Challenges e"
proof -
  have "x_opts e' = x_opts e \<and> x_vbox e' = x_vbox e"
    using assms by (auto simp: exercise_Create_def go_bind_Ret split: option.splits prod.splits)
  then show ?thesis by (simp add: exercise_Challenges_def)
qed

lemma exercise_Reset_Challenges:
  assumes "exercise_Reset h nw n e = Ret (err, e', nw', n')"
  shows "exercise_Challenges e' = exercise_Challenges e"
proof -
  from assms obtain r e1 nw1 n1 where c1: "exercise_Create h nw n (exercise_Close e) = Ret (r, e1, nw1, n1)"
    by (auto simp: exercise_Reset_def go_bind_Ret)
  have "e' = (if r = None then snd (exercise_Start h e1) else e1)"
    using assms by (cases r) (auto simp: exercise_Reset_def c1 split: prod.splits)
  note c = c1 this
  have "exercise_Challenges (exercise_Close e) = exercise_Challenges e" by (simp add: exercise_Close_def exercise_Challenges_def)
  with exercise_Create_Challenges [OF c(1)] show ?thesis by (simp add: c(2) exercise_Start_Challenges)
qed

lemma reset_loop_Challenges:
  "reset_loop h es nw n = Ret (err, es', nw', n') \<Longrightarrow> map exercise_Challenges es' = map exercise_Challenges es"
proof (induction es arbitrary: nw n err es' nw' n')
  case (Cons e es)
  from Cons.prems obtain r e1 nw1 n1 where e1: "exercise_Reset h nw n e = Ret (r, e1, nw1, n1)" by (auto simp: go_bind_Ret)
  show ?case
  proof (cases r)
    case None
    with Cons.prems e1 obtain r2 es2 nw2 n2 where "reset_loop h es nw1 n1 = Ret (r2, es2, nw2, n2)" "es' = e1 # es2"
      by (auto simp: go_bind_Ret)
    with Cons.IH e1 show ?thesis by (simp add: exercise_Reset_Challenges)
  next
    case (Some x)
    with Cons.prems e1 have "es' = e1 # es" by (simp add: go_bind_Ret)
    with e1 show ?thesis by (simp add: exercise_Reset_Challenges)
  qed
qed simp

lemma lab_Restart_Challenges:
  assumes "lab_Restart h l = Ret (err, l')"
  shows "environment_Challenges (lb_env l') = environment_Challenges (lb_env l)"
proof -
  have eq: "environment_Challenges ee = concat (map exercise_Challenges (en_exercises ee))" for ee
    by (simp add: environment_Challenges_def foldl_append_map)
  have servers: "en_exercises (snd (refreshDNS h ee)) = en_exercises ee" "en_exercises (snd (refreshDHCP h ee)) = en_exercises ee" for ee
    by (auto simp: refreshDNS_def refreshDHCP_def start_dhcp_def Let_def split: option.split)
  from assms obtain r ee where r: "environment_Reset h (lb_env l) = Ret (r, ee)" "lb_env l' = ee"
    by (auto simp: lab_Restart_def go_bind_Ret Let_def each_frontend_def split: if_splits prod.splits)
  obtain d1 e1 where d1: "refreshDHCP h (lb_env l) = (d1, e1)" by fastforce
  obtain d2 e2 where d2: "refreshDNS h e1 = (d2, e2)" by fastforce
  have same: "en_exercises e1 = en_exercises (lb_env l)" "en_exercises e2 = en_exercises (lb_env l)"
    using servers(2) [of "lb_env l"] servers(1) [of e1] d1 d2 by simp_all
  have "map exercise_Challenges (en_exercises ee) = map exercise_Challenges (en_exercises (lb_env l))"
    using r(1) same by (cases d1; cases d2)
      (auto simp: environment_Reset_def d1 d2 go_bind_Ret dest!: reset_loop_Challenges)
  then show ?thesis by (simp add: eq r(2))
qed

text \<open>
  Deleting a team hands its lab back to the hub after a restart that keeps every flag: whoever gets the lab next
  is asked for the values that the deleted team has already seen.
\<close>
theorem freed_lab_keeps_flags:
  assumes "api_DeleteTeam h db_ok ctx tag tid ep = Ret (None, ep')" and "map_get (ep_events ep) tag = Some ev"
    and "store_ok (es_teams (lv_store ev))"
  shows "\<exists>l l' ev'. GetLabByTeam tid (lv_event ev) = Some l \<and> map_get (ep_events ep') tag = Some ev' \<and>
    lv_freed ev' = lv_freed ev @ [l'] \<and> environment_Challenges (lb_env l') = environment_Challenges (lb_env l)"
proof -
  obtain ev' l l' where "map_get (ep_events ep') tag = Some ev'" "GetLabByTeam tid (lv_event ev) = Some l"
    "lab_Restart h l = Ret (None, l')" "lv_freed ev' = lv_freed ev @ [l']"
    by (rule deleted_team_gone [OF assms])
  then show ?thesis using lab_Restart_Challenges by blast
qed

subsection \<open>Adding the same challenges again\<close>

lemma Add_distinct: "Add h fs confs ee = Some (Ret (None, ee')) \<Longrightarrow> distinct (map ex_tag confs) \<and>
    (\<forall>t \<in> ex_tag ` set confs. map_get (en_tags ee) t = None)"
proof (induction confs arbitrary: ee)
  case (Cons conf confs)
  from Cons.prems obtain ee1 where c: "map_get (en_tags ee) (ex_tag conf) = None" "add_exercise h fs conf ee = Some (Ret (None, ee1))"
    "Add h fs confs ee1 = Some (Ret (None, ee'))" by (rule Add_Cons)
  have "map_get (en_tags ee) t = None" if "map_get (en_tags ee1) t = None" for t
    using that c(2) by (auto simp: add_exercise_def Let_def go_bind_Ret push_exercise_def split: option.splits if_splits)
  with Cons.IH [OF c(3)] add_exercise_tag [OF c(2)] c(1) show ?case by auto
qed simp

lemma added_conf:
  assumes "api_AddChallenge h fs service None tag tags ep = Some (Ret (r, ep'))" and "map_get (ep_events ep) tag = Some ev"
    and "\<forall>i \<in> set tags. map_get (es_all (lv_store ev)) i = None" and "service tags = Inr exers"
  shows "\<exists>ev'. map_get (ep_events ep') tag = Some ev' \<and> lv_conf ev' = UpdateExercises exers (lv_conf ev) \<and>
    es_all (lv_store ev') = es_all (lv_store ev)"
proof -
  have "GetEvent ep tag = Inr ev" using assms(2) by (simp add: GetEvent_def)
  moreover have "\<not> list_ex (\<lambda>i. map_get (es_all (lv_store ev)) i \<noteq> None) tags" using assms(3) by (simp add: list_ex_iff)
  ultimately show ?thesis
    using assms(1,4) by (auto simp: api_AddChallenge_def run_bind_Ret Let_def)
qed

text \<open>
  Challenges that were added while an event runs are not entered among the event's challenges, so the same
  request is let through again (the first one reports an error whenever a team has a lab). After the second one the
  configuration of the hub has the exercises twice, and no new lab can ever be made for the event.
\<close>
theorem added_twice_blocks_labs:
  assumes "map_get (ep_events ep) tag = Some ev" and "\<forall>i \<in> set tags. map_get (es_all (lv_store ev)) i = None"
    and "service tags = Inr exers" and "exers \<noteq> []"
    and "api_AddChallenge h fs service None tag tags ep = Some (Ret (r, ep'))"
    and "api_AddChallenge h' fs' service None tag tags ep' = Some (Ret (r', ep''))"
  shows "\<exists>ev''. map_get (ep_events ep'') tag = Some ev'' \<and> (\<forall>host src t ports ee l. NewLab host src (lv_conf ev'') t ports ee \<noteq> Some (Ret (Inr l)))"
proof -
  obtain ev' where ev': "map_get (ep_events ep') tag = Some ev'" "lv_conf ev' = UpdateExercises exers (lv_conf ev)"
    "es_all (lv_store ev') = es_all (lv_store ev)"
    using added_conf [OF assms(5,1,2,3)] by blast
  with assms(2) have "\<forall>i \<in> set tags. map_get (es_all (lv_store ev')) i = None" by simp
  from added_conf [OF assms(6) ev'(1) this assms(3)] ev'(2) obtain ev'' where ev'': "map_get (ep_events ep'') tag = Some ev''"
    "lv_conf ev'' = UpdateExercises exers (UpdateExercises exers (lv_conf ev))" by auto
  have "\<not> distinct (map ex_tag (lc_exercises (lv_conf ev'')))"
    using assms(4) by (cases exers) (simp_all add: ev''(2) UpdateExercises_def)
  then have "Add host src (lc_exercises (lv_conf ev'')) ee \<noteq> Some (Ret (None, ee'))" for host src ee ee' using Add_distinct by blast
  moreover have "\<exists>ee'. Add host src (lc_exercises (lv_conf ev'')) ee = Some (Ret (None, ee'))"
    if "NewLab host src (lv_conf ev'') t ports ee = Some (Ret (Inr l))" for host src t ports ee l
  proof -
    from that obtain err ee' where "Add host src (lc_exercises (lv_conf ev'')) ee = Some (Ret (err, ee'))"
      "(case err of Some e \<Rightarrow> Ret (Inl e) | None \<Rightarrow> Ret (add_frontends host (zip ports (lc_frontends (lv_conf ev'')))
          \<lparr>lb_tag = t, lb_env = SetDisabledExercises (lc_disabled (lv_conf ev'')) ee', lb_frontends = []\<rparr>)) = Ret (Inr l)"
      by (auto simp: NewLab_def go_bind_Ret)
    then show ?thesis by (cases err) auto
  qed
  ultimately have "NewLab host src (lv_conf ev'') t ports ee \<noteq> Some (Ret (Inr l))" for host src t ports ee l by blast
  with ev''(1) show ?thesis by blast
qed

subsection \<open>Suspending idle teams\<close>

lemma suspend_quiet_instances: "lab_InstanceInfo (snd (lab_Suspend quiet_host l)) = map to_suspended (lab_InstanceInfo l)"
proof -
  have env: "environment_Suspend quiet_host ee =
      (None, ee\<lparr>en_exercises := map (\<lambda>e. e\<lparr>x_machines := map to_suspended (x_machines e)\<rparr>) (en_exercises ee)\<rparr>)" for ee
    unfolding environment_Suspend_def by (subst until_error_ok) (auto simp: exercise_Suspend_quiet)
  let ?f = "\<lambda>(p :: nat, vm, conf :: instance_config). case if mc_state vm = VRunning then suspend_machine quiet_host vm else (None, vm) of
        (e, vm) \<Rightarrow> (e, (p, vm, conf))"
  have "until_error ?f fs = (None, map (snd \<circ> ?f) fs)" for fs by (rule until_error_ok) auto
  moreover have "map (\<lambda>(p, vm, conf). vm) (map (snd \<circ> ?f) fs) = map to_suspended (map (\<lambda>(p, vm, conf). vm) fs)" for fs
    by (auto simp: to_suspended_def)
  ultimately have front: "map (\<lambda>(p, vm, conf). vm) (snd (until_error ?f fs)) = map to_suspended (map (\<lambda>(p, vm, conf). vm) fs)" for fs by simp
  have "lab_Suspend quiet_host l = (case until_error ?f (lb_frontends l) of
      (e, fs) \<Rightarrow> (e, l\<lparr>lb_env := (lb_env l)\<lparr>en_exercises := map (\<lambda>e. e\<lparr>x_machines := map to_suspended (x_machines e)\<rparr>) (en_exercises (lb_env l))\<rparr>,
                       lb_frontends := fs\<rparr>))"
    by (simp add: lab_Suspend_def env each_frontend_def)
  then have "lab_InstanceInfo (snd (lab_Suspend quiet_host l)) =
      map (\<lambda>(p, vm, conf). vm) (snd (until_error ?f (lb_frontends l))) @
      concat (map (\<lambda>e. map to_suspended (x_machines e)) (en_exercises (lb_env l)))"
    by (simp add: lab_InstanceInfo_def environment_InstanceInfo_def foldl_append_map comp_def split: prod.split)
  then show ?thesis
    unfolding front by (simp add: lab_InstanceInfo_def environment_InstanceInfo_def foldl_append_map map_concat comp_def)
qed

lemma suspend_fold:
  "lab_InstanceInfo (foldl (\<lambda>l' m. if mc_state m \<noteq> VSuspended then snd (lab_Suspend quiet_host l') else l') l ms) =
   (if \<exists>m \<in> set ms. mc_state m \<noteq> VSuspended then map to_suspended (lab_InstanceInfo l) else lab_InstanceInfo l)"
proof -
  have twice: "to_suspended (to_suspended m) = to_suspended m" for m by (simp add: to_suspended_def)
  show ?thesis by (induction ms arbitrary: l) (auto simp: suspend_quiet_instances twice)
qed

lemma suspended_machines: "m \<in> set (lab_InstanceInfo (suspend_once_per_machine quiet_host l)) \<Longrightarrow> mc_state m \<noteq> VRunning"
  unfolding suspend_once_per_machine_def suspend_fold by (auto simp: to_suspended_def split: if_splits)

lemma GetLab_put [simp]: "GetLabByTeam i (lv_event (put_team_lab j l ev)) = (if i = j then Some l else GetLabByTeam i (lv_event ev))"
  by (simp add: put_team_lab_def put_lab_def GetLabByTeam_def)

lemma check_fold:
  assumes "distinct (map t_id ts)"
  shows "GetLabByTeam i (lv_event (foldl (\<lambda>ev t. if idle t
         then (case GetLabByTeam (t_id t) (lv_event ev) of None \<Rightarrow> ev | Some l \<Rightarrow> put_team_lab (t_id t) (g t l) ev) else ev) ev ts)) =
    (case find (\<lambda>t. t_id t = i) ts of
       None \<Rightarrow> GetLabByTeam i (lv_event ev)
     | Some t \<Rightarrow> if idle t then map_option (g t) (GetLabByTeam i (lv_event ev)) else GetLabByTeam i (lv_event ev))"
  using assms
proof (induction ts arbitrary: ev)
  case (Cons t ts)
  have "t_id t \<notin> t_id ` set ts" using Cons.prems by simp
  then have "find (\<lambda>u. t_id u = t_id t) ts = None" unfolding find_None_iff by (metis imageI)
  with Cons show ?case by (auto split: option.splits)
qed simp

lemma rounded_hours_iff: "8 < rounded_hours d \<longleftrightarrow> 17 * hour_ns \<le> 2 * d"
  unfolding rounded_hours_def hour_ns_def by simp linarith

text \<open>
  C28. The job that suspends idle teams, on machines that answer: a team whose last access is eight and a half hours
  or more ago has no running machine afterwards, and the lab of any other team is as it was.
\<close>
theorem idle_teams_suspended:
  assumes "store_ok (es_teams (lv_store ev))" and "t \<in> set (live_teams ev)" and "GetLabByTeam (t_id t) (lv_event ev) = Some l"
  shows "\<exists>l'. GetLabByTeam (t_id t) (lv_event (checkTeamLab (\<lambda>_. quiet_host) access_time clock ev)) = Some l' \<and>
    (if 17 * hour_ns \<le> 2 * (clock - access_time (lastAccess t)) then \<forall>m \<in> set (lab_InstanceInfo l'). mc_state m \<noteq> VRunning else l' = l)"
proof -
  have d: "distinct (map t_id (live_teams ev))" using store_ids_distinct [OF assms(1)] by (simp add: live_teams_def)
  have "GetTeamByID (t_id t) (es_teams (lv_store ev)) = Inr t" using store_teams [OF assms(1)] assms(2) by (simp add: live_teams_def)
  then have "find (\<lambda>u. t_id u = t_id t) (live_teams ev) = Some t" using find_team(1) [OF assms(1)] by (simp add: live_teams_def)
  then show ?thesis
    unfolding checkTeamLab_def check_fold [OF d] by (auto simp: assms(3) rounded_hours_iff dest: suspended_machines)
qed

subsection \<open>A team with a lab\<close>

text \<open>One exercise that is a virtual machine with a flag of its own, on a host that refuses nothing.\<close>

definition vm_exercise :: exercise where
  "vm_exercise = \<lparr>x_opts = [], x_vbox = [\<lparr>ei_image = ''vm.ova'', ei_memory = 50, ei_cpu = 1, ei_envs = [],
     ei_flags = [\<lparr>cc_tag = ''sql-1'', cc_name = ''SQL'', cc_env = [], cc_static_flag = ''HKN{x}'', cc_points = 5,
       cc_category = ''Web'', cc_description = [], cc_prereqs = [], cc_outcomes = [], cc_static = False\<rparr>], ei_records = []\<rparr>],
     x_tag = ''sql'', x_dns_addr = ''77.1.2.3'', x_dns = [], x_ips = [],
     x_machines = [\<lparr>mc_id = 7, mc_image = ''vm.ova'', mc_state = VRunning\<rparr>]\<rparr>"

definition vm_lab :: lab where
  "vm_lab = \<lparr>lb_tag = ''lab'', lb_env = sample_lab_env\<lparr>en_exercises := [vm_exercise], en_tags := [(''sql'', 0)], en_dhcp := True\<rparr>,
     lb_frontends = []\<rparr>"

definition vm_event :: live_event where
  "vm_event = \<lparr>lv_event = \<lparr>ge_tag = ''ctf'', ge_only_vpn = 0, ge_vpn_address = [], ge_host = [], ge_port = 0, ge_addrs = [],
       ge_labs = [(''a1'', vm_lab)], ge_rules = [], ge_users = [], ge_commands = [], ge_peers = [], ge_files = []\<rparr>,
     lv_store = \<lparr>es_dir = [], es_conf = sample_conf ''ctf'' [], es_disabled = [], es_all = [], es_teams = one_team\<rparr>,
     lv_spare = [], lv_freed = [], lv_conf = \<lparr>lc_frontends = [], lc_exercises = [], lc_disabled = []\<rparr>,
     lv_front = \<lparr>fd_challenges = [], fd_clients = [], fd_queues = [], fd_closed = [], fd_pending = []\<rparr>\<rparr>"

definition vm_pool :: live_pool where
  "vm_pool = \<lparr>ep_host = ''ntp.dk'', ep_events = [(''ctf'', vm_event)], ep_handlers = []\<rparr>"

definition no_flags :: flag_src where "no_flags = (\<lambda>_. 0, \<lambda>_. 0)"

lemma vm_flags: "environment_Challenges (lb_env vm_lab) = [\<lparr>ch_name = ''SQL'', ch_tag = ''sql-1'', ch_value = ''HKN{x}''\<rparr>]"
  by (simp add: environment_Challenges_def exercise_Challenges_def vm_lab_def vm_exercise_def vm_challenge_def)

lemma vm_get: "map_get (ep_events vm_pool) ''ctf'' = Some vm_event" "GetLabByTeam ''a1'' (lv_event vm_event) = Some vm_lab"
  "es_teams (lv_store vm_event) = one_team" "GetTeamByID ''a1'' one_team = Inr sample_team_state"
  by (simp_all add: vm_pool_def vm_event_def map_get_Cons GetLabByTeam_def GetTeamByID_def one_team_def)

lemma vm_restart: "\<exists>l. lab_Restart quiet_host vm_lab = Ret (None, l)"
  by (simp add: lab_Restart_def environment_Reset_def refreshDHCP_def start_dhcp_def refreshDNS_def vm_lab_def vm_exercise_def
      sample_lab_env_def NewEnvironment_def exercise_Reset_def exercise_Close_def exercise_Create_def exercise_Start_def
      each_frontend_def new_machine_def machine_to_def start_machine_def Let_def)

lemma vm_delete:
  "\<exists>ep' ev' l. api_DeleteTeam quiet_host True (Some admin_user) ''ctf'' ''a1'' vm_pool = Ret (None, ep') \<and>
     map_get (ep_events ep') ''ctf'' = Some ev' \<and> ge_labs (lv_event ev') = [(''a1'', l)] \<and> lv_spare ev' = [] \<and>
     es_all (lv_store ev') = [] \<and> GetTeamByID ''a1'' (es_teams (lv_store ev')) = Inl UnknownTeamErr"
proof -
  obtain l where l: "lab_Restart quiet_host vm_lab = Ret (None, l)" using vm_restart ..
  have "\<exists>es. event_DeleteTeam ''a1'' True (lv_store vm_event) = Ret (None, es) \<and> es_all es = [] \<and>
      GetTeamByID ''a1'' (es_teams es) = Inl UnknownTeamErr"
    by (simp add: event_DeleteTeam_def vm_get)
       (simp add: DeleteTeam_def one_team_def sample_team_state_def map_get_Cons GetTeamByID_def vm_event_def)
  then obtain es where es: "event_DeleteTeam ''a1'' True (lv_store vm_event) = Ret (None, es)" "es_all es = []"
    "GetTeamByID ''a1'' (es_teams es) = Inl UnknownTeamErr" by (elim exE conjE)
  have labs: "ge_labs (lv_event vm_event) = [(''a1'', vm_lab)]" "lv_spare vm_event = []" by (simp_all add: vm_event_def)
  show ?thesis
    by (simp add: api_DeleteTeam_def vm_get l es admin_user_def Let_def put_team_lab_def put_lab_def labs map_put_def)
qed

lemma solve_challenge_solves_witness:
  "\<exists>t'. SolveChallenge (Some admin_user) ''t9'' True ''ctf'' ''a1'' ''sql-1'' vm_pool =
       Ret (None, put_live ''ctf'' (put_team t' vm_event) vm_pool) \<and>
     IsTeamSolvedChallenge t' ''sql-1'' = Some ''t9'' \<and> IsTeamSolvedChallenge t' ''sql-2'' = Some ''t1''"
proof -
  let ?c = "\<lparr>ch_name = ''SQL'', ch_tag = ''sql-1'', ch_value = ''HKN{x}''\<rparr>"
  have "may_see_flags admin_user vm_event" by (simp add: may_see_flags_def admin_user_def)
  moreover have "TrimSpace (ch_value ?c) = ch_value ?c" by (simp add: TrimSpace_def is_space_def)
  moreover have "map_get (challenges sample_team_state) (ch_value ?c) = Some \<lparr>tc_tag = ch_tag ?c, completed_at = None\<rparr>"
    by (simp add: sample_team_state_def map_get_Cons)
  ultimately obtain t' where "SolveChallenge (Some admin_user) ''t9'' True ''ctf'' ''a1'' (ch_tag ?c) vm_pool =
       Ret (None, put_live ''ctf'' (put_team t' vm_event) vm_pool)"
     "\<forall>g. IsTeamSolvedChallenge t' g = (if g = ch_tag ?c then Some ''t9'' else IsTeamSolvedChallenge sample_team_state g)"
    using solve_challenge_solves [of vm_pool "''ctf''" vm_event admin_user "''a1''" vm_lab sample_team_state ?c "''t9''"]
      vm_get one_team_ok sample_team_ok vm_flags by auto
  moreover have "IsTeamSolvedChallenge sample_team_state ''sql-2'' = Some ''t1''"
    by (simp add: IsTeamSolvedChallenge_def sample_team_state_def)
  ultimately show ?thesis by (intro exI [of _ t']) simp
qed

lemma deleted_team_blocks_additions_witness:
  "\<exists>ep'. api_DeleteTeam quiet_host True (Some admin_user) ''ctf'' ''a1'' vm_pool = Ret (None, ep') \<and>
     api_AddChallenge (\<lambda>_. quiet_host) no_flags (\<lambda>_. Inl ''down'') None ''ctf'' [''xss''] ep' = Some (Ret (Some (DbFail ''down''), ep')) \<and>
     api_AddChallenge (\<lambda>_. quiet_host) no_flags (\<lambda>_. Inr []) None ''ctf'' [''xss''] ep' = Some Panic"
proof -
  obtain ep' ev' l where ep': "api_DeleteTeam quiet_host True (Some admin_user) ''ctf'' ''a1'' vm_pool = Ret (None, ep')"
    "map_get (ep_events ep') ''ctf'' = Some ev'" and ev': "ge_labs (lv_event ev') = [(''a1'', l)]" "lv_spare ev' = []"
    "es_all (lv_store ev') = []" "GetTeamByID ''a1'' (es_teams (lv_store ev')) = Inl UnknownTeamErr"
    using vm_delete by (elim exE conjE)
  have ok: "store_ok (es_teams (lv_store vm_event))" by (simp add: vm_get one_team_ok)
  have get: "GetEvent ep' ''ctf'' = Inr ev'" using ep'(2) by (simp add: GetEvent_def)
  obtain err ep'' where down: "api_AddChallenge (\<lambda>_. quiet_host) no_flags (\<lambda>_. Inl ''down'') None ''ctf'' [''xss''] ep' = Some (Ret (err, ep''))"
    "err \<noteq> Some (AlreadyOnEvent [''xss''])"
    by (simp add: api_AddChallenge_def get ev')
  from deleted_team_blocks_additions [OF ep'(1) vm_get(1) ok down(1)] down
  have "api_AddChallenge (\<lambda>_. quiet_host) no_flags (\<lambda>_. Inl ''down'') None ''ctf'' [''xss''] ep' =
      Some (Ret (Some (DbFail ''down''), ep'))" by auto
  moreover have "api_AddChallenge (\<lambda>_. quiet_host) no_flags (\<lambda>_. Inr []) None ''ctf'' [''xss''] ep' = Some Panic"
    by (simp add: api_AddChallenge_def get ev' run_bind_def lab_AddChallenge_def)
  ultimately show ?thesis using ep'(1) by (intro exI conjI)
qed

lemma freed_lab_keeps_flags_witness:
  "\<exists>ep' ev' l'. api_DeleteTeam quiet_host True (Some admin_user) ''ctf'' ''a1'' vm_pool = Ret (None, ep') \<and>
     map_get (ep_events ep') ''ctf'' = Some ev' \<and> lv_freed ev' = [l'] \<and> map ch_value (environment_Challenges (lb_env l')) = [''HKN{x}'']"
proof -
  obtain ep' where ep': "api_DeleteTeam quiet_host True (Some admin_user) ''ctf'' ''a1'' vm_pool = Ret (None, ep')"
    using vm_delete by (elim exE conjE)
  have ok: "store_ok (es_teams (lv_store vm_event))" by (simp add: vm_get one_team_ok)
  from freed_lab_keeps_flags [OF ep' vm_get(1) ok] obtain l' ev' where "map_get (ep_events ep') ''ctf'' = Some ev'"
    "lv_freed ev' = lv_freed vm_event @ [l']" "environment_Challenges (lb_env l') = environment_Challenges (lb_env vm_lab)"
    by (auto simp: vm_get)
  with ep' show ?thesis by (intro exI conjI) (auto simp: vm_flags vm_event_def)
qed

lemma added_twice_blocks_labs_witness:
  "\<exists>ep' ep'' r r'. api_AddChallenge (\<lambda>_. quiet_host) no_flags (\<lambda>_. Inr [lab_exercise ''xss'' ''xss:1'']) None ''ctf'' [''xss'']
        (put_live ''ctf'' (vm_event\<lparr>lv_event := (lv_event vm_event)\<lparr>ge_labs := []\<rparr>\<rparr>) vm_pool) = Some (Ret (r, ep')) \<and>
     api_AddChallenge (\<lambda>_. quiet_host) no_flags (\<lambda>_. Inr [lab_exercise ''xss'' ''xss:1'']) None ''ctf'' [''xss''] ep' = Some (Ret (r', ep'')) \<and>
     (\<exists>ev''. map_get (ep_events ep'') ''ctf'' = Some ev'' \<and> (\<forall>host src t ports ee l. NewLab host src (lv_conf ev'') t ports ee \<noteq> Some (Ret (Inr l))))"
proof -
  let ?ev = "vm_event\<lparr>lv_event := (lv_event vm_event)\<lparr>ge_labs := []\<rparr>\<rparr>"
  let ?s = "\<lambda>_. Inr [lab_exercise ''xss'' ''xss:1'']"
  let ?ep = "put_live ''ctf'' ?ev vm_pool"
  have free: "\<forall>i \<in> set [''xss'']. map_get (es_all (lv_store ?ev)) i = None" by (simp add: vm_event_def)
  have run: "\<exists>r ep' ev'. api_AddChallenge (\<lambda>_. quiet_host) no_flags ?s None ''ctf'' [''xss''] ep = Some (Ret (r, ep')) \<and>
      map_get (ep_events ep') ''ctf'' = Some ev' \<and> ge_labs (lv_event ev') = [] \<and> lv_spare ev' = [] \<and> es_all (lv_store ev') = []"
    if "map_get (ep_events ep) ''ctf'' = Some ev" "ge_labs (lv_event ev) = []" "lv_spare ev = []" "es_all (lv_store ev) = []" for ep ev
    using that by (simp add: api_AddChallenge_def GetEvent_def run_bind_def Let_def)
  have ev: "map_get (ep_events ?ep) ''ctf'' = Some ?ev" "ge_labs (lv_event ?ev) = []" "lv_spare ?ev = []" "es_all (lv_store ?ev) = []"
    by (simp_all add: vm_event_def)
  from run [OF ev] obtain r ep' ev' where 1: "api_AddChallenge (\<lambda>_. quiet_host) no_flags ?s None ''ctf'' [''xss''] ?ep = Some (Ret (r, ep'))"
    "map_get (ep_events ep') ''ctf'' = Some ev'" "ge_labs (lv_event ev') = []" "lv_spare ev' = []" "es_all (lv_store ev') = []" by (elim exE conjE)
  from run [OF 1(2-5)] obtain r' ep'' where 2: "api_AddChallenge (\<lambda>_. quiet_host) no_flags ?s None ''ctf'' [''xss''] ep' = Some (Ret (r', ep''))" by (elim exE conjE)
  have "\<exists>ev''. map_get (ep_events ep'') ''ctf'' = Some ev'' \<and> (\<forall>host src t ports ee l. NewLab host src (lv_conf ev'') t ports ee \<noteq> Some (Ret (Inr l)))"
    by (rule added_twice_blocks_labs [OF ev(1) free refl _ 1(1) 2]) simp
  with 1(1) 2 show ?thesis by (intro exI) (rule conjI, assumption, rule conjI, assumption, assumption)
qed

lemma idle_teams_suspended_witness:
  "\<exists>l'. GetLabByTeam ''a1'' (lv_event (checkTeamLab (\<lambda>_. quiet_host) (\<lambda>_. 0) (17 * hour_ns) vm_event)) = Some l' \<and>
     filter (\<lambda>m. mc_state m = VRunning) (lab_InstanceInfo l') = [] \<and> map mc_state (lab_InstanceInfo vm_lab) = [VRunning]"
proof -
  have "sample_team_state \<in> set (live_teams vm_event)" "t_id sample_team_state = ''a1''"
    by (simp_all add: live_teams_def vm_get GetTeams_def one_team_def sample_team_state_def)
  moreover have "map mc_state (lab_InstanceInfo vm_lab) = [VRunning]"
    by (simp add: lab_InstanceInfo_def environment_InstanceInfo_def vm_lab_def vm_exercise_def)
  moreover have "17 * hour_ns \<le> 2 * (17 * hour_ns - 0)" by (simp add: hour_ns_def)
  ultimately show ?thesis
    using idle_teams_suspended [of vm_event sample_team_state vm_lab "\<lambda>_. 0" "17 * hour_ns"] one_team_ok by (simp add: vm_get filter_empty_conv)
qed

end
