(* ===== verification/Vue_Wiring.thy ===== *)
theory Vue_Wiring
  imports Page Vue_Challenges
begin

text \<open>
  What the components attach to the page they are mounted on: the listeners that FlagChecker.vue adds to every
  input field when it is mounted, and the websockets of Scoreboard.vue and TeamsPage.vue with their reconnection.
\<close>

subsection \<open>Listeners\<close>

text \<open>A field of the document with the number of listener pairs it has.\<close>

record wired =
  wd_field :: field
  wd_listeners :: nat

definition flag_addcl :: "field \<Rightarrow> field" where
  "flag_addcl s = s\<lparr>fld_focus := True\<rparr>"

definition flag_remcl :: "field \<Rightarrow> field" where
  "flag_remcl s = (if fld_value s = [] then s\<lparr>fld_focus := False\<rparr> else s)"

definition flag_mounted :: "wired list \<Rightarrow> wired list" where
  "flag_mounted inputs = map (\<lambda>input. input\<lparr>wd_listeners := wd_listeners input + 1\<rparr>) inputs"

text \<open>
  A flag checker comes with a field of its own, which is in the document when \<^verbatim>\<open>mounted\<close> runs; the other steps are
  events at the field of an index.
\<close>

datatype wiring_event = MountChecker | AtField nat field_event

fun wiring_step :: "wiring_event \<Rightarrow> wired list \<Rightarrow> wired list" where
  "wiring_step MountChecker inputs =
     flag_mounted (inputs @ [\<lparr>wd_field = \<lparr>fld_value = [], fld_focus = False\<rparr>, wd_listeners = 0\<rparr>])"
| "wiring_step (AtField i e) inputs =
     (if i < length inputs
      then inputs[i := (inputs ! i)\<lparr>wd_field := field_step (wd_listeners (inputs ! i)) e (wd_field (inputs ! i))\<rparr>]
      else inputs)"

subsection \<open>Sockets that reconnect\<close>

definition score_connectToWS :: "page_sockets \<Rightarrow> page_sockets" where
  "score_connectToWS s = s\<lparr>ps_sockets := ps_sockets s + 1\<rparr>"

definition teams_connectToWS :: "page_sockets \<Rightarrow> page_sockets" where
  "teams_connectToWS s = s\<lparr>ps_sockets := ps_sockets s + 1\<rparr>"

datatype socket_change = SocketLost | TimerEnds

fun reconnect_step :: "(page_sockets \<Rightarrow> page_sockets) \<Rightarrow> socket_change \<Rightarrow> page_sockets \<Rightarrow> page_sockets" where
  "reconnect_step connect SocketLost s =
     (if ps_sockets s = 0 then s else s\<lparr>ps_sockets := ps_sockets s - 1, ps_timers := ps_timers s + 1\<rparr>)"
| "reconnect_step connect TimerEnds s = (if ps_timers s = 0 then s else connect (s\<lparr>ps_timers := ps_timers s - 1\<rparr>))"

definition score_sockets :: "socket_change list \<Rightarrow> page_sockets" where
  "score_sockets evs = fold (reconnect_step score_connectToWS) evs (score_connectToWS \<lparr>ps_sockets = 0, ps_timers = 0\<rparr>)"

definition teams_sockets :: "socket_change list \<Rightarrow> page_sockets" where
  "teams_sockets evs = fold (reconnect_step teams_connectToWS) evs (teams_connectToWS \<lparr>ps_sockets = 0, ps_timers = 0\<rparr>)"

subsection \<open>Properties\<close>

lemma flag_listeners: "flag_addcl = addcl" "flag_remcl = remcl"
  by (simp_all add: fun_eq_iff flag_addcl_def addcl_def flag_remcl_def remcl_def)

lemma field_step_once:
  assumes "0 < n"
  shows "field_step n e s = field_step 1 e s"
proof (cases e)
  case FocusIn
  then show ?thesis using addcl_pow [OF assms, of s] by (simp add: addcl_def)
next
  case FocusOut
  then show ?thesis using remcl_pow [OF assms, of s] by simp
qed simp

lemma wiring_step_field:
  assumes "i < length inputs" and "0 < wd_listeners (inputs ! i)"
  shows "wd_field (wiring_step e inputs ! i) = (case e of AtField j fe \<Rightarrow> if j = i then field_step 1 fe (wd_field (inputs ! i)) else wd_field (inputs ! i)
    | MountChecker \<Rightarrow> wd_field (inputs ! i))"
proof (cases e)
  case MountChecker
  with assms(1) show ?thesis by (simp add: flag_mounted_def nth_append)
next
  case (AtField j fe)
  show ?thesis
  proof (cases "j = i")
    case True
    with AtField assms(1) show ?thesis
      using field_step_once [OF assms(2), of fe "wd_field (inputs ! i)"] by simp
  next
    case False
    with AtField show ?thesis by simp
  qed
qed

lemma wiring_step_kept:
  assumes "i < length inputs" and "0 < wd_listeners (inputs ! i)"
  shows "i < length (wiring_step e inputs)" and "0 < wd_listeners (wiring_step e inputs ! i)"
  using assms by (cases e; simp add: flag_mounted_def nth_append nth_list_update)+

text \<open>
  Opening the modal again and again adds listeners to every field of the page, and no field behaves differently for
  it: a field with at least one pair goes through the steps of its own events, as if it had exactly one.
\<close>
theorem extra_listeners_invisible:
  assumes "i < length inputs" and "0 < wd_listeners (inputs ! i)"
  shows "wd_field (fold wiring_step evs inputs ! i) =
    fold (\<lambda>e s. case e of AtField j fe \<Rightarrow> if j = i then field_step 1 fe s else s | MountChecker \<Rightarrow> s) evs (wd_field (inputs ! i))"
  using assms
proof (induction evs arbitrary: inputs)
  case (Cons e evs)
  from Cons.IH [OF wiring_step_kept [OF Cons.prems, of e]] wiring_step_field [OF Cons.prems, of e]
  show ?case by (cases e) simp_all
qed simp

theorem extra_listeners_invisible_witness:
  "wd_field (fold wiring_step [MountChecker, AtField 0 FocusIn, MountChecker, AtField 0 FocusOut]
     [\<lparr>wd_field = \<lparr>fld_value = ''x'', fld_focus = False\<rparr>, wd_listeners = 1\<rparr>] ! 0) = \<lparr>fld_value = ''x'', fld_focus = True\<rparr>"
  using extra_listeners_invisible [of 0 "[\<lparr>wd_field = \<lparr>fld_value = ''x'', fld_focus = False\<rparr>, wd_listeners = 1\<rparr>]"
      "[MountChecker, AtField 0 FocusIn, MountChecker, AtField 0 FocusOut]"]
  by (simp add: addcl_def remcl_def)

lemma reconnect_total:
  assumes "\<And>s. ps_sockets (connect s) = ps_sockets s + 1 \<and> ps_timers (connect s) = ps_timers s"
  shows "ps_sockets (reconnect_step connect e s) + ps_timers (reconnect_step connect e s) = ps_sockets s + ps_timers s"
  using assms by (cases e) simp_all

text \<open>
  However often its connection is lost, the scoreboard and the teams page hold one open socket or one timer that will open it
  again; the challenge page holds one more for every flag found and every challenge reset, started or stopped.
\<close>
theorem sockets_held:
  "ps_sockets (score_sockets evs) + ps_timers (score_sockets evs) = 1 \<and>
   ps_sockets (teams_sockets evs) + ps_timers (teams_sockets evs) = 1 \<and>
   ps_sockets (fold page_step pevs page_created) + ps_timers (fold page_step pevs page_created) = 1 + length (filter is_child_event pevs)"
proof -
  have steady: "ps_sockets (fold (reconnect_step c) evs s) + ps_timers (fold (reconnect_step c) evs s) = ps_sockets s + ps_timers s"
    if "\<And>s. ps_sockets (c s) = ps_sockets s + 1 \<and> ps_timers (c s) = ps_timers s" for c s
    using reconnect_total [OF that] by (induction evs arbitrary: s) simp_all
  have "ps_sockets (score_sockets evs) + ps_timers (score_sockets evs) = 1"
    unfolding score_sockets_def by (subst steady) (simp_all add: score_connectToWS_def)
  moreover have "ps_sockets (teams_sockets evs) + ps_timers (teams_sockets evs) = 1"
    unfolding teams_sockets_def by (subst steady) (simp_all add: teams_connectToWS_def)
  ultimately show ?thesis using sockets_leak by blast
qed

end
