(* ===== verification/Virtual_Docker.thy ===== *)
theory Virtual_Docker
  imports Lab_Env "HOL-Library.List_Lexorder" "HOL-Library.Char_ord"
begin

text \<open>
  Containers (virtual/docker/docker.go): names of images, the check of the local copy of an image, what a container's
  configuration is translated to before Docker is asked to create it, the container's calls, and the bridge that
  gives containers an alias. Docker's client, the registries' digests, the file system and md5 answer through the
  record \<open>docker_env\<close>; the calls made to Docker are logged. Networks and addresses are in Lab_Env and Address_Pool.
\<close>

subsection \<open>Names of images\<close>

record image =
  im_registry :: string
  im_repo :: string
  im_tag :: string

definition Image_String :: "image \<Rightarrow> string" where
  "Image_String i =
     (if im_registry i = [] then im_repo i @ '':'' @ im_tag i else im_registry i @ ''/'' @ im_repo i @ '':'' @ im_tag i)"

definition IsPublic :: "image \<Rightarrow> bool" where
  "IsPublic i \<longleftrightarrow> im_registry i = []"

definition NameWithReg :: "image \<Rightarrow> string" where
  "NameWithReg i = (if im_registry i = [] then im_repo i else im_registry i @ ''/'' @ im_repo i)"

definition parseImage :: "string \<Rightarrow> image" where
  "parseImage img =
     (let (repo, tag) = (case split_on CHR '':'' img of [r, t] \<Rightarrow> (r, t) | _ \<Rightarrow> (img, ''latest''))
      in if 1 < count_list repo CHR ''/''
         then (let parts = split_on CHR ''/'' repo
               in \<lparr>im_registry = hd parts, im_repo = join_with CHR ''/'' (tl parts), im_tag = tag\<rparr>)
         else \<lparr>im_registry = [], im_repo = repo, im_tag = tag\<rparr>)"

subsection \<open>The local copy of an image\<close>

datatype inspected = NoSuchImage | InspectErr string | RepoDigests "string list"

datatype docker_call =
    PullImage string string
  | DkCreate string
  | DkStart string
  | DkUnpause string
  | DkPause string
  | DkStop string
  | DkRemove string
  | DkConnect string "string list"
  | DkDisconnect string string

datatype docker_error =
    NoCredentialsErr string
  | NoLocalImageAvailableErr string
  | NoLocalDigestErr string
  | DockerErr string
  | InvalidHostBindingErr
  | InvalidMountErr
  | TooLowMemErr
  | ContNotCreatedErr

text \<open>\<open>dk_status\<close> is what inspecting a container tells of it.\<close>

record docker_env =
  dk_registries :: "string list"
  dk_inspect :: "string \<Rightarrow> inspected"
  dk_digest :: "image \<Rightarrow> string + string"
  dk_call :: "docker_call \<Rightarrow> string option"
  dk_host_ip :: "string + string"
  dk_status :: "string \<Rightarrow> vm_state"
  dk_id :: string
  dk_uuid :: string
  dk_tmpdir :: string
  dk_md5 :: "string \<Rightarrow> string"
  dk_create_err :: "string option"
  dk_write_err :: "(nat \<times> string) option"

definition dk_run :: "docker_env \<Rightarrow> docker_call \<Rightarrow> docker_error option" where
  "dk_run env c = map_option DockerErr (dk_call env c)"

definition retrieveImage :: "docker_env \<Rightarrow> image \<Rightarrow> string option \<times> docker_call list" where
  "retrieveImage env img = (let c = PullImage (NameWithReg img) (im_tag img) in (dk_call env c, [c]))"

definition verifyLocalImageVersion :: "docker_env \<Rightarrow> image \<Rightarrow> docker_error option \<times> docker_call list" where
  "verifyLocalImageVersion env img =
     (if im_registry img \<notin> set (dk_registries env) then (Some (NoCredentialsErr (im_registry img)), [])
      else (case dk_inspect env (Image_String img) of
              NoSuchImage \<Rightarrow> (case retrieveImage env img of (e, cs) \<Rightarrow> (map_option NoLocalImageAvailableErr e, cs))
            | InspectErr x \<Rightarrow> (Some (DockerErr x), [])
            | RepoDigests [] \<Rightarrow> (Some (NoLocalDigestErr (Image_String img)), [])
            | RepoDigests (d # _) \<Rightarrow>
                let localDigest = (if CHR ''@'' \<in> set d then split_on CHR ''@'' d ! 1 else d)
                in (case dk_digest env img of
                      Inl x \<Rightarrow> (Some (DockerErr x), [])
                    | Inr remoteDigest \<Rightarrow>
                        if remoteDigest \<noteq> localDigest
                        then (case retrieveImage env img of (e, cs) \<Rightarrow> (map_option DockerErr e, cs))
                        else (None, []))))"

subsection \<open>The configuration of a container\<close>

record container_config = docker_conf +
  cf_bindings :: "(string, string) gomap"
  cf_mounts :: "string list"
  cf_user :: string
  cf_cmd :: "string list"
  cf_ports :: "string list"
  cf_bridge :: bool

text \<open>Memory is an \<^verbatim>\<open>int64\<close>; processor time is a period and a quota.\<close>

record host_options =
  ho_hosts :: "string list"
  ho_memory :: "64 word"
  ho_cpu :: "(int \<times> int) option"
  ho_bindings :: "(string, string \<times> string) gomap"
  ho_mounts :: "(string \<times> string) list"

record create_options =
  cr_name :: string
  cr_user :: string
  cr_image :: string
  cr_env :: "string list"
  cr_cmd :: "string list"
  cr_labels :: "(string, string) gomap"
  cr_ports :: "string list"
  cr_host :: host_options

definition guest_port :: "string \<Rightarrow> string" where
  "guest_port p = (if CHR ''/'' \<in> set p then p else p @ ''/tcp'')"

definition host_binding :: "string \<Rightarrow> (string \<times> string) option" where
  "host_binding hostListen =
     (if CHR ''/'' \<in> set hostListen then None
      else if CHR '':'' \<in> set hostListen
      then (case split_on CHR '':'' hostListen of [ip, port] \<Rightarrow> Some (ip, port) | _ \<Rightarrow> None)
      else Some ([], hostListen))"

fun bindings_loop :: "(string \<times> string) list \<Rightarrow> (string, string \<times> string) gomap \<Rightarrow> (string, string \<times> string) gomap option" where
  "bindings_loop [] m = Some m"
| "bindings_loop ((guestPort, hostListen) # ps) m =
     (case host_binding hostListen of
        None \<Rightarrow> None
      | Some hp \<Rightarrow> bindings_loop ps (map_put (guest_port guestPort) hp m))"

fun mounts_loop :: "string list \<Rightarrow> (string \<times> string) list option" where
  "mounts_loop [] = Some []"
| "mounts_loop (m # ms) =
     (case split_on CHR '':'' m of
        [src, dest] \<Rightarrow> map_option (\<lambda>rest. (src, dest) # rest) (mounts_loop ms)
      | _ \<Rightarrow> None)"

definition resources :: "(64 word \<times> rat) option \<Rightarrow> (64 word \<times> (int \<times> int) option) option" where
  "resources r =
     (case r of
        None \<Rightarrow> Some (0, None)
      | Some (mb, cpu) \<Rightarrow>
          if 0 < mb \<and> mb < 50 then None
          else Some (if 0 < mb then mb * 1024 * 1024 else 0, if 0 < cpu then Some (100000, \<lfloor>100000 * cpu\<rfloor>) else None))"

text \<open>
  The resolver's file is kept under the hash of its servers; one that exists is taken as it is, and a write that fails
  leaves the lines before it. \<open>TMPDIR\<close> is a clean path.
\<close>

definition getResolvFile :: "docker_env \<Rightarrow> string list \<Rightarrow> (string, string) gomap \<Rightarrow> (docker_error + string) \<times> (string, string) gomap" where
  "getResolvFile env ns files =
     (let ns = sort ns;
          tmpdir = (if dk_tmpdir env = [] then ''/tmp'' else dk_tmpdir env);
          path = tmpdir @ ''/resolvconf-'' @ dk_md5 env (join_with CHR '','' ns);
          lines = map (\<lambda>nameserver. ''nameserver '' @ nameserver @ [CHR 0x0A]) ns
      in if map_get files path \<noteq> None then (Inr path, files)
         else (case dk_create_err env of
                 Some x \<Rightarrow> (Inl (DockerErr x), files)
               | None \<Rightarrow>
                   (case dk_write_err env of
                      Some (n, x) \<Rightarrow>
                        if n < length lines then (Inl (DockerErr x), map_put path (concat (take n lines)) files)
                        else (Inr path, map_put path (concat lines) files)
                    | None \<Rightarrow> (Inr path, map_put path (concat lines) files))))"

definition dns_mount ::
  "docker_env \<Rightarrow> string list \<Rightarrow> (string, string) gomap \<Rightarrow> (docker_error + (string \<times> string) list) \<times> (string, string) gomap" where
  "dns_mount env ns files =
     (if ns = [] then (Inr [], files)
      else (case getResolvFile env ns files of
              (Inl e, files) \<Rightarrow> (Inl e, files)
            | (Inr path, files) \<Rightarrow> (Inr [(path, ''/etc/resolv.conf'')], files)))"

text \<open>The check of the image stops the creation for two of its errors only.\<close>

definition image_stops :: "docker_error option \<Rightarrow> docker_error option" where
  "image_stops r =
     (case r of
        Some (NoLocalImageAvailableErr x) \<Rightarrow> Some (NoLocalImageAvailableErr x)
      | Some (NoCredentialsErr x) \<Rightarrow> Some (NoCredentialsErr x)
      | _ \<Rightarrow> None)"

definition getCreateConfig ::
  "docker_env \<Rightarrow> container_config \<Rightarrow> (string, string) gomap \<Rightarrow>
   (docker_error + create_options) \<times> (string, string) gomap \<times> docker_call list" where
  "getCreateConfig env c files =
     (let envs = map (\<lambda>(k, v). k @ ''='' @ v) (dc_env c) in
      case bindings_loop (cf_bindings c) [] of
        None \<Rightarrow> (Inl InvalidHostBindingErr, files, [])
      | Some bindings \<Rightarrow>
          (case mounts_loop (cf_mounts c) of
             None \<Rightarrow> (Inl InvalidMountErr, files, [])
           | Some mounts \<Rightarrow>
               (case dk_host_ip env of
                  Inl x \<Rightarrow> (Inl (DockerErr x), files, [])
                | Inr hostIP \<Rightarrow>
                    (case resources (dc_resources c) of
                       None \<Rightarrow> (Inl TooLowMemErr, files, [])
                     | Some (memory, cpu) \<Rightarrow>
                         (case dns_mount env (dc_dns c) files of
                            (Inl e, files) \<Rightarrow> (Inl e, files, [])
                          | (Inr resolv, files) \<Rightarrow>
                              (case verifyLocalImageVersion env (parseImage (dc_image c)) of
                                 (r, calls) \<Rightarrow>
                                   (case image_stops r of
                                      Some e \<Rightarrow> (Inl e, files, calls)
                                    | None \<Rightarrow>
                                        (Inr \<lparr>cr_name = dk_uuid env, cr_user = cf_user c, cr_image = dc_image c, cr_env = envs,
                                              cr_cmd = cf_cmd c, cr_labels = dc_labels c, cr_ports = cf_ports c,
                                              cr_host = \<lparr>ho_hosts = [''host:'' @ hostIP], ho_memory = memory, ho_cpu = cpu,
                                                         ho_bindings = bindings, ho_mounts = mounts @ resolv\<rparr>\<rparr>,
                                         files, calls))))))))"

subsection \<open>A container's calls\<close>

text \<open>Messages of the log show the first characters of the identifier, which panics on a shorter one.\<close>

record container =
  ct_id :: string
  ct_conf :: container_config

definition short_id :: "nat \<Rightarrow> string \<Rightarrow> string go" where
  "short_id n i = (if length i < n then Panic else Ret (take n i))"

definition container_Create ::
  "docker_env \<Rightarrow> container \<Rightarrow> (string, string) gomap \<Rightarrow>
   (docker_error option \<times> container \<times> (string, string) gomap \<times> docker_call list) go" where
  "container_Create env c files =
     (case getCreateConfig env (ct_conf c) files of
        (Inl e, files, calls) \<Rightarrow> Ret (Some e, c, files, calls)
      | (Inr dconf, files, calls) \<Rightarrow>
          (case dk_run env (DkCreate (cr_name dconf)) of
             Some e \<Rightarrow> Ret (Some e, c, files, calls @ [DkCreate (cr_name dconf)])
           | None \<Rightarrow>
               let made = calls @ [DkCreate (cr_name dconf)]; leave = DkDisconnect ''bridge'' (dk_id env) in
               if \<not> cf_bridge (ct_conf c) \<and> dk_run env leave \<noteq> None
               then Ret (dk_run env leave, c, files, made @ [leave])
               else go_bind (short_id 8 (dk_id env)) (\<lambda>_.
                      Ret (None, c\<lparr>ct_id := dk_id env\<rparr>, files, made @ (if cf_bridge (ct_conf c) then [] else [leave])))))"

definition container_Start :: "docker_env \<Rightarrow> container \<Rightarrow> (docker_error option \<times> docker_call list) go" where
  "container_Start env c =
     (if ct_id c = [] then Ret (Some ContNotCreatedErr, [])
      else let d = (if dk_status env (ct_id c) = VSuspended then DkUnpause (ct_id c) else DkStart (ct_id c))
           in case dk_run env d of
                Some e \<Rightarrow> Ret (Some e, [d])
              | None \<Rightarrow> go_bind (short_id 8 (ct_id c)) (\<lambda>_. Ret (None, [d])))"

definition container_Run ::
  "docker_env \<Rightarrow> container \<Rightarrow> (string, string) gomap \<Rightarrow>
   (docker_error option \<times> container \<times> (string, string) gomap \<times> docker_call list) go" where
  "container_Run env c files =
     go_bind (container_Create env c files) (\<lambda>(err, c, files, calls).
       case err of
         Some e \<Rightarrow> Ret (Some e, c, files, calls)
       | None \<Rightarrow> go_bind (container_Start env c) (\<lambda>(err, more). Ret (err, c, files, calls @ more)))"

definition container_Suspend :: "docker_env \<Rightarrow> container \<Rightarrow> (docker_error option \<times> docker_call list) go" where
  "container_Suspend env c =
     go_bind (short_id 8 (ct_id c)) (\<lambda>_. Ret (dk_run env (DkPause (ct_id c)), [DkPause (ct_id c)]))"

definition container_Stop :: "docker_env \<Rightarrow> container \<Rightarrow> (docker_error option \<times> docker_call list) go" where
  "container_Stop env c =
     (case dk_run env (DkStop (ct_id c)) of
        Some e \<Rightarrow> Ret (Some e, [DkStop (ct_id c)])
      | None \<Rightarrow> go_bind (short_id 8 (ct_id c)) (\<lambda>_. Ret (None, [DkStop (ct_id c)])))"

definition container_Info :: "docker_env \<Rightarrow> container \<Rightarrow> (string \<times> string \<times> string \<times> vm_state) go" where
  "container_Info env c =
     go_bind (short_id 12 (ct_id c)) (\<lambda>i. Ret (dc_image (ct_conf c), ''docker'', i, dk_status env (ct_id c)))"

subsection \<open>The bridge\<close>

record bridge =
  br_id :: string
  br_containers :: "(string, string) gomap"

definition bridge_connect :: "docker_env \<Rightarrow> string \<Rightarrow> string \<Rightarrow> bridge \<Rightarrow> (docker_error + string) \<times> bridge \<times> docker_call list" where
  "bridge_connect env cid alias b =
     (case map_get (br_containers b) cid of
        Some knownAlias \<Rightarrow> (Inr knownAlias, b, [])
      | None \<Rightarrow>
          let alias = (if alias = [] then filter (\<lambda>ch. ch \<noteq> CHR ''-'') (dk_uuid env) else alias) in
          (case dk_run env (DkConnect cid [alias]) of
             Some e \<Rightarrow> (Inl e, b, [DkConnect cid [alias]])
           | None \<Rightarrow> (Inr alias, b\<lparr>br_containers := map_put cid alias (br_containers b)\<rparr>, [DkConnect cid [alias]])))"

definition bridge_disconnect :: "docker_env \<Rightarrow> string \<Rightarrow> bridge \<Rightarrow> docker_error option \<times> bridge \<times> docker_call list" where
  "bridge_disconnect env cid b =
     (let gone = b\<lparr>br_containers := map_del cid (br_containers b)\<rparr> in
      if map_get (br_containers b) cid = None then (None, gone, [])
      else (dk_run env (DkDisconnect (br_id b) cid), gone, [DkDisconnect (br_id b) cid]))"

text \<open>The network of a container is never set, so closing starts with the bridge.\<close>

definition container_Close :: "docker_env \<Rightarrow> container \<Rightarrow> bridge \<Rightarrow> (docker_error option \<times> bridge \<times> docker_call list) go" where
  "container_Close env c b =
     (case bridge_disconnect env (ct_id c) b of
        (Some e, b, calls) \<Rightarrow> Ret (Some e, b, calls)
      | (None, b, calls) \<Rightarrow>
          (case dk_run env (DkRemove (ct_id c)) of
             Some e \<Rightarrow> Ret (Some e, b, calls @ [DkRemove (ct_id c)])
           | None \<Rightarrow> go_bind (short_id 8 (ct_id c)) (\<lambda>_. Ret (None, b, calls @ [DkRemove (ct_id c)]))))"

subsection \<open>Properties\<close>

lemma split_two: "split_on c s = [a, b] \<longleftrightarrow> s = a @ c # b \<and> c \<notin> set a \<and> c \<notin> set b"
proof
  assume split: "split_on c s = [a, b]"
  then have "s = a @ c # b" using join_split [of c s] by simp
  then show "s = a @ c # b \<and> c \<notin> set a \<and> c \<notin> set b" using split split_on_pieces [of _ c s] by auto
qed (simp add: split_on_append split_on_no_sep)

lemma length_split: "length (split_on c s) = Suc (count_list s c)"
  by (induction s) (auto split: list.splits)

lemma registry_rejoin:
  assumes "1 < count_list repo CHR ''/''" and "repo = [] \<or> hd repo \<noteq> CHR ''/''"
  shows "\<exists>r rest. split_on CHR ''/'' repo = r # rest \<and> r \<noteq> [] \<and> r @ ''/'' @ join_with CHR ''/'' rest = repo"
proof -
  obtain r s rest where parts: "split_on CHR ''/'' repo = r # s # rest"
    using assms(1) length_split [of "CHR ''/''" repo] by (cases "split_on CHR ''/'' repo" rule: remdups_adj.cases) auto
  then have whole: "repo = r @ CHR ''/'' # join_with CHR ''/'' (s # rest)" using join_split [of "CHR ''/''" repo] by simp
  moreover have "r \<noteq> []" using whole assms(2) by auto
  ultimately show ?thesis using parts by auto
qed

lemma repo_rejoin:
  assumes "repo = [] \<or> hd repo \<noteq> CHR ''/''"
  shows "NameWithReg (if 1 < count_list repo CHR ''/''
      then (let parts = split_on CHR ''/'' repo in \<lparr>im_registry = hd parts, im_repo = join_with CHR ''/'' (tl parts), im_tag = tag\<rparr>)
      else \<lparr>im_registry = [], im_repo = repo, im_tag = tag\<rparr>) = repo"
  using registry_rejoin [OF _ assms] by (auto simp: NameWithReg_def)

lemma Image_String_name: "Image_String i = NameWithReg i @ '':'' @ im_tag i"
  by (simp add: Image_String_def NameWithReg_def)

text \<open>
  What is inspected and pulled is what the exercise asks for: the name built from a parsed image is the given text,
  with the tag \<^verbatim>\<open>latest\<close> appended unless the text holds exactly one colon; repository and tag of the pull are the parts
  of that name. It holds for every text that does not begin with a slash.
\<close>
theorem parsed_image_string:
  assumes "img = [] \<or> hd img \<noteq> CHR ''/''"
  shows "Image_String (parseImage img) = (if count_list img CHR '':'' = 1 then img else img @ '':latest'') \<and>
    Image_String (parseImage img) = NameWithReg (parseImage img) @ '':'' @ im_tag (parseImage img)"
proof (cases "count_list img CHR '':'' = 1")
  case True
  then obtain r t where parts: "split_on CHR '':'' img = [r, t]"
    using length_split [of "CHR '':''" img] by (auto simp: length_Suc_conv)
  then have img: "img = r @ '':'' @ t" by (simp add: split_two)
  have start: "r = [] \<or> hd r \<noteq> CHR ''/''" using assms by (cases r) (auto simp: img)
  have "NameWithReg (parseImage img) = r" "im_tag (parseImage img) = t"
    using repo_rejoin [OF start, of t] by (simp_all add: parseImage_def parts Let_def)
  with True show ?thesis by (simp add: Image_String_name img)
next
  case False
  then have "length (split_on CHR '':'' img) \<noteq> 2" by (simp add: length_split)
  then have parts: "(case split_on CHR '':'' img of [r, t] \<Rightarrow> (r, t) | _ \<Rightarrow> (img, ''latest'')) = (img, ''latest'')"
    by (auto split: list.split)
  have "NameWithReg (parseImage img) = img" "im_tag (parseImage img) = ''latest''"
    using repo_rejoin [OF assms, of "''latest''"] by (simp_all add: parseImage_def parts Let_def)
  with False show ?thesis by (simp add: Image_String_name)
qed

lemma parsed_image_string_witness:
  "Image_String (parseImage ''registry.gitlab.com/haaukins/core-utils/guacamole'') = ''registry.gitlab.com/haaukins/core-utils/guacamole:latest'' \<and>
   Image_String (parseImage ''guacamole/guacd:1.2.0'') = ''guacamole/guacd:1.2.0''"
  using parsed_image_string [of "''registry.gitlab.com/haaukins/core-utils/guacamole''"] parsed_image_string [of "''guacamole/guacd:1.2.0''"]
  by simp

lemma bindings_loop_iff: "bindings_loop ps m \<noteq> None \<longleftrightarrow> (\<forall>p \<in> set ps. host_binding (snd p) \<noteq> None)"
  by (induction ps m rule: bindings_loop.induct) (auto split: option.splits)

lemma two_parts: "(case split_on c m of [a, b] \<Rightarrow> f a b | _ \<Rightarrow> None) \<noteq> None \<longleftrightarrow>
    count_list m c = 1 \<and> (\<exists>a b. split_on c m = [a, b] \<and> f a b \<noteq> None)"
  using length_split [of c m] by (auto split: list.splits)

lemma mounts_loop_iff: "mounts_loop ms \<noteq> None \<longleftrightarrow> (\<forall>m \<in> set ms. count_list m CHR '':'' = 1)"
proof (induction ms)
  case (Cons m ms)
  show ?case
  proof (cases "count_list m CHR '':'' = 1")
    case True
    then obtain a b where "split_on CHR '':'' m = [a, b]"
      using length_split [of "CHR '':''" m] by (auto simp: length_Suc_conv)
    with Cons True show ?thesis by simp
  next
    case False
    then have "length (split_on CHR '':'' m) \<noteq> 2" by (simp add: length_split)
    then have "mounts_loop (m # ms) = None" by (auto split: list.split)
    with False show ?thesis by simp
  qed
qed simp

lemma image_stops_iff:
  "image_stops (fst (verifyLocalImageVersion env img)) = None \<longleftrightarrow>
     im_registry img \<in> set (dk_registries env) \<and>
     (dk_inspect env (Image_String img) = NoSuchImage \<longrightarrow> dk_call env (PullImage (NameWithReg img) (im_tag img)) = None)"
  by (auto simp: verifyLocalImageVersion_def image_stops_def retrieveImage_def Let_def
      split: inspected.split list.split option.split sum.split)

definition config_ok :: "docker_env \<Rightarrow> container_config \<Rightarrow> bool" where
  "config_ok env c \<longleftrightarrow>
     (\<forall>p \<in> set (cf_bindings c). host_binding (snd p) \<noteq> None) \<and> (\<forall>m \<in> set (cf_mounts c). count_list m CHR '':'' = 1) \<and>
     \<not> isl (dk_host_ip env) \<and> (\<forall>mb cpu. dc_resources c = Some (mb, cpu) \<longrightarrow> mb = 0 \<or> 50 \<le> mb) \<and>
     (let img = parseImage (dc_image c)
      in im_registry img \<in> set (dk_registries env) \<and>
         (dk_inspect env (Image_String img) = NoSuchImage \<longrightarrow> dk_call env (PullImage (NameWithReg img) (im_tag img)) = None))"

lemma resources_iff: "resources r \<noteq> None \<longleftrightarrow> (\<forall>mb cpu. r = Some (mb, cpu) \<longrightarrow> mb = 0 \<or> 50 \<le> mb)"
  by (auto simp: resources_def word_less_nat_alt word_le_nat_alt unat_eq_zero split: option.split)

lemma create_config_made:
  "(\<not> isl (fst (getCreateConfig env c files))) \<longleftrightarrow> config_ok env c \<and> \<not> isl (fst (dns_mount env (dc_dns c) files))"
proof -
  obtain r calls where v: "verifyLocalImageVersion env (parseImage (dc_image c)) = (r, calls)" by fastforce
  have stops: "image_stops r = None \<longleftrightarrow>
     (let img = parseImage (dc_image c)
      in im_registry img \<in> set (dk_registries env) \<and>
         (dk_inspect env (Image_String img) = NoSuchImage \<longrightarrow> dk_call env (PullImage (NameWithReg img) (im_tag img)) = None))"
    using image_stops_iff [of env "parseImage (dc_image c)"] by (simp add: v Let_def)
  show ?thesis
    unfolding config_ok_def stops [symmetric] bindings_loop_iff [of _ "[]", symmetric] mounts_loop_iff [symmetric] resources_iff [symmetric]
    by (simp add: getCreateConfig_def v Let_def split: option.split sum.split prod.split)
qed


text \<open>
  The memory limit in bytes is the configured number of MB times 2^20 as long as that number is below 2^43, so a
  container never gets less than 50 MB; from 2^44 on the product wraps, for instance to no limit at all.
\<close>
theorem memory_limit:
  assumes "getCreateConfig env c files = (Inr opts, files', calls)" and "dc_resources c = Some (mb, cpu)" and "unat mb < 2 ^ 43"
  shows "unat (ho_memory (cr_host opts)) = unat mb * 2 ^ 20 \<and> (mb \<noteq> 0 \<longrightarrow> 50 * 2 ^ 20 \<le> unat (ho_memory (cr_host opts)))"
proof -
  obtain mem q where r: "resources (Some (mb, cpu)) = Some (mem, q)" and mem: "ho_memory (cr_host opts) = mem"
    using assms(1,2) by (auto simp: getCreateConfig_def Let_def split: option.splits sum.splits prod.splits)
  from r have ok: "mb = 0 \<or> 50 \<le> mb" and eq: "mem = mb * 1048576"
    by (auto simp: resources_def word_less_nat_alt word_le_nat_alt unat_eq_zero split: if_splits)
  have "unat mb * 1048576 < 2 ^ 64" using assms(3) by simp
  then have "unat mem = unat mb * 2 ^ 20" by (simp add: eq unat_mult_lem [THEN iffD1])
  moreover have "50 \<le> unat mb" if "mb \<noteq> 0" using ok that by (simp add: word_le_nat_alt)
  ultimately show ?thesis by (simp add: mem)
qed

definition quiet_docker :: docker_env where
  "quiet_docker = \<lparr>dk_registries = [[]], dk_inspect = (\<lambda>_. RepoDigests [''img@sha'']), dk_digest = (\<lambda>_. Inr ''sha''),
     dk_call = (\<lambda>_. None), dk_host_ip = Inr ''172.17.0.1'', dk_status = (\<lambda>_. VStopped), dk_id = ''0123456789abcdef'',
     dk_uuid = ''name'', dk_tmpdir = [], dk_md5 = id, dk_create_err = None, dk_write_err = None\<rparr>"

definition memory_config :: "64 word \<Rightarrow> container_config" where
  "memory_config mb = \<lparr>dc_image = ''db:1'', dc_resources = Some (mb, 1), dc_env = [], dc_dns = [], dc_labels = [], cf_bindings = [],
     cf_mounts = [], cf_user = [], cf_cmd = [], cf_ports = [], cf_bridge = False\<rparr>"

lemma memory_created:
  assumes "mb = 0 \<or> 50 \<le> mb"
  obtains opts files' calls where "getCreateConfig quiet_docker (memory_config mb) [] = (Inr opts, files', calls)"
proof -
  have "config_ok quiet_docker (memory_config mb)"
    using assms by (simp add: config_ok_def quiet_docker_def memory_config_def parseImage_def Let_def)
  moreover have "\<not> isl (fst (dns_mount quiet_docker (dc_dns (memory_config mb)) []))"
    by (simp add: dns_mount_def memory_config_def)
  ultimately have "\<not> isl (fst (getCreateConfig quiet_docker (memory_config mb) []))" using create_config_made by blast
  then show ?thesis using that by (metis isl_def prod.collapse sum.collapse(2))
qed

lemma memory_limit_witness:
  "\<exists>opts files' calls. getCreateConfig quiet_docker (memory_config 512) [] = (Inr opts, files', calls) \<and>
     unat (ho_memory (cr_host opts)) = 512 * 2 ^ 20"
proof -
  obtain opts files' calls where c: "getCreateConfig quiet_docker (memory_config 512) [] = (Inr opts, files', calls)"
    by (rule memory_created [of 512]) (simp_all add: word_le_nat_alt)
  have "dc_resources (memory_config 512) = Some (512, 1)" by (simp add: memory_config_def)
  from memory_limit [OF c this] c show ?thesis by simp
qed

lemma huge_memory_wraps: "resources (Some (2 ^ 44, 1)) = Some (0, Some (100000, 100000))"
  by (simp add: resources_def word_less_nat_alt)

lemma bridge_alias_stable:
  assumes "bridge_connect env cid alias b = (Inr a, b', calls)"
  shows "bridge_connect env' cid alias' b' = (Inr a, b', [])"
  using assms by (auto simp: bridge_connect_def Let_def split: option.splits)

end
