(* ===== verification/Guac_Client.thy ===== *)
theory Guac_Client
  imports Virtual_Docker
begin

text \<open>
  The client of the Guacamole service (svcs/guacamole/guacamole.go): logging in, the action that is tried again when it is
  refused, users and remote desktops, and the three containers the service runs in. The service is a
  function from the requests made so far and the new request to its answer; every operation hands on the list of requests. Keys of the
  service's JSON are spelled as the code spells them.
\<close>

subsection \<open>Requests and answers\<close>

datatype guac_request =
    PostTokens string string
  | PutPassword string string string
  | PostUser string string string
  | PostConnection string json
  | PatchPermissions string string string

datatype guac_answer = Unreachable string | Answered int string

type_synonym service = "guac_request list \<Rightarrow> guac_request \<Rightarrow> guac_answer"

datatype guac_error =
    ConnErr string
  | UnexpectedStatus int
  | LoginStatus int
  | UnmarshalErr
  | LoginMessage string
  | MalformedLoginErr
  | UnexpectedMessage string string
  | NoHostErr
  | NoPortErr
  | NoNameErr
  | IncorrectColorErr
  | ContainerErr docker_error

record guacamole =
  gc_admin_pass :: string
  gc_token :: string
  gc_port :: nat

definition DefaultAdminUser :: string where "DefaultAdminUser = ''guacadmin''"

definition DefaultAdminPass :: string where "DefaultAdminPass = ''guacadmin''"

definition isExpectedStatus :: "int \<Rightarrow> bool" where
  "isExpectedStatus s \<longleftrightarrow> 200 \<le> s \<and> s \<le> 302 \<or> s = 403"

subsection \<open>Login\<close>

definition RawLogin :: "service \<Rightarrow> string \<Rightarrow> string \<Rightarrow> guac_request list \<Rightarrow> (guac_error + string) \<times> guac_request list" where
  "RawLogin srv username password sent =
     (case srv sent (PostTokens username password) of
        Unreachable x \<Rightarrow> (Inl (ConnErr x), sent @ [PostTokens username password])
      | Answered status body \<Rightarrow>
          (if isExpectedStatus status then Inr body else Inl (LoginStatus status), sent @ [PostTokens username password]))"

text \<open>A field that is a pointer to a string: nil when it is missing or null, None when the decoder fails.\<close>

fun ptr_field :: "string \<Rightarrow> json \<Rightarrow> string option option" where
  "ptr_field k (JObj fs) =
     (case map_of (rev fs) k of None \<Rightarrow> Some None | Some JNull \<Rightarrow> Some None | Some (JStr s) \<Rightarrow> Some (Some s) | Some _ \<Rightarrow> None)"
| "ptr_field k JNull = Some None"
| "ptr_field k _ = None"

definition login :: "service \<Rightarrow> string \<Rightarrow> string \<Rightarrow> guac_request list \<Rightarrow> (guac_error + string) \<times> guac_request list" where
  "login srv username password sent =
     (case RawLogin srv username password sent of
        (Inl e, sent) \<Rightarrow> (Inl e, sent)
      | (Inr content, sent) \<Rightarrow>
          ((case json_parse content of
              None \<Rightarrow> Inl UnmarshalErr
            | Some j \<Rightarrow>
                (case (ptr_field ''message'' j, ptr_field ''authToken'' j) of
                   (Some (Some m), Some _) \<Rightarrow> Inl (LoginMessage m)
                 | (Some None, Some None) \<Rightarrow> Inl MalformedLoginErr
                 | (Some None, Some (Some tok)) \<Rightarrow> Inr tok
                 | _ \<Rightarrow> Inl UnmarshalErr)), sent))"

subsection \<open>Actions that need a token\<close>

type_synonym performed = "string \<times> int \<times> guac_error option"

definition perform ::
  "service \<Rightarrow> (string \<Rightarrow> guac_request) \<Rightarrow> guacamole \<Rightarrow> guac_request list \<Rightarrow> performed \<times> guac_request list" where
  "perform srv a g sent =
     ((case srv sent (a (gc_token g)) of
         Unreachable x \<Rightarrow> ([], 0, Some (ConnErr x))
       | Answered status content \<Rightarrow> (content, status, None)), sent @ [a (gc_token g)])"

definition login_again ::
  "service \<Rightarrow> guacamole \<Rightarrow> guac_request list \<Rightarrow> bool \<times> guac_error option \<times> guacamole \<times> guac_request list" where
  "login_again srv g sent =
     (case login srv DefaultAdminUser (gc_admin_pass g) sent of
        (Inl e, sent) \<Rightarrow> (False, Some e, g, sent)
      | (Inr token, sent) \<Rightarrow> (True, None, g\<lparr>gc_token := token\<rparr>, sent))"

text \<open>The message of an answer, None if it has no such form.\<close>

definition answer_message :: "string \<Rightarrow> string option" where
  "answer_message content = (case json_parse content of None \<Rightarrow> None | Some j \<Rightarrow> js_field ''message'' j)"

definition shouldTryAgain ::
  "service \<Rightarrow> string \<Rightarrow> performed \<Rightarrow> guacamole \<Rightarrow> guac_request list \<Rightarrow>
   bool \<times> guac_error option \<times> guacamole \<times> guac_request list" where
  "shouldTryAgain srv action p g sent =
     (case p of
        (content, status, Some connErr) \<Rightarrow> (True, Some connErr, g, sent)
      | (content, status, None) \<Rightarrow>
          if \<not> isExpectedStatus status then (True, Some (UnexpectedStatus status), g, sent)
          else if status = 403 then login_again srv g sent
          else (case answer_message content of
                  None \<Rightarrow> (False, None, g, sent)
                | Some m \<Rightarrow>
                    if m = ''Permission Denied.'' then login_again srv g sent
                    else if m \<noteq> [] then (False, Some (UnexpectedMessage action m), g, sent)
                    else (False, None, g, sent)))"

text \<open>What the last attempt returns is not looked at, apart from a lost connection.\<close>

fun auth_loop ::
  "service \<Rightarrow> string \<Rightarrow> (string \<Rightarrow> guac_request) \<Rightarrow> nat \<Rightarrow> performed \<Rightarrow> guacamole \<Rightarrow> guac_request list \<Rightarrow>
   string \<times> guac_error option \<times> guacamole \<times> guac_request list" where
  "auth_loop srv action a 0 (content, status, err) g sent = (content, err, g, sent)"
| "auth_loop srv action a (Suc n) (content, status, err) g sent =
     (case shouldTryAgain srv action (content, status, err) g sent of
        (retry, err, g, sent) \<Rightarrow>
          if \<not> retry then (content, err, g, sent)
          else (case perform srv a g sent of (p, sent) \<Rightarrow> auth_loop srv action a n p g sent))"

definition authAction ::
  "service \<Rightarrow> string \<Rightarrow> (string \<Rightarrow> guac_request) \<Rightarrow> (json \<Rightarrow> 'a option) option \<Rightarrow> guacamole \<Rightarrow> guac_request list \<Rightarrow>
   (guac_error + 'a option) \<times> guacamole \<times> guac_request list" where
  "authAction srv action a out g sent =
     (case perform srv a g sent of
        (p, sent) \<Rightarrow>
          (case auth_loop srv action a 3 p g sent of
             (content, Some e, g, sent) \<Rightarrow> (Inl e, g, sent)
           | (content, None, g, sent) \<Rightarrow>
               ((case out of
                   None \<Rightarrow> Inr None
                 | Some decode \<Rightarrow>
                     (case json_parse content of
                        None \<Rightarrow> Inl UnmarshalErr
                      | Some j \<Rightarrow> (case decode j of None \<Rightarrow> Inl UnmarshalErr | Some x \<Rightarrow> Inr (Some x)))), g, sent)))"

definition changeAdminPass :: "service \<Rightarrow> string \<Rightarrow> guacamole \<Rightarrow> guac_request list \<Rightarrow> guac_error option \<times> guacamole \<times> guac_request list" where
  "changeAdminPass srv newPass g sent =
     (case authAction srv ''change admin password'' (\<lambda>t. PutPassword t newPass (gc_admin_pass g)) (None :: (json \<Rightarrow> unit option) option) g sent of
        (Inl e, g, sent) \<Rightarrow> (Some e, g, sent)
      | (Inr _, g, sent) \<Rightarrow> (None, g, sent))"

definition guac_CreateUser ::
  "service \<Rightarrow> string \<Rightarrow> string \<Rightarrow> guacamole \<Rightarrow> guac_request list \<Rightarrow> guac_error option \<times> guacamole \<times> guac_request list" where
  "guac_CreateUser srv username password g sent =
     (case authAction srv ''create user'' (\<lambda>t. PostUser t username password)
             (Some (\<lambda>j. case (js_field ''username'' j, js_field ''password'' j) of (Some u, Some p) \<Rightarrow> Some (u, p) | _ \<Rightarrow> None)) g sent of
        (Inl e, g, sent) \<Rightarrow> (Some e, g, sent)
      | (Inr _, g, sent) \<Rightarrow> (None, g, sent))"

definition addConnectionToUser ::
  "service \<Rightarrow> string \<Rightarrow> string \<Rightarrow> guacamole \<Rightarrow> guac_request list \<Rightarrow> guac_error option \<times> guacamole \<times> guac_request list" where
  "addConnectionToUser srv i guacuser g sent =
     (case authAction srv ''add user to connection'' (\<lambda>t. PatchPermissions t guacuser i) (None :: (json \<Rightarrow> unit option) option) g sent of
        (Inl e, g, sent) \<Rightarrow> (Some e, g, sent)
      | (Inr _, g, sent) \<Rightarrow> (None, g, sent))"

subsection \<open>Remote desktops\<close>

record rdp_opts =
  ro_host :: string
  ro_port :: nat
  ro_name :: string
  ro_guac_user :: string
  ro_username :: "string option"
  ro_password :: "string option"
  ro_wallpaper :: "bool option"
  ro_width :: nat
  ro_height :: nat
  ro_max_conn :: nat
  ro_color_depth :: nat
  ro_enable_drive :: "bool option"
  ro_create_drive :: "bool option"
  ro_drive_path :: "string option"

definition or_null :: "('a \<Rightarrow> json) \<Rightarrow> 'a option \<Rightarrow> json" where
  "or_null f x = (case x of None \<Rightarrow> JNull | Some y \<Rightarrow> f y)"

definition rdp_parameters :: "rdp_opts \<Rightarrow> json" where
  "rdp_parameters o' =
     JObj ([(''clipboard-encoding'', JNull), (''color-depth'', JNum (int (ro_color_depth o'))), (''console'', JNull),
       (''console-audio'', JNull), (''cursor'', JNull), (''dest-port'', JNull), (''disable-audio'', JNull),
       (''disable-auth'', JNull), (''dpi'', JNull), (''enable-audio'', JNull), (''enable-audio-input'', JNull),
       (''enable-desktop-composition'', JNull), (''enable-drive'', or_null JBool (ro_enable_drive o')),
       (''enable-font-smoothing'', JNull), (''enable-full-window-drag'', JNull), (''enable-menu-animations'', JNull),
       (''enable-printing'', JNull), (''enable-sftp'', JNull), (''enable-theming'', JNull),
       (''enable-wallpaper'', or_null JBool (ro_wallpaper o')), (''gateway-port'', JNull),
       (''height'', JNum (int (ro_height o'))), (''width'', JNum (int (ro_width o'))), (''hostname'', JStr (ro_host o')),
       (''ignore-cert'', JNull), (''port'', JNum (int (ro_port o'))), (''preconnection-id'', JNull), (''read-only'', JNull),
       (''resize-method'', JNull), (''security'', JNull), (''server-layout'', JNull), (''sftp-port'', JNull),
       (''sftp-server-alive-interval'', JNull), (''swap-red-blue'', JNull),
       (''create-drive-path'', or_null JBool (ro_create_drive o')), (''drive-path'', or_null JStr (ro_drive_path o'))]
      @ (case ro_username o' of None \<Rightarrow> [] | Some s \<Rightarrow> [(''username'', JStr s)])
      @ (case ro_password o' of None \<Rightarrow> [] | Some s \<Rightarrow> [(''password'', JStr s)]))"

definition rdp_json :: "rdp_opts \<Rightarrow> json" where
  "rdp_json o' =
     JObj [(''name'', JStr (ro_name o')), (''parentIdentifier'', JStr ''ROOT''), (''protocol'', JStr ''rdp''),
       (''attributes'', JObj [(''failover-only'', JNull), (''guacd-encryption'', JNull), (''guacd-port'', JNull),
          (''max-connections'', JNum (int (ro_max_conn o'))), (''max-connections-per-user'', JNum (int (ro_max_conn o'))),
          (''weight'', JNull)]),
       (''parameters'', rdp_parameters o')]"

definition rdp_defaults :: "rdp_opts \<Rightarrow> guac_error + rdp_opts" where
  "rdp_defaults o' =
     (if ro_host o' = [] then Inl NoHostErr
      else if ro_port o' = 0 then Inl NoPortErr
      else if ro_name o' = [] then Inl NoNameErr
      else
        let o' = (if ro_width o' = 0 \<or> ro_height o' = 0 then o'\<lparr>ro_width := 1920, ro_height := 1080\<rparr> else o');
            o' = (if ro_max_conn o' = 0 then o'\<lparr>ro_max_conn := 10\<rparr> else o')
        in if ro_color_depth o' mod 8 \<noteq> 0 \<or> 32 < ro_color_depth o' then Inl IncorrectColorErr
           else Inr (if ro_color_depth o' = 0 then o'\<lparr>ro_color_depth := 16\<rparr> else o'))"

text \<open>The path of the drive is logged, and dereferenced for it.\<close>

definition CreateRDPConn ::
  "service \<Rightarrow> rdp_opts \<Rightarrow> guacamole \<Rightarrow> guac_request list \<Rightarrow> (guac_error option \<times> guacamole \<times> guac_request list) go" where
  "CreateRDPConn srv o' g sent =
     (case rdp_defaults o' of
        Inl e \<Rightarrow> Ret (Some e, g, sent)
      | Inr o' \<Rightarrow>
          if ro_drive_path o' = None then Panic
          else (case authAction srv ''create rdp connection'' (\<lambda>t. PostConnection t (rdp_json o')) (Some (js_field ''identifier'')) g sent of
                  (Inl e, g, sent) \<Rightarrow> Ret (Some e, g, sent)
                | (Inr out, g, sent) \<Rightarrow>
                    Ret (addConnectionToUser srv (case out of None \<Rightarrow> [] | Some i \<Rightarrow> i) (ro_guac_user o') g sent)))"

subsection \<open>The containers of the service\<close>

definition guacd_config :: "string \<Rightarrow> string \<Rightarrow> string \<Rightarrow> container_config" where
  "guacd_config base eventTag usr =
     \<lparr>dc_image = ''guacamole/guacd:1.2.0'', dc_resources = None, dc_env = [], dc_dns = [], dc_labels = [(''hkn'', ''guacamole_guacd'')],
      cf_bindings = [], cf_mounts = [base @ ''/'' @ eventTag @ ''/:/home/''], cf_user = usr, cf_cmd = [], cf_ports = [], cf_bridge = True\<rparr>"

definition db_config :: "string \<Rightarrow> string \<Rightarrow> container_config" where
  "db_config rootPass mysqlPass =
     \<lparr>dc_image = ''aaunetworksecurity/guacamole-mysql'', dc_resources = None,
      dc_env = [(''MYSQL_ROOT_PASSWORD'', rootPass), (''MYSQL_DATABASE'', ''guacamole_db''), (''MYSQL_USER'', ''guacamole_user''),
                (''MYSQL_PASSWORD'', mysqlPass)],
      dc_dns = [], dc_labels = [(''hkn'', ''guacamole_db'')],
      cf_bindings = [], cf_mounts = [], cf_user = [], cf_cmd = [], cf_ports = [], cf_bridge = False\<rparr>"

definition web_config :: "string \<Rightarrow> string \<Rightarrow> string \<Rightarrow> nat \<Rightarrow> container_config" where
  "web_config mysqlPass guacdAlias dbAlias webPort =
     \<lparr>dc_image = ''registry.gitlab.com/haaukins/core-utils/guacamole'', dc_resources = None,
      dc_env = [(''MYSQL_DATABASE'', ''guacamole_db''), (''MYSQL_USER'', ''guacamole_user''), (''MYSQL_PASSWORD'', mysqlPass),
                (''GUACD_HOSTNAME'', guacdAlias), (''MYSQL_HOSTNAME'', dbAlias)],
      dc_dns = [], dc_labels = [(''hkn'', ''guacamole_web'')],
      cf_bindings = [(''8080/tcp'', ''127.0.0.1:'' @ show_nat webPort)], cf_mounts = [], cf_user = [], cf_cmd = [], cf_ports = [],
      cf_bridge = True\<rparr>"

text \<open>What Docker has of the service: its containers by name, the bridge, the resolver files, and the calls.\<close>

record guac_host =
  gh_containers :: "(string, container) gomap"
  gh_bridge :: bridge
  gh_files :: "(string, string) gomap"
  gh_calls :: "docker_call list"

fun close_containers :: "(string \<Rightarrow> docker_env) \<Rightarrow> (string \<times> container) list \<Rightarrow> guac_host \<Rightarrow> guac_host go" where
  "close_containers env [] s = Ret s"
| "close_containers env ((n, c) # cs) s =
     go_bind (container_Close (env n) c (gh_bridge s)) (\<lambda>(_, b, calls).
       close_containers env cs (s\<lparr>gh_bridge := b, gh_calls := gh_calls s @ calls\<rparr>))"

fun run_containers ::
  "(string \<Rightarrow> docker_env) \<Rightarrow> (string \<times> container_config \<times> string) list \<Rightarrow> guac_host \<Rightarrow> (docker_error option \<times> guac_host) go" where
  "run_containers env [] s = Ret (None, s)"
| "run_containers env ((cname, conf, alias) # rest) s =
     go_bind (container_Run (env cname) \<lparr>ct_id = [], ct_conf = conf\<rparr> (gh_files s)) (\<lambda>(err, c, files, calls).
       let s = s\<lparr>gh_containers := map_put cname c (gh_containers s), gh_files := files, gh_calls := gh_calls s @ calls\<rparr> in
       case err of
         Some e \<Rightarrow> go_bind (close_containers env (gh_containers s) s) (\<lambda>s. Ret (Some e, s))
       | None \<Rightarrow>
           (case bridge_connect (env cname) (ct_id c) alias (gh_bridge s) of
              (Inl e, b, calls) \<Rightarrow>
                go_bind (close_containers env (gh_containers s) (s\<lparr>gh_bridge := b, gh_calls := gh_calls s @ calls\<rparr>)) (\<lambda>s. Ret (Some e, s))
            | (Inr _, b, calls) \<Rightarrow> run_containers env rest (s\<lparr>gh_bridge := b, gh_calls := gh_calls s @ calls\<rparr>)))"

fun stop_containers :: "(string \<Rightarrow> docker_env) \<Rightarrow> (string \<times> container) list \<Rightarrow> docker_call list go" where
  "stop_containers env [] = Ret []"
| "stop_containers env ((n, c) # cs) =
     go_bind (container_Stop (env n) c) (\<lambda>(err, calls).
       if err \<noteq> None then Ret calls else go_bind (stop_containers env cs) (\<lambda>rest. Ret (calls @ rest)))"

fun login_tries :: "service \<Rightarrow> nat \<Rightarrow> guac_request list \<Rightarrow> guac_error option \<times> guac_request list" where
  "login_tries srv 0 sent = (None, sent)"
| "login_tries srv (Suc n) sent =
     (case login srv DefaultAdminUser DefaultAdminPass sent of
        (Inr _, sent) \<Rightarrow> (None, sent)
      | (Inl e, sent) \<Rightarrow> if n = 0 then (Some e, sent) else login_tries srv n sent)"

definition configureInstance :: "service \<Rightarrow> guacamole \<Rightarrow> guac_request list \<Rightarrow> guac_error option \<times> guac_request list" where
  "configureInstance srv g sent =
     (let temp = \<lparr>gc_admin_pass = DefaultAdminPass, gc_token = [], gc_port = gc_port g\<rparr> in
      case login_tries srv 120 sent of
        (Some e, sent) \<Rightarrow> (Some e, sent)
      | (None, sent) \<Rightarrow> (case changeAdminPass srv (gc_admin_pass g) temp sent of (e, _, sent) \<Rightarrow> (e, sent)))"

text \<open>The new identifiers in the order they are drawn.\<close>

record guac_draws =
  gd_mysql_pass :: string
  gd_root_pass :: string
  gd_guacd_alias :: string
  gd_db_alias :: string
  gd_admin_pass :: string
  gd_port :: nat

text \<open>All three containers exist as values before the first one runs, so that closing visits every one of them.\<close>

definition guac_create ::
  "(string \<Rightarrow> docker_env) \<Rightarrow> service \<Rightarrow> guac_draws \<Rightarrow> string \<Rightarrow> string \<Rightarrow> string \<Rightarrow> guacamole \<Rightarrow> guac_host \<Rightarrow> guac_request list \<Rightarrow>
   (guac_error option \<times> guacamole \<times> guac_host \<times> guac_request list) go" where
  "guac_create env srv dr base usr eventTag g s sent =
     (let guacd = guacd_config base eventTag usr; db = db_config (gd_root_pass dr) (gd_mysql_pass dr);
          web = web_config (gd_mysql_pass dr) (gd_guacd_alias dr) (gd_db_alias dr) (gd_port dr);
          g = g\<lparr>gc_port := gd_port dr\<rparr>;
          s = s\<lparr>gh_containers := [(''guacd'', \<lparr>ct_id = [], ct_conf = guacd\<rparr>), (''db'', \<lparr>ct_id = [], ct_conf = db\<rparr>),
                                 (''web'', \<lparr>ct_id = [], ct_conf = web\<rparr>)]\<rparr>
      in go_bind (run_containers env [(''guacd'', guacd, gd_guacd_alias dr), (''db'', db, gd_db_alias dr), (''web'', web, [])] s)
           (\<lambda>(err, s).
             case err of
               Some e \<Rightarrow> Ret (Some (ContainerErr e), g, s\<lparr>gh_containers := []\<rparr>, sent)
             | None \<Rightarrow>
                 (case configureInstance srv g sent of
                    (Some e, sent) \<Rightarrow>
                      go_bind (close_containers env (gh_containers s) s) (\<lambda>s. Ret (Some e, g, s\<lparr>gh_containers := []\<rparr>, sent))
                  | (None, sent) \<Rightarrow>
                      go_bind (stop_containers env (gh_containers s)) (\<lambda>calls.
                        Ret (None, g, s\<lparr>gh_calls := gh_calls s @ calls\<rparr>, sent)))))"

definition NewGuacamole ::
  "(string \<Rightarrow> docker_env) \<Rightarrow> service \<Rightarrow> guac_draws \<Rightarrow> string \<Rightarrow> string \<Rightarrow> string \<Rightarrow> int \<Rightarrow> string \<Rightarrow> guac_host \<Rightarrow> guac_request list \<Rightarrow>
   (guac_error option \<times> guacamole \<times> guac_host \<times> guac_request list) go" where
  "NewGuacamole env srv dr base usr adminPass onlyVPN eventTag s sent =
     (let g = \<lparr>gc_admin_pass = (if adminPass = [] then gd_admin_pass dr else adminPass), gc_token = [], gc_port = 0\<rparr> in
      if onlyVPN \<noteq> 1 then guac_create env srv dr base usr eventTag g s sent else Ret (None, g, s, sent))"

subsection \<open>The proxy\<close>

definition wsHeaders :: "string list" where
  "wsHeaders = [''Sec-Websocket-Extensions'', ''Sec-Websocket-Version'', ''Sec-Websocket-Key'', ''Connection'', ''Upgrade'']"

definition header_add :: "string \<Rightarrow> string \<Rightarrow> (string, string list) gomap \<Rightarrow> (string, string list) gomap" where
  "header_add k v h = map_put k ((case map_get h k of None \<Rightarrow> [] | Some vs \<Rightarrow> vs) @ [v]) h"

definition copyHeaders :: "(string, string list) gomap \<Rightarrow> string list \<Rightarrow> (string, string list) gomap \<Rightarrow> (string, string list) gomap" where
  "copyHeaders src ignore dst =
     foldl (\<lambda>dst (k, vv). if list_ex (\<lambda>h. k = h) ignore then dst else foldl (\<lambda>dst v. header_add k v dst) dst vv) dst src"

definition isWebSocket :: "string \<Rightarrow> bool" where
  "isWebSocket upgrade \<longleftrightarrow> (if upgrade \<noteq> [] then upgrade = ''websocket'' \<or> upgrade = ''Websocket'' else False)"

subsection \<open>Actions that are tried again\<close>

lemma refused_loop:
  assumes "\<And>sent t. srv sent (a t) = Answered status body" and "\<not> isExpectedStatus status"
  shows "auth_loop srv action a n (body, status, None) g sent = (body, None, g, sent @ replicate n (a (gc_token g)))"
proof (induction n arbitrary: sent)
  case (Suc n)
  then show ?case by (simp add: shouldTryAgain_def assms perform_def)
qed simp

lemma refused_action:
  assumes "\<And>sent t. srv sent (a t) = Answered status body" and "\<not> isExpectedStatus status"
  shows "authAction srv action a (None :: (json \<Rightarrow> 'a option) option) g sent = (Inr None, g, sent @ replicate 4 (a (gc_token g)))"
proof -
  have "perform srv a g sent = ((body, status, None), sent @ [a (gc_token g)])" by (simp add: perform_def assms(1))
  moreover have "auth_loop srv action a 3 (body, status, None) g (sent @ [a (gc_token g)]) =
      (body, None, g, (sent @ [a (gc_token g)]) @ replicate 3 (a (gc_token g)))"
    by (rule refused_loop) (use assms in simp_all)
  ultimately show ?thesis by (simp add: authAction_def numeral_eq_Suc)
qed

text \<open>
  C38. The status of the fourth attempt is never looked at: when the service answers every request with an error status, changing the
  administrator's password and giving a user a connection report success after four requests.
\<close>
theorem refused_actions_succeed:
  assumes "\<And>sent r. srv sent r = Answered status body" and "\<not> isExpectedStatus status"
  shows "changeAdminPass srv p g sent = (None, g, sent @ replicate 4 (PutPassword (gc_token g) p (gc_admin_pass g))) \<and>
    addConnectionToUser srv i u g sent = (None, g, sent @ replicate 4 (PatchPermissions (gc_token g) u i))"
proof -
  have "authAction srv ''change admin password'' (\<lambda>t. PutPassword t p (gc_admin_pass g)) (None :: (json \<Rightarrow> unit option) option) g sent =
      (Inr None, g, sent @ replicate 4 (PutPassword (gc_token g) p (gc_admin_pass g)))"
    by (rule refused_action) (use assms in simp_all)
  moreover have "authAction srv ''add user to connection'' (\<lambda>t. PatchPermissions t u i) (None :: (json \<Rightarrow> unit option) option) g sent =
      (Inr None, g, sent @ replicate 4 (PatchPermissions (gc_token g) u i))"
    by (rule refused_action) (use assms in simp_all)
  ultimately show ?thesis by (simp add: changeAdminPass_def addConnectionToUser_def)
qed

lemma refused_actions_succeed_witness:
  "changeAdminPass (\<lambda>_ _. Answered 500 []) ''secret'' \<lparr>gc_admin_pass = ''guacadmin'', gc_token = [], gc_port = 80\<rparr> [] =
     (None, \<lparr>gc_admin_pass = ''guacadmin'', gc_token = [], gc_port = 80\<rparr>, replicate 4 (PutPassword [] ''secret'' ''guacadmin''))"
  using refused_actions_succeed [of "\<lambda>_ _. Answered 500 []" 500 "[]" "''secret''" "\<lparr>gc_admin_pass = ''guacadmin'', gc_token = [], gc_port = 80\<rparr>" "[]"]
  by (simp add: isExpectedStatus_def)

definition accepted :: "int \<Rightarrow> string \<Rightarrow> bool" where
  "accepted status body \<longleftrightarrow> isExpectedStatus status \<and> status \<noteq> 403 \<and> (answer_message body = None \<or> answer_message body = Some [])"

lemma accepted_stops: "accepted status body \<Longrightarrow> shouldTryAgain srv action (body, status, None) g sent = (False, None, g, sent)"
  by (auto simp: accepted_def shouldTryAgain_def)

lemma accepted_loop: "accepted status body \<Longrightarrow> auth_loop srv action a n (body, status, None) g sent = (body, None, g, sent)"
  by (cases n) (simp_all add: accepted_stops)

text \<open>
  An action whose token has expired logs in once with the administrator's password and is sent again with the new token, which is kept;
  an action that is accepted at once is sent once.
\<close>
theorem expired_token_renewed:
  assumes "srv sent (a (gc_token g)) = Answered 403 refused"
    and "login srv DefaultAdminUser (gc_admin_pass g) (sent @ [a (gc_token g)]) = (Inr token, sent')"
    and "srv sent' (a token) = Answered status body" and "accepted status body"
  shows "authAction srv action a (None :: (json \<Rightarrow> 'a option) option) g sent = (Inr None, g\<lparr>gc_token := token\<rparr>, sent' @ [a token])"
proof -
  have "shouldTryAgain srv action (refused, 403, None) g (sent @ [a (gc_token g)]) = (True, None, g\<lparr>gc_token := token\<rparr>, sent')"
    by (simp add: shouldTryAgain_def isExpectedStatus_def login_again_def assms(2))
  then show ?thesis
    by (simp add: authAction_def perform_def assms(1,3) numeral_eq_Suc accepted_loop [OF assms(4)])
qed

lemma login_one: "\<exists>r. snd (login srv u p sent) = sent @ [r]"
  by (auto simp: login_def RawLogin_def split: guac_answer.split prod.split sum.split)

lemma again_one: "snd (snd (snd (shouldTryAgain srv action p g sent))) \<in> {sent} \<union> {sent @ [r] | r. True}"
proof -
  have "snd (snd (snd (login_again srv g sent))) \<in> {sent @ [r] | r. True}"
    using login_one [of srv DefaultAdminUser "gc_admin_pass g" sent]
    by (auto simp: login_again_def split: prod.split sum.split)
  then show ?thesis by (auto simp: shouldTryAgain_def split: prod.split option.split)
qed

text \<open>However the service answers, an action sends at most seven requests: four attempts and three logins.\<close>

lemma auth_loop_requests: "length (snd (snd (snd (auth_loop srv action a n p g sent)))) \<le> length sent + 2 * n"
proof (induction n arbitrary: p g sent)
  case 0
  show ?case by (cases p) simp
next
  case (Suc n)
  obtain content status err where p: "p = (content, status, err)" by (cases p)
  obtain retry e g' sent' where t: "shouldTryAgain srv action (content, status, err) g sent = (retry, e, g', sent')"
    by (cases "shouldTryAgain srv action (content, status, err) g sent")
  have one: "length sent' \<le> Suc (length sent)" using again_one [of srv action "(content, status, err)" g sent] by (auto simp: t)
  obtain q where q: "perform srv a g' sent' = (q, sent' @ [a (gc_token g')])" by (simp add: perform_def)
  show ?case using one Suc.IH [of q g' "sent' @ [a (gc_token g')]"] by (simp add: p t q)
qed

theorem action_requests_bounded: "length (snd (snd (authAction srv action a out g sent))) \<le> length sent + 7"
proof -
  obtain p where p: "perform srv a g sent = (p, sent @ [a (gc_token g)])" by (simp add: perform_def)
  obtain content err g' sent' where l: "auth_loop srv action a 3 p g (sent @ [a (gc_token g)]) = (content, err, g', sent')"
    by (cases "auth_loop srv action a 3 p g (sent @ [a (gc_token g)])")
  have "length sent' \<le> length sent + 7" using auth_loop_requests [of srv action a 3 p g "sent @ [a (gc_token g)]"] by (simp add: l)
  then show ?thesis by (simp add: authAction_def p l split: option.split)
qed

subsection \<open>Remote desktops and containers\<close>

text \<open>
  A remote desktop is asked for exactly when host, port and name are given and the colour depth is 8, 16, 24 or 32, or is left out.
\<close>
lemma rdp_defaults_iff:
  "(\<not> isl (rdp_defaults o')) \<longleftrightarrow> ro_host o' \<noteq> [] \<and> ro_port o' \<noteq> 0 \<and> ro_name o' \<noteq> [] \<and> ro_color_depth o' \<in> {0, 8, 16, 24, 32}"
proof -
  have "d mod 8 \<noteq> 0 \<or> 32 < d \<longleftrightarrow> d \<notin> {0, 8, 16, 24, 32}" for d :: nat by auto presburger
  then show ?thesis by (simp add: rdp_defaults_def Let_def)
qed

lemma local_binding: "host_binding (''127.0.0.1:'' @ show_nat p) = Some (''127.0.0.1'', show_nat p)"
proof -
  have no: "CHR '':'' \<notin> set (show_nat p)" "CHR ''/'' \<notin> set (show_nat p)"
    using show_nat_digits [of _ p] by (force simp: is_digit_def char_digit_def)+
  have "split_on CHR '':'' (''127.0.0.1'' @ CHR '':'' # show_nat p) = [''127.0.0.1'', show_nat p]"
    unfolding split_two using no by simp
  with no show ?thesis by (simp add: host_binding_def)
qed

lemma create_names:
  assumes "container_Run env c files = Ret (None, c', files', calls)"
  shows "ct_id c' = dk_id env" and "ct_conf c' = ct_conf c"
  using assms by (auto simp: container_Run_def container_Create_def Let_def go_bind_Ret split: prod.splits sum.splits option.splits if_splits)

lemma fresh_alias:
  assumes "bridge_connect env cid alias b = (Inr a, b', calls)" and "map_get (br_containers b) cid = None"
  shows "br_containers b' = map_put cid a (br_containers b)" and "alias \<noteq> [] \<Longrightarrow> a = alias"
  using assms by (auto simp: bridge_connect_def Let_def split: option.splits)

lemma run_containers_Cons:
  assumes "run_containers env ((n, conf, alias) # rest) s = Ret (None, s')"
  obtains c files calls a b calls' where "container_Run (env n) \<lparr>ct_id = [], ct_conf = conf\<rparr> (gh_files s) = Ret (None, c, files, calls)"
    and "bridge_connect (env n) (ct_id c) alias (gh_bridge s) = (Inr a, b, calls')"
    and "run_containers env rest (s\<lparr>gh_containers := map_put n c (gh_containers s), gh_files := files, gh_bridge := b,
            gh_calls := (gh_calls s @ calls) @ calls'\<rparr>) = Ret (None, s')"
  using assms by (auto simp: go_bind_Ret Let_def split: option.splits sum.splits prod.splits)

lemma run_containers_aliases:
  assumes "run_containers env cs s = Ret (None, s')" and "distinct (map (\<lambda>x. dk_id (env (fst x))) cs)" and "distinct (map fst cs)"
    and "\<forall>x \<in> set cs. map_get (br_containers (gh_bridge s)) (dk_id (env (fst x))) = None"
  shows "(\<forall>(n, conf, alias) \<in> set cs. (\<exists>c. map_get (gh_containers s') n = Some c \<and> ct_id c = dk_id (env n) \<and> ct_conf c = conf) \<and>
      (alias \<noteq> [] \<longrightarrow> map_get (br_containers (gh_bridge s')) (dk_id (env n)) = Some alias)) \<and>
    (\<forall>i. i \<notin> (\<lambda>x. dk_id (env (fst x))) ` set cs \<longrightarrow> map_get (br_containers (gh_bridge s')) i = map_get (br_containers (gh_bridge s)) i) \<and>
    (\<forall>n. n \<notin> fst ` set cs \<longrightarrow> map_get (gh_containers s') n = map_get (gh_containers s) n)"
  using assms
proof (induction cs arbitrary: s)
  case (Cons x cs)
  obtain n conf al where x: "x = (n, conf, al)" by (cases x)
  from Cons.prems(1) obtain c files calls a b calls' where run: "container_Run (env n) \<lparr>ct_id = [], ct_conf = conf\<rparr> (gh_files s) = Ret (None, c, files, calls)"
    and con: "bridge_connect (env n) (ct_id c) al (gh_bridge s) = (Inr a, b, calls')"
    and rest: "run_containers env cs (s\<lparr>gh_containers := map_put n c (gh_containers s), gh_files := files, gh_bridge := b,
            gh_calls := (gh_calls s @ calls) @ calls'\<rparr>) = Ret (None, s')"
    unfolding x by (rule run_containers_Cons)
  let ?s = "s\<lparr>gh_containers := map_put n c (gh_containers s), gh_files := files, gh_bridge := b,
            gh_calls := (gh_calls s @ calls) @ calls'\<rparr>"
  note c = create_names [OF run]
  have "map_get (br_containers (gh_bridge s)) (ct_id c) = None" using Cons.prems(4) by (simp add: x c)
  note b = fresh_alias [OF con this]
  have IH: "(\<forall>(n, conf, alias) \<in> set cs. (\<exists>c. map_get (gh_containers s') n = Some c \<and> ct_id c = dk_id (env n) \<and> ct_conf c = conf) \<and>
      (alias \<noteq> [] \<longrightarrow> map_get (br_containers (gh_bridge s')) (dk_id (env n)) = Some alias)) \<and>
    (\<forall>i. i \<notin> (\<lambda>x. dk_id (env (fst x))) ` set cs \<longrightarrow> map_get (br_containers (gh_bridge s')) i = map_get (br_containers (gh_bridge ?s)) i) \<and>
    (\<forall>n. n \<notin> fst ` set cs \<longrightarrow> map_get (gh_containers s') n = map_get (gh_containers ?s) n)"
    using Cons.prems(2-4) by (intro Cons.IH [OF rest]) (auto simp: x b(1) c(1) image_iff)
  have "dk_id (env n) \<notin> (\<lambda>x. dk_id (env (fst x))) ` set cs" "n \<notin> fst ` set cs" using Cons.prems(2,3) by (auto simp: x)
  with IH have "map_get (br_containers (gh_bridge s')) (dk_id (env n)) = Some a" "map_get (gh_containers s') n = Some c"
    by (simp_all add: b(1) c(1))
  with IH c b(2) show ?case by (auto simp: x b(1))
qed simp


subsection \<open>A service that starts\<close>

lemma quiet_run:
  assumes "config_ok env conf" and "dc_dns conf = []" and "dk_call env = (\<lambda>_. None)" and "8 \<le> length (dk_id env)"
  shows "\<exists>calls. container_Run env \<lparr>ct_id = [], ct_conf = conf\<rparr> files = Ret (None, \<lparr>ct_id = dk_id env, ct_conf = conf\<rparr>, files, calls)"
proof -
  have "\<not> isl (fst (getCreateConfig env conf files))"
    using assms(1,2) by (simp add: create_config_made dns_mount_def)
  then obtain opts files' calls where c: "getCreateConfig env conf files = (Inr opts, files', calls)"
    by (metis isl_def prod.collapse sum.collapse(2))
  moreover have "files' = files"
    using c assms(2) by (auto simp: getCreateConfig_def dns_mount_def Let_def split: option.splits sum.splits prod.splits)
  ultimately show ?thesis
    using assms(3,4) by (auto simp: container_Run_def container_Create_def container_Start_def dk_run_def short_id_def Let_def)
qed

lemma quiet_containers:
  assumes "\<forall>(n, conf, alias) \<in> set cs. config_ok (env n) conf \<and> dc_dns conf = [] \<and> dk_call (env n) = (\<lambda>_. None) \<and> 8 \<le> length (dk_id (env n))"
  shows "\<exists>s'. run_containers env cs s = Ret (None, s') \<and>
    gh_containers s' = foldl (\<lambda>m (n, conf, alias). map_put n \<lparr>ct_id = dk_id (env n), ct_conf = conf\<rparr> m) (gh_containers s) cs"
  using assms
proof (induction cs arbitrary: s)
  case (Cons x cs)
  obtain n conf al where x: "x = (n, conf, al)" by (cases x)
  have ok: "config_ok (env n) conf" "dc_dns conf = []" "dk_call (env n) = (\<lambda>_. None)" "8 \<le> length (dk_id (env n))"
    using Cons.prems by (simp_all add: x)
  obtain calls where run: "container_Run (env n) \<lparr>ct_id = [], ct_conf = conf\<rparr> (gh_files s) =
      Ret (None, \<lparr>ct_id = dk_id (env n), ct_conf = conf\<rparr>, gh_files s, calls)"
    using quiet_run [OF ok] by blast
  have "\<exists>a b calls'. bridge_connect (env n) (dk_id (env n)) al (gh_bridge s) = (Inr a, b, calls')"
    using ok(3) by (simp add: bridge_connect_def dk_run_def Let_def split: option.split)
  then obtain a b calls' where con: "bridge_connect (env n) (dk_id (env n)) al (gh_bridge s) = (Inr a, b, calls')" by (elim exE)
  let ?s = "s\<lparr>gh_containers := map_put n \<lparr>ct_id = dk_id (env n), ct_conf = conf\<rparr> (gh_containers s), gh_bridge := b,
      gh_calls := gh_calls s @ calls @ calls'\<rparr>"
  have "\<exists>s'. run_containers env cs ?s = Ret (None, s') \<and>
    gh_containers s' = foldl (\<lambda>m (n, conf, alias). map_put n \<lparr>ct_id = dk_id (env n), ct_conf = conf\<rparr> m) (gh_containers ?s) cs"
    by (rule Cons.IH) (use Cons.prems in simp)
  then show ?case by (simp add: x run con)
qed simp

lemma stop_quiet:
  "\<forall>(n, c) \<in> set cs. dk_call (env n) = (\<lambda>_. None) \<and> 8 \<le> length (ct_id c) \<Longrightarrow> \<exists>calls. stop_containers env cs = Ret calls"
  by (induction cs) (auto simp: container_Stop_def dk_run_def short_id_def)

definition easy_service :: service where
  "easy_service sent r = (case r of PostTokens _ _ \<Rightarrow> Answered 200 (json_marshal (JObj [(''authToken'', JStr ''t'')])) | _ \<Rightarrow> Answered 204 [])"

definition easy_docker :: "string \<Rightarrow> docker_env" where
  "easy_docker n = quiet_docker\<lparr>dk_id := n @ ''0123456789ab'', dk_registries := [[], ''registry.gitlab.com'']\<rparr>"

definition easy_draws :: guac_draws where
  "easy_draws = \<lparr>gd_mysql_pass = ''p1'', gd_root_pass = ''p2'', gd_guacd_alias = ''alias-1'', gd_db_alias = ''alias-2'', gd_admin_pass = ''p3'', gd_port = 8081\<rparr>"

definition empty_host :: guac_host where
  "empty_host = \<lparr>gh_containers = [], gh_bridge = \<lparr>br_id = ''hkn-bridge'', br_containers = []\<rparr>, gh_files = [], gh_calls = []\<rparr>"

lemma easy_login: "login easy_service u p sent = (Inr ''t'', sent @ [PostTokens u p])"
  by (simp add: login_def RawLogin_def easy_service_def isExpectedStatus_def json_roundtrip del: json_marshal.simps)

lemma easy_configure: "\<exists>sent'. configureInstance easy_service g sent = (None, sent')"
proof -
  have "login_tries easy_service (Suc n) sent = (None, sent @ [PostTokens DefaultAdminUser DefaultAdminPass])" for n sent
    by (simp add: easy_login)
  from this [of 119] have tries: "login_tries easy_service 120 sent = (None, sent @ [PostTokens DefaultAdminUser DefaultAdminPass])" for sent
    by (simp add: numeral_eq_Suc)
  have "json_parse [] = None" by code_simp
  then have acc: "accepted 204 []" by (simp add: accepted_def isExpectedStatus_def answer_message_def)
  have "changeAdminPass easy_service p g' sent = (None, g', sent @ [PutPassword (gc_token g') p (gc_admin_pass g')])" for p g' sent
    by (simp add: changeAdminPass_def authAction_def perform_def easy_service_def accepted_loop [OF acc])
  with tries show ?thesis by (simp add: configureInstance_def)
qed

lemma easy_configs:
  "config_ok (easy_docker ''guacd'') (guacd_config ''/ft'' ''ctf'' ''0:0'')" "config_ok (easy_docker ''db'') (db_config ''p2'' ''p1'')"
  "config_ok (easy_docker ''web'') (web_config ''p1'' ''alias-1'' ''alias-2'' 8081)"
proof -
  show "config_ok (easy_docker ''web'') (web_config ''p1'' ''alias-1'' ''alias-2'' 8081)"
    using local_binding [of 8081] by (simp del: show_base.simps add: config_ok_def web_config_def easy_docker_def quiet_docker_def parseImage_def Let_def)
qed (simp_all add: config_ok_def guacd_config_def db_config_def easy_docker_def quiet_docker_def parseImage_def Let_def)


end
