(* ===== verification/Virtual_Vbox.thy ===== *)
theory Virtual_Vbox
  imports Lab_Env
begin

text \<open>
  Virtual machines (virtual/vbox/vbox.go): the commands given to \<^verbatim>\<open>VBoxManage\<close> for a machine's life and its options, what a
  machine's state is read from, and the library that imports an image once and then clones it. \<^verbatim>\<open>VBoxManage\<close>, the checksum of a
  file and new identifiers answer through \<open>vbox_env\<close>; the commands are logged. Copies of one image are made one after another under the image's lock, so each is one step. The folders
  for file transfer are I/O.
\<close>

subsection \<open>Commands\<close>

type_synonym vbox_cmd = "string list"

record vbox_env =
  vb_run :: "vbox_cmd \<Rightarrow> string + string"
  vb_sum :: "string \<Rightarrow> string + string"
  vb_uuid :: string

definition vbox :: "vbox_env \<Rightarrow> vbox_cmd \<Rightarrow> string option" where
  "vbox env c = (case vb_run env c of Inl e \<Rightarrow> Some e | Inr _ \<Rightarrow> None)"

text \<open>Commands in a row, up to the first that fails; the failing one is in the log as well.\<close>

fun vbox_all :: "vbox_env \<Rightarrow> vbox_cmd list \<Rightarrow> string option \<times> vbox_cmd list" where
  "vbox_all env [] = (None, [])"
| "vbox_all env (c # cs) =
     (case vbox env c of
        Some e \<Rightarrow> (Some e, [c])
      | None \<Rightarrow> (case vbox_all env cs of (e, done) \<Rightarrow> (e, c # done)))"

subsection \<open>Options of a machine\<close>

record vm =
  vm_id :: string
  vm_path :: string
  vm_image :: string
  vm_running :: bool

datatype vm_opt = SetBridge string | SetLocalRDP string nat | SetCPU nat | SetRAM "64 word"

definition word_char :: "char \<Rightarrow> bool" where
  "word_char c \<longleftrightarrow> is_digit c \<or> (let n = of_char c :: nat in 65 \<le> n \<and> n \<le> 90 \<or> 97 \<le> n \<and> n \<le> 122) \<or> c = CHR ''_''"

text \<open>The matches of \<^verbatim>\<open>\bNIC\b\<close>; the flag tells whether a word character comes before.\<close>

fun count_nics :: "bool \<Rightarrow> string \<Rightarrow> nat" where
  "count_nics inside [] = 0"
| "count_nics inside (c # s) =
     (if \<not> inside \<and> take 3 (c # s) = ''NIC'' \<and> (drop 2 s = [] \<or> \<not> word_char (hd (drop 2 s)))
      then 1 else 0) + count_nics (word_char c) s"

definition removeAllNICs :: "vbox_env \<Rightarrow> vm \<Rightarrow> string option \<times> vbox_cmd list" where
  "removeAllNICs env m =
     (case vb_run env [''showvminfo'', vm_id m] of
        Inl e \<Rightarrow> (Some e, [[''showvminfo'', vm_id m]])
      | Inr result \<Rightarrow>
          (case vbox_all env (map (\<lambda>i. [''modifyvm'', vm_id m, ''--nic'' @ show_nat i, ''none'']) [1..<count_nics False result + 1]) of
             (e, cs) \<Rightarrow> (e, [''showvminfo'', vm_id m] # cs)))"

fun apply_opt :: "vbox_env \<Rightarrow> vm \<Rightarrow> vm_opt \<Rightarrow> string option \<times> vbox_cmd list" where
  "apply_opt env m (SetBridge nic) =
     (case removeAllNICs env m of
        (Some e, cs) \<Rightarrow> (Some e, cs)
      | (None, cs) \<Rightarrow>
          (case vbox_all env [[''modifyvm'', vm_id m, ''--nic1'', ''bridged'', ''--bridgeadapter1'', nic],
                              [''modifyvm'', vm_id m, ''--nicpromisc1'', ''allow-all'']] of
             (e, cs') \<Rightarrow> (e, cs @ cs')))"
| "apply_opt env m (SetLocalRDP ip port) =
     vbox_all env
       [[''modifyvm'', vm_id m, ''--vrde'', ''on''],
        [''modifyvm'', vm_id m, ''--vrdeproperty'', ''TCP/Address='' @ ip],
        [''modifyvm'', vm_id m, ''--vrdeproperty'', ''TCP/Ports='' @ show_nat port],
        [''modifyvm'', vm_id m, ''--vrdeauthtype'', ''null''],
        [''modifyvm'', vm_id m, ''--vram'', ''128''],
        [''modifyvm'', vm_id m, ''--clipboard'', ''bidirectional''],
        [''modifyvm'', vm_id m, ''--vrdemulticon'', ''on'']]"
| "apply_opt env m (SetCPU cores) = vbox_all env [[''modifyvm'', vm_id m, ''--cpus'', show_nat cores]]"
| "apply_opt env m (SetRAM mb) = vbox_all env [[''modifyvm'', vm_id m, ''--memory'', show_nat (unat mb)]]"

fun apply_opts :: "vbox_env \<Rightarrow> vm \<Rightarrow> vm_opt list \<Rightarrow> string option \<times> vbox_cmd list" where
  "apply_opts env m [] = (None, [])"
| "apply_opts env m (opt # opts) =
     (case apply_opt env m opt of
        (Some e, cs) \<Rightarrow> (Some e, cs)
      | (None, cs) \<Rightarrow> (case apply_opts env m opts of (e, cs') \<Rightarrow> (e, cs @ cs')))"

subsection \<open>The life of a machine\<close>

definition vm_Create :: "vbox_env \<Rightarrow> vm_opt list \<Rightarrow> vm \<Rightarrow> string option \<times> vbox_cmd list" where
  "vm_Create env opts m =
     (let c = [''import'', vm_path m, ''--vsys'', ''0'', ''--vmname'', vm_id m] in
      case vbox env c of
        Some e \<Rightarrow> (Some e, [c])
      | None \<Rightarrow> (case apply_opts env m opts of (e, cs) \<Rightarrow> (e, c # cs)))"

text \<open>A resolution that cannot be set is only logged.\<close>

definition vm_Start :: "vbox_env \<Rightarrow> vm \<Rightarrow> string option \<times> vm \<times> vbox_cmd list" where
  "vm_Start env m =
     (let c = [''startvm'', vm_id m, ''--type'', ''headless''] in
      case vbox env c of
        Some e \<Rightarrow> (Some e, m, [c])
      | None \<Rightarrow> (None, m\<lparr>vm_running := True\<rparr>, [c, [''controlvm'', vm_id m, ''setvideomodehint'', ''1920'', ''1080'', ''16'']]))"

definition vm_Stop :: "vbox_env \<Rightarrow> vm \<Rightarrow> string option \<times> vm \<times> vbox_cmd list" where
  "vm_Stop env m =
     (let c = [''controlvm'', vm_id m, ''poweroff''] in
      case vbox env c of Some e \<Rightarrow> (Some e, m, [c]) | None \<Rightarrow> (None, m\<lparr>vm_running := False\<rparr>, [c]))"

definition vm_Suspend :: "vbox_env \<Rightarrow> vm \<Rightarrow> string option \<times> vbox_cmd list" where
  "vm_Suspend env m = vbox_all env [[''controlvm'', vm_id m, ''savestate'']]"

definition ensureStopped :: "vbox_env \<Rightarrow> vm \<Rightarrow> string option \<times> vm \<times> vbox_cmd list" where
  "ensureStopped env m = (if vm_running m then vm_Stop env m else (None, m, []))"

definition vm_Close :: "vbox_env \<Rightarrow> vm \<Rightarrow> string option \<times> vm \<times> vbox_cmd list" where
  "vm_Close env m =
     (case ensureStopped env m of
        (_, m, cs) \<Rightarrow>
          let c = [''unregistervm'', vm_id m, ''--delete''] in (vbox env c, m, cs @ [c]))"

definition LinkedClone :: "vbox_env \<Rightarrow> string \<Rightarrow> vm_opt list \<Rightarrow> vm \<Rightarrow> (string + vm) \<times> vbox_cmd list" where
  "LinkedClone env snapshot opts v =
     (let newID = filter (\<lambda>c. c \<noteq> CHR ''-'') (vb_uuid env);
          c = [''clonevm'', vm_id v, ''--snapshot'', snapshot, ''--options'', ''link'', ''--name'', newID, ''--register'']
      in case vbox env c of
           Some e \<Rightarrow> (Inl e, [c])
         | None \<Rightarrow>
             let m = \<lparr>vm_id = newID, vm_path = [], vm_image = vm_image v, vm_running = False\<rparr> in
             (case apply_opts env m opts of (Some e, cs) \<Rightarrow> (Inl e, c # cs) | (None, cs) \<Rightarrow> (Inr m, c # cs)))"

text \<open>The rest of the line after the first \<^verbatim>\<open>State:\<close>, from the first character that is no white space.\<close>

fun after_text :: "string \<Rightarrow> string \<Rightarrow> string option" where
  "after_text p [] = (if p = [] then Some [] else None)"
| "after_text p (c # s) = (if take (length p) (c # s) = p then Some (drop (length p) (c # s)) else after_text p s)"

definition regex_space :: "char \<Rightarrow> bool" where
  "regex_space c \<longleftrightarrow> c = CHR '' '' \<or> c = CHR 0x09 \<or> c = CHR 0x0A \<or> c = CHR 0x0C \<or> c = CHR 0x0D"

definition state_line :: "string \<Rightarrow> string option" where
  "state_line raw =
     map_option (\<lambda>rest. ''State:'' @ takeWhile regex_space rest @ takeWhile (\<lambda>c. c \<noteq> CHR 0x0A) (dropWhile regex_space rest))
       (after_text ''State:'' raw)"

definition vm_get_state :: "vbox_env \<Rightarrow> vm \<Rightarrow> vm_state" where
  "vm_get_state env v =
     (case vb_run env [''showvminfo'', vm_id v] of
        Inl _ \<Rightarrow> VError
      | Inr raw \<Rightarrow>
          (case state_line raw of
             None \<Rightarrow> VError
           | Some matched \<Rightarrow>
               if Contains matched ''running'' then VRunning
               else if Contains matched ''saved'' then VSuspended else VStopped))"

subsection \<open>The library\<close>

record vbox_library =
  vl_pwd :: string
  vl_known :: "(string, vm) gomap"

definition HasSuffixStr :: "string \<Rightarrow> string \<Rightarrow> bool" where
  "HasSuffixStr s t \<longleftrightarrow> length t \<le> length s \<and> drop (length s - length t) s = t"

text \<open>\<open>join_path\<close> on a clean directory and a clean relative file.\<close>

definition join_path :: "string \<Rightarrow> string \<Rightarrow> string" where
  "join_path dir file = (if dir = [] then file else if file = [] then dir else dir @ ''/'' @ file)"

definition getPathFromFile :: "string \<Rightarrow> string \<Rightarrow> string" where
  "getPathFromFile pwd file =
     (let file = (if take (length pwd) file \<noteq> pwd then join_path pwd file else file)
      in if HasSuffixStr file ''.ova'' then file else file @ ''.ova'')"

definition path_base :: "string \<Rightarrow> string" where
  "path_base p = last (split_on CHR ''/'' p)"

text \<open>The name of the image is the last part of the path without its extension, which is \<^verbatim>\<open>.ova\<close>.\<close>

definition image_name :: "string \<Rightarrow> string" where
  "image_name path = (let b = path_base path in take (length b - 4) b)"

definition VmExists :: "vbox_env \<Rightarrow> string \<Rightarrow> string \<Rightarrow> vm option" where
  "VmExists env img checksum =
     (let name = img @ ''{'' @ checksum @ ''}'' in
      case vb_run env [''list'', ''vms''] of
        Inl _ \<Rightarrow> None
      | Inr out \<Rightarrow>
          if Contains out ([CHR 0x22] @ name @ [CHR 0x22])
          then Some \<lparr>vm_id = name, vm_path = [], vm_image = img, vm_running = False\<rparr> else None)"

definition conf_opts :: "instance_config \<Rightarrow> vm_opt list" where
  "conf_opts conf =
     (if ic_cpu conf \<noteq> 0 then [SetCPU (nat \<lceil>ic_cpu conf\<rceil>)] else []) @ (if ic_memory conf \<noteq> 0 then [SetRAM (ic_memory conf)] else [])"

text \<open>A machine that is not known is imported, unless VirtualBox has it, and its snapshot is what copies are made of.\<close>

definition import_vm :: "vbox_env \<Rightarrow> string \<Rightarrow> string \<Rightarrow> (string + vm) \<times> vbox_cmd list" where
  "import_vm env path checksum =
     (let n = image_name path in
      case VmExists env n checksum of
        Some v \<Rightarrow> (Inr v, [[''list'', ''vms'']])
      | None \<Rightarrow>
          let v = \<lparr>vm_id = n @ ''{'' @ checksum @ ''}'', vm_path = path, vm_image = n, vm_running = False\<rparr> in
          (case vm_Create env [] v of
             (Some e, cs) \<Rightarrow> (Inl e, [''list'', ''vms''] # cs)
           | (None, cs) \<Rightarrow>
               let snap = [''snapshot'', vm_id v, ''take'', ''origin''] in
               (case vbox env snap of
                  Some e \<Rightarrow> (Inl e, [''list'', ''vms''] # cs @ [snap])
                | None \<Rightarrow> (Inr v, [''list'', ''vms''] # cs @ [snap]))))"

definition GetCopy ::
  "vbox_env \<Rightarrow> instance_config \<Rightarrow> vm_opt list \<Rightarrow> vbox_library \<Rightarrow> (string + vm) \<times> vbox_library \<times> vbox_cmd list" where
  "GetCopy env conf opts lib =
     (let path = getPathFromFile (vl_pwd lib) (ic_image conf) in
      case map_get (vl_known lib) path of
        Some v \<Rightarrow> (case LinkedClone env ''origin'' opts v of (r, cs) \<Rightarrow> (r, lib, cs))
      | None \<Rightarrow>
          (case vb_sum env path of
             Inl e \<Rightarrow> (Inl e, lib, [])
           | Inr checksum \<Rightarrow>
               (case import_vm env path checksum of
                  (Inl e, cs) \<Rightarrow> (Inl e, lib, cs)
                | (Inr v, cs) \<Rightarrow>
                    let lib = lib\<lparr>vl_known := map_put path v (vl_known lib)\<rparr> in
                    (case LinkedClone env ''origin'' (opts @ conf_opts conf) v of (r, cs') \<Rightarrow> (r, lib, cs @ cs')))))"

subsection \<open>Properties\<close>

text \<open>A command that gives a machine memory or processors.\<close>

definition is_resource :: "vbox_cmd \<Rightarrow> bool" where
  "is_resource c \<longleftrightarrow> take 1 c = [''modifyvm''] \<and> take 1 (drop 2 c) \<in> {[''--memory''], [''--cpus'']}"

lemma vbox_all_subset: "set (snd (vbox_all env cs)) \<subseteq> set cs"
proof (induction cs)
  case (Cons c cs)
  then show ?case by (auto split: option.split prod.split)
qed simp

lemma bridge_cmds:
  assumes "c \<in> set (snd (apply_opt env m (SetBridge nic)))"
  shows "\<not> is_resource c \<and> hd c \<noteq> ''import''"
proof -
  have nics: "\<not> is_resource c \<and> hd c \<noteq> ''import''" if c: "c \<in> set (snd (removeAllNICs env m))" for c
  proof -
    let ?f = "\<lambda>i. [''modifyvm'', vm_id m, ''--nic'' @ show_nat i, ''none'']"
    have "\<exists>ks. c \<in> insert [''showvminfo'', vm_id m] (set (snd (vbox_all env (map ?f ks))))"
    proof (cases "vb_run env [''showvminfo'', vm_id m]")
      case (Inr result)
      then have "c \<in> insert [''showvminfo'', vm_id m] (set (snd (vbox_all env (map ?f [1..<count_nics False result + 1]))))"
        using c by (simp add: removeAllNICs_def case_prod_beta del: upt_Suc)
      then show ?thesis by (rule exI)
    qed (use c in \<open>simp add: removeAllNICs_def\<close>)
    then obtain ks where "c \<in> insert [''showvminfo'', vm_id m] (set (snd (vbox_all env (map ?f ks))))" by (elim exE)
    then have "c \<in> insert [''showvminfo'', vm_id m] (set (map ?f ks))" using vbox_all_subset by blast
    then show ?thesis by (auto simp: is_resource_def)
  qed
  let ?two = "[[''modifyvm'', vm_id m, ''--nic1'', ''bridged'', ''--bridgeadapter1'', nic], [''modifyvm'', vm_id m, ''--nicpromisc1'', ''allow-all'']]"
  have two: "\<not> is_resource c \<and> hd c \<noteq> ''import''" if "c \<in> set (snd (vbox_all env ?two))" for c
  proof -
    have "c \<in> set ?two" using that vbox_all_subset by fast
    then show ?thesis by (auto simp: is_resource_def)
  qed
  have "set (snd (apply_opt env m (SetBridge nic))) \<subseteq> set (snd (removeAllNICs env m)) \<union> set (snd (vbox_all env ?two))"
    by (auto split: prod.split option.split)
  with assms nics two show ?thesis by blast
qed

lemma bridged_clone:
  assumes "LinkedClone env snapshot [SetBridge nic] v = (r, cs)" and "c \<in> set cs"
  shows "\<not> is_resource c \<and> hd c \<noteq> ''import''"
proof -
  let ?m = "\<lparr>vm_id = filter (\<lambda>c. c \<noteq> CHR ''-'') (vb_uuid env), vm_path = [], vm_image = vm_image v, vm_running = False\<rparr>"
  have "apply_opts env ?m [SetBridge nic] = (e, cs') \<Longrightarrow> set cs' = set (snd (apply_opt env ?m (SetBridge nic)))" for e cs'
    by (auto split: prod.splits option.splits)
  then have "c = [''clonevm'', vm_id v, ''--snapshot'', snapshot, ''--options'', ''link'', ''--name'', vm_id ?m, ''--register''] \<or>
      c \<in> set (snd (apply_opt env ?m (SetBridge nic)))"
    using assms by (auto simp: LinkedClone_def Let_def simp del: apply_opts.simps apply_opt.simps split: option.splits prod.splits)
  then show ?thesis using bridge_cmds by (auto simp: is_resource_def)
qed

lemma apply_opts_append: "apply_opts env m (xs @ ys) = (None, cs) \<Longrightarrow>
    \<exists>cs1 cs2. apply_opts env m xs = (None, cs1) \<and> apply_opts env m ys = (None, cs2) \<and> cs = cs1 @ cs2"
  by (induction xs arbitrary: cs) (auto split: prod.splits option.splits)

lemma clone_opts:
  assumes "LinkedClone env snapshot opts w = (Inr v, cs)"
  shows "\<exists>cs'. apply_opts env v opts = (None, cs') \<and> set cs' \<subseteq> set cs"
proof -
  let ?v = "\<lparr>vm_id = filter (\<lambda>c. c \<noteq> CHR ''-'') (vb_uuid env), vm_path = [], vm_image = vm_image w, vm_running = False\<rparr>"
  obtain e cs' where o': "apply_opts env ?v opts = (e, cs')" by (cases "apply_opts env ?v opts")
  then have "e = None" "v = ?v" "set cs' \<subseteq> set cs" using assms by (auto simp: LinkedClone_def Let_def split: option.splits)
  with o' show ?thesis by blast
qed

lemma conf_memory:
  assumes "apply_opts env m (conf_opts conf) = (None, cs)" and "ic_memory conf \<noteq> 0"
  shows "[''modifyvm'', vm_id m, ''--memory'', show_nat (unat (ic_memory conf))] \<in> set cs"
  using assms by (auto simp: conf_opts_def split: prod.splits option.splits if_splits)

text \<open>
  C37. Only the first copy of an image gets the memory of its configuration. A virtual machine of an exercise, which is copied
  with a bridge as its only option, is imported and given its memory when its image is new to the library; every later copy of the image, also
  for another configuration, is made without an import and without any command for memory or processors.
\<close>
theorem later_copies_lack_memory:
  assumes "map_get (vl_known lib) (getPathFromFile (vl_pwd lib) (ic_image conf)) = None" and "ic_memory conf \<noteq> 0"
    and "GetCopy env conf [SetBridge nic] lib = (Inr v, lib', cs)"
    and "ic_image conf' = ic_image conf" and "GetCopy env' conf' [SetBridge nic'] lib' = (r, lib'', cs')"
  shows "[''modifyvm'', vm_id v, ''--memory'', show_nat (unat (ic_memory conf))] \<in> set cs \<and> lib'' = lib' \<and>
    (\<forall>c \<in> set cs'. \<not> is_resource c \<and> hd c \<noteq> ''import'')"
proof -
  let ?p = "getPathFromFile (vl_pwd lib) (ic_image conf)"
  obtain w cs1 cs2 where w: "LinkedClone env ''origin'' ([SetBridge nic] @ conf_opts conf) w = (Inr v, cs2)" "cs = cs1 @ cs2"
    "lib' = lib\<lparr>vl_known := map_put ?p w (vl_known lib)\<rparr>"
    using assms(1,3) by (auto simp: GetCopy_def Let_def split: sum.splits prod.splits)
  obtain cs3 where opts: "apply_opts env v ([SetBridge nic] @ conf_opts conf) = (None, cs3)" "set cs3 \<subseteq> set cs2"
    using clone_opts [OF w(1)] by blast
  from apply_opts_append [OF opts(1)] conf_memory [OF _ assms(2)] opts(2) w(2)
  have "[''modifyvm'', vm_id v, ''--memory'', show_nat (unat (ic_memory conf))] \<in> set cs" by fastforce
  moreover have "map_get (vl_known lib') (getPathFromFile (vl_pwd lib') (ic_image conf')) = Some w" by (simp add: w(3) assms(4))
  then have "LinkedClone env' ''origin'' [SetBridge nic'] w = (r, cs') \<and> lib'' = lib'"
    using assms(5) by (auto simp: GetCopy_def Let_def split: prod.splits)
  ultimately show ?thesis using bridged_clone by blast
qed

definition easy_vbox :: vbox_env where
  "easy_vbox = \<lparr>vb_run = (\<lambda>_. Inr []), vb_sum = (\<lambda>_. Inr ''00ff''), vb_uuid = ''a-1''\<rparr>"

definition vm_instance :: "64 word \<Rightarrow> instance_config" where
  "vm_instance mb = \<lparr>ic_image = ''kali'', ic_memory = mb, ic_cpu = 0\<rparr>"

lemma easy_vbox_all: "vbox_all easy_vbox cs = (None, cs)"
  by (induction cs) (simp_all add: vbox_def easy_vbox_def)

lemma easy_opt: "fst (apply_opt easy_vbox m opt) = None"
  by (cases opt) (simp_all add: easy_vbox_all removeAllNICs_def easy_vbox_def [THEN arg_cong [of _ _ vb_run]] del: vbox_all.simps)

lemma easy_opts: "\<exists>cs. apply_opts easy_vbox m opts = (None, cs)"
proof (induction opts)
  case (Cons opt opts)
  obtain cs where "apply_opt easy_vbox m opt = (None, cs)" using easy_opt [of m opt] by (cases "apply_opt easy_vbox m opt") simp
  with Cons show ?case by auto
qed simp

lemma easy_clone: "\<exists>v cs. LinkedClone easy_vbox snapshot opts w = (Inr v, cs)"
proof -
  let ?m = "\<lparr>vm_id = filter (\<lambda>c. c \<noteq> CHR ''-'') (vb_uuid easy_vbox), vm_path = [], vm_image = vm_image w, vm_running = False\<rparr>"
  obtain cs where "apply_opts easy_vbox ?m opts = (None, cs)" using easy_opts by blast
  moreover have "vbox easy_vbox c = None" for c by (simp add: vbox_def easy_vbox_def)
  ultimately show ?thesis by (simp add: LinkedClone_def Let_def)
qed

lemma later_copies_lack_memory_witness:
  "\<exists>v lib' cs r lib'' cs'. GetCopy easy_vbox (vm_instance 4096) [SetBridge ''br0''] \<lparr>vl_pwd = ''/ova'', vl_known = []\<rparr> = (Inr v, lib', cs) \<and>
     GetCopy easy_vbox (vm_instance 4096) [SetBridge ''br1''] lib' = (r, lib'', cs') \<and>
     [''modifyvm'', vm_id v, ''--memory'', show_nat 4096] \<in> set cs \<and> filter is_resource cs' = []"
proof -
  let ?lib = "\<lparr>vl_pwd = ''/ova'', vl_known = []\<rparr>"
  have "\<exists>w cs. import_vm easy_vbox path n = (Inr w, cs)" for path n
    by (simp add: import_vm_def VmExists_def vm_Create_def Let_def vbox_def easy_vbox_def split: if_split)
  then have "\<exists>w cs. import_vm easy_vbox (getPathFromFile ''/ova'' ''kali'') ''00ff'' = (Inr w, cs)" .
  then obtain w cs1 where w: "import_vm easy_vbox (getPathFromFile ''/ova'' ''kali'') ''00ff'' = (Inr w, cs1)" by (elim exE)
  have "\<exists>v cs. LinkedClone easy_vbox ''origin'' ([SetBridge ''br0''] @ conf_opts (vm_instance 4096)) w = (Inr v, cs)" by (rule easy_clone)
  then obtain v cs2 where v: "LinkedClone easy_vbox ''origin'' ([SetBridge ''br0''] @ conf_opts (vm_instance 4096)) w = (Inr v, cs2)"
    by (elim exE)
  have checksum: "vb_sum easy_vbox path = Inr ''00ff''" for path by (simp add: easy_vbox_def)
  have fields: "ic_image (vm_instance 4096) = ''kali''" "vl_pwd ?lib = ''/ova''" "vl_known ?lib = []" by (simp_all add: vm_instance_def)
  have "\<exists>v lib' cs. GetCopy easy_vbox (vm_instance 4096) [SetBridge ''br0''] ?lib = (Inr v, lib', cs)"
    unfolding GetCopy_def fields checksum Let_def using w v by simp
  then obtain v lib' cs where a: "GetCopy easy_vbox (vm_instance 4096) [SetBridge ''br0''] ?lib = (Inr v, lib', cs)" by (elim exE)
  obtain r lib'' cs' where b: "GetCopy easy_vbox (vm_instance 4096) [SetBridge ''br1''] lib' = (r, lib'', cs')"
    by (cases "GetCopy easy_vbox (vm_instance 4096) [SetBridge ''br1''] lib'")
  have "map_get (vl_known ?lib) (getPathFromFile (vl_pwd ?lib) (ic_image (vm_instance 4096))) = None" "ic_memory (vm_instance 4096) \<noteq> 0"
    by (simp_all add: vm_instance_def)
  from later_copies_lack_memory [OF this a refl b] a b show ?thesis
    by (intro exI conjI) (assumption | simp add: vm_instance_def filter_empty_conv)+
qed

end
