(* ===== verification/Site_Routes.thy ===== *)
theory Site_Routes
  imports Amigo_Actions Vue_Vpn Vue_Challenges Vue_Scoreboard Vue_Teams
begin

text \<open>
  The site's routes (\<^verbatim>\<open>Handler\<close> in svcs/amigo/amigo.go) and the way of a page's request: from the method of a component through
  Go's request multiplexer, here on clean paths, to the handler, and of the answer back to the component. The websocket endpoints, the
  Guacamole service and the served files are parameters, and so are the hooks the daemon passes in.
\<close>

subsection \<open>The multiplexer\<close>

datatype endpoint =
    EIndex | EInfo | EChallenges | ETeams | EHosts | EScoreboard | ESignup | ELogin | ELogout | EConns
  | EFlagVerify | EResetChallenge | EManageChallenge | EResetFrontend | EVPNStatus | EVPNFiles | ELabInfo
  | EGuacLogin | EGuac | EAssets

definition Amigo_Handler :: "int \<Rightarrow> (string \<times> endpoint) list" where
  "Amigo_Handler onlyVPN =
     [(''/'', EIndex), (''/info'', EInfo), (''/challenges'', EChallenges), (''/teams'', ETeams), (''/hosts'', EHosts),
      (''/scoreboard'', EScoreboard), (''/signup'', ESignup), (''/login'', ELogin), (''/logout'', ELogout),
      (''/scores'', EConns), (''/challengesFrontend'', EConns), (''/flags/verify'', EFlagVerify),
      (''/reset/challenge'', EResetChallenge), (''/manage/challenge'', EManageChallenge), (''/reset/frontend'', EResetFrontend),
      (''/vpn/status'', EVPNStatus), (''/vpn/download'', EVPNFiles), (''/get/labsubnet'', ELabInfo)]
     @ (if onlyVPN = 0 \<or> onlyVPN = 2 then [(''/guaclogin'', EGuacLogin), (''/guacamole'', EGuac), (''/guacamole/'', EGuac)] else [])
     @ [(''/assets/'', EAssets)]"

text \<open>An exact pattern, or else the longest one that ends with a slash and begins the path.\<close>

fun longest :: "(string \<times> 'a) list \<Rightarrow> (string \<times> 'a) option" where
  "longest [] = None"
| "longest ((p, h) # ps) =
     (case longest ps of None \<Rightarrow> Some (p, h) | Some (q, g) \<Rightarrow> if length p < length q then Some (q, g) else Some (p, h))"

definition mux_match :: "(string \<times> 'a) list \<Rightarrow> string \<Rightarrow> 'a option" where
  "mux_match pats path =
     (case map_of pats path of
        Some h \<Rightarrow> Some h
      | None \<Rightarrow> map_option snd (longest (filter (\<lambda>(p, h). p \<noteq> [] \<and> last p = CHR ''/'' \<and> starts_with p path) pats)))"

text \<open>A path that is registered only with a slash at its end is redirected there.\<close>

definition mux_route :: "(string \<times> 'a) list \<Rightarrow> string \<Rightarrow> string + 'a option" where
  "mux_route pats path =
     (if map_of pats path = None \<and> map_of pats (path @ ''/'') \<noteq> None then Inl (path @ ''/'') else Inr (mux_match pats path))"

subsection \<open>The handlers behind the routes\<close>

definition handleIndex :: "env \<Rightarrow> string \<Rightarrow> handler" where
  "handleIndex ev path am r =
     (if path \<noteq> ''/'' then Ret ([NotFound], am) else Ret (snd (getSiteInfo ev r) @ [Page ''index''], am))"

definition handleTeams :: "env \<Rightarrow> string \<Rightarrow> handler" where
  "handleTeams ev path am r =
     (if path \<noteq> ''/teams'' then Ret ([NotFound], am) else Ret (snd (getSiteInfo ev r) @ [Page ''teams''], am))"

definition handleSignupGET :: "env \<Rightarrow> handler" where
  "handleSignupGET ev am r = Ret (snd (getSiteInfo ev r) @ [Page ''signup''], am)"

definition handleSignup :: "env \<Rightarrow> hook \<Rightarrow> handler" where
  "handleSignup ev hook am r =
     (if rq_method r = ''GET'' then handleSignupGET ev am r
      else if rq_method r = ''POST'' then handleSignupPOST ev hook am r
      else Ret ([NotFound], am))"

definition handleLoginGET :: handler where
  "handleLoginGET am r = Ret ([Page ''login''], am)"

definition handleLogin :: "env \<Rightarrow> hook \<Rightarrow> handler" where
  "handleLogin ev resumeLabHook am r =
     (if rq_method r = ''GET'' then handleLoginGET am r
      else if rq_method r = ''POST'' then handleLoginPOST ev resumeLabHook am r
      else Ret ([NotFound], am))"

record site_hooks =
  AssignLabHook :: hook
  ResetExerciseHook :: tag_hook
  StartStopExerciseHook :: state_hook
  ResetFrontendHook :: hook
  ResumeTeamLabHook :: hook
  event_tag :: string
  peer_status :: "string \<Rightarrow> string + bool"
  conns_handler :: handler
  guac_handler :: "string \<Rightarrow> handler"
  file_server :: "string \<Rightarrow> handler"

fun endpoint_handler :: "env \<Rightarrow> site_hooks \<Rightarrow> string \<Rightarrow> endpoint \<Rightarrow> handler" where
  "endpoint_handler ev hk path EIndex = handleIndex ev path"
| "endpoint_handler ev hk path EInfo = handleInfo ev"
| "endpoint_handler ev hk path EChallenges = handleChallenges ev"
| "endpoint_handler ev hk path ETeams = handleTeams ev path"
| "endpoint_handler ev hk path EHosts = handleHostsInformation ev"
| "endpoint_handler ev hk path EScoreboard = handleScoreBoard ev"
| "endpoint_handler ev hk path ESignup = handleSignup ev (AssignLabHook hk)"
| "endpoint_handler ev hk path ELogin = handleLogin ev (ResumeTeamLabHook hk)"
| "endpoint_handler ev hk path ELogout = handleLogout"
| "endpoint_handler ev hk path EConns = conns_handler hk"
| "endpoint_handler ev hk path EFlagVerify = json_post (handleFlagVerify ev (StartStopExerciseHook hk))"
| "endpoint_handler ev hk path EResetChallenge = json_post (handleResetChallenge ev (event_tag hk) (ResetExerciseHook hk))"
| "endpoint_handler ev hk path EManageChallenge = json_post (handleStartStopChallenge ev (event_tag hk) (StartStopExerciseHook hk))"
| "endpoint_handler ev hk path EResetFrontend = json_post (handleResetFrontend ev (ResetFrontendHook hk))"
| "endpoint_handler ev hk path EVPNStatus = json_post (handleVPNStatus ev (peer_status hk) (AssignLabHook hk))"
| "endpoint_handler ev hk path EVPNFiles = handleVPNFiles ev"
| "endpoint_handler ev hk path ELabInfo = json_post (handleLabInfo ev)"
| "endpoint_handler ev hk path EGuacLogin = handleGuacConnection ev (AssignLabHook hk)"
| "endpoint_handler ev hk path EGuac = guac_handler hk path"
| "endpoint_handler ev hk path EAssets = file_server hk (drop (length ''/assets'') path)"

definition site_handle :: "env \<Rightarrow> site_hooks \<Rightarrow> string \<Rightarrow> handler" where
  "site_handle ev hk path am r =
     (case mux_route (Amigo_Handler (am_only_vpn am)) path of
        Inl p \<Rightarrow> Ret ([Redirect p], am)
      | Inr None \<Rightarrow> Ret ([NotFound], am)
      | Inr (Some e) \<Rightarrow> endpoint_handler ev hk path e am r)"

subsection \<open>The requests of the pages\<close>

text \<open>
  The options of every \<^verbatim>\<open>fetch\<close> say POST and JSON; the menu's download goes through axios, whose content type is
  the first argument. The session is the cookie the browser adds.
\<close>

definition page_post :: "string \<Rightarrow> string option \<Rightarrow> json option \<Rightarrow> request" where
  "page_post content_type cookie body =
     \<lparr>rq_method = ''POST'', rq_content_type = content_type, rq_session = cookie, rq_form = [],
      rq_body = (case body of None \<Rightarrow> [] | Some j \<Rightarrow> json_stringify j)\<rparr>"

fun page_call ::
  "env \<Rightarrow> site_hooks \<Rightarrow> amigo \<Rightarrow> string \<Rightarrow> string option \<Rightarrow> effect \<Rightarrow> (reply list \<times> amigo) go option" where
  "page_call ev hk am ct cookie (Fetch url body) = Some (site_handle ev hk url am (page_post ct cookie body))"
| "page_call ev hk am ct cookie _ = None"

definition fetch_type :: string where "fetch_type = ''application/json''"

subsection \<open>Routes\<close>

lemma exact_route: "map_of pats path = Some h \<Longrightarrow> mux_route pats path = Inr (Some h)"
  by (simp add: mux_route_def mux_match_def)

lemma site_handle_exact:
  "map_of (Amigo_Handler (am_only_vpn am)) path = Some e \<Longrightarrow> site_handle ev hk path am r = endpoint_handler ev hk path e am r"
  by (simp add: site_handle_def exact_route)

lemma page_routes:
  "map_of (Amigo_Handler v) ''/flags/verify'' = Some EFlagVerify"
  "map_of (Amigo_Handler v) ''/reset/challenge'' = Some EResetChallenge"
  "map_of (Amigo_Handler v) ''/manage/challenge'' = Some EManageChallenge"
  "map_of (Amigo_Handler v) ''/reset/frontend'' = Some EResetFrontend"
  "map_of (Amigo_Handler v) ''/get/labsubnet'' = Some ELabInfo"
  "map_of (Amigo_Handler v) ''/vpn/status'' = Some EVPNStatus"
  "map_of (Amigo_Handler v) ''/vpn/download'' = Some EVPNFiles"
  "map_of (Amigo_Handler v) ''/scores'' = Some EConns"
  "map_of (Amigo_Handler v) ''/challengesFrontend'' = Some EConns"
  by (simp_all add: Amigo_Handler_def map_of_append)

lemma page_post_fields:
  "rq_method (page_post ct c b) = ''POST''" "rq_content_type (page_post ct c b) = ct" "rq_session (page_post ct c b) = c"
  by (simp_all add: page_post_def)

lemma fetched: "json_post h am (page_post fetch_type c b) = h am (page_post fetch_type c b)"
  by (simp add: json_post_def POSTEndpoint_def JSONEndpoint_def page_post_fields fetch_type_def)

text \<open>
  C26. Every request the pages start is served by the handler meant for it: its address is a route of the site of any kind of event,
  and its method and content type pass the middlewares. The sockets of all three pages open on the websocket endpoint.
\<close>
theorem page_requests_served:
  "map (page_call ev hk am fetch_type c) (snd (flag_submit tag fc)) =
     [Some (handleFlagVerify ev (StartStopExerciseHook hk) am
        (page_post fetch_type c (Some (JObj [(''tag'', JStr tag), (''flag'', JStr (fc_flag fc))]))))] \<and>
   map (page_call ev hk am fetch_type c) (snd (reset_submit tag b)) =
     [Some (handleResetChallenge ev (event_tag hk) (ResetExerciseHook hk) am (page_post fetch_type c (Some (JObj [(''tag'', JStr tag)]))))] \<and>
   map (page_call ev hk am fetch_type c) (snd (run_submit tag b)) =
     [Some (handleStartStopChallenge ev (event_tag hk) (StartStopExerciseHook hk) am
        (page_post fetch_type c (Some (JObj [(''tag'', JStr tag)]))))] \<and>
   map (page_call ev hk am fetch_type c) (snd (frontend_submit rf)) =
     [Some (handleResetFrontend ev (ResetFrontendHook hk) am (page_post fetch_type c None))] \<and>
   map (page_call ev hk am fetch_type c) frontend_created = [Some (handleLabInfo ev am (page_post fetch_type c None))] \<and>
   map (page_call ev hk am fetch_type c) (snd (createDropDown dd)) =
     [Some (handleVPNStatus ev (peer_status hk) (AssignLabHook hk) am (page_post fetch_type c None))] \<and>
   page_call ev hk am ct c (downloadConf vid status) =
     Some (handleVPNFiles ev am (page_post ct c (Some (JObj [(''vpnConnID'', JStr vid), (''status'', JStr status)])))) \<and>
   (\<lambda>u. site_handle ev hk (pathname (u loc)) am r) ` {challenges_ws_url, scoreboard_ws_url, teams_ws_url} = {conns_handler hk am r}"
  by (simp add: flag_submit_def reset_submit_def run_submit_def button_submit_def frontend_submit_def frontend_created_def
      getLabSubnet_def createDropDown_def downloadConf_def site_handle_exact page_routes fetched challenges_ws_url_def
      scoreboard_ws_url_def teams_ws_url_def ws_url_def new_url_def Let_def)

subsection \<open>From a page to the server and back\<close>

text \<open>Reading back a body the browser printed.\<close>

lemma safeReadJson_page:
  assumes "length (json_stringify j) \<le> am_max_read am" and "decode j = Some x"
  shows "safeReadJson ev am (page_post ct c (Some j)) decode = Inr x"
  using assms js_printer.parse_print [of j "2 * length (json_stringify j) + 2" "[]"] js_printer.need_le_length [of j]
  by (simp add: safeReadJson_def page_post_def json_stringify_def Let_def)

lemma session_page:
  "rq_session r = c \<Longrightarrow> getTeamFromRequest ev am (page_post ct c b) = getTeamFromRequest ev am r"
  by (simp add: getTeamFromRequest_def page_post_fields)


definition sample_hooks :: site_hooks where
  "sample_hooks = \<lparr>AssignLabHook = no_hook, ResetExerciseHook = (\<lambda>t p. (None, t)), StartStopExerciseHook = (\<lambda>t p b. (None, t)),
     ResetFrontendHook = no_hook, ResumeTeamLabHook = no_hook, event_tag = ''ev'', peer_status = (\<lambda>k. Inr (k = ''k0'')),
     conns_handler = (\<lambda>am r. Ret ([], am)), guac_handler = (\<lambda>path am r. Ret ([], am)), file_server = (\<lambda>path am r. Ret ([], am))\<rparr>"

definition typed :: "string \<Rightarrow> flag_checker" where
  "typed f = flag_checker_init\<lparr>fc_flag := f\<rparr>"


text \<open>
  C40. From the VPN menu to the saved file: when the connections of a team are shown, a click on any of the first four asks for
  its own configuration file, and the page saves it under the name the server gives it; the menu shows one entry for each
  configuration of the team.
\<close>
theorem vpn_file_from_page:
  assumes "getTeamFromRequest ev am r = (Inr t, w)" and "rq_session r = c" and "isLabAssigned t"
    and "vpn_replies (peer_status hk) t = [ReplyJson 200 (JArr js)]" and "i < length js" and "i < 4" and "length js < 2 ^ 63"
    and "length (json_stringify (JObj [(''vpnConnID'', JStr (prop_str ''vpnConnID'' (js ! i))), (''status'', JStr status)])) \<le> am_max_read am"
  shows "map (page_call ev hk am fetch_type c) (snd (createDropDown dd)) = [Some (Ret (w @ [ReplyJson 200 (JArr js)], am))] \<and>
    dropDownList (snd (dropdown_response (JArr js) (fst (createDropDown dd)))) = js \<and> length js = length (vpnConf t) \<and>
    (let vid = prop_str ''vpnConnID'' (js ! i); saved = save_download vid (vpnConf t ! i) in
     page_call ev hk am ct c (downloadConf vid status) = Some (Ret (w @ [File (fst saved) (snd saved)], am)))"
proof -
  obtain js' where loop: "vpn_loop (peer_status hk) (vpnKeys t) 0 (length (vpnConf t)) = Inr js'" and js: "json_slice js' = JArr js"
    using assms(4) by (auto simp: vpn_replies_def replyJsonRequestErr_def split: if_splits sum.splits)
  from js assms(5) have "js' = js" by (auto simp: json_slice_def split: if_splits)
  with loop vpn_loop_ids have "\<exists>st. js ! i = json_vpn i st" using assms(5) by fastforce
  then obtain st where ji: "js ! i = json_vpn i st" by blast
  let ?vid = "prop_str ''vpnConnID'' (js ! i)"
  have vid: "js_prop ''vpnConnID'' (js ! i) = Some (JStr ?vid)" by (simp add: ji json_vpn_def prop_str_def)
  let ?r = "page_post ct c (Some (JObj [(''vpnConnID'', JStr ?vid), (''status'', JStr status)]))"
  have s: "getTeamFromRequest ev am (page_post ct' c b) = (Inr t, w)" for ct' b
    using session_page [OF assms(2)] assms(1) by simp
  have "safeReadJson ev am ?r decode_vpn = Inr ?vid"
    by (rule safeReadJson_page [OF assms(8)]) (simp add: decode_vpn_def)
  note served = vpn_status_download [OF s assms(3,4,5,7) vid this, of "AssignLabHook hk"]
  have "handleVPNStatus ev (peer_status hk) (AssignLabHook hk) am (page_post fetch_type c None) = Ret (w @ [ReplyJson 200 (JArr js)], am)"
    using s [of fetch_type None] assms(3,4) by (simp add: handleVPNStatus_def)
  then show ?thesis
    using served assms(6)
    by (simp add: createDropDown_def downloadConf_def save_download_def site_handle_exact page_routes fetched
        dropdown_response_items indexed_items_def Let_def)
qed

lemma vpn_file_from_page_witness:
  "\<exists>js. dropDownList (snd (dropdown_response (JArr js) (fst (createDropDown dropdown_init)))) = js \<and> length js = 2 \<and>
     page_call sample_env sample_hooks vpn_am ''application/json;charset=utf-8'' (Some ''a1|red'')
       (downloadConf (prop_str ''vpnConnID'' (js ! 1)) ''N/U'') = Some (Ret ([File ''conn_1.conf'' ''[Interface] 1''], vpn_am))"
proof -
  let ?js = "[json_vpn 0 ''USED'', json_vpn 1 ''N/U'']"
  have c: "rq_session (user_request []) = Some ''a1|red''" by (simp add: user_request_def)
  have c1: "conn_id 1 = ''conn_1''" by code_simp
  have vid: "prop_str ''vpnConnID'' (?js ! 1) = ''conn_1''" using c1 by (simp add: json_vpn_def prop_str_def)
  have rep: "vpn_replies (peer_status sample_hooks) vpn_member = [ReplyJson 200 (JArr ?js)]"
    by (simp add: sample_hooks_def vpn_replies_def vpn_member_def member_def sample_team_state_def json_slice_def map_get_Cons
        numeral_2_eq_2)
  have lab: "isLabAssigned vpn_member" by (simp add: vpn_member_def member_def sample_team_state_def)
  have len: "1 < length ?js" "1 < (4 :: nat)" "length ?js < 2 ^ 63" by simp_all
  have conf: "vpnConf vpn_member ! 1 = ''[Interface] 1''" "length (vpnConf vpn_member) = 2" by (simp_all add: vpn_member_def)
  have body: "length (json_stringify (JObj [(''vpnConnID'', JStr (prop_str ''vpnConnID'' (?js ! 1))), (''status'', JStr ''N/U'')]))
      \<le> am_max_read vpn_am"
    unfolding vid
    by (simp add: json_stringify_def quoted_def js_escape_def quote_char_def backslash_def newline_def vpn_am_def sample_am_def sample_site_def)
  note all = vpn_file_from_page [OF vpn_session c lab rep len body, of dropdown_init "''application/json;charset=utf-8''",
      unfolded Let_def vid conf save_download_def fst_conv snd_conv append.simps(1)]
  have "length ?js = 2" by simp
  moreover have "''conn_1'' @ ''.conf'' = ''conn_1.conf''" by simp
  ultimately show ?thesis
    using all [THEN conjunct2, THEN conjunct1] all [THEN conjunct2, THEN conjunct2, THEN conjunct2]
    by (intro exI [of _ ?js] conjI) (simp_all only: vid)
qed

end
