(* ===== verification/Daemon_Listings.thy ===== *)
theory Daemon_Listings
  imports Daemon_Teams Virtual_Vbox
begin

text \<open>
  The daemon's listings and the calls that only pass something on (daemon/exercise.go, daemon/event.go, daemon/instance.go,
  daemon/host.go): exercises, profiles, events and teams as a user may see them, frontends, the stress test, notifications and the
  credentials of the API. What the database and the exercise service answer is an argument; an entry that cannot be converted
  is \<open>None\<close>. The renderer of descriptions is a parameter.
\<close>

datatype list_error =
    NotSignedIn
  | ServiceFail string
  | ConvertFail
  | NotPrivileged string
  | BadEvent team_error
  | Replied string
  | LabFail lab_error

subsection \<open>Exercises\<close>

record exercise_info =
  xi_tag :: string
  xi_name :: string
  xi_points :: "32 word"
  xi_category :: string
  xi_description :: string

record listed_exercise =
  lx_name :: string
  lx_tags :: "string list"
  lx_secret :: bool
  lx_docker :: "32 word"
  lx_vbox :: "32 word"
  lx_info :: "exercise_info list"
  lx_description :: string

type_synonym served_exercise = "exercise_conf \<times> int"

definition shown :: "bool \<Rightarrow> user \<Rightarrow> served_exercise \<Rightarrow> bool" where
  "shown production u e \<longleftrightarrow> \<not> (\<not> u_super u \<and> ex_secret (fst e)) \<and> \<not> (production \<and> snd e = 1)"

fun shown_loop :: "bool \<Rightarrow> user \<Rightarrow> served_exercise option list \<Rightarrow> list_error + exercise_conf list" where
  "shown_loop production u [] = Inr []"
| "shown_loop production u (None # es) = Inl ConvertFail"
| "shown_loop production u (Some e # es) =
     (case shown_loop production u es of
        Inl x \<Rightarrow> Inl x
      | Inr cs \<Rightarrow> Inr (if shown production u e then fst e # cs else cs))"

definition exercise_infos :: "ex_instance \<Rightarrow> exercise_info list" where
  "exercise_infos i =
     map (\<lambda>c. \<lparr>xi_tag = cc_tag c, xi_name = cc_name c, xi_points = ucast (cc_points c), xi_category = cc_category c,
              xi_description = cc_description c\<rparr>) (ei_flags i)"

text \<open>The count of machines runs on over all exercises; with no registry configured the first image panics.\<close>

fun instance_count :: "string list \<Rightarrow> ex_instance list \<Rightarrow> 32 word \<Rightarrow> 32 word go" where
  "instance_count repos [] n = Ret n"
| "instance_count [] (i # is) n = Panic"
| "instance_count (reg # repos) (i # is) n = instance_count (reg # repos) is (if Contains (ei_image i) reg then n else n + 1)"

fun list_loop :: "(string \<Rightarrow> string) \<Rightarrow> string list \<Rightarrow> exercise_conf list \<Rightarrow> 32 word \<Rightarrow> listed_exercise list go" where
  "list_loop render repos [] n = Ret []"
| "list_loop render repos (e # es) n =
     go_bind (instance_count repos (ex_instances e) n) (\<lambda>n.
       go_bind (list_loop render repos es n) (\<lambda>rest.
         Ret (\<lparr>lx_name = ex_name e, lx_tags = [ex_tag e], lx_secret = ex_secret e, lx_docker = of_nat (length (ex_instances e)),
               lx_vbox = n, lx_info = concat (map exercise_infos (ex_instances e)), lx_description = render (ex_description e)\<rparr>
              # rest)))"

definition ListExercises ::
  "(string \<Rightarrow> string) \<Rightarrow> string list \<Rightarrow> bool \<Rightarrow> string + served_exercise option list \<Rightarrow> user option \<Rightarrow>
   (list_error + listed_exercise list) go" where
  "ListExercises render repos production service ctx =
     (case ctx of
        None \<Rightarrow> Ret (Inl NotSignedIn)
      | Some u \<Rightarrow>
          (case service of
             Inl x \<Rightarrow> Ret (Inl (ServiceFail x))
           | Inr exes \<Rightarrow>
               (case shown_loop production u exes of
                  Inl x \<Rightarrow> Ret (Inl x)
                | Inr exers \<Rightarrow> go_bind (list_loop render repos exers 0) (\<lambda>ls. Ret (Inr ls)))))"

subsection \<open>Profiles\<close>

record profile =
  pf_name :: string
  pf_secret :: bool
  pf_challenges :: "(string \<times> string) list"

datatype profile_call = AddProfile profile | UpdateProfile profile | DropProfile string

text \<open>\<open>db\<close> answers with its error or with its message; the calls made are returned.\<close>

definition SaveProfile :: "(profile_call \<Rightarrow> string + string) \<Rightarrow> user option \<Rightarrow> profile \<Rightarrow> list_error option \<times> profile_call list" where
  "SaveProfile db ctx p =
     (case ctx of
        None \<Rightarrow> (Some NotSignedIn, [])
      | Some u \<Rightarrow>
          if \<not> u_np u
          then ((case db (AddProfile p) of Inl x \<Rightarrow> Some (ServiceFail x) | Inr message \<Rightarrow> Some (Replied message)), [AddProfile p])
          else (Some (NotPrivileged ''create''), []))"

definition EditProfile :: "(profile_call \<Rightarrow> string + string) \<Rightarrow> user option \<Rightarrow> profile \<Rightarrow> list_error option \<times> profile_call list" where
  "EditProfile db ctx p =
     (case ctx of
        None \<Rightarrow> (Some NotSignedIn, [])
      | Some u \<Rightarrow>
          if \<not> u_np u
          then ((case db (UpdateProfile p) of Inl x \<Rightarrow> Some (ServiceFail x) | Inr _ \<Rightarrow> None), [UpdateProfile p])
          else (Some (NotPrivileged ''update''), []))"

definition DeleteProfile :: "(profile_call \<Rightarrow> string + string) \<Rightarrow> user option \<Rightarrow> string \<Rightarrow> list_error option \<times> profile_call list" where
  "DeleteProfile db ctx name =
     (case ctx of
        None \<Rightarrow> (Some NotSignedIn, [])
      | Some u \<Rightarrow>
          if \<not> u_np u
          then ((case db (DropProfile name) of Inl x \<Rightarrow> Some (ServiceFail x) | Inr _ \<Rightarrow> None), [DropProfile name])
          else (Some (NotPrivileged ''delete''), []))"

definition ListProfiles :: "string + profile option list \<Rightarrow> user option \<Rightarrow> list_error + profile list" where
  "ListProfiles service ctx =
     (case ctx of
        None \<Rightarrow> Inl NotSignedIn
      | Some u \<Rightarrow>
          (case service of
             Inl x \<Rightarrow> Inl (ServiceFail x)
           | Inr ps \<Rightarrow>
               if None \<in> set ps then Inl ConvertFail
               else Inr (filter (\<lambda>p. \<not> (\<not> u_super u \<and> pf_secret p)) (map the ps))))"

subsection \<open>Events and teams\<close>

record listed_event =
  le_tag :: string
  le_name :: string
  le_teams :: "32 word"
  le_exercises :: string
  le_available :: "32 word"
  le_capacity :: "32 word"
  le_started :: string
  le_finish :: string
  le_status :: int
  le_created_by :: string
  le_secret :: string

definition listed_event_of :: "user \<Rightarrow> nat \<Rightarrow> db_event \<Rightarrow> listed_event" where
  "listed_event_of u n e =
     \<lparr>le_tag = db_tag e, le_name = db_name e, le_teams = of_nat n, le_exercises = db_exercises e, le_available = db_available e,
      le_capacity = db_capacity e, le_started = db_started e, le_finish = db_finish e, le_status = db_status e,
      le_created_by = db_created_by e,
      le_secret = (if u_super u \<or> u_username u = db_created_by e then db_secret e else [])\<rparr>"

fun events_loop :: "(string \<Rightarrow> string + db_team list) \<Rightarrow> user \<Rightarrow> db_event list \<Rightarrow> list_error + listed_event list" where
  "events_loop teams_of u [] = Inr []"
| "events_loop teams_of u (e # es) =
     (case teams_of (db_tag e) of
        Inl x \<Rightarrow> Inl (ServiceFail x)
      | Inr ts \<Rightarrow>
          (case events_loop teams_of u es of Inl x \<Rightarrow> Inl x | Inr ls \<Rightarrow> Inr (listed_event_of u (length ts) e # ls)))"

definition ListEvents ::
  "(int \<Rightarrow> string + db_event list) \<Rightarrow> (string \<Rightarrow> string + db_team list) \<Rightarrow> user option \<Rightarrow> int \<Rightarrow> list_error + listed_event list" where
  "ListEvents events teams_of ctx status =
     (case ctx of
        None \<Rightarrow> Inl NotSignedIn
      | Some u \<Rightarrow> (case events status of Inl x \<Rightarrow> Inl (ServiceFail x) | Inr es \<Rightarrow> events_loop teams_of u es))"

text \<open>Identifier, name, e-mail and the last access, in its format.\<close>

definition ListEventTeams :: "(string \<Rightarrow> string) \<Rightarrow> string \<Rightarrow> live_pool \<Rightarrow> list_error + (string \<times> string \<times> string \<times> string) list" where
  "ListEventTeams display eventTag ep =
     (case tagged_event eventTag ep of
        Inl x \<Rightarrow> Inl (BadEvent x)
      | Inr (tag, ev) \<Rightarrow>
          Inr (map (\<lambda>t. (TrimSpace (t_id t), TrimSpace (t_name t), TrimSpace (t_email t), display (lastAccess t))) (live_teams ev)))"

text \<open>The notification of each event's site, by the tag of the event.\<close>

definition AddNotification ::
  "user option \<Rightarrow> string \<Rightarrow> bool \<Rightarrow> live_pool \<Rightarrow> (string, string \<times> bool) gomap \<Rightarrow> list_error option \<times> (string, string \<times> bool) gomap" where
  "AddNotification ctx message loggedUsers ep notes =
     (case ctx of
        None \<Rightarrow> (Some NotSignedIn, notes)
      | Some u \<Rightarrow>
          if \<not> u_super u then (Some (NotPrivileged ''notify''), notes)
          else (None, foldl (\<lambda>ns (tag, ev). map_put tag (TrimSpace message, loggedUsers) ns) notes (ep_events ep)))"

definition GetAPICreds :: "string \<times> string \<Rightarrow> user option \<Rightarrow> list_error + string \<times> string" where
  "GetAPICreds creds ctx =
     (case ctx of
        None \<Rightarrow> Inl NotSignedIn
      | Some u \<Rightarrow> if \<not> u_super u then Inl (NotPrivileged ''credentials'') else Inr creds)"

subsection \<open>Frontends\<close>

definition SetFrontendMemory :: "bool \<Rightarrow> string \<Rightarrow> 64 word \<Rightarrow> frontend_store \<Rightarrow> config_error option \<times> frontend_store" where
  "SetFrontendMemory write_ok img memoryMB fs = SetMemoryMB write_ok img memoryMB fs"

definition SetFrontendCpu :: "bool \<Rightarrow> string \<Rightarrow> rat \<Rightarrow> frontend_store \<Rightarrow> config_error option \<times> frontend_store" where
  "SetFrontendCpu write_ok img cpu fs = SetCpu write_ok img cpu fs"

fun front_teams ::
  "(string \<Rightarrow> host) \<Rightarrow> string list \<Rightarrow> (string \<times> string) list \<Rightarrow> live_event \<Rightarrow> list_error option \<times> (string \<times> string) list \<times> live_event" where
  "front_teams h [] sent ev = (None, sent, ev)"
| "front_teams h (tid # tids) sent ev =
     (case GetLabByTeam tid (lv_event ev) of
        None \<Rightarrow> front_teams h tids (sent @ [(tid, ''?'')]) ev
      | Some l \<Rightarrow>
          (case ResetFrontends (h tid) l of
             (err, l) \<Rightarrow>
               let ev = put_team_lab tid l ev in
               (case err of
                  Some x \<Rightarrow> (Some (LabFail x), sent, ev)
                | None \<Rightarrow> front_teams h tids (sent @ [(tid, ''ok'')]) ev)))"

definition api_ResetFrontends ::
  "(string \<Rightarrow> host) \<Rightarrow> string \<Rightarrow> string list option \<Rightarrow> live_pool \<Rightarrow> list_error option \<times> (string \<times> string) list \<times> live_pool" where
  "api_ResetFrontends h eventTag reqTeams ep =
     (case tagged_event eventTag ep of
        Inl x \<Rightarrow> (Some (BadEvent x), [], ep)
      | Inr (tag, ev) \<Rightarrow>
          (case front_teams h (case reqTeams of Some tids \<Rightarrow> tids | None \<Rightarrow> map t_id (live_teams ev)) [] ev of
             (err, sent, ev) \<Rightarrow> (err, sent, put_live tag ev ep)))"

text \<open>
  The files below the directory of images, with their sizes, as the walk meets them. \<open>join_parts\<close> is \<^verbatim>\<open>filepath.Join\<close> on parts without
  dots, which begin with no slash.
\<close>

definition join_parts :: "string list \<Rightarrow> string" where
  "join_parts parts = join_with CHR ''/'' (filter (\<lambda>s. s \<noteq> []) (concat (map (split_on CHR ''/'') parts)))"

definition frontend_image :: "string \<Rightarrow> string" where
  "frontend_image relativePath = join_parts (butlast (split_on CHR ''.'' relativePath))"

definition ListFrontends :: "frontend_store \<Rightarrow> (string \<times> int) list \<Rightarrow> (string \<times> int \<times> 64 word \<times> rat) list" where
  "ListFrontends fs files =
     map (\<lambda>(path, size). let img = frontend_image path; ic = hd (GetFrontends fs [img]) in (img, size, ic_memory ic, ic_cpu ic))
       (filter (\<lambda>(path, size). HasSuffixStr path ''.ova'') files)"

subsection \<open>The stress test\<close>

text \<open>The answers of the posts arrive in some order on a channel; the call waits for the first one, and for ever if none is sent.\<close>

definition stress_endpoint :: "bool \<Rightarrow> nat \<Rightarrow> string \<Rightarrow> string \<Rightarrow> string" where
  "stress_endpoint tls port http_host eventName =
     (if tls then ''https://'' else ''http://'') @ eventName @ ''.'' @ http_host @ '':'' @ show_nat port @ ''/signup''"

definition StressEvent ::
  "user option \<Rightarrow> string \<Rightarrow> int \<Rightarrow> live_pool \<Rightarrow> string list \<Rightarrow> (list_error + string) option" where
  "StressEvent ctx eventName numberOfTeams ep arrivals =
     (case ctx of
        None \<Rightarrow> Some (Inl NotSignedIn)
      | Some u \<Rightarrow>
          if \<not> u_super u then Some (Inl (NotPrivileged ''stress test''))
          else (case GetEvent ep eventName of
                  Inl x \<Rightarrow> Some (Inl (BadEvent (PoolFail x)))
                | Inr ev \<Rightarrow>
                    if ec_capacity (es_conf (lv_store ev)) < numberOfTeams then Some (Inl (Replied ''capacity''))
                    else (case take (nat numberOfTeams) arrivals of [] \<Rightarrow> None | response # _ \<Rightarrow> Some (Inr response))))"

definition charSet :: string where
  "charSet = ''abcdefghijklmnopqrstuvwxyzABCDEFGHIJKLMNOPQRSTUVWXYZ''"

definition numSet :: string where "numSet = ''0123456789''"

text \<open>Every call seeds a source of its own; \<open>draw\<close> is what it gives, below its argument.\<close>

definition stringWithCharset :: "(nat \<Rightarrow> nat \<Rightarrow> nat) \<Rightarrow> nat \<Rightarrow> string \<Rightarrow> string" where
  "stringWithCharset draw n charset = map (\<lambda>i. charset ! draw i (length charset)) [0..<n]"

definition constructRandomValues :: "(nat \<Rightarrow> nat \<Rightarrow> nat \<Rightarrow> nat) \<Rightarrow> (string \<times> string) list" where
  "constructRandomValues draws =
     (let name = stringWithCharset (draws 0) 10 charSet;
          email = stringWithCharset (draws 1) 10 charSet @ ''@'' @ stringWithCharset (draws 2) 10 charSet @ ''.com'';
          password = stringWithCharset (draws 3) 6 numSet
      in [(''email'', email), (''team-name'', name), (''password'', password), (''password-repeat'', password)])"

subsection \<open>What is shown to whom\<close>

lemma shown_loop_all: "shown_loop production u (map Some es) = Inr (map fst (filter (shown production u) es))"
  by (induction es) auto

lemma instance_count_eq:
  "instance_count (reg # repos) is n = Ret (n + of_nat (length (filter (\<lambda>i. \<not> Contains (ei_image i) reg) is)))"
  by (induction "is" arbitrary: n) simp_all

lemma list_loop_eq:
  "\<exists>ls. list_loop render (reg # repos) es n = Ret ls \<and> length ls = length es \<and>
     (\<forall>k < length es. lx_name (ls ! k) = ex_name (es ! k) \<and> lx_tags (ls ! k) = [ex_tag (es ! k)] \<and>
        lx_secret (ls ! k) = ex_secret (es ! k) \<and>
        lx_vbox (ls ! k) = n + of_nat (length (filter (\<lambda>i. \<not> Contains (ei_image i) reg) (concat (map ex_instances (take (Suc k) es))))))"
proof (induction es arbitrary: n)
  case (Cons e es)
  let ?n = "n + of_nat (length (filter (\<lambda>i. \<not> Contains (ei_image i) reg) (ex_instances e)))"
  obtain ls where ls: "list_loop render (reg # repos) es ?n = Ret ls" "length ls = length es"
    "\<forall>k < length es. lx_name (ls ! k) = ex_name (es ! k) \<and> lx_tags (ls ! k) = [ex_tag (es ! k)] \<and>
        lx_secret (ls ! k) = ex_secret (es ! k) \<and>
        lx_vbox (ls ! k) = ?n + of_nat (length (filter (\<lambda>i. \<not> Contains (ei_image i) reg) (concat (map ex_instances (take (Suc k) es)))))"
    using Cons.IH [of ?n] by blast
  then show ?case
    by (simp add: instance_count_eq) (auto simp: nth_Cons algebra_simps split: nat.split)
qed simp

text \<open>
  The list of exercises holds, in the order of the service, exactly those the user may see: secret ones are for super users only, and in
  production those under test are for nobody. The number of virtual machines of the k-th one counts the instances of all
  listed exercises up to it.
\<close>
theorem exercises_listed:
  "\<exists>ls. ListExercises render (reg # repos) production (Inr (map Some es)) (Some u) = Ret (Inr ls) \<and>
     (let cs = map fst (filter (shown production u) es) in
      map lx_name ls = map ex_name cs \<and> map lx_tags ls = map (\<lambda>c. [ex_tag c]) cs \<and>
      list_all (\<lambda>x. u_super u \<or> \<not> lx_secret x) ls \<and>
      map lx_vbox ls = map (\<lambda>k. of_nat (length (filter (\<lambda>i. \<not> Contains (ei_image i) reg) (concat (map ex_instances (take (Suc k) cs))))))
        [0..<length cs])"
proof -
  let ?cs = "map fst (filter (shown production u) es)"
  obtain ls where ls: "list_loop render (reg # repos) ?cs 0 = Ret ls" "length ls = length ?cs"
    and k: "\<forall>k < length ?cs. lx_name (ls ! k) = ex_name (?cs ! k) \<and> lx_tags (ls ! k) = [ex_tag (?cs ! k)] \<and>
        lx_secret (ls ! k) = ex_secret (?cs ! k) \<and>
        lx_vbox (ls ! k) = 0 + of_nat (length (filter (\<lambda>i. \<not> Contains (ei_image i) reg) (concat (map ex_instances (take (Suc k) ?cs)))))"
    using list_loop_eq [of render reg repos ?cs 0] by blast
  have "u_super u \<or> \<not> ex_secret (?cs ! k)" if "k < length ?cs" for k
    using nth_mem [OF that] by (auto simp: shown_def)
  then have "list_all (\<lambda>x. u_super u \<or> \<not> lx_secret x) ls" using ls(2) k by (auto simp: list_all_length)
  moreover have "map lx_name ls = map ex_name ?cs" "map lx_tags ls = map (\<lambda>c. [ex_tag c]) ?cs"
    using ls(2) k by (auto intro!: nth_equalityI)
  moreover have "map lx_vbox ls = map (\<lambda>k. of_nat (length (filter (\<lambda>i. \<not> Contains (ei_image i) reg) (concat (map ex_instances (take (Suc k) ?cs))))))
        [0..<length ?cs]"
    using ls(2) k by (auto intro!: nth_equalityI)
  ultimately show ?thesis using ls(1) by (simp only: ListExercises_def option.case sum.case shown_loop_all go_bind.simps Let_def) simp
qed

text \<open>The same events with other keys for those that other users have created.\<close>

definition rekey :: "user \<Rightarrow> (db_event \<Rightarrow> string) \<Rightarrow> db_event \<Rightarrow> db_event" where
  "rekey u key e = (if db_created_by e = u_username u then e else e\<lparr>db_secret := key e\<rparr>)"

lemma listed_rekey:
  assumes "\<not> u_super u"
  shows "db_tag (rekey u key e) = db_tag e" and "listed_event_of u n (rekey u key e) = listed_event_of u n e"
  using assms by (auto simp: rekey_def listed_event_of_def)

lemma events_loop_rekey: "\<not> u_super u \<Longrightarrow> events_loop teams_of u (map (rekey u key) es) = events_loop teams_of u es"
  by (induction es) (auto simp: listed_rekey split: sum.split)

lemma events_loop_keys:
  "\<not> u_super u \<Longrightarrow> events_loop teams_of u es = Inr ls \<Longrightarrow> list_all (\<lambda>l. le_secret l = [] \<or> le_created_by l = u_username u) ls"
  by (induction es arbitrary: ls) (auto simp: listed_event_of_def split: sum.splits)

text \<open>
  C27. Secret keys stay with those who may know them: what a user without super rights is shown of the events does not depend on the
  keys of events that others have created, and every key that is shown is one of the user's own events.
\<close>
theorem secret_keys_hidden:
  assumes "\<not> u_super u"
  shows "ListEvents (\<lambda>st. map_sum id (map (rekey u key)) (events st)) teams_of (Some u) status = ListEvents events teams_of (Some u) status \<and>
    (case ListEvents events teams_of (Some u) status of
       Inl x \<Rightarrow> True
     | Inr ls \<Rightarrow> list_all (\<lambda>l. le_secret l = [] \<or> le_created_by l = u_username u) ls)"
  using events_loop_keys [OF assms, of teams_of]
  by (auto simp: ListEvents_def events_loop_rekey [OF assms] split: sum.split)

definition kept_event :: "string \<Rightarrow> string \<Rightarrow> db_event" where
  "kept_event tag owner = \<lparr>db_name = tag, db_tag = tag, db_available = 1, db_capacity = 2, db_frontends = [], db_exercises = [], db_disabled = [],
     db_started = [], db_finish = [], db_status = 0, db_created_by = owner, db_only_vpn = 0, db_secret = ''key''\<rparr>"

lemma profiles_need_rights:
  assumes "u_np u"
  shows "snd (SaveProfile db (Some u) p) = []" "snd (EditProfile db (Some u) p) = []" "snd (DeleteProfile db (Some u) n) = []"
  using assms by (simp_all add: SaveProfile_def EditProfile_def DeleteProfile_def)

text \<open>Saving a profile reports an error even when the database has stored it.\<close>

lemma save_profile_errs: "fst (SaveProfile db ctx p) \<noteq> None"
  by (simp add: SaveProfile_def split: option.split sum.split)

lemma secret_profiles_hidden:
  "ListProfiles service (Some u) = Inr ps \<Longrightarrow> \<not> u_super u \<Longrightarrow> list_all (\<lambda>p. \<not> pf_secret p) ps"
  by (auto simp: ListProfiles_def list_all_iff split: sum.splits if_splits)

subsection \<open>Frontends\<close>

lemma split_clean_filter:
  "list_all (\<lambda>s. s \<noteq> []) (split_on c n) \<Longrightarrow> filter (\<lambda>s. s \<noteq> []) (split_on c n) = split_on c n"
  by (simp add: list_all_iff filter_id_conv)

lemma join_parts_no_dot:
  assumes "list_all (\<lambda>s. CHR ''.'' \<notin> set s) parts"
  shows "CHR ''.'' \<notin> set (join_parts parts)"
proof
  assume "CHR ''.'' \<in> set (join_parts parts)"
  then obtain s p where "p \<in> set parts" "s \<in> set (split_on CHR ''/'' p)" "CHR ''.'' \<in> set s"
    by (auto simp: join_parts_def dest!: join_with_set)
  moreover have "set s \<subseteq> set p" if "s \<in> set (split_on c p)" for c s p
    using that
  proof (induction p arbitrary: s)
    case (Cons x xs)
    then show ?case by (fastforce split: if_splits list.splits)
  qed simp
  ultimately show False using assms by (fastforce simp: list_all_iff)
qed

lemma split_ova:
  "split_on CHR ''.'' (n @ ''.ova'') = split_on CHR ''.'' n @ [''ova'']"
proof (induction n)
  case (Cons c n)
  then show ?case by (cases "split_on CHR ''.'' n") auto
qed simp

text \<open>
  A frontend is listed under a name that leads back to its file exactly when the file's name has no other dot than that of its
  extension: then the name is the path without the extension, and looking it up as an image gives the path again; a
  dot before that becomes a directory.
\<close>
theorem frontend_listed_by_name:
  assumes "list_all (\<lambda>s. s \<noteq> []) (split_on CHR ''/'' n)" and "pwd \<noteq> []" and "take (length pwd) n \<noteq> pwd"
  shows "(frontend_image (n @ ''.ova'') = n \<longleftrightarrow> CHR ''.'' \<notin> set n) \<and>
    (CHR ''.'' \<notin> set n \<longrightarrow> getPathFromFile pwd (frontend_image (n @ ''.ova'')) = pwd @ ''/'' @ n @ ''.ova'')"
proof -
  have image: "frontend_image (n @ ''.ova'') = join_parts (split_on CHR ''.'' n)" by (simp add: frontend_image_def split_ova)
  have clean: "frontend_image (n @ ''.ova'') = n" if "CHR ''.'' \<notin> set n"
    using that assms(1) by (simp add: image split_on_no_sep join_parts_def split_clean_filter join_split)
  have "CHR ''.'' \<notin> set (frontend_image (n @ ''.ova''))"
    unfolding image by (rule join_parts_no_dot) (simp add: list_all_iff split_on_pieces)
  moreover have "getPathFromFile pwd n = pwd @ ''/'' @ n @ ''.ova''" if "CHR ''.'' \<notin> set n"
  proof -
    have "n \<noteq> []" using assms(1) by auto
    moreover have "\<not> HasSuffixStr (pwd @ ''/'' @ n) ''.ova''"
    proof
      assume "HasSuffixStr (pwd @ ''/'' @ n) ''.ova''"
      then obtain xs where "pwd @ CHR ''/'' # n = xs @ ''.ova''"
        unfolding HasSuffixStr_def by (metis append_Cons append_Nil append_take_drop_id)
      then consider us where "us @ CHR ''/'' # n = ''.ova''" | us where "CHR ''/'' # n = us @ ''.ova''"
        by (auto simp: append_eq_append_conv2)
      then show False
      proof cases
        case 1
        then have "CHR ''/'' \<in> set ''.ova''" by (metis in_set_conv_decomp)
        then show False by simp
      next
        case 2
        with that show False by (cases us) auto
      qed
    qed
    ultimately show ?thesis using assms(2,3) by (simp add: getPathFromFile_def join_path_def)
  qed
  ultimately show ?thesis using clean by metis
qed

subsection \<open>Witnesses\<close>

lemma secret_keys_hidden_witness:
  "ListEvents (\<lambda>st. map_sum id (map (rekey (plain_user ''ann'') (\<lambda>e. ''other''))) (Inr [kept_event ''a'' ''bob'', kept_event ''b'' ''ann''])) (\<lambda>tag. Inr [])
      (Some (plain_user ''ann'')) 0 =
    ListEvents (\<lambda>st. Inr [kept_event ''a'' ''bob'', kept_event ''b'' ''ann'']) (\<lambda>tag. Inr []) (Some (plain_user ''ann'')) 0"
proof -
  have "\<not> u_super (plain_user ''ann'')" by (simp add: plain_user_def admin_user_def)
  from secret_keys_hidden [OF this, of "\<lambda>e. ''other''" "\<lambda>st. Inr [kept_event ''a'' ''bob'', kept_event ''b'' ''ann'']"] show ?thesis by blast
qed

lemma frontend_listed_by_name_witness:
  "frontend_image ''linux/kali.ova'' = ''linux/kali'' \<and> getPathFromFile ''/ova'' ''linux/kali'' = ''/ova/linux/kali.ova'' \<and>
   frontend_image ''kali.v2.ova'' \<noteq> ''kali.v2''"
proof -
  have "list_all (\<lambda>s. s \<noteq> []) (split_on CHR ''/'' ''linux/kali'')" "''/ova'' \<noteq> []" "take (length ''/ova'') ''linux/kali'' \<noteq> ''/ova''"
    by simp_all
  note a = frontend_listed_by_name [OF this]
  have "list_all (\<lambda>s. s \<noteq> []) (split_on CHR ''/'' ''kali.v2'')" "''/ova'' \<noteq> []" "take (length ''/ova'') ''kali.v2'' \<noteq> ''/ova''"
    by simp_all
  note b = frontend_listed_by_name [OF this]
  have no: "CHR ''.'' \<notin> set ''linux/kali''" and dot: "CHR ''.'' \<in> set ''kali.v2''" by simp_all
  have names: "''linux/kali'' @ ''.ova'' = ''linux/kali.ova''" "''kali.v2'' @ ''.ova'' = ''kali.v2.ova''" by simp_all
  from a no have 1: "frontend_image (''linux/kali'' @ ''.ova'') = ''linux/kali''" by blast
  from a no have "getPathFromFile ''/ova'' (frontend_image (''linux/kali'' @ ''.ova'')) = ''/ova'' @ ''/'' @ ''linux/kali'' @ ''.ova''" by blast
  then have "getPathFromFile ''/ova'' ''linux/kali'' = ''/ova/linux/kali.ova''" unfolding 1 by (simp only: append.simps)
  with 1 b dot show ?thesis unfolding names by blast
qed

subsection \<open>Resetting frontends\<close>

text \<open>Everything in a lab's environment but the number of the next machine.\<close>

definition lab_content :: "lab \<Rightarrow> environment" where
  "lab_content l = (lb_env l)\<lparr>en_next := 0\<rparr>"

lemma addFrontend_env: "lab_content (snd (addFrontend h conf p l)) = lab_content l"
  by (simp add: addFrontend_def lab_content_def Let_def split: option.split prod.split sum.split)

lemma reset_frontends_env: "lab_content (snd (reset_frontends h fs errs l)) = lab_content l"
proof (induction fs arbitrary: errs l)
  case (Cons f fs)
  obtain p vm conf where f: "f = (p, vm, conf)" by (cases f)
  obtain r l1 where a: "addFrontend h conf p l = (r, l1)" by (cases "addFrontend h conf p l")
  then have "lab_content l1 = lab_content l" using addFrontend_env [of h conf p l] by simp
  moreover have "lab_content (l1\<lparr>lb_frontends := x\<rparr>) = lab_content l1" for x by (simp add: lab_content_def)
  ultimately show ?case using Cons.IH by (simp add: f a split: option.split sum.split prod.split)
qed simp

lemma ResetFrontends_env: "lab_content (snd (ResetFrontends h l)) = lab_content l"
proof -
  obtain errs l' where "reset_frontends h (lb_frontends l) [] l = (errs, l')" by (cases "reset_frontends h (lb_frontends l) [] l")
  with reset_frontends_env [of h "lb_frontends l" "[]" l] show ?thesis by (simp add: ResetFrontends_def split: list.split)
qed

lemma front_teams_keeps:
  "front_teams h tids sent ev = (err, sent', ev') \<Longrightarrow>
     lv_store ev' = lv_store ev \<and> map_option lab_content (GetLabByTeam tid (lv_event ev')) = map_option lab_content (GetLabByTeam tid (lv_event ev)) \<and>
     (err = None \<longrightarrow> map fst sent' = map fst sent @ tids)"
proof (induction tids arbitrary: sent ev)
  case (Cons i tids)
  show ?case
  proof (cases "GetLabByTeam i (lv_event ev)")
    case None
    with Cons.prems Cons.IH [of "sent @ [(i, ''?'')]" ev] show ?thesis by simp
  next
    case (Some l)
    obtain e l' where r: "ResetFrontends (h i) l = (e, l')" by (cases "ResetFrontends (h i) l")
    then have env: "lab_content l' = lab_content l" using ResetFrontends_env [of "h i" l] by simp
    let ?ev = "put_team_lab i l' ev"
    have step: "lv_store ?ev = lv_store ev"
      "map_option lab_content (GetLabByTeam tid (lv_event ?ev)) = map_option lab_content (GetLabByTeam tid (lv_event ev))"
      using Some env by (auto simp: put_team_lab_def put_lab_def GetLabByTeam_def)
    show ?thesis
    proof (cases e)
      case None
      then show ?thesis using Cons.prems Cons.IH [of "sent @ [(i, ''ok'')]" ?ev] step by (simp add: Some r)
    next
      case (Some x)
      then show ?thesis using Cons.prems step \<open>GetLabByTeam i (lv_event ev) = Some l\<close> by (auto simp: r Let_def)
    qed
  qed
qed simp

text \<open>
  Resetting the frontends of an event's teams, named or all, never touches the exercises, flags and addresses of a lab nor the
  record of a team, whatever fails on the way; without an error every team asked for was answered once, in order.
\<close>
theorem frontends_only:
  assumes "tagged_event eventTag ep = Inr (tag, ev)" and "api_ResetFrontends h eventTag reqTeams ep = (err, sent, ep')"
  shows "\<exists>ev'. map_get (ep_events ep') tag = Some ev' \<and> lv_store ev' = lv_store ev \<and>
    map_option lab_content (GetLabByTeam tid (lv_event ev')) = map_option lab_content (GetLabByTeam tid (lv_event ev)) \<and>
    (err = None \<longrightarrow> map fst sent = (case reqTeams of Some tids \<Rightarrow> tids | None \<Rightarrow> map t_id (live_teams ev)))"
proof -
  let ?tids = "case reqTeams of Some tids \<Rightarrow> tids | None \<Rightarrow> map t_id (live_teams ev)"
  obtain e s ev' where run: "front_teams h ?tids [] ev = (e, s, ev')" by (cases "front_teams h ?tids [] ev") auto
  then have "err = e" "sent = s" "ep' = put_live tag ev' ep" using assms by (auto simp: api_ResetFrontends_def)
  with front_teams_keeps [OF run, of tid] show ?thesis by (intro exI [of _ ev']) simp
qed

subsection \<open>The stress test\<close>

text \<open>
  The call returns if and only if it is refused or asks for a team: with a number of teams that is not positive it waits for
  ever for an answer that nobody sends.
\<close>
lemma stress_returns_iff:
  assumes "u_super u" and "GetEvent ep tag = Inr ev" and "n \<le> ec_capacity (es_conf (lv_store ev))" and "nat n \<le> length arrivals"
  shows "StressEvent (Some u) tag n ep arrivals \<noteq> None \<longleftrightarrow> 0 < n"
proof (cases "0 < n")
  case True
  then have "take (nat n) arrivals \<noteq> []" using assms(4) by auto
  with True assms(1-3) show ?thesis by (cases "take (nat n) arrivals") (simp_all add: StressEvent_def)
qed (use assms in \<open>simp add: StressEvent_def\<close>)

lemma stringWithCharset_in:
  assumes "\<And>i. draw i (length cs) < length cs"
  shows "length (stringWithCharset draw n cs) = n" and "set (stringWithCharset draw n cs) \<subseteq> set cs"
  using assms by (auto simp: stringWithCharset_def)

text \<open>
  The posts of the stress test pass the site's checks on a signup: whatever is drawn, the random form is read as a team
  of ten letters with a password of six digits and no secret key.
\<close>
theorem stress_form_accepted:
  assumes "\<And>k i n. 0 < n \<Longrightarrow> draws k i n < n" and "rq_form r = constructRandomValues draws"
  shows "\<exists>p. readSignup r = Inr p \<and> length (TeamName p) = 10 \<and> set (TeamName p) \<subseteq> set charSet \<and>
    length (Password p) = 6 \<and> set (Password p) \<subseteq> set numSet \<and> SecretEventKey p = []"
proof -
  let ?n = "stringWithCharset (draws 0) 10 charSet" and ?p = "stringWithCharset (draws 3) 6 numSet"
  have sizes: "0 < length charSet" "0 < length numSet" by (simp_all add: charSet_def numSet_def)
  have n: "length ?n = 10" "set ?n \<subseteq> set charSet"
    using stringWithCharset_in [of "draws 0" charSet 10] assms(1) [OF sizes(1)] by auto
  have p: "length ?p = 6" "set ?p \<subseteq> set numSet"
    using stringWithCharset_in [of "draws 3" numSet 6] assms(1) [OF sizes(2)] by auto
  have fields: "PostFormValue r ''team-name'' = ?n" "PostFormValue r ''password'' = ?p" "PostFormValue r ''password-repeat'' = ?p"
    "PostFormValue r ''secret-event-key'' = []"
    by (simp_all add: PostFormValue_def assms(2) constructRandomValues_def Let_def)
  have letters: "list_all (\<lambda>c. is_alnum c \<and> \<not> is_space c) charSet" by (simp add: charSet_def is_alnum_def is_space_def)
  then have alnum: "list_all is_alnum ?n" "list_all (\<lambda>c. \<not> is_space c) ?n" using n(2) by (auto simp: list_all_iff)
  then have trim: "TrimSpace ?n = ?n"
  proof -
    have "dropWhile is_space xs = xs" if "list_all (\<lambda>c. \<not> is_space c) xs" for xs using that by (cases xs) simp_all
    with alnum(2) show ?thesis by (simp add: TrimSpace_def)
  qed
  have "?n \<noteq> []" using n(1) by auto
  then have "checkTeamName ?n = None"
    using n(1) alnum(1) by (simp add: checkTeamName_def checkVarLength_def teamNameMaxLength_def)
  then show ?thesis
    using n p by (intro exI [of _ "\<lparr>TeamName = ?n, Password = ?p, SecretEventKey = []\<rparr>"])
      (simp add: readSignup_def fields trim passMinLength_def passMaxLength_def Let_def)
qed

end
