(* ===== verification/Lab_Network.thy ===== *)
theory Lab_Network
  imports Virtual_Docker
begin

text \<open>
  Docker's side of a lab's network (virtual/docker/docker.go), the default bridge, and the DHCP and DNS servers that run in
  containers on it (network/dhcp/dhcp.go, network/dns/dns.go): the options a network is created with, the texts of the servers'
  files and the configurations of their containers. Temporary files and Docker answer through arguments; Lab_Env says when the
  environment starts and replaces the servers.
\<close>

subsection \<open>Networks\<close>

record network_options =
  no_name :: string
  no_driver :: string
  no_subnet :: string
  no_labels :: "(string, string) gomap"

definition vpn_kind :: "int \<Rightarrow> bool" where
  "vpn_kind isVPN \<longleftrightarrow> isVPN = 1 \<or> isVPN = 2"

definition lab_network_options :: "string \<Rightarrow> int \<Rightarrow> string \<Rightarrow> network_options" where
  "lab_network_options name isVPN sub =
     \<lparr>no_name = name, no_driver = (if vpn_kind isVPN then ''bridge'' else ''macvlan''), no_subnet = sub @ ''.0/24'',
      no_labels = [(''kn'', ''lab_network'')]\<rparr>"

text \<open>The result of drawing a network, and Docker's answer: an identifier with the subnet it reports.\<close>

definition docker_NewNetwork ::
  "string + string \<Rightarrow> (network_options \<Rightarrow> string + (string \<times> string)) \<Rightarrow> string \<Rightarrow> int \<Rightarrow> string + (string \<times> network)" where
  "docker_NewNetwork drawn create name isVPN =
     (case drawn of
        Inl e \<Rightarrow> Inl (''ip pool get new network err '' @ e)
      | Inr sub \<Rightarrow>
          (case create (lab_network_options name isVPN sub) of
             Inl e \<Rightarrow> Inl (''docker CreateNetwork err '' @ e)
           | Inr (nid, subnet) \<Rightarrow> Inr (nid, NewNetwork subnet)))"

definition network_Interface :: "int \<Rightarrow> string \<Rightarrow> string go" where
  "network_Interface isVPN nid =
     go_bind (short_id 12 nid) (\<lambda>i. Ret ((if vpn_kind isVPN then ''br'' else ''dm'') @ ''-'' @ i))"

text \<open>Closing goes on when a container cannot be disconnected.\<close>

definition network_Close :: "(string \<Rightarrow> string option) \<Rightarrow> string \<Rightarrow> string list \<Rightarrow> string option \<times> docker_call list" where
  "network_Close remove nid members = (remove nid, map (DkDisconnect nid) members)"

text \<open>Docker's networks as pairs of identifier and name; a new one is listed afterwards.\<close>

definition newDefaultBridge ::
  "string + (string \<times> string) list \<Rightarrow> string + string \<Rightarrow> string \<Rightarrow> (string + bridge) \<times> (string \<times> string) list" where
  "newDefaultBridge networks create name =
     (case networks of
        Inl e \<Rightarrow> (Inl e, [])
      | Inr ns \<Rightarrow>
          let netID = (case find (\<lambda>n. snd n = name) ns of None \<Rightarrow> [] | Some n \<Rightarrow> fst n) in
          if netID \<noteq> [] then (Inr \<lparr>br_id = netID, br_containers = []\<rparr>, ns)
          else (case create of Inl e \<Rightarrow> (Inl e, ns) | Inr i \<Rightarrow> (Inr \<lparr>br_id = i, br_containers = []\<rparr>, ns @ [(i, name)])))"

subsection \<open>The DHCP server\<close>

definition file_lines :: "string list \<Rightarrow> string" where
  "file_lines ls = concat (map (\<lambda>l. l @ [CHR 0x0A]) ls)"

definition server_tab :: string where "server_tab = [CHR 0x09]"

definition dhcp_text :: "(nat \<Rightarrow> string) \<Rightarrow> string" where
  "dhcp_text format =
     file_lines [''option domain-name-servers '' @ format PreferedIP @ '';'', [],
       server_tab @ ''subnet '' @ format 0 @ '' netmask 255.255.255.0 {'',
       server_tab @ server_tab @ ''range '' @ format 4 @ '' '' @ format 254 @ '';'',
       server_tab @ server_tab @ ''option subnet-mask 255.255.255.0;'',
       server_tab @ server_tab @ ''option broadcast-address '' @ format 255 @ '';'',
       server_tab @ server_tab @ ''option routers '' @ format 1 @ '';'']
     @ server_tab @ ''}''"

record server =
  sv_cont :: container
  sv_conf_file :: string
  sv_dns :: string
  sv_subnet :: string

definition dhcp_container :: "string \<Rightarrow> string \<Rightarrow> container_config" where
  "dhcp_container confFile dns =
     \<lparr>dc_image = ''networkboot/dhcpd:1.2.0'', dc_resources = Some (50, 3 / 10), dc_env = [], dc_dns = [dns],
      dc_labels = [(''hkn'', ''lab_dhcpd'')], cf_bindings = [], cf_mounts = [confFile @ '':/data/dhcpd.conf''], cf_user = [],
      cf_cmd = [''eth0''], cf_ports = [''67/udp''], cf_bridge = False\<rparr>"

text \<open>\<open>temp\<close> is the new temporary file, \<open>wrote\<close> the error of the one write.\<close>

definition dhcp_New ::
  "string + string \<Rightarrow> string option \<Rightarrow> (nat \<Rightarrow> string) \<Rightarrow> (string, string) gomap \<Rightarrow> (string + server) \<times> (string, string) gomap" where
  "dhcp_New temp wrote format files =
     (case temp of
        Inl e \<Rightarrow> (Inl e, files)
      | Inr confFile \<Rightarrow>
          (case wrote of
             Some e \<Rightarrow> (Inl e, map_put confFile [] files)
           | None \<Rightarrow>
               (Inr \<lparr>sv_cont = \<lparr>ct_id = [], ct_conf = dhcp_container confFile (format PreferedIP)\<rparr>, sv_conf_file = confFile,
                     sv_dns = format PreferedIP, sv_subnet = format 0\<rparr>,
                map_put confFile (dhcp_text format) files)))"

text \<open>Without its file the server is not closed.\<close>

definition dhcp_Close ::
  "docker_env \<Rightarrow> string option \<Rightarrow> server \<Rightarrow> bridge \<Rightarrow> ((string + docker_error option) \<times> bridge \<times> docker_call list) go" where
  "dhcp_Close env removed s b =
     (case removed of
        Some e \<Rightarrow> Ret (Inl e, b, [])
      | None \<Rightarrow> go_bind (container_Close env (sv_cont s) b) (\<lambda>(err, b, calls). Ret (Inr err, b, calls)))"

subsection \<open>The DNS server\<close>

definition rr_Format :: "record_config \<Rightarrow> string" where
  "rr_Format rr = r_name rr @ '' IN '' @ r_type rr @ '' '' @ r_data rr"

definition coreFileContent :: string where
  "coreFileContent = file_lines
     [''. {'', ''    file zonefile'', ''    prometheus     # enable metrics'', ''    errors         # show errors'',
      ''    log            # enable query logs'', ''}'']"

definition zonePrefixContent :: string where
  "zonePrefixContent = file_lines
     [''$ORIGIN .'', ''@   3600 IN SOA sns.dns.icann.org. noc.dns.icann.org. ('', ''                2017042745 ; serial'',
      ''                7200       ; refresh (2 hours)'', ''                3600       ; retry (1 hour)'',
      ''                1209600    ; expire (2 weeks)'', ''                3600       ; minimum (1 hour)'', ''                )'', []]"

definition zone_text :: "record_config list \<Rightarrow> string" where
  "zone_text records = zonePrefixContent @ file_lines (map rr_Format records)"

definition dns_container :: "string \<Rightarrow> string \<Rightarrow> container_config" where
  "dns_container coreFile confFile =
     \<lparr>dc_image = ''coredns/coredns:1.6.1'', dc_resources = Some (50, 3 / 10), dc_env = [], dc_dns = [],
      dc_labels = [(''hkn'', ''lab_dns'')], cf_bindings = [], cf_mounts = [coreFile @ '':/Corefile'', confFile @ '':/zonefile''],
      cf_user = [], cf_cmd = [''--conf'', ''Corefile''], cf_ports = [''53/tcp'', ''53/udp''], cf_bridge = False\<rparr>"

text \<open>The two temporary files are created first; \<open>wrote\<close> is the number of the first record whose write fails. The prefix and the core file are
  written without a look at the error, here as writes that succeed.\<close>

definition dns_New ::
  "string + string \<Rightarrow> string + string \<Rightarrow> (nat \<times> string) option \<Rightarrow> record_config list \<Rightarrow> (string, string) gomap \<Rightarrow>
   (string + server) \<times> (string, string) gomap" where
  "dns_New zone core wrote records files =
     (case zone of
        Inl e \<Rightarrow> (Inl e, files)
      | Inr confFile \<Rightarrow>
          (case core of
             Inl e \<Rightarrow> (Inl e, map_put confFile [] files)
           | Inr coreFile \<Rightarrow>
               let server = \<lparr>sv_cont = \<lparr>ct_id = [], ct_conf = dns_container coreFile confFile\<rparr>, sv_conf_file = confFile, sv_dns = [], sv_subnet = []\<rparr>
               in (case wrote of
                     Some (n, e) \<Rightarrow> (Inl e, map_put coreFile [] (map_put confFile (zone_text (take n records)) files))
                   | None \<Rightarrow> (Inr server, map_put coreFile coreFileContent (map_put confFile (zone_text records) files)))))"

text \<open>Errors of closing are only logged, and the core file stays.\<close>

definition dns_Close :: "docker_env \<Rightarrow> server \<Rightarrow> (string, string) gomap \<Rightarrow> bridge \<Rightarrow> (bridge \<times> (string, string) gomap \<times> docker_call list) go" where
  "dns_Close env s files b =
     go_bind (container_Close env (sv_cont s) b) (\<lambda>(err, b, calls). Ret (b, map_del (sv_conf_file s) files, calls))"

subsection \<open>Properties\<close>

lemma interface_matches_driver:
  "network_Interface isVPN nid = Ret i \<Longrightarrow> (no_driver (lab_network_options name isVPN sub) = ''bridge'') \<longleftrightarrow> take 3 i = ''br-''"
  by (auto simp: network_Interface_def lab_network_options_def short_id_def split: if_splits)

text \<open>A restart finds the bridge that was made, as long as Docker gives identifiers that are not empty.\<close>

lemma bridge_found_again:
  assumes "newDefaultBridge (Inr ns) (Inr i) name = (Inr b, ns')" and "i \<noteq> []" and "\<forall>n \<in> set ns. fst n \<noteq> []"
  shows "newDefaultBridge (Inr ns') create' name = (Inr \<lparr>br_id = br_id b, br_containers = []\<rparr>, ns')"
proof (cases "find (\<lambda>n. snd n = name) ns")
  case None
  then have none: "\<forall>n \<in> set ns. snd n \<noteq> name" by (auto simp: find_None_iff)
  then have "find (\<lambda>n. snd n = name) (ns @ [(i, name)]) = Some (i, name)"
    by (induction ns) auto
  with None assms(1,2) show ?thesis by (auto simp: newDefaultBridge_def Let_def)
next
  case (Some n)
  then have "fst n \<noteq> []" using assms(3) by (metis find_Some_iff nth_mem)
  with Some assms(1) show ?thesis by (auto simp: newDefaultBridge_def Let_def)
qed

lemma count_list_append_none: "c \<notin> set s \<Longrightarrow> count_list (s @ t) c = count_list t c"
  by (induction s) auto

text \<open>
  The containers of both servers pass the checks of their configuration, with just the memory that is allowed at least: on a host with
  Docker's own registry and an address, Docker is asked to create them whenever their images are there or can be pulled, the names of the temporary
  files hold no colon and the resolver's file can be written.
\<close>
theorem servers_creatable:
  assumes "[] \<in> set (dk_registries env)" and "\<not> isl (dk_host_ip env)"
    and "dk_inspect env (dc_image c) \<noteq> NoSuchImage"
    and "c = dhcp_container confFile addr \<and> CHR '':'' \<notin> set confFile \<and> dk_create_err env = None \<and> dk_write_err env = None \<or>
      c = dns_container coreFile confFile \<and> CHR '':'' \<notin> set confFile \<and> CHR '':'' \<notin> set coreFile"
  shows "\<not> isl (fst (getCreateConfig env c files))"
proof -
  have image: "im_registry (parseImage (dc_image c)) = [] \<and> Image_String (parseImage (dc_image c)) = dc_image c"
    using assms(4) by (auto simp: dhcp_container_def dns_container_def parseImage_def Image_String_def Let_def)
  have "config_ok env c"
    using assms image by (auto simp: config_ok_def dhcp_container_def dns_container_def count_list_append_none Let_def)
  moreover have "\<not> isl (fst (dns_mount env (dc_dns c) files))"
    using assms(4) by (auto simp: dns_mount_def getResolvFile_def dhcp_container_def dns_container_def Let_def split: sum.split prod.split)
  ultimately show ?thesis by (simp add: create_config_made)
qed

lemma servers_creatable_witness: "\<not> isl (fst (getCreateConfig quiet_docker (dhcp_container ''/tmp/dhcpd-conf1'' ''10.1.2.3'') []))"
proof -
  let ?c = "dhcp_container ''/tmp/dhcpd-conf1'' ''10.1.2.3''"
  have "[] \<in> set (dk_registries quiet_docker)" "\<not> isl (dk_host_ip quiet_docker)" "dk_inspect quiet_docker (dc_image ?c) \<noteq> NoSuchImage"
    "dk_create_err quiet_docker = None" "dk_write_err quiet_docker = None" by (simp_all add: quiet_docker_def)
  moreover have "CHR '':'' \<notin> set ''/tmp/dhcpd-conf1''" by simp
  ultimately show ?thesis
    using servers_creatable [of quiet_docker ?c "''/tmp/dhcpd-conf1''" "''10.1.2.3''"] by blast
qed

lemma split_file_lines: "list_all (\<lambda>l. CHR 0x0A \<notin> set l) ls \<Longrightarrow> split_on CHR 0x0A (file_lines ls) = ls @ [[]]"
  by (induction ls) (auto simp: file_lines_def split_on_append)

lemma rr_Format_inject:
  assumes "CHR '' '' \<notin> set (r_name r)" "CHR '' '' \<notin> set (r_type r)" "CHR '' '' \<notin> set (r_name r')" "CHR '' '' \<notin> set (r_type r')"
    and "rr_Format r = rr_Format r'"
  shows "r = r'"
proof -
  have parts: "split_on CHR '' '' (rr_Format r) = r_name r # ''IN'' # r_type r # split_on CHR '' '' (r_data r)"
    if "CHR '' '' \<notin> set (r_name r)" "CHR '' '' \<notin> set (r_type r)" for r :: record_config
  proof -
    have "rr_Format r = r_name r @ CHR '' '' # ''IN'' @ CHR '' '' # r_type r @ CHR '' '' # r_data r" by (simp add: rr_Format_def)
    moreover have "CHR '' '' \<notin> set ''IN''" by simp
    ultimately show ?thesis using that by (simp add: split_on_append del: append.simps)
  qed
  have "r_name r # ''IN'' # r_type r # split_on CHR '' '' (r_data r) = r_name r' # ''IN'' # r_type r' # split_on CHR '' '' (r_data r')"
    unfolding parts [OF assms(1,2), symmetric] parts [OF assms(3,4), symmetric] using assms(5) by (rule arg_cong)
  then have eq: "r_name r = r_name r'" "r_type r = r_type r'"
    "split_on CHR '' '' (r_data r) = split_on CHR '' '' (r_data r')" by simp_all
  from eq(3) have "r_data r = r_data r'" by (metis join_split)
  with eq show ?thesis by simp
qed

text \<open>A record that a zone can hold: no white space in its name and type, no line break in its data.\<close>

definition zone_record :: "record_config \<Rightarrow> bool" where
  "zone_record r \<longleftrightarrow> CHR '' '' \<notin> set (r_name r) \<and> CHR '' '' \<notin> set (r_type r) \<and> CHR 0x0A \<notin> set (rr_Format r)"

text \<open>
  A zone file says what its records are: two lists of records give the same text only if they are the same list.
\<close>
theorem zone_text_inject:
  assumes "list_all zone_record rs" and "list_all zone_record rs'"
  shows "zone_text rs = zone_text rs' \<longleftrightarrow> rs = rs'"
proof
  assume "zone_text rs = zone_text rs'"
  then have "file_lines (map rr_Format rs) = file_lines (map rr_Format rs')" by (simp add: zone_text_def)
  moreover have "list_all (\<lambda>l. CHR 0x0A \<notin> set l) (map rr_Format rs)" "list_all (\<lambda>l. CHR 0x0A \<notin> set l) (map rr_Format rs')"
    using assms by (auto simp: list_all_iff zone_record_def)
  ultimately have "map rr_Format rs = map rr_Format rs'" using split_file_lines by (metis butlast_snoc)
  moreover have "inj_on rr_Format (set rs \<union> set rs')"
    using assms rr_Format_inject by (auto simp: inj_on_def list_all_iff zone_record_def)
  ultimately show "rs = rs'" by (simp add: inj_on_map_eq_map)
qed simp

end
