(* ===== verification/Spec2Isabelle.thy ===== *)
theory Spec2Isabelle
  imports Prelude Js_Runtime Json_Codec Page_Messages Vue_Teams Vue_Scoreboard Go_Runtime Store_Team
    Amigo_Table Amigo_Hub Amigo_Session Amigo_Actions Vue_Forms Vue_Challenges Vue_Vpn Page Store_Config
    Store_Exercise Store_Users Guac_Keys Lab_Hub Address_Pool Daemon_Pool Daemon_Events Lab_Env
    Guac_Event Event_Host Daemon_Users Daemon_Teams Vue_Wiring Virtual_Docker Guac_Client Virtual_Vbox
    Site_Routes Daemon_Listings Lab_Network
begin

text \<open>
  Haaukins runs capture-the-flag events. Organisers create events through the daemon's management interface; for each event the daemon
  starts a web site and creates labs, which are exercises in containers and virtual machines on a network of their own. Teams sign up on
  the event's site, get a lab, reach it by remote desktop or VPN, hand in flags, and see the scoreboard change. This development
  models the whole way: the pages (JavaScript and Vue, src/svcs/amigo/resources), the site's server
  (src/svcs/amigo, src/store), running events (src/svcs/guacamole), labs, exercises and machines (src/lab, src/exercise,
  src/virtual, src/network), and the daemon (src/daemon).

  \<^bold>\<open>How the parts interact.\<close> A page's form or button posts a JSON request, which the site's route table hands to a handler of
  amigo.go. The middlewares check method, content type and size, the session token names the
  team, and the handler changes the team store or calls a hook of the running event. The route of a handler that changes the
  scoreboard then rebuilds two messages, the challenge list and the scoreboard
  (table.go), and the websocket hub (util.go) queues them for every connected page. A writer
  per connection joins what is queued into a frame, one message per line. The pages split the
  frame, parse the lines and replace what they show. Behind the site a running event takes labs from a hub that creates them ahead of
  time, gives each team one with its flags, VPN connections and firewall rules, and suspends, resets and frees it. The daemon keeps the
  pool of events, routes web requests to them by host name, and checks who may create, change and see what.

  \<^bold>\<open>Theories: base.\<close>
  \<^item> Prelude: splitting and joining strings, numerals, association lists, generic lemmas.
  \<^item> Js_Runtime: JavaScript numbers, \<open>js_sort\<close> as a stable sort by a comparator, objects
    with ordered keys, the outcome of code that can throw, the colour strings' code units.
  \<^item> Json_Codec: \<open>json_marshal\<close> (Go's encoding/json), \<open>json_stringify\<close> and \<open>json_parse\<close> (the browser's JSON).
  \<^item> Go_Runtime: how a Go call ends (\<open>Ret\<close>, \<open>Panic\<close>, \<open>Fatal\<close>), and Go's map.

  \<^bold>\<open>Theories: site and pages.\<close>
  \<^item> Store_Team (store/team.go): the record \<open>team\<close> with its mutex \<open>t_locked\<close>, \<open>VerifyFlag\<close>,
    \<open>IsTeamSolvedChallenge\<close>, \<open>ManageDisabledChals\<close> and the setters; the record \<open>teamstore\<close> with
    \<open>SaveTeam\<close>, \<open>DeleteTeam\<close> and the lookups; \<open>store_reachable\<close> is what these can lead to.
  \<^item> Amigo_Table (amigo/table.go, store/model.go): \<open>initCategories\<close>, \<open>TeamInfo\<close>, \<open>initTeams\<close>,
    \<open>initChallenges\<close> and the JSON of both messages.
  \<^item> Amigo_Hub (amigo/util.go): the events of \<open>RunFrontendData\<close> on the record \<open>frontend\<close>, the
    bounded send channels, the write pump, the websocket endpoints.
  \<^item> Amigo_Session (amigo/amigo.go): the record \<open>amigo\<close>, requests and replies, the middlewares,
    signup, login, logout and the token functions.
  \<^item> Amigo_Actions (amigo/amigo.go): the handlers of a logged-in team: flags, reset and
    start/stop of a challenge, reset of the machine, VPN state and files, the lab's page. \<open>site_reachable\<close>
    closes the site's state under requests.
  \<^item> Site_Routes (\<open>Handler\<close> of amigo/amigo.go): the routes, and a page's request on its way to the handler and back.
  \<^item> Page_Messages: the loop every page runs on a frame, and the records the pages read.
  \<^item> Vue_Teams (TeamsPage.vue): the score graph, the colour of a trace, the ranking.
  \<^item> Vue_Scoreboard (Scoreboard.vue, TeamRow.vue, ChallengeCell.vue): the table.
  \<^item> Vue_Challenges (ChallegesPage.vue, ChallengeModal.vue): grouping, the modal, the sockets.
  \<^item> Vue_Forms (FlagChecker.vue, ResetChallenge.vue, RunChallenge.vue, ResetFrontend.vue).
  \<^item> Vue_Vpn (VPNDropdown.vue).
  \<^item> Vue_Wiring: listeners and reconnecting sockets of the mounted components.
  \<^item> Page (main.js, public/js/amigo.js, vue.config.js, babel.config.js): what runs on all pages.

  \<^bold>\<open>Theories: configuration and users.\<close>
  \<^item> Store_Config, Store_Exercise (store/flag.go, exercise.go, frontend.go): tags by their regular expression, generated flags,
    the options of an exercise's containers, the store of frontends.
  \<^item> Store_Users (store/user.go): users and signup keys in memory and in the file.

  \<^bold>\<open>Theories: labs and machines.\<close>
  \<^item> Address_Pool (daemon/net.go, virtual/docker/docker.go): the two pools of network addresses.
  \<^item> Lab_Env (exercise/exercise.go, exercise/environment.go, lab/lab.go): exercises, their environment, the lab.
  \<^item> Lab_Hub (lab/hub.go): workers, manager and forwarder as an interleaving step relation.
  \<^item> Lab_Network (docker.go, network/dhcp, network/dns): Docker's networks, the bridge, the two servers.
  \<^item> Virtual_Docker (virtual/docker/docker.go) and Virtual_Vbox (virtual/vbox/vbox.go): containers and virtual machines.

  \<^bold>\<open>Theories: running events and the daemon.\<close>
  \<^item> Guac_Keys (guacamole/proto.go, keylogger.go): the protocol's frames and the key logger.
  \<^item> Guac_Client (guacamole/guacamole.go): the client of the Guacamole service and the containers it runs in.
  \<^item> Guac_Event (guacamole/event.go, iptables.go, intercept.go): labs, VPN connections, firewall and remote desktops of teams.
  \<^item> Event_Host (store/event.go, guacamole/event.go): creating events and restoring them after a restart.
  \<^item> Daemon_Pool (daemon/eventpool.go): the running events and the routing of requests.
  \<^item> Daemon_Events (daemon/event.go, daemon.go): creating, booking, stopping, suspending, and the periodic jobs.
  \<^item> Daemon_Users (daemon/auth.go, user.go, util.go): tokens, the interceptor, accounts.
  \<^item> Daemon_Teams (daemon/team.go, exercise.go): the calls on teams and their labs, added challenges.
  \<^item> Daemon_Listings (daemon/exercise.go, event.go, instance.go, host.go): what users are shown, profiles, frontends, the stress test.
  \<^item> This theory: what needs a server and a page at once.

  \<^bold>\<open>Interfaces.\<close> \<open>key_comparator\<close> (Js_Runtime) is the contract of a comparator that follows a
  key; it is interpreted on the comparators of the ranking, of the challenges, of the dates
  and of the traces, and gives the order and the stability of each sort. \<open>json_printer\<close> (Json_Codec) is what a printer's
  escapes must satisfy for the parser to read everything back; it is interpreted on Go's and on the browser's. \<open>message_codec\<close>
  is what a page needs of the wire format: printed messages are free of newlines and
  parse back; it is interpreted on Go's printer and the browser's parser. \<open>finite_map\<close> and
  \<open>two_index\<close> (Go_Runtime) are the laws of a map and of a store indexed by identifier and
  name; they are interpreted on Go's map and on the team store's two maps.

  \<^bold>\<open>What the lemmas show.\<close> In the store: lookups after each operation, consistency of the
  two maps in every reachable state, and that saving and deleting refine a map from
  names to teams; the exact effect of a submitted flag. On the server: which signups are
  accepted, which team a session belongs to, the answers to each action, totals and columns of
  the scoreboard, and an invariant through any sequence of requests. Between the two: frames
  deliver what was queued, parsing inverts printing, and every request of a page reaches its handler and its answer is shown. On the pages: what each shows
  after a frame or an answer, on errors too. In labs: the invariant of an environment under every operation and failure, the
  capacity of the hub under every interleaving, when drawing an address ends, that what a team can solve is what its containers
  hold. In events: distinct VPN addresses, firewall rules that are removed as they were added, a restart that keeps teams, sessions
  and solves. In the daemon: which checks a created event has passed, networks that are not shared, who may manage accounts and see
  secret keys, which team is suspended when.

  \<^bold>\<open>Numbers, bounds and fuel.\<close> Points are Go's 64-bit unsigned words and wrap; what a page reads of
  them is rounded to 53 bits by \<open>round53\<close>, and exact below 2^53, which the graph's theorem
  assumes of the sum of all points. The shifts of \<open>colorHash\<close> act on 32-bit words; its intermediate
  values stay exact for strings of up to 2^21 code units, beyond any team name. Capacities and counts of the
  daemon's messages are 32-bit words, memory limits and the sums over bookings are kept at their width too.
  \<open>json_parse\<close> recurses on fuel, twice the length of the text and two; Json_Codec proves that
  a printed value needs no more. The loops that draw random addresses, ports and flags may not end; they are partial functions
  with the result None, and what makes them end is proved where it is used. The loop over a frame's elements and the two replacing
  functions end by a measure. All other loops are structural recursions, and interleavings are lists of steps or step relations.

  \<^bold>\<open>Parameters.\<close> Signing and verifying of tokens and hashing of passwords (records \<open>env\<close>, \<open>auth_env\<close>), the
  reCAPTCHA answer, whether the database accepts an update, the JavaScript date parser, the markdown renderer
  of descriptions, random streams and the order in which a map is visited, the answers of Docker, VirtualBox,
  the VPN service, Guacamole, the database and the exercise service (the functions \<open>host\<close> and \<open>service\<close> and the records \<open>docker_env\<close>, \<open>vbox_env\<close>,
  \<open>event_env\<close>, \<open>host_env\<close>, \<open>daemon_env\<close>), and whether a file is written are
  arguments of the definitions that call them. Laws of the libraries are hypotheses
  where they are needed.

  \<^bold>\<open>Not modelled.\<close> HTML templates of the server, styles, logging, timers of the websocket (pings and
  deadlines) and the layout of the graph; goroutines are modelled where their interleaving can be
  observed (the websocket hub, its pump, the hub of labs), otherwise an operation is one step. The reCAPTCHA client, the copying of the Guacamole
  proxy's traffic, the clients of the database and of the VPN service, the digests of remote images, the sharing of folders with virtual
  machines, the monitoring of the host, and the reading of the daemon's configuration are calls of libraries around network and
  files. The command line client, build and release scripts, generated protocol code and the bundled libraries
  (public/js/vendors.js, app.js, fa.js) carry no logic of the platform.
\<close>

subsection \<open>The scoreboard from the store to the pages\<close>

lemma json_slice_list:
  "prop_list k (JObj [(k, json_slice xs)]) = (if xs = [] then None else Some xs)"
  by (simp add: prop_list_def json_slice_def)

lemma is_msg_message [simp]: "is_msg m (message_json m' v b) \<longleftrightarrow> m = m'"
  by (auto simp: is_msg_def message_json_def)

lemma to_stamp_json [simp]: "to_stamp (json_stamp c) = c"
  by (cases c) (simp_all add: to_stamp_def json_stamp_def)

text \<open>How a page sees a row of the server's table.\<close>

lemma to_team_row:
  "to_team (json_row r) =
     \<lparr>tv_id = Id r, tv_name = RowName r, tpoints = Num (round53 (uint (TotalPoints r))),
      completions = (if ChalCompletions r = [] then None else Some (ChalCompletions r)),
      points = (if ChalPoints r = [] then None else Some (map (\<lambda>p. Num (round53 (uint p))) (ChalPoints r))),
      tv_is_user = IsUser r\<rparr>"
  by (simp add: to_team_def json_row_def prop_str_def prop_num_def prop_list_def prop_bool_def json_slice_def
      to_num_def comp_def)

lemma scoreboard_message_teams:
  "message_teams (scoreboard_json ts chals v) =
     Some (map (\<lambda>r. to_team (json_row r)) (teamRows ts (initCategories chals) v))"
  by (simp add: message_teams_def scoreboard_json_def message_json_def Let_def prop_list_def comp_def)

lemma scoreboard_message_categories:
  "message_categories (scoreboard_json ts chals v) = Some (map (to_category \<circ> json_category) (initCategories chals))"
  by (auto simp: message_categories_def scoreboard_json_def message_json_def Let_def prop_list_def json_slice_def)

lemma column_count:
  "length (get_challenges (map (to_category \<circ> json_category) (initCategories chals))) = length chals"
proof -
  have "length (cat_chals (to_category (json_category c))) = length (Challenges c)" for c
    by (simp add: to_category_def json_category_def prop_list_def)
  then have "length (get_challenges (map (to_category \<circ> json_category) cs)) = length (concat (map Challenges cs))" for cs
    by (simp add: get_challenges_concat length_concat comp_def)
  then show ?thesis using length_columns [of chals] by (simp add: columns_def)
qed

text \<open>Both messages of a new connection in one frame; Amigo_Hub covers the other framings.\<close>

definition welcome_frame :: "(string \<Rightarrow> string) \<Rightarrow> teamstore \<Rightarrow> child_chal list \<Rightarrow> string \<Rightarrow> string" where
  "welcome_frame render ts chals v =
     join_with newline [initChallenges render ts chals v, initTeams ts chals v]"

lemma on_welcome:
  "on_frame h (welcome_frame render ts chals v) s =
     handle_values h [challenges_json render ts chals v, scoreboard_json ts chals v] s"
proof -
  have "JNull \<notin> set [challenges_json render ts chals v, scoreboard_json ts chals v]"
    by (auto simp: challenges_json_def scoreboard_json_def message_json_def Let_def split: prod.splits)
  from on_frame_printed [OF _ this] show ?thesis
    by (simp add: welcome_frame_def initChallenges_def initTeams_def del: json_marshal.simps)
qed

lemma not_scoreboard [simp]: "\<not> is_msg ''scoreboard'' (challenges_json render ts chals v)"
  by (simp add: challenges_json_def split: prod.split)

lemma is_scoreboard [simp]: "is_msg ''scoreboard'' (scoreboard_json ts chals v)"
  by (simp add: scoreboard_json_def Let_def)

lemma row_of_team:
  "map (\<lambda>r. to_team (json_row r)) (teamRows ts cats v) =
     map (\<lambda>t. to_team (json_row (let r = TeamInfo t cats in if t_id t = v then r\<lparr>IsUser := True\<rparr> else r))) (GetTeams ts)"
  by (simp add: teamRows_def comp_def)


subsection \<open>The score graph from the store\<close>

lemma sort_teams_all:
  "\<forall>t \<in> set ts. sort_team d t \<noteq> None \<Longrightarrow> sort_teams d ts = (None, map (the \<circ> sort_team d) ts)"
  by (induction ts) auto

definition team_view_of :: "teamstore \<Rightarrow> child_chal list \<Rightarrow> string \<Rightarrow> team \<Rightarrow> team_view" where
  "team_view_of ts chals v t =
     to_team (json_row (let r = TeamInfo t (initCategories chals) in if t_id t = v then r\<lparr>IsUser := True\<rparr> else r))"

lemma TeamInfo_columns:
  "ChalCompletions (TeamInfo t (initCategories chals)) = map (IsTeamSolvedChallenge t \<circ> ce_tag) (columns chals)"
  "ChalPoints (TeamInfo t (initCategories chals)) = map ce_points (columns chals)"
  "RowName (TeamInfo t cats) = t_name t"
  by (simp_all add: TeamInfo_eq columns_def Let_def)

lemma columns_Nil [simp]: "columns chals = [] \<longleftrightarrow> chals = []"
  using length_columns [of chals] by (metis length_0_conv)

lemma team_view_fields:
  "tv_name (team_view_of ts chals v t) = t_name t"
  "chals \<noteq> [] \<Longrightarrow> completions (team_view_of ts chals v t)
     = Some (map (IsTeamSolvedChallenge t \<circ> ce_tag) (columns chals))"
  "chals \<noteq> [] \<Longrightarrow> points (team_view_of ts chals v t)
     = Some (map (\<lambda>c. Num (round53 (uint (ce_points c)))) (columns chals))"
  by (simp_all add: team_view_of_def to_team_row TeamInfo_columns Let_def comp_def)

lemma team_view_sorts: "chals \<noteq> [] \<Longrightarrow> sort_team d (team_view_of ts chals v t) \<noteq> None"
  by (simp add: sort_team_def team_view_fields Let_def split: list.split)

lemma team_view_null:
  "chals = [] \<Longrightarrow> completions (team_view_of ts chals v t) = None"
  by (simp add: team_view_of_def to_team_row TeamInfo_columns Let_def)

lemma column_sum:
  "sum_list (map (uint \<circ> ce_points) (columns chals)) = (\<Sum>c \<leftarrow> chals. uint (cc_points c))"
proof -
  have "sum_list (map (uint \<circ> ce_points) (columns chals)) = sum_list (map (uint \<circ> ce_points) (map to_entry chals))"
    by (rule sum_list_map_mset [OF mset_columns])
  then show ?thesis by (simp add: to_entry_def comp_def)
qed

lemma uint_sum_list:
  fixes ws :: "points list"
  assumes "sum_list (map uint ws) < 2 ^ 53"
  shows "uint (sum_list ws) = sum_list (map uint ws)"
  using assms
proof (induction ws)
  case Nil
  show ?case by simp
next
  case (Cons w ws)
  have "sum_list (map uint ws) \<le> sum_list (map uint (w # ws))" by simp
  then have "sum_list (map uint ws) < 2 ^ 53" using Cons.prems by (rule le_less_trans)
  then have IH: "uint (sum_list ws) = sum_list (map uint ws)" by (rule Cons.IH)
  have "uint w + uint (sum_list ws) < 2 ^ 64" using Cons.prems IH by simp
  then show ?case using IH by (simp add: uint_plus_if')
qed

text \<open>The total of a team, computed from its row as the graph does.\<close>

lemma entry_sum_total:
  assumes "(\<Sum>c \<leftarrow> chals. uint (cc_points c)) < 2 ^ 53"
  shows "entry_sum (map (IsTeamSolvedChallenge t \<circ> ce_tag) (columns chals)) (map (uint \<circ> ce_points) (columns chals))
     = uint (TotalPoints (TeamInfo t (initCategories chals)))"
proof -
  define sol where "sol e \<longleftrightarrow> IsTeamSolvedChallenge t (ce_tag e) \<noteq> None" for e :: chal_entry
  have "entry_sum (map (IsTeamSolvedChallenge t \<circ> ce_tag) es) (map (uint \<circ> ce_points) es)
      = sum_list (map uint (map ce_points (filter sol es)))" for es
    unfolding entry_sum_def by (induction es) (auto simp: sol_def)
  moreover have "sum_list (map uint (map ce_points (filter sol (columns chals)))) < 2 ^ 53"
  proof -
    have "sum_list (map (uint \<circ> ce_points) (filter sol (columns chals))) \<le> sum_list (map (uint \<circ> ce_points) (columns chals))"
      by (intro sum_list_filter_le_int) simp
    with assms column_sum [of chals] show ?thesis by (simp add: comp_def)
  qed
  moreover have "TotalPoints (TeamInfo t (initCategories chals)) = sum_list (map ce_points (filter sol (columns chals)))"
    by (simp add: TeamInfo_eq Let_def columns_def sol_def [abs_def])
  ultimately show ?thesis by (simp only: uint_sum_list)
qed

text \<open>
  C2. On an event with challenges worth less than 2^53 points in all, the first frame of a
  connection is handled by the teams page without an error, and for every team that has solved
  something the graph has a trace of its name that ends at the total the server counted.
\<close>
theorem graph_end_to_end:
  assumes "chals \<noteq> []" and "(\<Sum>c \<leftarrow> chals. uint (cc_points c)) < 2 ^ 53"
  shows "case teams_receive d (welcome_frame render ts chals v) st of (e, st') \<Rightarrow>
     e = None \<and>
     (\<forall>t \<in> set (GetTeams ts). (\<exists>c \<in> set chals. IsTeamSolvedChallenge t (cc_tag c) \<noteq> None) \<longrightarrow>
        (\<exists>tr \<in> set (tp_traces st'). tr_name tr = t_name t \<and> tr_y tr \<noteq> [] \<and>
           last (tr_y tr) = Num (uint (TotalPoints (TeamInfo t (initCategories chals))))))"
proof -
  let ?views = "map (team_view_of ts chals v) (GetTeams ts)"
  let ?sorted = "map (the \<circ> sort_team d) (js_sort tpoints_cmp ?views)"
  have views: "message_teams (scoreboard_json ts chals v) = Some ?views"
    by (simp add: scoreboard_message_teams row_of_team team_view_of_def [abs_def])
  have "sort_teams d (js_sort tpoints_cmp ?views) = (None, ?sorted)"
    using team_view_sorts [OF assms(1)] by (intro sort_teams_all) auto
  then have run: "teams_receive d (welcome_frame render ts chals v) st =
      (None, scoreGraph d (st\<lparr>tp_teams := ?sorted\<rparr>))"
    by (simp add: teams_receive_def on_welcome teams_handle_def views sortSolvedData_def)
  have "\<exists>tr \<in> set (tp_traces (scoreGraph d (st\<lparr>tp_teams := ?sorted\<rparr>))). tr_name tr = t_name t \<and> tr_y tr \<noteq> [] \<and>
      last (tr_y tr) = Num (uint (TotalPoints (TeamInfo t (initCategories chals))))"
    if t: "t \<in> set (GetTeams ts)" and c: "c \<in> set chals" "IsTeamSolvedChallenge t (cc_tag c) \<noteq> None" for t c
  proof -
    let ?v = "team_view_of ts chals v t"
    let ?cs = "map (IsTeamSolvedChallenge t \<circ> ce_tag) (columns chals)" and ?ns = "map (uint \<circ> ce_points) (columns chals)"
    obtain v' where v': "sort_team d ?v = Some v'" using team_view_sorts [OF assms(1)] by blast
    have sum: "sum_list ?ns < 2 ^ 53" using assms(2) by (simp only: column_sum)
    have "uint (ce_points e) < 2 ^ 53" if "e \<in> set (columns chals)" for e
      using member_le_sum_list [of "uint (ce_points e)" ?ns] that sum by force
    then have pts: "points ?v = Some (map Num ?ns)"
      unfolding team_view_fields(3) [OF assms(1)] by (auto intro!: round53_exact)
    have "to_entry c \<in> set (columns chals)"
      using c(1) mset_columns [THEN mset_eq_setD, of chals] by auto
    then have "\<exists>x \<in> set ?cs. x \<noteq> None" using c(2) by (force simp: to_entry_def)
    note last = team_trace_last [OF team_view_fields(2) [OF assms(1)] pts _ v' _ sum this, simplified]
    have "tr_name (team_trace d v') = t_name t"
      using v' team_view_fields(1) [of ts chals v t]
      by (auto simp: team_trace_def sort_team_def Let_def split: option.splits list.splits)
    moreover have "team_trace d v' \<in> set (tp_traces (scoreGraph d (st\<lparr>tp_teams := ?sorted\<rparr>)))"
      using t v' by (force simp: scoreGraph_def)
    ultimately show ?thesis using last entry_sum_total [OF assms(2), of t] by auto
  qed
  then show ?thesis unfolding run by auto
qed

definition sample_chals :: "child_chal list" where
  "sample_chals = [zero_chal\<lparr>cc_tag := ''sql-1'', cc_name := ''SQL'', cc_points := 10, cc_category := ''Web''\<rparr>,
     zero_chal\<lparr>cc_tag := ''sql-2'', cc_name := ''SQL 2'', cc_points := 20, cc_category := ''Web''\<rparr>]"

lemma sample_solved:
  "IsTeamSolvedChallenge member ''sql-1'' = None" "IsTeamSolvedChallenge member ''sql-2'' = Some ''t1''"
  by (simp_all add: member_def sample_team_state_def IsTeamSolvedChallenge_def)

theorem graph_end_to_end_witness:
  "\<exists>tr \<in> set (tp_traces (snd (teams_receive sample_date (welcome_frame id sample_store sample_chals []) teams_page_init))).
     tr_name tr = ''red'' \<and> tr_y tr \<noteq> [] \<and>
     last (tr_y tr) = Num (uint (TotalPoints (TeamInfo member (initCategories sample_chals))))"
proof -
  have ne: "sample_chals \<noteq> []" and sum: "(\<Sum>c \<leftarrow> sample_chals. uint (cc_points c)) < 2 ^ 53"
    by (simp_all add: sample_chals_def)
  have m: "member \<in> set (GetTeams sample_store)" by (simp add: sample_store_eq GetTeams_def)
  have c: "\<exists>c \<in> set sample_chals. IsTeamSolvedChallenge member (cc_tag c) \<noteq> None"
    by (simp add: sample_chals_def sample_solved)
  have n: "t_name member = ''red''" by (simp add: member_def sample_team_state_def)
  from graph_end_to_end [OF ne sum, where d = sample_date and render = id and ts = sample_store
      and v = "[]" and st = teams_page_init, unfolded case_prod_beta, THEN conjunct2] m c
  show ?thesis unfolding n [symmetric] by blast
qed

text \<open>
  On an event without challenges the server sends null for the completions, which the teams
  page does not expect.
\<close>

lemma no_challenges_throws:
  assumes "GetTeams ts \<noteq> []"
  shows "fst (teams_receive d (welcome_frame render ts [] v) st) = Some TypeError"
proof -
  let ?views = "map (team_view_of ts [] v) (GetTeams ts)"
  have views: "message_teams (scoreboard_json ts [] v) = Some ?views"
    by (simp add: scoreboard_message_teams row_of_team team_view_of_def [abs_def])
  have null: "\<forall>t \<in> set (js_sort tpoints_cmp ?views). sort_team d t = None"
    by (auto simp: sort_team_def team_view_null)
  have "js_sort tpoints_cmp ?views \<noteq> []" using assms by (simp del: js_sort_simps)
  then obtain t us where s: "js_sort tpoints_cmp ?views = t # us" by (cases "js_sort tpoints_cmp ?views") auto
  with null have "sort_team d t = None" by simp
  with s show ?thesis
    by (simp add: teams_receive_def on_welcome teams_handle_def views sortSolvedData_def)
qed

subsection \<open>The buttons and the handlers behind them\<close>

text \<open>The JSON bodies among the writes of a response.\<close>

definition json_bodies :: "reply list \<Rightarrow> json list" where
  "json_bodies w = concat (map (\<lambda>x. case x of ReplyJson c j \<Rightarrow> [j] | _ \<Rightarrow> []) w)"

lemma json_bodies_simps [simp]:
  "json_bodies [] = []" "json_bodies (w @ w') = json_bodies w @ json_bodies w'"
  "json_bodies [ReplyJson c j] = [j]" "json_bodies [replyJsonRequestErr e] = [errReply e]"
  "json_bodies [replyOk] = [JObj [(''status'', JStr ''ok'')]]"
  by (simp_all add: json_bodies_def replyJsonRequestErr_def replyOk_def)

lemma session_bodies: "getTeamFromRequest ev am r = (x, w) \<Longrightarrow> json_bodies w = []"
  by (auto simp: getTeamFromRequest_def json_bodies_def split: option.splits sum.splits prod.splits)

lemma understood_replies: "understood (errReply e)" "understood (JObj [(''status'', JStr ''ok'')])"
  by (simp_all add: understood_def has_error_def status_ok_def errReply_def)

definition understood_bodies :: "reply list \<Rightarrow> bool" where
  "understood_bodies w \<longleftrightarrow> (\<exists>res. json_bodies w = [res] \<and> understood res)"

lemma understood_bodiesI:
  assumes "getTeamFromRequest ev am r = (x, w)"
  shows "understood_bodies (w @ [replyJsonRequestErr e])" and "understood_bodies (w @ [replyOk])"
  using session_bodies [OF assms] by (simp_all add: understood_bodies_def understood_replies)

lemma answered_bodies:
  assumes "getTeamFromRequest ev am r = (Inr t, w0)"
    and "(case res of (Some e, t) \<Rightarrow> Ret (w0 @ [replyJsonRequestErr e], f t)
          | (None, t) \<Rightarrow> Ret (w0 @ [replyOk], g t)) = Ret (w, am')"
  shows "understood_bodies w"
  using assms(2) understood_bodiesI [OF assms(1)] by (auto split: prod.splits option.splits)

lemma reset_understood:
  assumes "handleResetChallenge ev tg hook am r = Ret (w, am')"
  shows "understood_bodies w"
proof (cases "getTeamFromRequest ev am r")
  case (Pair x w0)
  note bodies = understood_bodiesI [OF Pair]
  show ?thesis
  proof (cases x)
    case (Inl e)
    with assms Pair bodies show ?thesis by (auto simp: handleResetChallenge_def)
  next
    case (Inr t)
    note got = Pair [unfolded Inr]
    show ?thesis
    proof (cases "safeReadJson ev am r decode_tag")
      case (Inl e)
      with assms got bodies show ?thesis by (auto simp: handleResetChallenge_def)
    next
      case (Inr tag)
      with assms got obtain p where p: "getParentChallengeTag tag = Ret p"
        by (auto simp: handleResetChallenge_def go_bind_Ret)
      show ?thesis
      proof (cases "isLabAssigned t")
        case True
        with assms got Inr p show ?thesis
          by (intro answered_bodies [OF got, where res = "hook t p"]) (simp add: handleResetChallenge_def)
      qed (use assms got Inr p bodies in \<open>auto simp: handleResetChallenge_def\<close>)
    qed
  qed
qed

lemma run_understood:
  assumes "handleStartStopChallenge ev tg hook am r = Ret (w, am')"
  shows "understood_bodies w"
proof (cases "getTeamFromRequest ev am r")
  case (Pair x w0)
  note bodies = understood_bodiesI [OF Pair]
  show ?thesis
  proof (cases x)
    case (Inl e)
    with assms Pair bodies show ?thesis by (auto simp: handleStartStopChallenge_def)
  next
    case (Inr t)
    note got = Pair [unfolded Inr]
    show ?thesis
    proof (cases "safeReadJson ev am r decode_tag")
      case (Inl e)
      with assms got bodies show ?thesis by (auto simp: handleStartStopChallenge_def)
    next
      case (Inr tag)
      with assms got obtain p where p: "getParentChallengeTag tag = Ret p"
        by (auto simp: handleStartStopChallenge_def go_bind_Ret)
      show ?thesis
      proof (cases "isLabAssigned t")
        case True
        obtain s u where m: "ManageDisabledChals p t = (s, u)" by (cases "ManageDisabledChals p t")
        from True assms got Inr p m show ?thesis
          by (intro answered_bodies [OF got, where res = "hook u p s"]) (simp add: handleStartStopChallenge_def)
      qed (use assms got Inr p bodies in \<open>auto simp: handleStartStopChallenge_def\<close>)
    qed
  qed
qed

lemma frontend_understood:
  assumes "handleResetFrontend ev hook am r = Ret (w, am')"
  shows "understood_bodies w"
proof (cases "getTeamFromRequest ev am r")
  case (Pair x w0)
  show ?thesis
  proof (cases x)
    case (Inl e)
    with assms Pair understood_bodiesI [OF Pair] show ?thesis by (auto simp: handleResetFrontend_def)
  next
    case (Inr t)
    with assms Pair show ?thesis
      by (intro answered_bodies [where ?w0.0 = w0 and res = "hook t"]) (simp_all add: handleResetFrontend_def)
  qed
qed

lemma json_post_handled:
  "rq_method r = ''POST'' \<Longrightarrow> rq_content_type r = ''application/json'' \<Longrightarrow> json_post h am r = h am r"
  by (simp add: json_post_def POSTEndpoint_def JSONEndpoint_def)

text \<open>
  C10. A request of one of the page's buttons (reset, start or stop, reset the machine) that the
  server answers at all is answered with exactly one JSON value, and that value enables the
  button again, logged in or not and whatever the body of the request was.
\<close>
theorem buttons_answered:
  assumes "rq_method r = ''POST''" and "rq_content_type r = ''application/json''"
    and "h \<in> {handleResetChallenge ev tg rhook, handleStartStopChallenge ev tg shook, handleResetFrontend ev fhook}"
    and "json_post h am r = Ret (w, am')"
  shows "\<exists>res. json_bodies w = [res] \<and> \<not> isDisabled (fst (snd (button_response res b))) \<and>
     \<not> rf_disabled (fst (snd (frontend_response True res f)))"
proof -
  have "h am r = Ret (w, am')" using assms(4) by (simp add: json_post_handled [OF assms(1,2)])
  with assms(3) have "understood_bodies w"
    using reset_understood run_understood frontend_understood by auto
  then obtain res where "json_bodies w = [res]" and u: "understood res" by (auto simp: understood_bodies_def)
  moreover have "\<not> rf_disabled (fst (snd (frontend_response True res f)))"
    using u by (cases "js_prop ''error'' res") (simp_all add: understood_def has_error_def frontend_response_def)
  ultimately show ?thesis using button_response_understood [OF u] by auto
qed

theorem buttons_answered_witness:
  "\<exists>w am' res. json_post (handleResetFrontend sample_env (\<lambda>t. (Some ''busy'', t))) sample_am (user_request []) = Ret (w, am') \<and>
     json_bodies w = [res] \<and> \<not> isDisabled (fst (snd (button_response res (button_init\<lparr>isDisabled := True\<rparr>))))"
proof -
  let ?h = "handleResetFrontend sample_env (\<lambda>t. (Some ''busy'', t))" and ?r = "user_request []"
  have p: "rq_method ?r = ''POST''" "rq_content_type ?r = ''application/json''" by (simp_all add: user_request_def)
  have "json_post ?h sample_am ?r = Ret ([replyJsonRequestErr ''busy''], save_team member sample_am)"
    by (simp add: json_post_handled [OF p] handleResetFrontend_def sample_session)
  moreover have "?h \<in> {handleResetChallenge sample_env [] (\<lambda>t p. (None, t)),
      handleStartStopChallenge sample_env [] (\<lambda>t p b. (None, t)), ?h}" by simp
  ultimately show ?thesis
    using buttons_answered [OF p, where h = ?h and ev = sample_env and tg = "[]" and rhook = "\<lambda>t p. (None, t)"
        and shook = "\<lambda>t p b. (None, t)" and fhook = "\<lambda>t. (Some ''busy'', t)"]
    by blast
qed

end
